(* ===== verification/Encoding.thy ===== *)
theory Encoding
  imports Prelude
begin

section \<open>Canonical encoding and decoding (usdd-core/src/encoding.rs)\<close>

text \<open>
  The decoder keeps the whole input and a cursor, as \<open>struct Decoder\<close> does; a decoding
  step returns the value together with the advanced decoder. After an error the code
  abandons the decoder, so an error carries no decoder. An encoder is modelled by the bytes
  its \<open>encode_to\<close> appends; where \<open>encode_to\<close> panics (a length that does not fit its
  prefix) the result is \<open>None\<close>.

  The locale \<open>codec\<close> is the contract of the pair of traits \<open>CanonicalEncode\<close> and
  \<open>CanonicalDecode\<close>: a decoder succeeds exactly when the unread input starts with the
  encoding of a valid value, and it then consumes exactly that encoding. Everything the
  record types promise to their callers (round trip, canonicity, prefix-freeness, rejection
  of trailing bytes) is proved once inside the locale.
\<close>

named_theorems reads_enc \<open>reading an encoding is a successful decoding step\<close>

datatype decode_error =
    UnexpectedEof nat nat
  | TrailingBytes nat
  | InvalidTag string u64
  | InvalidLength nat nat
  | LengthOverflow
  | InvalidValue string

record decoder =
  dec_bytes :: bytes
  dec_cursor :: nat

type_synonym 'a decode_fn = "decoder \<Rightarrow> decode_error + 'a \<times> decoder"

subsection \<open>struct Decoder\<close>

definition decoder_new :: "bytes \<Rightarrow> decoder" where
  "decoder_new bs = \<lparr>dec_bytes = bs, dec_cursor = 0\<rparr>"

definition remaining :: "decoder \<Rightarrow> nat" where
  "remaining d = length (dec_bytes d) - dec_cursor d"

definition dec_take :: "nat \<Rightarrow> bytes decode_fn" where
  "dec_take len d =
     (if remaining d < len then Inl (UnexpectedEof len (remaining d))
      else let start = dec_cursor d; d' = d\<lparr>dec_cursor := dec_cursor d + len\<rparr>
           in Inr (take len (drop start (dec_bytes d)), d'))"

definition dec_u8 :: "u8 decode_fn" where
  "dec_u8 d = and_then (dec_take 1 d) (\<lambda>(bs, d). Inr (bs ! 0, d))"

definition dec_u16 :: "u16 decode_fn" where
  "dec_u16 d = and_then (dec_take 2 d) (\<lambda>(bs, d). Inr (from_be_bytes bs, d))"

definition dec_u32 :: "u32 decode_fn" where
  "dec_u32 d = and_then (dec_take 4 d) (\<lambda>(bs, d). Inr (from_be_bytes bs, d))"

definition dec_u64 :: "u64 decode_fn" where
  "dec_u64 d = and_then (dec_take 8 d) (\<lambda>(bs, d). Inr (from_be_bytes bs, d))"

definition dec_fixed :: "nat \<Rightarrow> bytes decode_fn" where
  "dec_fixed n d = dec_take n d"

definition dec_vec :: "bytes decode_fn" where
  "dec_vec d = and_then (dec_u32 d) (\<lambda>(len, d). dec_take (unat len) d)"

definition decode_exact :: "'a decode_fn \<Rightarrow> bytes \<Rightarrow> decode_error + 'a" where
  "decode_exact decode_from bs =
     and_then (decode_from (decoder_new bs)) (\<lambda>(v, d).
       if remaining d \<noteq> 0 then Inl (TrailingBytes (remaining d)) else Inr v)"

text \<open>\<open>for _ in 0..count { items.push(T::decode_from(decoder)?) }\<close>\<close>

fun decode_n :: "'a decode_fn \<Rightarrow> nat \<Rightarrow> 'a list decode_fn" where
  "decode_n decode_from 0 d = Inr ([], d)"
| "decode_n decode_from (Suc n) d =
     and_then (decode_from d) (\<lambda>(v, d).
     and_then (decode_n decode_from n d) (\<lambda>(vs, d). Inr (v # vs, d)))"

subsection \<open>Encoders of the primitive types\<close>

definition enc_u8 :: "u8 \<Rightarrow> bytes" where
  "enc_u8 b = [b]"

definition enc_u16 :: "u16 \<Rightarrow> bytes" where
  "enc_u16 w = to_be_bytes 2 w"

definition enc_u32 :: "u32 \<Rightarrow> bytes" where
  "enc_u32 w = to_be_bytes 4 w"

definition enc_u64 :: "u64 \<Rightarrow> bytes" where
  "enc_u64 w = to_be_bytes 8 w"

definition enc_vec :: "bytes \<Rightarrow> bytes option" where
  "enc_vec bs =
     (if length bs < 2 ^ 32 then Some (enc_u32 (of_nat (length bs)) @ bs) else None)"

definition enc_option :: "('a \<Rightarrow> bytes option) \<Rightarrow> 'a option \<Rightarrow> bytes option" where
  "enc_option encode v =
     (case v of None \<Rightarrow> Some (enc_u8 0)
      | Some x \<Rightarrow> map_option (\<lambda>bs. enc_u8 1 @ bs) (encode x))"

definition dec_option :: "'a decode_fn \<Rightarrow> 'a option decode_fn" where
  "dec_option decode_from d =
     and_then (dec_u8 d) (\<lambda>(tag, d).
       if tag = 0 then Inr (None, d)
       else if tag = 1 then and_then (decode_from d) (\<lambda>(v, d). Inr (Some v, d))
       else Inl (InvalidTag ''Option'' (ucast tag)))"

text \<open>Appending field encodings one after the other; any panicking field panics the whole.\<close>

fun enc_seq :: "bytes option list \<Rightarrow> bytes option" where
  "enc_seq [] = Some []"
| "enc_seq (e # es) =
     (case e of None \<Rightarrow> None
      | Some b \<Rightarrow> (case enc_seq es of None \<Rightarrow> None | Some bs \<Rightarrow> Some (b @ bs)))"

subsection \<open>Reading a byte string off a decoder\<close>

definition rest :: "decoder \<Rightarrow> bytes" where
  "rest d = drop (dec_cursor d) (dec_bytes d)"

definition advance :: "nat \<Rightarrow> decoder \<Rightarrow> decoder" where
  "advance n d = d\<lparr>dec_cursor := dec_cursor d + n\<rparr>"

definition reads :: "decoder \<Rightarrow> bytes \<Rightarrow> decoder \<Rightarrow> bool" where
  "reads d bs d' \<longleftrightarrow> prefix bs (rest d) \<and> d' = advance (length bs) d"

text \<open>The same for an encoding that may be missing because the encoder panicked.\<close>

definition reads_opt :: "decoder \<Rightarrow> bytes option \<Rightarrow> decoder \<Rightarrow> bool" where
  "reads_opt d e d' \<longleftrightarrow> (\<exists>bs. e = Some bs \<and> reads d bs d')"

lemma reads_opt_simps [simp]:
  "reads_opt d None d' = False" "reads_opt d (Some bs) d' = reads d bs d'"
  by (simp_all add: reads_opt_def)

lemma remaining_rest: "remaining d = length (rest d)"
  by (simp add: remaining_def rest_def)

lemma rest_advance [simp]: "rest (advance n d) = drop n (rest d)"
  by (simp add: rest_def advance_def add.commute)

lemma advance_advance [simp]: "advance m (advance n d) = advance (n + m) d"
  by (simp add: advance_def add.assoc)

lemma advance_0 [simp]: "advance 0 d = d"
  by (simp add: advance_def)

lemma rest_decoder_new [simp]: "rest (decoder_new bs) = bs"
  by (simp add: rest_def decoder_new_def)

lemma prefix_append_drop:
  "prefix (xs @ ys) zs \<longleftrightarrow> prefix xs zs \<and> prefix ys (drop (length xs) zs)"
  by (auto simp: prefix_def)

lemma reads_append:
  "reads d (xs @ ys) d' \<longleftrightarrow> (\<exists>d1. reads d xs d1 \<and> reads d1 ys d')"
  by (auto simp: reads_def prefix_append_drop)

lemma reads_Nil [simp]: "reads d [] d' \<longleftrightarrow> d' = d"
  by (simp add: reads_def)

lemma reads_Cons:
  "reads d (x # ys) d' \<longleftrightarrow> (\<exists>d1. reads d [x] d1 \<and> reads d1 ys d')"
  using reads_append [of d "[x]" ys d'] by simp

lemma take_prefix_eq: "prefix bs zs \<Longrightarrow> take (length bs) zs = bs"
  by (auto simp: prefix_def)

lemma dec_take_Inr [ok_iff]:
  "dec_take n d = Inr (bs, d') \<longleftrightarrow> length bs = n \<and> reads d bs d'"
proof -
  have "dec_take n d = Inr (bs, d') \<longleftrightarrow>
      n \<le> length (rest d) \<and> bs = take n (rest d) \<and> d' = advance n d"
    by (auto simp: dec_take_def Let_def remaining_rest advance_def rest_def)
  also have "\<dots> \<longleftrightarrow> length bs = n \<and> reads d bs d'"
    by (auto simp: reads_def take_is_prefix prefix_length_le dest: take_prefix_eq)
  finally show ?thesis .
qed

lemma dec_take_Inl:
  "dec_take n d = Inl e \<longleftrightarrow>
     length (rest d) < n \<and> e = UnexpectedEof n (length (rest d))"
  by (auto simp: dec_take_def Let_def remaining_rest)

lemma enc_seq_Cons_Some:
  "enc_seq (e # es) = Some bs \<longleftrightarrow>
     (\<exists>b bs'. e = Some b \<and> enc_seq es = Some bs' \<and> bs = b @ bs')"
  by (auto split: option.splits)

lemma reads_enc_seq [reads_enc]:
  "reads_opt d (enc_seq []) d' \<longleftrightarrow> d' = d"
  "reads_opt d (enc_seq (e # es)) d' \<longleftrightarrow>
     (\<exists>d1. reads_opt d e d1 \<and> reads_opt d1 (enc_seq es) d')"
  by (auto simp: reads_opt_def reads_append split: option.splits)

lemma enc_seq_Some_map: "enc_seq (map Some bss) = Some (concat bss)"
  by (induction bss) simp_all

lemma enc_seq_not_None: "enc_seq es \<noteq> None \<longleftrightarrow> (\<forall>e \<in> set es. e \<noteq> None)"
  by (induction es) (auto split: option.splits)

declare enc_seq.simps [simp del]

subsection \<open>The contract of CanonicalEncode and CanonicalDecode\<close>

locale codec =
  fixes enc :: "'a \<Rightarrow> bytes option"
    and dec :: "decoder \<Rightarrow> decode_error + 'a \<times> decoder"
    and valid :: "'a \<Rightarrow> bool"
  assumes dec_iff:
      "dec d = Inr (v, d') \<longleftrightarrow> valid v \<and> reads_opt d (enc v) d'"
    and valid_enc: "valid v \<Longrightarrow> enc v \<noteq> None"
begin

lemma reads_iff: "valid v \<Longrightarrow> reads_opt d (enc v) d' \<longleftrightarrow> dec d = Inr (v, d')"
  by (simp add: dec_iff)

theorem decode_exact_iff: "decode_exact dec bs = Inr v \<longleftrightarrow> valid v \<and> enc v = Some bs"
  by (auto simp: decode_exact_def ok_iff dec_iff reads_opt_def reads_def remaining_rest
      prefix_def)

theorem round_trip: "valid v \<Longrightarrow> \<exists>bs. enc v = Some bs \<and> decode_exact dec bs = Inr v"
  using valid_enc [of v] by (auto simp: decode_exact_iff)

theorem enc_inject: "valid v \<Longrightarrow> valid w \<Longrightarrow> enc v = enc w \<Longrightarrow> v = w"
proof -
  assume v: "valid v" and w: "valid w" and eq: "enc v = enc w"
  from v obtain bs where "enc v = Some bs" using valid_enc by blast
  with v w eq have "decode_exact dec bs = Inr v" "decode_exact dec bs = Inr w"
    by (simp_all add: decode_exact_iff)
  then show "v = w" by simp
qed

theorem prefix_free:
  assumes "valid v" "valid w" "enc v = Some xs" "enc w = Some ys" "prefix xs ys"
  shows "v = w"
proof -
  have "dec (decoder_new ys) = Inr (v, advance (length xs) (decoder_new ys))"
    using assms by (simp add: dec_iff reads_def)
  moreover have "dec (decoder_new ys) = Inr (w, advance (length ys) (decoder_new ys))"
    using assms by (simp add: dec_iff reads_def)
  ultimately show ?thesis by simp
qed

theorem trailing_rejected:
  assumes "valid v" "enc v = Some bs" "ys \<noteq> []"
  shows "decode_exact dec (bs @ ys) = Inl (TrailingBytes (length ys))"
proof -
  have "dec (decoder_new (bs @ ys)) = Inr (v, advance (length bs) (decoder_new (bs @ ys)))"
    using assms by (simp add: dec_iff reads_def)
  then show ?thesis using assms(3) by (simp add: decode_exact_def remaining_rest)
qed

lemma decode_n_iff:
  "decode_n dec n d = Inr (vs, d') \<longleftrightarrow>
     length vs = n \<and> (\<forall>v \<in> set vs. valid v)
     \<and> reads_opt d (enc_seq (map enc vs)) d'"
proof (induction n arbitrary: d vs)
  case 0
  then show ?case by (auto simp: reads_enc)
next
  case (Suc n)
  show ?case
  proof (cases vs)
    case Nil
    then show ?thesis by (simp add: ok_iff split_beta)
  next
    case (Cons w ws)
    have "decode_n dec (Suc n) d = Inr (vs, d') \<longleftrightarrow>
        (\<exists>d1. dec d = Inr (w, d1) \<and> decode_n dec n d1 = Inr (ws, d'))"
      unfolding Cons by (auto simp: ok_iff split_beta)
    also have "\<dots> \<longleftrightarrow> length vs = Suc n \<and> (\<forall>v \<in> set vs. valid v)
        \<and> reads_opt d (enc_seq (map enc vs)) d'"
      unfolding Suc.IH dec_iff Cons list.map reads_enc_seq by auto
    finally show ?thesis .
  qed
qed

lemma enc_seq_valid: "\<forall>v \<in> set vs. valid v \<Longrightarrow> enc_seq (map enc vs) \<noteq> None"
  unfolding enc_seq_not_None using valid_enc by simp

end

subsection \<open>The primitive types meet the contract\<close>

lemma codec_word:
  assumes "LENGTH('a::len) = 8 * n"
  shows "codec (\<lambda>w :: 'a word. Some (to_be_bytes n w))
    (\<lambda>d. and_then (dec_take n d) (\<lambda>(bs, d). Inr (from_be_bytes bs, d))) (\<lambda>_. True)"
proof
  fix d and v :: "'a word" and d'
  show "and_then (dec_take n d) (\<lambda>(bs, d). Inr (from_be_bytes bs, d)) = Inr (v, d') \<longleftrightarrow>
      True \<and> reads_opt d (Some (to_be_bytes n v)) d'"
    using from_to_be_bytes [OF assms] to_from_be_bytes [OF assms]
    by (auto simp: ok_iff split_beta) (metis length_to_be_bytes)
qed simp

lemma to_be_bytes_1: "to_be_bytes 1 (b :: u8) = [b]"
proof -
  have "unat b mod 256 = unat b" using unat_bound [of b] by simp
  then show ?thesis by (simp add: to_be_bytes_def)
qed

interpretation codec_u8: codec "\<lambda>b. Some (enc_u8 b)" dec_u8 "\<lambda>_. True"
proof
  fix d v d'
  show "dec_u8 d = Inr (v, d') \<longleftrightarrow> True \<and> reads_opt d (Some (enc_u8 v)) d'"
    by (auto simp: dec_u8_def enc_u8_def ok_iff split_beta length_Suc_conv)
qed simp

interpretation codec_u16: codec "\<lambda>w. Some (enc_u16 w)" dec_u16 "\<lambda>_. True"
  unfolding enc_u16_def [abs_def] dec_u16_def [abs_def] by (rule codec_word) simp

interpretation codec_u32: codec "\<lambda>w. Some (enc_u32 w)" dec_u32 "\<lambda>_. True"
  unfolding enc_u32_def [abs_def] dec_u32_def [abs_def] by (rule codec_word) simp

interpretation codec_u64: codec "\<lambda>w. Some (enc_u64 w)" dec_u64 "\<lambda>_. True"
  unfolding enc_u64_def [abs_def] dec_u64_def [abs_def] by (rule codec_word) simp

interpretation codec_fixed: codec Some "dec_fixed n" "\<lambda>bs. length bs = n" for n
  by unfold_locales (auto simp: dec_fixed_def ok_iff)

lemma length_enc_int [simp]:
  "length (enc_u8 a) = 1" "length (enc_u16 b) = 2" "length (enc_u32 c) = 4"
  "length (enc_u64 e) = 8"
  by (simp_all add: enc_u8_def enc_u16_def enc_u32_def enc_u64_def)

lemma unat_of_nat_u32: "n < 2 ^ 32 \<Longrightarrow> unat (of_nat n :: u32) = n"
  by (simp add: unat_of_nat)

interpretation codec_vec: codec enc_vec dec_vec "\<lambda>bs. length bs < 2 ^ 32"
proof
  fix d v d'
  show "dec_vec d = Inr (v, d') \<longleftrightarrow>
      length v < 2 ^ 32 \<and> reads_opt d (enc_vec v) d'"
  proof
    assume "dec_vec d = Inr (v, d')"
    then obtain len d1 where len: "reads d (enc_u32 len) d1" and v: "length v = unat len" "reads d1 v d'"
      by (auto simp: dec_vec_def ok_iff codec_u32.dec_iff)
    have "length v < 2 ^ 32" using v(1) unat_bound [of len] by simp
    moreover have "of_nat (length v) = len" by (simp add: v(1))
    ultimately show "length v < 2 ^ 32 \<and> reads_opt d (enc_vec v) d'"
      using len v(2) by (auto simp: enc_vec_def reads_append)
  next
    assume "length v < 2 ^ 32 \<and> reads_opt d (enc_vec v) d'"
    then obtain d1 where v: "length v < 2 ^ 32"
      and "reads d (enc_u32 (of_nat (length v))) d1" "reads d1 v d'"
      by (auto simp: enc_vec_def reads_append)
    then have "dec_u32 d = Inr (of_nat (length v), d1)" "dec_take (length v) d1 = Inr (v, d')"
      by (auto simp: ok_iff codec_u32.dec_iff)
    with v show "dec_vec d = Inr (v, d')"
      by (simp add: dec_vec_def unat_of_nat_u32)
  qed
qed (simp add: enc_vec_def)

text \<open>
  The readers of the primitive types, as rewrite rules for the record types: from a decoder
  to the bytes it reads, and back.
\<close>

lemmas dec_prim_iff =
  codec_u8.dec_iff codec_u16.dec_iff codec_u32.dec_iff codec_u64.dec_iff
  codec_fixed.dec_iff codec_vec.dec_iff

lemma reads_prim [reads_enc]:
  "reads d (enc_u8 a) d' \<longleftrightarrow> dec_u8 d = Inr (a, d')"
  "reads d (enc_u16 b) d' \<longleftrightarrow> dec_u16 d = Inr (b, d')"
  "reads d (enc_u32 c) d' \<longleftrightarrow> dec_u32 d = Inr (c, d')"
  "reads d (enc_u64 e) d' \<longleftrightarrow> dec_u64 d = Inr (e, d')"
  by (simp_all add: dec_prim_iff)

lemma reads_vec [reads_enc]: "reads_opt d (enc_vec v) d' \<longleftrightarrow> dec_vec d = Inr (v, d')"
  by (auto simp: codec_vec.dec_iff reads_opt_def enc_vec_def split: if_splits)

lemma codec_option:
  assumes "codec enc dec valid"
  shows "codec (enc_option enc) (dec_option dec) (\<lambda>v. \<forall>x. v = Some x \<longrightarrow> valid x)"
proof
  fix d v d'
  have tags: "dec_option dec d = Inr (v, d') \<longleftrightarrow>
      (case v of None \<Rightarrow> dec_u8 d = Inr (0, d')
       | Some x \<Rightarrow> \<exists>d1. dec_u8 d = Inr (1, d1) \<and> dec d1 = Inr (x, d'))"
  proof (cases "dec_u8 d")
    case (Inr r)
    then show ?thesis
      by (cases r; cases v) (auto simp: dec_option_def ok_iff)
  qed (simp add: dec_option_def split: option.split)
  show "dec_option dec d = Inr (v, d') \<longleftrightarrow> (\<forall>x. v = Some x \<longrightarrow> valid x) \<and>
      reads_opt d (enc_option enc v) d'"
    unfolding tags codec.dec_iff [OF assms] dec_prim_iff
    by (cases v) (auto simp: enc_option_def reads_opt_def reads_append)
next
  fix v
  assume "\<forall>x. v = Some x \<longrightarrow> valid x"
  then show "enc_option enc v \<noteq> None"
    using codec.valid_enc [OF assms] by (cases v) (auto simp: enc_option_def)
qed

end
