(* ===== verification/Hashing.thy ===== *)
theory Hashing
  imports Encoding
begin

section \<open>Hashes, hexadecimal text and domain separation (usdd-core/src/hash.rs)\<close>

text \<open>
  \<open>Hash32\<close> is the 256-bit word of its big-endian bytes. SHA-256 is a parameter
  \<open>H :: bytes \<Rightarrow> hash32\<close> of every definition that hashes. The text type \<open>&str\<close> is the list
  of its UTF-8 bytes. The preimage that \<open>domain_hash\<close> feeds to the hasher is a definition of
  its own, so that the claim of the doc comment (a typed payload is hashed without ambiguous
  concatenation) is a theorem about it: the preimage determines the domain and the payload.
\<close>

unbundle bit_operations_syntax

definition ENCODING_SCHEMA :: u16 where
  "ENCODING_SCHEMA = 2"

definition ascii :: "string \<Rightarrow> bytes" where
  "ascii s = map of_char s"

subsection \<open>struct Hash32 and Ethereum addresses\<close>

definition enc_hash32 :: "hash32 \<Rightarrow> bytes" where
  "enc_hash32 h = to_be_bytes 32 h"

definition dec_hash32 :: "hash32 decode_fn" where
  "dec_hash32 d = and_then (dec_fixed 32 d) (\<lambda>(bs, d). Inr (from_be_bytes bs, d))"

definition enc_address :: "eth_address \<Rightarrow> bytes" where
  "enc_address a = to_be_bytes 20 a"

definition dec_address :: "eth_address decode_fn" where
  "dec_address d = and_then (dec_fixed 20 d) (\<lambda>(bs, d). Inr (from_be_bytes bs, d))"

subsection \<open>Hexadecimal text\<close>

datatype hex_error =
    OddLength
  | InvalidDigit nat
  | WrongLength nat nat

definition hex_digit :: "u8 \<Rightarrow> u8 option" where
  "hex_digit v =
     (if 48 \<le> v \<and> v \<le> 57 then Some (v - 48)
      else if 97 \<le> v \<and> v \<le> 102 then Some (v - 97 + 10)
      else if 65 \<le> v \<and> v \<le> 70 then Some (v - 65 + 10)
      else None)"

text \<open>The loop over \<open>chunks_exact(2).enumerate()\<close>; \<open>i\<close> is the number of the chunk.\<close>

fun decode_hex_pairs :: "nat \<Rightarrow> bytes \<Rightarrow> hex_error + bytes" where
  "decode_hex_pairs i (a # b # bs) =
     and_then (ok_or (hex_digit a) (InvalidDigit (i * 2))) (\<lambda>high.
     and_then (ok_or (hex_digit b) (InvalidDigit (i * 2 + 1))) (\<lambda>low.
     and_then (decode_hex_pairs (i + 1) bs) (\<lambda>output.
       Inr ((push_bit 4 high OR low) # output))))"
| "decode_hex_pairs i _ = Inr []"

definition strip_0x :: "bytes \<Rightarrow> bytes" where
  "strip_0x s = (if take 2 s = ascii ''0x'' then drop 2 s else s)"

definition decode_hex :: "bytes \<Rightarrow> hex_error + bytes" where
  "decode_hex s =
     (let s = strip_0x s
      in if length s mod 2 \<noteq> 0 then Inl OddLength else decode_hex_pairs 0 s)"

definition HEX :: bytes where
  "HEX = ascii ''0123456789abcdef''"

fun encode_hex :: "bytes \<Rightarrow> bytes" where
  "encode_hex [] = []"
| "encode_hex (b # bs) =
     HEX ! unat (drop_bit 4 b) # HEX ! unat (b AND 15) # encode_hex bs"

definition hash32_to_hex :: "hash32 \<Rightarrow> bytes" where
  "hash32_to_hex h = encode_hex (enc_hash32 h)"

definition hash32_from_str :: "bytes \<Rightarrow> hex_error + hash32" where
  "hash32_from_str s =
     and_then (decode_hex s) (\<lambda>bs.
       if length bs \<noteq> 32 then Inl (WrongLength 32 (length bs))
       else Inr (from_be_bytes bs))"

subsection \<open>Domain separation\<close>

datatype domain =
    MerkleLeaf
  | MerkleEmptyLeaf
  | MerkleNode
  | Manifest
  | ControllerConfig
  | OutboundVerifierConfig
  | EthereumStateClaim
  | ElementsEventClaim
  | DepositPublicOutput

fun domain_str :: "domain \<Rightarrow> string" where
  "domain_str MerkleLeaf = ''USDD/1/merkle-leaf''"
| "domain_str MerkleEmptyLeaf = ''USDD/1/merkle-empty-leaf''"
| "domain_str MerkleNode = ''USDD/1/merkle-node''"
| "domain_str Manifest = ''USDD/1/manifest''"
| "domain_str ControllerConfig = ''USDD/1/controller-config''"
| "domain_str OutboundVerifierConfig = ''USDD/1/outbound-verifier-config''"
| "domain_str EthereumStateClaim = ''USDD/1/claim/ethereum-state''"
| "domain_str ElementsEventClaim = ''USDD/1/claim/elements-event''"
| "domain_str DepositPublicOutput = ''USDD/1/public/deposit''"

definition DOMAIN_SEPARATOR_TABLE_V1 :: string where
  "DOMAIN_SEPARATOR_TABLE_V1 =
     concat (map (\<lambda>line. line @ [CHR 0x0A])
       [''USDD/1/merkle-leaf'', ''USDD/1/merkle-empty-leaf'', ''USDD/1/merkle-node'',
        ''USDD/1/manifest'', ''USDD/1/controller-config'',
        ''USDD/1/outbound-verifier-config'', ''USDD/1/claim/ethereum-state'',
        ''USDD/1/claim/elements-event'', ''USDD/1/public/deposit'',
        ''keccak256:USDD_VAULT_ID_V1'', ''keccak256:USDD_DEPOSIT_ID_V1'',
        ''keccak256:USDD_ELEMENTS_STATE_V1'', ''keccak256:USDD_ELEMENTS_STATEMENT_V1'',
        ''keccak256:USDD_BURN_LEAF_V1'', ''sha256:USDD_BURN_ID_V1''])"

definition hash_bytes :: "(bytes \<Rightarrow> hash32) \<Rightarrow> bytes \<Rightarrow> hash32" where
  "hash_bytes H bs = H bs"

definition domain_separator_table_hash :: "(bytes \<Rightarrow> hash32) \<Rightarrow> hash32" where
  "domain_separator_table_hash H = hash_bytes H (ascii DOMAIN_SEPARATOR_TABLE_V1)"

definition domain_preimage :: "domain \<Rightarrow> bytes \<Rightarrow> bytes" where
  "domain_preimage tag payload =
     (let domain_bytes = ascii (domain_str tag)
      in ascii ''USDD'' @ enc_u16 ENCODING_SCHEMA
         @ enc_u16 (of_nat (length domain_bytes)) @ domain_bytes
         @ enc_u32 (of_nat (length payload)) @ payload)"

text \<open>
  The digest of a payload whose length fits the \<open>u32\<close> prefix, and \<open>domain_hash\<close> itself,
  which panics on a longer one.
\<close>

definition domain_digest :: "(bytes \<Rightarrow> hash32) \<Rightarrow> domain \<Rightarrow> bytes \<Rightarrow> hash32" where
  "domain_digest H tag payload = H (domain_preimage tag payload)"

definition domain_hash :: "(bytes \<Rightarrow> hash32) \<Rightarrow> domain \<Rightarrow> bytes \<Rightarrow> hash32 option" where
  "domain_hash H tag payload =
     (if length payload < 2 ^ 32 then Some (domain_digest H tag payload) else None)"

subsection \<open>Codecs of hashes and addresses\<close>

interpretation codec_hash32: codec "\<lambda>h. Some (enc_hash32 h)" dec_hash32 "\<lambda>_. True"
  unfolding enc_hash32_def [abs_def] dec_hash32_def [abs_def] dec_fixed_def [abs_def]
  by (rule codec_word) simp

interpretation codec_address: codec "\<lambda>a. Some (enc_address a)" dec_address "\<lambda>_. True"
  unfolding enc_address_def [abs_def] dec_address_def [abs_def] dec_fixed_def [abs_def]
  by (rule codec_word) simp

lemmas dec_base_iff = dec_prim_iff codec_hash32.dec_iff codec_address.dec_iff

lemma reads_hash32 [reads_enc]:
  "reads d (enc_hash32 h) d' \<longleftrightarrow> dec_hash32 d = Inr (h, d')"
  "reads d (enc_address a) d' \<longleftrightarrow> dec_address d = Inr (a, d')"
  by (simp_all add: codec_hash32.dec_iff codec_address.dec_iff)

lemma length_enc_hash32 [simp]: "length (enc_hash32 h) = 32" "length (enc_address a) = 20"
  by (simp_all add: enc_hash32_def enc_address_def)

lemma enc_hash32_inject [simp]: "enc_hash32 h = enc_hash32 h' \<longleftrightarrow> h = h'"
  unfolding enc_hash32_def by (rule to_be_bytes_inject) simp

lemma enc_address_inject [simp]: "enc_address a = enc_address b \<longleftrightarrow> a = b"
  unfolding enc_address_def by (rule to_be_bytes_inject) simp

lemma enc_int_inject [simp]:
  "enc_u8 a = enc_u8 a' \<longleftrightarrow> a = a'"
  "enc_u16 b = enc_u16 b' \<longleftrightarrow> b = b'"
  "enc_u32 c = enc_u32 c' \<longleftrightarrow> c = c'"
  "enc_u64 e = enc_u64 e' \<longleftrightarrow> e = e'"
  by (simp_all add: enc_u8_def enc_u16_def enc_u32_def enc_u64_def to_be_bytes_inject)

subsection \<open>Hexadecimal round trip\<close>

lemma ascii_simps [simp]:
  "ascii [] = []" "ascii (c # cs) = of_char c # ascii cs" "length (ascii s) = length s"
  by (simp_all add: ascii_def)

lemma HEX_nth:
  assumes "n < 16"
  shows "hex_digit (HEX ! n) = Some (of_nat n)" "HEX ! n \<noteq> 120"
proof -
  have "\<forall>n \<in> set [0..<16]. hex_digit (HEX ! n) = Some (of_nat n) \<and> HEX ! n \<noteq> 120"
    by code_simp
  with assms show "hex_digit (HEX ! n) = Some (of_nat n)" "HEX ! n \<noteq> 120" by simp_all
qed

lemma nibbles:
  "unat (drop_bit 4 (b :: u8)) < 16" "unat (b AND 15) < 16"
  "push_bit 4 (drop_bit 4 b) OR (b AND 15) = b"
proof -
  have "unat b < 256" using unat_bound [of b] by simp
  then show "unat (drop_bit 4 b) < 16"
    by (simp only: unat_drop_bit_eq) (simp add: drop_bit_eq_div)
  have "b AND 15 = take_bit 4 b" by (simp add: take_bit_eq_mask mask_eq_exp_minus_1)
  have "b AND 15 \<le> 15" by (rule word_and_le1)
  then have "unat (b AND 15) \<le> unat (15 :: u8)" by (simp only: word_le_nat_alt)
  then show "unat (b AND 15) < 16" by simp
  show "push_bit 4 (drop_bit 4 b) OR (b AND 15) = b"
    unfolding \<open>b AND 15 = take_bit 4 b\<close>
    by (rule bit_word_eqI) (auto simp: bit_simps)
qed

lemma decode_hex_pairs_encode: "decode_hex_pairs i (encode_hex bs) = Inr bs"
  by (induction bs arbitrary: i) (simp_all add: HEX_nth nibbles)

lemma even_encode_hex: "length (encode_hex bs) = 2 * length bs"
  by (induction bs) simp_all

lemma strip_0x_encode: "strip_0x (encode_hex bs) = encode_hex bs"
  by (cases bs) (auto simp: strip_0x_def HEX_nth nibbles)

lemma decode_encode_hex:
  "decode_hex (encode_hex bs) = Inr bs" "decode_hex (ascii ''0x'' @ encode_hex bs) = Inr bs"
proof -
  show "decode_hex (encode_hex bs) = Inr bs"
    by (simp add: decode_hex_def strip_0x_encode even_encode_hex decode_hex_pairs_encode)
  have "strip_0x (ascii ''0x'' @ encode_hex bs) = encode_hex bs"
    by (simp add: strip_0x_def)
  then show "decode_hex (ascii ''0x'' @ encode_hex bs) = Inr bs"
    by (simp add: decode_hex_def even_encode_hex decode_hex_pairs_encode)
qed

lemma decode_hex_pairs_length:
  "decode_hex_pairs i s = Inr bs \<Longrightarrow> even (length s) \<Longrightarrow> length s = 2 * length bs"
  by (induction i s arbitrary: bs rule: decode_hex_pairs.induct) (auto simp: ok_iff)

lemma decode_hex_pairs_digits:
  "even (length s) \<Longrightarrow>
   is_ok (decode_hex_pairs i s) \<longleftrightarrow> (\<forall>c \<in> set s. hex_digit c \<noteq> None)"
proof (induction i s rule: decode_hex_pairs.induct)
  case (1 i a b bs)
  then show ?case
    by (cases "hex_digit a"; cases "hex_digit b"; cases "decode_hex_pairs (i + 1) bs") auto
qed auto

subsection \<open>The hashed preimage determines domain and payload\<close>

lemma of_char_u8_inject [simp]: "of_char c = (of_char c' :: u8) \<longleftrightarrow> c = c'"
proof
  assume "of_char c = (of_char c' :: u8)"
  then have "unat (of_char c :: u8) = unat (of_char c' :: u8)" by simp
  moreover have "unat (of_char x :: u8) = of_char x" for x :: char
  proof -
    have "(of_char x :: u8) = of_nat (of_char x)"
      by (rule of_nat_of_char [symmetric])
    moreover have "(of_char x :: nat) < 256" by (rule nat_of_char_less_256)
    ultimately show ?thesis by (simp add: unat_of_nat)
  qed
  ultimately show "c = c'" by simp
qed simp

lemma ascii_inject [simp]: "ascii s = ascii t \<longleftrightarrow> s = t"
  unfolding ascii_def by (rule inj_map_eq_map) (simp add: inj_def)

lemma domain_str_inject: "domain_str a = domain_str b \<longleftrightarrow> a = b"
  by (cases a; cases b) simp_all

lemma domain_str_length: "length (domain_str a) < 32"
  by (cases a) simp_all

lemma unat_of_nat_u16: "n < 2 ^ 16 \<Longrightarrow> unat (of_nat n :: u16) = n"
  by (simp add: unat_of_nat)

lemma domain_preimage_inject:
  "domain_preimage a p = domain_preimage b q \<longleftrightarrow> a = b \<and> p = q"
proof
  assume eq: "domain_preimage a p = domain_preimage b q"
  have len: "unat (of_nat (length (domain_str x)) :: u16) = length (domain_str x)" for x
    using domain_str_length [of x] by (intro unat_of_nat_u16) simp
  from eq have "(of_nat (length (domain_str a)) :: u16) = of_nat (length (domain_str b))"
    by (simp add: domain_preimage_def Let_def)
  then have "length (domain_str a) = length (domain_str b)"
    using len by metis
  with eq show "a = b \<and> p = q"
    by (simp add: domain_preimage_def Let_def domain_str_inject)
qed simp

lemma domain_preimage_not_short: "length (domain_preimage a p) \<ge> 12"
  by (simp add: domain_preimage_def Let_def)

subsection \<open>Properties\<close>

text \<open>
  Domain separation. The bytes hashed by \<open>domain_hash\<close> determine both the domain and the
  payload: two domains never share a preimage, and neither do two payloads of one domain.
\<close>

theorem domain_separation:
  "domain_preimage a p = domain_preimage b q \<longleftrightarrow> a = b \<and> p = q"
  by (rule domain_preimage_inject)

text \<open>
  The constant hash function: the only preimage sets on which it is injective are singletons.
  The witnesses of the properties that assume a collision-free set of preimages use it.
\<close>

definition toy_hash :: "bytes \<Rightarrow> hash32" where
  "toy_hash bs = 1"

lemma toy_hash_simps [simp]: "toy_hash bs = 1" "hash_bytes toy_hash bs = 1"
  by (simp_all add: toy_hash_def hash_bytes_def)

end
