(* ===== verification/Hash_Paths.thy ===== *)
theory Hash_Paths
  imports Hashing
begin

section \<open>Authentication paths over a two-to-one hash\<close>

text \<open>
  What the ordered Merkle tree (\<open>merkle.rs\<close>) and the burn accumulator
  (\<open>burn_accumulator.rs\<close>) share: a node hash whose preimage determines its two children,
  and the recomputation of a root from a leaf, its index and its bottom-up siblings. The
  locale \<open>node_hash\<close> is that interface; the binding of a path to its leaf is proved once
  inside it. Collision freedom is never assumed of the hash as a whole, only on the finite
  set of preimages that the two compared paths hash.
\<close>

fun path_root :: "(hash32 \<Rightarrow> hash32 \<Rightarrow> hash32) \<Rightarrow> hash32 \<Rightarrow> nat \<Rightarrow> hash32 list \<Rightarrow> hash32" where
  "path_root node leaf i [] = leaf"
| "path_root node leaf i (s # ss) =
     path_root node (if even i then node leaf s else node s leaf) (i div 2) ss"

text \<open>The pairs of children hashed on the way up.\<close>

fun path_pairs ::
  "(hash32 \<Rightarrow> hash32 \<Rightarrow> hash32) \<Rightarrow> hash32 \<Rightarrow> nat \<Rightarrow> hash32 list \<Rightarrow> (hash32 \<times> hash32) list" where
  "path_pairs node leaf i [] = []"
| "path_pairs node leaf i (s # ss) =
     (if even i then (leaf, s) else (s, leaf))
     # path_pairs node (if even i then node leaf s else node s leaf) (i div 2) ss"

lemma path_root_append:
  "path_root node leaf i (ss @ ts) =
     path_root node (path_root node leaf i ss) (i div 2 ^ length ss) ts"
  by (induction ss arbitrary: leaf i) (simp_all add: div_mult2_eq)

lemma length_path_pairs [simp]: "length (path_pairs node leaf i ss) = length ss"
  by (induction ss arbitrary: leaf i) simp_all

subsection \<open>The complete binary tree over an indexed family of leaves\<close>

text \<open>
  \<open>sub_root node f h i\<close> is the root of the \<open>i\<close>-th subtree of height \<open>h\<close> over the leaves
  \<open>f 0, f 1, \<dots>\<close>; the sibling path of leaf \<open>i\<close> lists the roots of the neighbouring subtrees.
\<close>

fun sub_root :: "(hash32 \<Rightarrow> hash32 \<Rightarrow> hash32) \<Rightarrow> (nat \<Rightarrow> hash32) \<Rightarrow> nat \<Rightarrow> nat \<Rightarrow> hash32" where
  "sub_root node f 0 i = f i"
| "sub_root node f (Suc h) i = node (sub_root node f h (2 * i)) (sub_root node f h (2 * i + 1))"

definition flip1 :: "nat \<Rightarrow> nat" where
  "flip1 i = (if even i then i + 1 else i - 1)"

definition sibling_path ::
  "(hash32 \<Rightarrow> hash32 \<Rightarrow> hash32) \<Rightarrow> (nat \<Rightarrow> hash32) \<Rightarrow> nat \<Rightarrow> nat \<Rightarrow> hash32 list" where
  "sibling_path node f n i = map (\<lambda>h. sub_root node f h (flip1 (i div 2 ^ h))) [0..<n]"

lemma length_sibling_path [simp]: "length (sibling_path node f n i) = n"
  by (simp add: sibling_path_def)

lemma sub_root_up:
  "sub_root node f (Suc h) (j div 2) =
     (if even j then node (sub_root node f h j) (sub_root node f h (flip1 j))
      else node (sub_root node f h (flip1 j)) (sub_root node f h j))"
  by (auto simp: flip1_def elim!: evenE oddE)

lemma path_root_sibling_path:
  "path_root node (f i) i (sibling_path node f n i) = sub_root node f n (i div 2 ^ n)"
proof (induction n)
  case 0
  then show ?case by (simp add: sibling_path_def)
next
  case (Suc n)
  have "sibling_path node f (Suc n) i =
      sibling_path node f n i @ [sub_root node f n (flip1 (i div 2 ^ n))]"
    by (simp add: sibling_path_def)
  moreover have "i div 2 ^ Suc n = i div 2 ^ n div 2" by (simp add: div_mult2_eq [symmetric] mult.commute)
  ultimately show ?case
    using Suc by (simp add: path_root_append sub_root_up del: sub_root.simps power_Suc)
qed

lemma sub_root_cong:
  "(\<And>k. k div 2 ^ h = i \<Longrightarrow> f k = g k) \<Longrightarrow> sub_root node f h i = sub_root node g h i"
proof (induction h arbitrary: i)
  case 0
  then show ?case by simp
next
  case (Suc h)
  have "f k = g k" if "k div 2 ^ h = 2 * i \<or> k div 2 ^ h = 2 * i + 1" for k
  proof (rule Suc.prems)
    have "k div 2 ^ Suc h = k div 2 ^ h div 2" by (simp add: div_mult2_eq [symmetric] mult.commute)
    also have "\<dots> = i" using that by auto
    finally show "k div 2 ^ Suc h = i" .
  qed
  then show ?case by (simp add: Suc.IH)
qed

lemma sibling_path_update:
  "sibling_path node (f(i := x)) n i = sibling_path node f n i"
proof -
  have "sub_root node (f(i := x)) h (flip1 (i div 2 ^ h)) = sub_root node f h (flip1 (i div 2 ^ h))" for h
  proof (rule sub_root_cong)
    fix k assume "k div 2 ^ h = flip1 (i div 2 ^ h)"
    then have "k \<noteq> i" by (auto simp: flip1_def elim: oddE split: if_splits)
    then show "(f(i := x)) k = f k" by simp
  qed
  then show ?thesis by (simp add: sibling_path_def)
qed

subsection \<open>The interface of a node hash\<close>

locale node_hash =
  fixes H :: "bytes \<Rightarrow> hash32"
    and node :: "hash32 \<Rightarrow> hash32 \<Rightarrow> hash32"
    and preimage :: "hash32 \<times> hash32 \<Rightarrow> bytes"
  assumes node_eq: "node l r = H (preimage (l, r))"
    and preimage_inject: "preimage p = preimage q \<longleftrightarrow> p = q"
begin

lemma node_inject_on:
  assumes "inj_on H (preimage ` S)" "(l, r) \<in> S" "(l', r') \<in> S" "node l r = node l' r'"
  shows "l = l' \<and> r = r'"
proof -
  have "preimage (l, r) = preimage (l', r')"
    using assms by (intro inj_onD [OF assms(1)]) (simp_all add: node_eq)
  then show ?thesis by (simp add: preimage_inject)
qed

theorem path_binding:
  assumes "length ss = length ts"
    and "path_root node leaf i ss = path_root node leaf' i ts"
    and "inj_on H (preimage `
           (set (path_pairs node leaf i ss) \<union> set (path_pairs node leaf' i ts)))"
  shows "leaf = leaf' \<and> ss = ts"
  using assms
proof (induction ss ts arbitrary: leaf leaf' i rule: list_induct2)
  case Nil
  then show ?case by simp
next
  case (Cons s ss t ts)
  let ?up = "\<lambda>x y. if even i then node x y else node y x"
  let ?A = "set (path_pairs node leaf i (s # ss)) \<union> set (path_pairs node leaf' i (t # ts))"
  have sub: "set (path_pairs node (?up leaf s) (i div 2) ss)
      \<union> set (path_pairs node (?up leaf' t) (i div 2) ts) \<subseteq> ?A" by auto
  have up: "?up leaf s = ?up leaf' t \<and> ss = ts"
    using Cons.prems(1) inj_on_subset [OF Cons.prems(2) image_mono [OF sub]]
    by (intro Cons.IH) simp_all
  have "leaf = leaf' \<and> s = t"
  proof (cases "even i")
    case True
    then show ?thesis using up node_inject_on [OF Cons.prems(2), of leaf s leaf' t] by simp
  next
    case False
    then show ?thesis using up node_inject_on [OF Cons.prems(2), of s leaf t leaf'] by simp
  qed
  with up show ?case by blast
qed

text \<open>A path that recomputes the root of the tree over \<open>f\<close> is the path of \<open>f\<close>.\<close>

theorem tree_binding:
  assumes "path_root node leaf i ss = sub_root node f n 0" "length ss = n" "i < 2 ^ n"
    and "inj_on H (preimage ` (set (path_pairs node leaf i ss)
           \<union> set (path_pairs node (f i) i (sibling_path node f n i))))"
  shows "leaf = f i \<and> ss = sibling_path node f n i"
proof (rule path_binding)
  show "path_root node leaf i ss = path_root node (f i) i (sibling_path node f n i)"
    using assms(1,3) by (simp add: path_root_sibling_path)
qed (use assms in simp_all)

text \<open>Replacing the leaf under an authenticated path gives the root of the updated tree.\<close>

theorem tree_update:
  assumes "path_root node leaf i ss = sub_root node f n 0" "length ss = n" "i < 2 ^ n"
    and "inj_on H (preimage ` (set (path_pairs node leaf i ss)
           \<union> set (path_pairs node (f i) i (sibling_path node f n i))))"
  shows "path_root node x i ss = sub_root node (f(i := x)) n 0"
proof -
  have "ss = sibling_path node (f(i := x)) n i"
    using tree_binding [OF assms] by (simp add: sibling_path_update)
  then show ?thesis
    using path_root_sibling_path [of node "f(i := x)" i n] assms(3) by simp
qed

end

end
