(* ===== verification/Merkle.thy ===== *)
theory Merkle
  imports Hash_Paths
begin

section \<open>The ordered Merkle tree (usdd-core/src/merkle.rs)\<close>

text \<open>
  Leaves, nodes, the level-by-level root, the proof builder and the verifier, and the codec
  of a proof. \<open>merkle_level\<close> is one pass of the \<open>chunks(2)\<close> loop, in which an odd last node
  is paired with itself; the two \<open>while\<close> loops are recursions on the shrinking level.
\<close>

definition merkle_leaf :: "(bytes \<Rightarrow> hash32) \<Rightarrow> bytes \<Rightarrow> hash32 option" where
  "merkle_leaf H data = domain_hash H MerkleLeaf data"

definition empty_merkle_root :: "(bytes \<Rightarrow> hash32) \<Rightarrow> hash32" where
  "empty_merkle_root H = domain_digest H MerkleEmptyLeaf []"

definition merkle_node :: "(bytes \<Rightarrow> hash32) \<Rightarrow> hash32 \<Rightarrow> hash32 \<Rightarrow> hash32" where
  "merkle_node H left right = domain_digest H MerkleNode (enc_hash32 left @ enc_hash32 right)"

fun merkle_level :: "(bytes \<Rightarrow> hash32) \<Rightarrow> hash32 list \<Rightarrow> hash32 list" where
  "merkle_level H [] = []"
| "merkle_level H [left] = [merkle_node H left left]"
| "merkle_level H (left # right # level) = merkle_node H left right # merkle_level H level"

lemma length_merkle_level [simp]: "length (merkle_level H level) = (length level + 1) div 2"
  by (induction H level rule: merkle_level.induct) simp_all

function merkle_loop :: "(bytes \<Rightarrow> hash32) \<Rightarrow> hash32 list \<Rightarrow> hash32 list" where
  "merkle_loop H level =
     (if 1 < length level then merkle_loop H (merkle_level H level) else level)"
  by pat_completeness auto
termination
  by (relation "measure (\<lambda>(H, level). length level)") auto

declare merkle_loop.simps [simp del]

definition merkle_root :: "(bytes \<Rightarrow> hash32) \<Rightarrow> hash32 list \<Rightarrow> hash32" where
  "merkle_root H leaves =
     (if leaves = [] then empty_merkle_root H else merkle_loop H leaves ! 0)"

record merkle_proof_t =
  mp_leaf_index :: u64
  mp_leaf_count :: u64
  mp_siblings :: "hash32 list"

datatype merkle_error = EmptyTree | IndexOutOfRange | MalformedProof

definition sibling_position :: "hash32 list \<Rightarrow> nat \<Rightarrow> nat" where
  "sibling_position level position =
     (if position mod 2 = 0 then min (position + 1) (length level - 1) else position - 1)"

function merkle_siblings :: "(bytes \<Rightarrow> hash32) \<Rightarrow> hash32 list \<Rightarrow> nat \<Rightarrow> hash32 list" where
  "merkle_siblings H level position =
     (if 1 < length level
      then level ! sibling_position level position
           # merkle_siblings H (merkle_level H level) (position div 2)
      else [])"
  by pat_completeness auto
termination
  by (relation "measure (\<lambda>(H, level, position). length level)") auto

declare merkle_siblings.simps [simp del]

definition merkle_proof ::
  "(bytes \<Rightarrow> hash32) \<Rightarrow> hash32 list \<Rightarrow> nat \<Rightarrow> merkle_error + merkle_proof_t" where
  "merkle_proof H leaves index =
     (if leaves = [] then Inl EmptyTree
      else if length leaves \<le> index then Inl IndexOutOfRange
      else Inr \<lparr>mp_leaf_index = of_nat index, mp_leaf_count = of_nat (length leaves),
                mp_siblings = merkle_siblings H leaves index\<rparr>)"

text \<open>\<open>u64::BITS\<close> minus the position of the highest set bit.\<close>

fun bit_length :: "nat \<Rightarrow> nat" where
  "bit_length n = (if n = 0 then 0 else Suc (bit_length (n div 2)))"

declare bit_length.simps [simp del]

definition leading_zeros :: "u64 \<Rightarrow> nat" where
  "leading_zeros w = 64 - bit_length (unat w)"

fun merkle_fold :: "(bytes \<Rightarrow> hash32) \<Rightarrow> hash32 \<Rightarrow> u64 \<Rightarrow> hash32 list \<Rightarrow> hash32" where
  "merkle_fold H hash index [] = hash"
| "merkle_fold H hash index (sibling # siblings) =
     merkle_fold H
       (if index mod 2 = 0 then merkle_node H hash sibling else merkle_node H sibling hash)
       (index div 2) siblings"

definition merkle_expected_depth :: "u64 \<Rightarrow> nat" where
  "merkle_expected_depth leaf_count =
     (if leaf_count \<le> 1 then 0 else 64 - leading_zeros (leaf_count - 1))"

definition merkle_verify ::
  "(bytes \<Rightarrow> hash32) \<Rightarrow> merkle_proof_t \<Rightarrow> hash32 \<Rightarrow> hash32 \<Rightarrow> merkle_error + bool" where
  "merkle_verify H p leaf expected_root =
     (if mp_leaf_count p = 0 \<or> mp_leaf_count p \<le> mp_leaf_index p then Inl MalformedProof
      else if length (mp_siblings p) \<noteq> merkle_expected_depth (mp_leaf_count p)
      then Inl MalformedProof
      else Inr (merkle_fold H leaf (mp_leaf_index p) (mp_siblings p) = expected_root))"

definition enc_merkle_proof :: "merkle_proof_t \<Rightarrow> bytes option" where
  "enc_merkle_proof p =
     (if length (mp_siblings p) < 2 ^ 32
      then Some (enc_u64 (mp_leaf_index p) @ enc_u64 (mp_leaf_count p)
             @ enc_u32 (of_nat (length (mp_siblings p)))
             @ concat (map enc_hash32 (mp_siblings p)))
      else None)"

definition dec_merkle_proof :: "merkle_proof_t decode_fn" where
  "dec_merkle_proof d =
     and_then (dec_u64 d) (\<lambda>(leaf_index, d).
     and_then (dec_u64 d) (\<lambda>(leaf_count, d).
     and_then (dec_u32 d) (\<lambda>(sibling_count, d).
     let sibling_count = unat sibling_count
     in if 64 < sibling_count then Inl (InvalidLength 64 sibling_count)
        else and_then (decode_n dec_hash32 sibling_count d) (\<lambda>(siblings, d).
          Inr (\<lparr>mp_leaf_index = leaf_index, mp_leaf_count = leaf_count,
                mp_siblings = siblings\<rparr>, d)))))"

subsection \<open>The node hash\<close>

definition merkle_node_preimage :: "hash32 \<times> hash32 \<Rightarrow> bytes" where
  "merkle_node_preimage p =
     domain_preimage MerkleNode (enc_hash32 (fst p) @ enc_hash32 (snd p))"

interpretation merkle: node_hash H "merkle_node H" merkle_node_preimage for H
  by unfold_locales
    (auto simp: merkle_node_def domain_digest_def merkle_node_preimage_def
      domain_preimage_inject prod_eq_iff)

lemma merkle_node_is_domain_hash:
  "domain_hash H MerkleNode (enc_hash32 l @ enc_hash32 r) = Some (merkle_node H l r)"
  by (simp add: domain_hash_def merkle_node_def)

subsection \<open>Completeness: the built proof verifies\<close>

lemma u64_mod_2: "(i :: u64) mod 2 = 0 \<longleftrightarrow> even (unat i)"
  by (simp add: word_unat_eq_iff unat_mod even_iff_mod_2_eq_zero)

lemma merkle_fold_path:
  "merkle_fold H leaf i ss = path_root (merkle_node H) leaf (unat i) ss"
proof (induction ss arbitrary: leaf i)
  case Nil
  then show ?case by simp
next
  case (Cons s ss)
  then show ?case by (simp add: u64_mod_2 unat_div)
qed

lemma merkle_level_nth:
  "i < length level \<Longrightarrow>
     merkle_level H level ! (i div 2) =
       (if even i then merkle_node H (level ! i) (level ! sibling_position level i)
        else merkle_node H (level ! sibling_position level i) (level ! i))"
proof (induction H level arbitrary: i rule: merkle_level.induct)
  case (3 H l r level)
  then show ?case
  proof (cases "i < 2")
    case False
    then obtain j where i: "i = j + 2" using le_Suc_ex by (metis add.commute not_less)
    with 3 have "j < length level" by simp
    moreover from this have "sibling_position (l # r # level) i = sibling_position level j + 2"
      by (auto simp: i sibling_position_def)
    ultimately show ?thesis using "3.IH" [of j] by (simp add: i)
  qed (auto simp: less_2_cases_iff sibling_position_def)
qed (auto simp: sibling_position_def)

lemma merkle_path_root:
  "i < length level \<Longrightarrow>
     path_root (merkle_node H) (level ! i) i (merkle_siblings H level i) = merkle_loop H level ! 0"
proof (induction H level i rule: merkle_siblings.induct)
  case (1 H level i)
  show ?case
  proof (cases "1 < length level")
    case True
    with 1 show ?thesis
      by (subst merkle_siblings.simps, subst merkle_loop.simps)
        (simp add: merkle_level_nth [symmetric] less_mult_imp_div_less)
  next
    case False
    moreover from this 1(2) have "i = 0" by simp
    ultimately show ?thesis by (simp add: merkle_siblings.simps merkle_loop.simps)
  qed
qed

lemma merkle_siblings_length:
  "0 < length level \<Longrightarrow> length (merkle_siblings H level i) = bit_length (length level - 1)"
proof (induction H level i rule: merkle_siblings.induct)
  case (1 H level i)
  show ?case
  proof (cases "1 < length level")
    case True
    have "(length level + 1) div 2 - 1 = (length level - 1) div 2" using True by presburger
    with True 1 show ?thesis
      by (subst merkle_siblings.simps) (simp add: bit_length.simps [of "length level - Suc 0"])
  next
    case False
    with 1 show ?thesis by (simp add: merkle_siblings.simps bit_length.simps)
  qed
qed

lemma bit_length_le: "n < 2 ^ k \<Longrightarrow> bit_length n \<le> k"
proof (induction n arbitrary: k rule: bit_length.induct)
  case (1 n)
  show ?case
  proof (cases "n = 0")
    case False
    with 1(2) obtain k' where k: "k = Suc k'" by (cases k) auto
    with 1 False show ?thesis by (subst bit_length.simps) auto
  qed (simp add: bit_length.simps)
qed

lemma merkle_expected_depth_eq:
  "merkle_expected_depth n = bit_length (unat n - 1)"
proof (cases "n \<le> 1")
  case True
  then have "unat n - 1 = 0" by (simp add: word_le_nat_alt)
  with True show ?thesis by (simp add: merkle_expected_depth_def bit_length.simps)
next
  case False
  then have "unat (n - 1) = unat n - 1"
    by (simp add: word_le_nat_alt unat_sub_if')
  moreover have "bit_length (unat n - 1) \<le> 64"
    using unat_bound [of n] by (intro bit_length_le) simp
  ultimately show ?thesis using False
    by (simp add: merkle_expected_depth_def leading_zeros_def)
qed

lemma unat_of_nat_u64: "n < 2 ^ 64 \<Longrightarrow> unat (of_nat n :: u64) = n"
  by (simp add: unat_of_nat)

lemma merkle_verify_complete:
  assumes "length leaves < 2 ^ 64" "i < length leaves"
  shows "\<exists>p. merkle_proof H leaves i = Inr p
    \<and> merkle_verify H p (leaves ! i) root = Inr (root = merkle_root H leaves)"
proof -
  have i: "unat (of_nat i :: u64) = i" "unat (of_nat (length leaves) :: u64) = length leaves"
    using assms by (simp_all add: unat_of_nat_u64)
  then have "\<not> (of_nat (length leaves) :: u64) \<le> of_nat i"
    using assms by (simp add: word_le_nat_alt)
  moreover from this have "(of_nat (length leaves) :: u64) \<noteq> 0" by auto
  moreover have "leaves \<noteq> []" using assms(2) by auto
  ultimately show ?thesis
    using assms i
    by (auto simp: merkle_proof_def merkle_verify_def merkle_expected_depth_eq merkle_root_def
        merkle_siblings_length merkle_fold_path merkle_path_root)
qed

subsection \<open>Soundness: a verified proof binds its leaf\<close>

definition merkle_path_preimages ::
  "(bytes \<Rightarrow> hash32) \<Rightarrow> hash32 \<Rightarrow> nat \<Rightarrow> hash32 list \<Rightarrow> bytes set" where
  "merkle_path_preimages H leaf i ss =
     merkle_node_preimage ` set (path_pairs (merkle_node H) leaf i ss)"

lemma merkle_verify_binds:
  assumes "merkle_verify H p leaf (merkle_root H leaves) = Inr True"
    and "unat (mp_leaf_count p) = length leaves"
    and "inj_on H (merkle_path_preimages H leaf (unat (mp_leaf_index p)) (mp_siblings p)
           \<union> merkle_path_preimages H (leaves ! unat (mp_leaf_index p)) (unat (mp_leaf_index p))
               (merkle_siblings H leaves (unat (mp_leaf_index p))))"
  shows "unat (mp_leaf_index p) < length leaves \<and> leaf = leaves ! unat (mp_leaf_index p)"
proof -
  let ?i = "unat (mp_leaf_index p)"
  from assms(1) have p: "mp_leaf_count p \<noteq> 0" "mp_leaf_index p < mp_leaf_count p"
    "length (mp_siblings p) = bit_length (length leaves - 1)"
    "path_root (merkle_node H) leaf ?i (mp_siblings p) = merkle_root H leaves"
    by (auto simp: merkle_verify_def merkle_fold_path merkle_expected_depth_eq assms(2) not_le
        split: if_splits)
  then have i: "?i < length leaves" by (simp add: word_less_nat_alt assms(2))
  then have "leaves \<noteq> []" by auto
  have "leaf = leaves ! ?i \<and> mp_siblings p = merkle_siblings H leaves ?i"
  proof (rule merkle.path_binding)
    show "length (mp_siblings p) = length (merkle_siblings H leaves ?i)"
      using p(3) \<open>leaves \<noteq> []\<close> by (simp add: merkle_siblings_length)
    show "path_root (merkle_node H) leaf ?i (mp_siblings p) =
        path_root (merkle_node H) (leaves ! ?i) ?i (merkle_siblings H leaves ?i)"
      using i p(4) \<open>leaves \<noteq> []\<close> by (simp add: merkle_path_root merkle_root_def)
  qed (use assms(3) in \<open>simp add: merkle_path_preimages_def image_Un\<close>)
  with i show ?thesis by simp
qed

subsection \<open>The duplicated tail\<close>

lemma merkle_level_dup:
  "odd (length level) \<Longrightarrow> merkle_level H (level @ [last level]) = merkle_level H level"
  by (induction H level rule: merkle_level.induct) (auto split: if_splits)

lemma merkle_root_dup:
  assumes "odd (length leaves)" "1 < length leaves"
  shows "merkle_root H (leaves @ [last leaves]) = merkle_root H leaves"
  using assms
  by (auto simp: merkle_root_def merkle_level_dup
      merkle_loop.simps [of H leaves] merkle_loop.simps [of H "leaves @ [last leaves]"])

subsection \<open>The codec of a proof\<close>

lemma decode_n_hash32 [ok_iff]:
  "decode_n dec_hash32 n d = Inr (hs, d') \<longleftrightarrow>
     length hs = n \<and> reads d (concat (map enc_hash32 hs)) d'"
proof -
  have "enc_seq (map (\<lambda>h. Some (enc_hash32 h)) hs) = Some (concat (map enc_hash32 hs))"
    using enc_seq_Some_map [of "map enc_hash32 hs"] by (simp add: o_def)
  then show ?thesis by (simp add: codec_hash32.decode_n_iff)
qed

interpretation codec_merkle_proof:
  codec enc_merkle_proof dec_merkle_proof "\<lambda>p. length (mp_siblings p) \<le> 64"
proof
  fix d p d'
  show "dec_merkle_proof d = Inr (p, d') \<longleftrightarrow> length (mp_siblings p) \<le> 64 \<and>
      reads_opt d (enc_merkle_proof p) d'"
    by (cases p) (auto simp: dec_merkle_proof_def enc_merkle_proof_def ok_iff Let_def
        reads_append reads_enc unat_of_nat_u32)
qed (simp add: enc_merkle_proof_def)

subsection \<open>Properties\<close>

text \<open>
  Completeness of Merkle proofs. For every list of leaves and every position the proof
  constructor returns a proof, and the verifier accepts it for that leaf and the root of the
  list, and for no other root.
\<close>

theorem merkle_proof_verifies:
  assumes "length leaves < 2 ^ 64" "i < length leaves"
  shows "\<exists>p. merkle_proof H leaves i = Inr p
    \<and> merkle_verify H p (leaves ! i) root = Inr (root = merkle_root H leaves)"
  using assms by (rule merkle_verify_complete)

theorem merkle_proof_verifies_witness:
  "\<exists>p. merkle_proof from_be_bytes [7, 8, 9] 2 = Inr p
    \<and> merkle_verify from_be_bytes p ([7, 8, 9] ! 2) 5 = Inr (5 = merkle_root from_be_bytes [7, 8, 9])"
  by (rule merkle_proof_verifies) simp_all

text \<open>
  Soundness of Merkle proofs. A proof that the verifier accepts against the root of a list
  of as many leaves as the proof claims is a proof of the leaf at its index, provided the hash
  has no collision among the preimages on the two paths involved.
\<close>

theorem merkle_proof_binds:
  assumes "merkle_verify H p leaf (merkle_root H leaves) = Inr True"
    and "unat (mp_leaf_count p) = length leaves"
    and "inj_on H (merkle_path_preimages H leaf (unat (mp_leaf_index p)) (mp_siblings p)
           \<union> merkle_path_preimages H (leaves ! unat (mp_leaf_index p)) (unat (mp_leaf_index p))
               (merkle_siblings H leaves (unat (mp_leaf_index p))))"
  shows "unat (mp_leaf_index p) < length leaves \<and> leaf = leaves ! unat (mp_leaf_index p)"
  using assms by (rule merkle_verify_binds)

theorem merkle_proof_binds_witness:
  "unat (mp_leaf_index \<lparr>mp_leaf_index = 0, mp_leaf_count = 2, mp_siblings = [8]\<rparr>) < length [7 :: hash32, 8]
   \<and> 7 = [7 :: hash32, 8] ! unat (mp_leaf_index \<lparr>mp_leaf_index = 0, mp_leaf_count = 2, mp_siblings = [8]\<rparr>)"
proof (rule merkle_proof_binds [of toy_hash _ 7 "[7, 8]"])
  show "merkle_verify toy_hash \<lparr>mp_leaf_index = 0, mp_leaf_count = 2, mp_siblings = [8]\<rparr> 7
      (merkle_root toy_hash [7, 8]) = Inr True"
    by code_simp
qed (simp_all add: merkle_path_preimages_def merkle_siblings.simps sibling_position_def)

text \<open>
  The root does not bind the number of leaves. Appending a copy of the last leaf to a list
  of odd length greater than one leaves the root unchanged; the leaf count has to be
  authenticated next to the root, as the verifier's use of the claimed count requires.
\<close>

theorem merkle_duplicate_tail:
  assumes "odd (length leaves)" "1 < length leaves"
  shows "merkle_root H (leaves @ [last leaves]) = merkle_root H leaves"
  using assms by (rule merkle_root_dup)

theorem merkle_duplicate_tail_witness:
  "merkle_root from_be_bytes ([7, 8, 9] @ [last [7, 8, 9]]) = merkle_root from_be_bytes [7, 8, 9]"
  by (rule merkle_duplicate_tail) simp_all

end
