(* ===== verification/Burn_Accumulator.thy ===== *)
theory Burn_Accumulator
  imports Merkle
begin

section \<open>The fixed-depth burn accumulator (usdd-core/src/burn_accumulator.rs)\<close>

text \<open>
  The sparse tree of depth 64 whose occupied leaves are a contiguous prefix. Its abstract
  specification is \<open>sub_root\<close> over the leaves padded with \<open>SHA256(0x00)\<close>: the layer-by-layer
  computation of the code, which never materialises the empty part of the tree, refines it.
  \<open>burn_empty_value\<close> is the body of \<open>burn_accumulator_empty\<close> below its depth check; the
  call sites that unwrap its result pass a height of at most 64.
\<close>

definition BURN_ACCUMULATOR_DEPTH :: nat where
  "BURN_ACCUMULATOR_DEPTH = 64"

datatype burn_accumulator_error =
    WrongDepth nat
  | TooManyLeaves
  | BurnIndexOutOfRange

definition burn_accumulator_node :: "(bytes \<Rightarrow> hash32) \<Rightarrow> hash32 \<Rightarrow> hash32 \<Rightarrow> hash32" where
  "burn_accumulator_node H left right =
     hash_bytes H (1 # enc_hash32 left @ enc_hash32 right)"

fun burn_empty_value :: "(bytes \<Rightarrow> hash32) \<Rightarrow> nat \<Rightarrow> hash32" where
  "burn_empty_value H 0 = hash_bytes H [0]"
| "burn_empty_value H (Suc height) =
     (let v = burn_empty_value H height in burn_accumulator_node H v v)"

definition burn_accumulator_empty ::
  "(bytes \<Rightarrow> hash32) \<Rightarrow> nat \<Rightarrow> burn_accumulator_error + hash32" where
  "burn_accumulator_empty H height =
     (if BURN_ACCUMULATOR_DEPTH < height then Inl (WrongDepth height)
      else Inr (burn_empty_value H height))"

subsection \<open>struct BurnProof\<close>

record burn_proof =
  bp_siblings :: "hash32 list"

definition burn_proof_ok :: "burn_proof \<Rightarrow> bool" where
  "burn_proof_ok p \<longleftrightarrow> length (bp_siblings p) = BURN_ACCUMULATOR_DEPTH"

fun compute_root_loop ::
  "(bytes \<Rightarrow> hash32) \<Rightarrow> u64 \<Rightarrow> hash32 \<Rightarrow> (nat \<times> hash32) list \<Rightarrow> hash32" where
  "compute_root_loop H index node [] = node"
| "compute_root_loop H index node ((level, sibling) # siblings) =
     compute_root_loop H index
       (if drop_bit level index AND 1 = 0 then burn_accumulator_node H node sibling
        else burn_accumulator_node H sibling node) siblings"

definition compute_root :: "(bytes \<Rightarrow> hash32) \<Rightarrow> burn_proof \<Rightarrow> hash32 \<Rightarrow> u64 \<Rightarrow> hash32" where
  "compute_root H p leaf index =
     compute_root_loop H index leaf (List.enumerate 0 (bp_siblings p))"

definition burn_proof_verify ::
  "(bytes \<Rightarrow> hash32) \<Rightarrow> burn_proof \<Rightarrow> hash32 \<Rightarrow> hash32 \<Rightarrow> u64 \<Rightarrow> bool" where
  "burn_proof_verify H p root leaf index \<longleftrightarrow> compute_root H p leaf index = root"

definition enc_burn_proof :: "burn_proof \<Rightarrow> bytes" where
  "enc_burn_proof p = concat (map enc_hash32 (bp_siblings p))"

definition dec_burn_proof :: "burn_proof decode_fn" where
  "dec_burn_proof d =
     and_then (decode_n dec_hash32 BURN_ACCUMULATOR_DEPTH d) (\<lambda>(siblings, d).
       Inr (\<lparr>bp_siblings = siblings\<rparr>, d))"

subsection \<open>struct BurnAccumulator\<close>

record burn_accumulator =
  ba_leaves :: "hash32 list"

definition burn_accumulator_new :: burn_accumulator where
  "burn_accumulator_new = \<lparr>ba_leaves = []\<rparr>"

definition from_leaves :: "hash32 list \<Rightarrow> burn_accumulator_error + burn_accumulator" where
  "from_leaves leaves =
     (if 2 ^ 64 \<le> length leaves then Inl TooManyLeaves else Inr \<lparr>ba_leaves = leaves\<rparr>)"

definition burn_count :: "burn_accumulator \<Rightarrow> u64" where
  "burn_count a = of_nat (length (ba_leaves a))"

definition burn_append ::
  "burn_accumulator \<Rightarrow> hash32 \<Rightarrow> burn_accumulator_error + u64 \<times> burn_accumulator" where
  "burn_append a leaf =
     (if 2 ^ 64 \<le> length (ba_leaves a) then Inl TooManyLeaves
      else Inr (of_nat (length (ba_leaves a)), a\<lparr>ba_leaves := ba_leaves a @ [leaf]\<rparr>))"

text \<open>
  One pass over \<open>layer.chunks(2)\<close>, a missing right child replaced by the empty subtree of
  this height.
\<close>

fun burn_layer :: "(bytes \<Rightarrow> hash32) \<Rightarrow> hash32 \<Rightarrow> hash32 list \<Rightarrow> hash32 list" where
  "burn_layer H empt [] = []"
| "burn_layer H empt [left] = [burn_accumulator_node H left empt]"
| "burn_layer H empt (left # right # layer) =
     burn_accumulator_node H left right # burn_layer H empt layer"

text \<open>\<open>for height in 0..64\<close>: the first argument counts the iterations left.\<close>

fun root_loop :: "(bytes \<Rightarrow> hash32) \<Rightarrow> nat \<Rightarrow> nat \<Rightarrow> hash32 list \<Rightarrow> hash32 list" where
  "root_loop H 0 height layer = layer"
| "root_loop H (Suc n) height layer =
     root_loop H n (height + 1) (burn_layer H (burn_empty_value H height) layer)"

definition root_for_leaves :: "(bytes \<Rightarrow> hash32) \<Rightarrow> hash32 list \<Rightarrow> hash32" where
  "root_for_leaves H leaves =
     (if leaves = [] then burn_empty_value H BURN_ACCUMULATOR_DEPTH
      else root_loop H BURN_ACCUMULATOR_DEPTH 0 leaves ! 0)"

definition burn_root :: "(bytes \<Rightarrow> hash32) \<Rightarrow> burn_accumulator \<Rightarrow> hash32" where
  "burn_root H a = root_for_leaves H (ba_leaves a)"

text \<open>
  The loop of \<open>BurnAccumulator::proof\<close>. Every iteration of the code evaluates
  \<open>burn_accumulator_empty(height)?\<close> at least once (the argument of \<open>unwrap_or\<close> is evaluated
  eagerly); the model evaluates it once, first.
\<close>

fun burn_proof_loop ::
  "(bytes \<Rightarrow> hash32) \<Rightarrow> nat \<Rightarrow> nat \<Rightarrow> hash32 list \<Rightarrow> nat
     \<Rightarrow> burn_accumulator_error + hash32 list" where
  "burn_proof_loop H 0 height layer position = Inr []"
| "burn_proof_loop H (Suc n) height layer position =
     and_then (burn_accumulator_empty H height) (\<lambda>empt.
     let sibling_position = position XOR 1;
         sibling = (if sibling_position < length layer then layer ! sibling_position else empt);
         layer = (if 1 < length layer then burn_layer H empt layer
                  else layer[0 := burn_accumulator_node H (layer ! 0) empt])
     in and_then (burn_proof_loop H n (height + 1) layer (position div 2)) (\<lambda>siblings.
          Inr (sibling # siblings)))"

definition burn_accumulator_proof ::
  "(bytes \<Rightarrow> hash32) \<Rightarrow> burn_accumulator \<Rightarrow> u64 \<Rightarrow> burn_accumulator_error + burn_proof" where
  "burn_accumulator_proof H a index =
     (if length (ba_leaves a) \<le> unat index then Inl BurnIndexOutOfRange
      else and_then (burn_proof_loop H BURN_ACCUMULATOR_DEPTH 0 (ba_leaves a) (unat index))
        (\<lambda>siblings. Inr \<lparr>bp_siblings = siblings\<rparr>))"

subsection \<open>The node hash\<close>

definition burn_node_preimage :: "hash32 \<times> hash32 \<Rightarrow> bytes" where
  "burn_node_preimage p = 1 # enc_hash32 (fst p) @ enc_hash32 (snd p)"

interpretation burn: node_hash H "burn_accumulator_node H" burn_node_preimage for H
  by unfold_locales
    (auto simp: burn_accumulator_node_def hash_bytes_def burn_node_preimage_def prod_eq_iff)

subsection \<open>Refinement of the padded complete tree\<close>

definition padded :: "(bytes \<Rightarrow> hash32) \<Rightarrow> hash32 list \<Rightarrow> nat \<Rightarrow> hash32" where
  "padded H leaves i = (if i < length leaves then leaves ! i else burn_empty_value H 0)"

abbreviation burn_sub_root ::
  "(bytes \<Rightarrow> hash32) \<Rightarrow> hash32 list \<Rightarrow> nat \<Rightarrow> nat \<Rightarrow> hash32" where
  "burn_sub_root H leaves \<equiv> sub_root (burn_accumulator_node H) (padded H leaves)"

text \<open>
  \<open>covers H leaves h layer\<close>: the layer holds the subtrees of height \<open>h\<close> that contain a leaf,
  and the remaining subtrees of that height are empty.
\<close>

definition covers :: "(bytes \<Rightarrow> hash32) \<Rightarrow> hash32 list \<Rightarrow> nat \<Rightarrow> hash32 list \<Rightarrow> bool" where
  "covers H leaves h layer \<longleftrightarrow>
     (\<forall>i. burn_sub_root H leaves h i =
        (if i < length layer then layer ! i else burn_empty_value H h))"

lemma covers_0: "covers H leaves 0 leaves"
  by (simp add: covers_def padded_def)

lemma length_burn_layer [simp]: "length (burn_layer H e layer) = (length layer + 1) div 2"
  by (induction H e layer rule: burn_layer.induct) simp_all

lemma burn_layer_nth:
  "i < length (burn_layer H e layer) \<Longrightarrow>
     burn_layer H e layer ! i =
       burn_accumulator_node H (layer ! (2 * i))
         (if 2 * i + 1 < length layer then layer ! (2 * i + 1) else e)"
proof (induction H e layer arbitrary: i rule: burn_layer.induct)
  case (3 H e l r layer)
  then show ?case by (cases i) auto
qed auto

lemma covers_layer:
  assumes "covers H leaves h layer"
  shows "covers H leaves (Suc h) (burn_layer H (burn_empty_value H h) layer)"
  unfolding covers_def
proof
  fix i
  let ?e = "burn_empty_value H h"
  have sub: "burn_sub_root H leaves h k = (if k < length layer then layer ! k else ?e)" for k
    using assms by (simp add: covers_def)
  show "burn_sub_root H leaves (Suc h) i =
      (if i < length (burn_layer H ?e layer) then burn_layer H ?e layer ! i
       else burn_empty_value H (Suc h))"
  proof (cases "i < length (burn_layer H ?e layer)")
    case True
    then have "2 * i < length layer" by simp
    with True show ?thesis using burn_layer_nth [OF True] by (simp add: sub)
  next
    case False
    then have "\<not> 2 * i < length layer" by simp
    with False show ?thesis by (simp add: sub Let_def)
  qed
qed

lemma root_loop_covers:
  "covers H leaves h layer \<Longrightarrow> covers H leaves (h + n) (root_loop H n h layer)"
proof (induction n arbitrary: h layer)
  case (Suc n)
  show ?case using Suc.IH [OF covers_layer [OF Suc.prems]] by simp
qed simp

lemma root_loop_nonempty: "layer \<noteq> [] \<Longrightarrow> root_loop H n h layer \<noteq> []"
proof (induction n arbitrary: h layer)
  case (Suc n)
  have "burn_layer H (burn_empty_value H h) layer \<noteq> []"
    using Suc.prems by (cases layer; cases "tl layer") auto
  then show ?case by (simp add: Suc.IH)
qed simp

lemma empty_sub_root: "burn_sub_root H [] h i = burn_empty_value H h"
  by (induction h arbitrary: i) (simp_all add: padded_def Let_def)

lemma root_for_leaves_refines: "root_for_leaves H leaves = burn_sub_root H leaves 64 0"
proof (cases "leaves = []")
  case True
  then show ?thesis
    by (simp add: root_for_leaves_def empty_sub_root BURN_ACCUMULATOR_DEPTH_def del: burn_empty_value.simps)
next
  case False
  have "covers H leaves 64 (root_loop H 64 0 leaves)"
    using root_loop_covers [OF covers_0, of H leaves 64] by simp
  then have "burn_sub_root H leaves 64 0 = root_loop H 64 0 leaves ! 0"
    using root_loop_nonempty [OF False] by (simp add: covers_def)
  with False show ?thesis by (simp add: root_for_leaves_def BURN_ACCUMULATOR_DEPTH_def)
qed

subsection \<open>Proofs: completeness, binding and append\<close>

lemma compute_root_loop_path:
  "compute_root_loop H i leaf (List.enumerate k ss) =
     path_root (burn_accumulator_node H) leaf (unat i div 2 ^ k) ss"
proof (induction ss arbitrary: leaf k)
  case Nil
  then show ?case by simp
next
  case (Cons s ss)
  have "drop_bit k i AND 1 = 0 \<longleftrightarrow> even (unat i div 2 ^ k)"
    unfolding and_one_eq u64_mod_2 unat_drop_bit_eq by (simp add: drop_bit_eq_div)
  moreover have "unat i div 2 ^ Suc k = unat i div 2 ^ k div 2"
    by (simp add: div_mult2_eq [symmetric] mult.commute)
  ultimately show ?case by (simp add: Cons del: power_Suc)
qed

lemma compute_root_path:
  "compute_root H p leaf i = path_root (burn_accumulator_node H) leaf (unat i) (bp_siblings p)"
  using compute_root_loop_path [of H i leaf 0] by (simp add: compute_root_def)

lemma xor_1_flip: "i XOR 1 = flip1 i" for i :: nat
  by (simp add: flip1_def xor_Suc_0_eq)

lemma covers_single:
  assumes "covers H leaves h layer" "length layer = 1"
  shows "layer[0 := burn_accumulator_node H (layer ! 0) (burn_empty_value H h)] =
      burn_layer H (burn_empty_value H h) layer"
  using assms(2) by (auto simp: length_Suc_conv)

lemma burn_proof_loop_eq:
  assumes "covers H leaves h layer" "pos div 2 ^ 0 < length layer" "h + n \<le> 64"
  shows "burn_proof_loop H n h layer pos =
    Inr (map (\<lambda>k. burn_sub_root H leaves (h + k) (flip1 (pos div 2 ^ k))) [0..<n])"
  using assms
proof (induction n arbitrary: h layer pos)
  case 0
  then show ?case by simp
next
  case (Suc n)
  let ?e = "burn_empty_value H h"
  have e: "burn_accumulator_empty H h = Inr ?e"
    using Suc.prems(3) by (simp add: burn_accumulator_empty_def BURN_ACCUMULATOR_DEPTH_def)
  have next_layer: "(if 1 < length layer then burn_layer H ?e layer
      else layer[0 := burn_accumulator_node H (layer ! 0) ?e]) = burn_layer H ?e layer"
    using Suc.prems(1,2) covers_single by auto
  have sib: "(if pos XOR 1 < length layer then layer ! (pos XOR 1) else ?e) =
      burn_sub_root H leaves h (flip1 pos)"
    unfolding xor_1_flip using Suc.prems(1) by (simp add: covers_def)
  have IH: "burn_proof_loop H n (h + 1) (burn_layer H ?e layer) (pos div 2) =
      Inr (map (\<lambda>k. burn_sub_root H leaves (h + 1 + k) (flip1 (pos div 2 div 2 ^ k))) [0..<n])"
    using Suc.prems covers_layer [OF Suc.prems(1)] by (intro Suc.IH) auto
  show ?case
    unfolding burn_proof_loop.simps e next_layer sib Let_def and_then_simps IH
    by (simp add: upt_conv_Cons map_Suc_upt [symmetric] div_mult2_eq del: upt_Suc)
qed

lemma burn_proof_eq:
  assumes "unat i < length (ba_leaves a)"
  shows "burn_accumulator_proof H a i =
    Inr \<lparr>bp_siblings = sibling_path (burn_accumulator_node H) (padded H (ba_leaves a)) 64 (unat i)\<rparr>"
  using assms burn_proof_loop_eq [OF covers_0, of "unat i" "ba_leaves a" 64 H]
  by (simp add: burn_accumulator_proof_def BURN_ACCUMULATOR_DEPTH_def sibling_path_def)

lemma burn_root_refines: "burn_root H a = burn_sub_root H (ba_leaves a) 64 0"
  by (simp add: burn_root_def root_for_leaves_refines)

lemma u64_less_pow: "unat (i :: u64) < 2 ^ 64"
  using unat_bound [of i] by simp

lemma burn_proof_complete:
  assumes "unat i < length (ba_leaves a)"
  shows "\<exists>p. burn_accumulator_proof H a i = Inr p \<and> burn_proof_ok p
    \<and> compute_root H p (ba_leaves a ! unat i) i = burn_root H a"
proof -
  let ?f = "padded H (ba_leaves a)"
  have "?f (unat i) = ba_leaves a ! unat i" using assms by (simp add: padded_def)
  then have "path_root (burn_accumulator_node H) (ba_leaves a ! unat i) (unat i)
      (sibling_path (burn_accumulator_node H) ?f 64 (unat i)) = burn_root H a"
    using path_root_sibling_path [of "burn_accumulator_node H" ?f "unat i" 64] u64_less_pow [of i]
    by (simp add: burn_root_refines)
  then show ?thesis
    using assms by (simp add: burn_proof_eq compute_root_path burn_proof_ok_def
        BURN_ACCUMULATOR_DEPTH_def)
qed

text \<open>
  The preimages hashed when a proof is checked against the root of a known list of leaves:
  those on the presented path and those on the tree's own path to the same index.
\<close>

definition burn_preimages ::
  "(bytes \<Rightarrow> hash32) \<Rightarrow> hash32 list \<Rightarrow> burn_proof \<Rightarrow> hash32 \<Rightarrow> u64 \<Rightarrow> bytes set" where
  "burn_preimages H leaves p leaf i =
     burn_node_preimage ` (set (path_pairs (burn_accumulator_node H) leaf (unat i) (bp_siblings p))
       \<union> set (path_pairs (burn_accumulator_node H) (padded H leaves (unat i)) (unat i)
           (sibling_path (burn_accumulator_node H) (padded H leaves) 64 (unat i))))"

lemma burn_proof_binds:
  assumes "burn_proof_verify H p (root_for_leaves H leaves) leaf i" "burn_proof_ok p"
    and "inj_on H (burn_preimages H leaves p leaf i)"
  shows "leaf = (if unat i < length leaves then leaves ! unat i else hash_bytes H [0])"
proof -
  have "leaf = padded H leaves (unat i)"
    using burn.tree_binding [of H leaf "unat i" "bp_siblings p" "padded H leaves" 64] assms
      u64_less_pow [of i]
    by (simp add: burn_proof_verify_def compute_root_path root_for_leaves_refines
        burn_preimages_def burn_proof_ok_def BURN_ACCUMULATOR_DEPTH_def)
  then show ?thesis by (simp add: padded_def)
qed

lemma padded_append: "padded H (leaves @ [leaf]) = (padded H leaves)(length leaves := leaf)"
  by (auto simp: padded_def nth_append)

lemma burn_append_root:
  assumes "burn_proof_verify H p (root_for_leaves H leaves) (hash_bytes H [0]) i"
    and "burn_proof_ok p" "unat i = length leaves"
    and "inj_on H (burn_preimages H leaves p (hash_bytes H [0]) i)"
  shows "compute_root H p leaf i = root_for_leaves H (leaves @ [leaf])"
  using burn.tree_update
      [of H "hash_bytes H [0]" "unat i" "bp_siblings p" "padded H leaves" 64 leaf] assms
    u64_less_pow [of i]
  by (simp add: burn_proof_verify_def compute_root_path root_for_leaves_refines
      burn_preimages_def burn_proof_ok_def BURN_ACCUMULATOR_DEPTH_def padded_append)

subsection \<open>Operations on the accumulator\<close>

definition burn_accumulator_inv :: "burn_accumulator \<Rightarrow> bool" where
  "burn_accumulator_inv a \<longleftrightarrow> length (ba_leaves a) < 2 ^ 64"

lemma from_leaves_ok [ok_iff]:
  "from_leaves leaves = Inr a \<longleftrightarrow> ba_leaves a = leaves \<and> burn_accumulator_inv a"
  by (cases a) (auto simp: from_leaves_def burn_accumulator_inv_def)

lemma burn_append_ok [ok_iff]:
  "burn_append a leaf = Inr (index, a') \<longleftrightarrow>
     unat index = length (ba_leaves a) \<and> ba_leaves a' = ba_leaves a @ [leaf]"
proof
  assume "burn_append a leaf = Inr (index, a')"
  then show "unat index = length (ba_leaves a) \<and> ba_leaves a' = ba_leaves a @ [leaf]"
    by (auto simp: burn_append_def unat_of_nat_u64 not_le split: if_splits)
next
  assume *: "unat index = length (ba_leaves a) \<and> ba_leaves a' = ba_leaves a @ [leaf]"
  then have "of_nat (length (ba_leaves a)) = index"
    by (metis of_nat_unat ucast_id)
  moreover have "length (ba_leaves a) < 2 ^ 64" using * u64_less_pow [of index] by simp
  ultimately show "burn_append a leaf = Inr (index, a')"
    using * by (cases a; cases a') (auto simp: burn_append_def)
qed

lemma burn_count_append:
  assumes "burn_append a leaf = Inr (index, a')" "burn_accumulator_inv a'"
  shows "index = burn_count a \<and> unat (burn_count a') = unat (burn_count a) + 1"
proof -
  have "unat (burn_count a') = Suc (length (ba_leaves a))"
    using assms unfolding burn_count_def burn_accumulator_inv_def
    by (subst unat_of_nat_u64) (auto simp: ok_iff)
  moreover have "unat (burn_count a) = length (ba_leaves a)"
    using assms by (simp add: burn_count_def burn_accumulator_inv_def ok_iff unat_of_nat_u64)
  ultimately show ?thesis using assms by (simp add: ok_iff word_unat_eq_iff)
qed

interpretation codec_burn_proof:
  codec "\<lambda>p. Some (enc_burn_proof p)" dec_burn_proof burn_proof_ok
proof
  fix d p d'
  show "dec_burn_proof d = Inr (p, d') \<longleftrightarrow> burn_proof_ok p \<and>
      reads_opt d (Some (enc_burn_proof p)) d'"
    by (cases p) (auto simp: dec_burn_proof_def enc_burn_proof_def burn_proof_ok_def ok_iff)
qed simp

lemma reads_burn_proof [reads_enc]:
  "burn_proof_ok p \<Longrightarrow> reads d (enc_burn_proof p) d' \<longleftrightarrow> dec_burn_proof d = Inr (p, d')"
  by (simp add: codec_burn_proof.dec_iff)

subsection \<open>Properties\<close>

text \<open>
  C34: the sparse accumulator refines the complete tree. The layer-by-layer root of the code,
  which never materialises empty subtrees, is the root of the complete binary tree of depth 64
  over the leaves followed by empty leaves.
\<close>

theorem burn_root_is_padded_tree:
  "burn_root H a = sub_root (burn_accumulator_node H) (padded H (ba_leaves a)) 64 0"
  by (simp add: burn_root_def root_for_leaves_refines)

text \<open>
  Completeness of burn proofs. Every occupied index has a proof of 64 siblings, and
  recomputing the root from it gives the accumulator's root.
\<close>

theorem burn_proof_verifies:
  assumes "unat i < length (ba_leaves a)"
  shows "\<exists>p. burn_accumulator_proof H a i = Inr p \<and> burn_proof_ok p
    \<and> burn_proof_verify H p (burn_root H a) (ba_leaves a ! unat i) i"
  using burn_proof_complete [OF assms, of H] by (auto simp: burn_proof_verify_def)

theorem burn_proof_verifies_witness:
  "\<exists>p. burn_accumulator_proof from_be_bytes \<lparr>ba_leaves = [7, 8, 9]\<rparr> 2 = Inr p \<and> burn_proof_ok p
    \<and> burn_proof_verify from_be_bytes p (burn_root from_be_bytes \<lparr>ba_leaves = [7, 8, 9]\<rparr>)
        (ba_leaves \<lparr>ba_leaves = [7, 8, 9]\<rparr> ! unat (2 :: u64)) 2"
  by (rule burn_proof_verifies) simp

text \<open>Under the constant hash every node of a tree of ones is one.\<close>

lemma toy_sub_root:
  "(\<And>k. f k = 1) \<Longrightarrow> sub_root (burn_accumulator_node toy_hash) f h i = 1"
  by (induction h arbitrary: i) (simp_all add: burn_accumulator_node_def)

lemma toy_path_pairs:
  "set (path_pairs (burn_accumulator_node toy_hash) 1 i (replicate n 1)) \<subseteq> {(1, 1)}"
  by (induction n arbitrary: i) (auto simp: burn_accumulator_node_def)

lemma toy_padded: "set leaves \<subseteq> {1} \<Longrightarrow> padded toy_hash leaves k = 1"
  by (auto simp: padded_def dest: nth_mem)

lemma toy_siblings:
  "set leaves \<subseteq> {1} \<Longrightarrow>
     sibling_path (burn_accumulator_node toy_hash) (padded toy_hash leaves) n i = replicate n 1"
  by (simp add: sibling_path_def toy_sub_root toy_padded map_replicate_const)

lemma toy_preimages:
  "set leaves \<subseteq> {1} \<Longrightarrow>
     burn_preimages toy_hash leaves \<lparr>bp_siblings = replicate 64 1\<rparr> 1 i \<subseteq> {burn_node_preimage (1, 1)}"
  unfolding burn_preimages_def by (auto simp only: toy_padded toy_siblings burn_proof.select_convs
      dest!: subsetD [OF toy_path_pairs])

lemma toy_inj: "S \<subseteq> {x} \<Longrightarrow> inj_on toy_hash S"
  by (auto simp: inj_on_def)

lemma toy_root: "set leaves \<subseteq> {1} \<Longrightarrow> root_for_leaves toy_hash leaves = 1"
  by (simp add: root_for_leaves_refines toy_sub_root toy_padded)

lemma toy_compute_root: "compute_root toy_hash \<lparr>bp_siblings = replicate 64 1\<rparr> 1 i = 1"
proof -
  have "path_root (burn_accumulator_node toy_hash) 1 j (replicate n 1) = 1" for j n
    by (induction n arbitrary: j) (simp_all add: burn_accumulator_node_def)
  then show ?thesis by (simp only: compute_root_path burn_proof.select_convs)
qed

text \<open>
  C35: soundness of burn proofs. A proof that verifies against the root of a list of leaves
  proves the leaf at its index, and the empty leaf beyond the end of the list, provided the
  hash has no collision among the preimages of the two paths involved.
\<close>

theorem burn_proof_binding:
  assumes "burn_proof_verify H p (root_for_leaves H leaves) leaf i" "burn_proof_ok p"
    and "inj_on H (burn_preimages H leaves p leaf i)"
  shows "leaf = (if unat i < length leaves then leaves ! unat i else hash_bytes H [0])"
  using assms by (rule burn_proof_binds)

theorem burn_proof_binding_witness:
  "1 = (if unat (0 :: u64) < length [1 :: hash32] then [1] ! unat (0 :: u64) else hash_bytes toy_hash [0])"
proof (rule burn_proof_binding [of toy_hash "\<lparr>bp_siblings = replicate 64 1\<rparr>" "[1]" 1 0])
  show "burn_proof_verify toy_hash \<lparr>bp_siblings = replicate 64 1\<rparr> (root_for_leaves toy_hash [1]) 1 0"
    by (simp only: burn_proof_verify_def toy_compute_root) (simp add: toy_root)
  show "burn_proof_ok \<lparr>bp_siblings = replicate 64 1\<rparr>"
    by (simp only: burn_proof_ok_def BURN_ACCUMULATOR_DEPTH_def burn_proof.select_convs length_replicate)
  show "inj_on toy_hash (burn_preimages toy_hash [1] \<lparr>bp_siblings = replicate 64 1\<rparr> 1 0)"
    by (rule toy_inj, rule toy_preimages) simp
qed

text \<open>
  Appending through a branch. A branch that proves the next free index empty also computes
  the root of the list extended at that index: the pair of checks the guest and the vault make
  for a burn maintains the root of the growing list.
\<close>

theorem burn_branch_appends:
  assumes "burn_proof_verify H p (root_for_leaves H leaves) (hash_bytes H [0]) i"
    and "burn_proof_ok p" "unat i = length leaves"
    and "inj_on H (burn_preimages H leaves p (hash_bytes H [0]) i)"
  shows "compute_root H p leaf i = root_for_leaves H (leaves @ [leaf])"
  using assms by (rule burn_append_root)

theorem burn_branch_appends_witness:
  "compute_root toy_hash \<lparr>bp_siblings = replicate 64 1\<rparr> 5 1 = root_for_leaves toy_hash ([1] @ [5])"
proof (rule burn_branch_appends)
  show "burn_proof_verify toy_hash \<lparr>bp_siblings = replicate 64 1\<rparr> (root_for_leaves toy_hash [1])
      (hash_bytes toy_hash [0]) 1"
    by (simp only: burn_proof_verify_def toy_compute_root toy_hash_simps) (simp add: toy_root)
  show "burn_proof_ok \<lparr>bp_siblings = replicate 64 1\<rparr>"
    by (simp only: burn_proof_ok_def BURN_ACCUMULATOR_DEPTH_def burn_proof.select_convs length_replicate)
  show "inj_on toy_hash (burn_preimages toy_hash [1] \<lparr>bp_siblings = replicate 64 1\<rparr>
      (hash_bytes toy_hash [0]) 1)"
    unfolding toy_hash_simps(2) by (rule toy_inj, rule toy_preimages) simp
qed simp

end
