(* ===== verification/Amounts.thy ===== *)
theory Amounts
  imports Burn_Accumulator
begin

section \<open>Protocol constants and unit conversion (usdd-core/src/lib.rs)\<close>

text \<open>
  The constants are written as the source writes them, so that the relations between them
  (what leaves room for what) are theorems; their values are the rewrite rules
  \<open>amount_consts\<close>. One micro-USDT is exactly 100 USDD base units: the two conversions are
  inverse to each other where they are defined.
\<close>

definition DRIVECHAIN_SLOT :: u8 where
  "DRIVECHAIN_SLOT = 24"

definition USDT_SCALE :: u64 where
  "USDT_SCALE = 1000000"

definition USDD_SCALE :: u64 where
  "USDD_SCALE = 100000000"

definition USDD_UNITS_PER_USDT_MICRO :: u64 where
  "USDD_UNITS_PER_USDT_MICRO = 100"

definition SP1_VERSION_MAJOR :: u16 where
  "SP1_VERSION_MAJOR = 6"

definition SP1_VERSION_MINOR :: u16 where
  "SP1_VERSION_MINOR = 3"

definition SP1_VERSION_PATCH :: u16 where
  "SP1_VERSION_PATCH = 1"

definition SP1_GIT_COMMIT :: eth_address where
  "SP1_GIT_COMMIT = 0x8252c2905ce32964df68248117015c61ebb854db"

definition SP1_COMPRESSED_CIRCUIT_VERSION :: u16 where
  "SP1_COMPRESSED_CIRCUIT_VERSION = 1"

definition SP1_COMPRESSED_CODEC_VERSION :: u16 where
  "SP1_COMPRESSED_CODEC_VERSION = 1"

definition SHA256_DIGEST_TAG :: u8 where
  "SHA256_DIGEST_TAG = 1"

definition MAX_ETHEREUM_FINALITY_SLOT_GAP :: u64 where
  "MAX_ETHEREUM_FINALITY_SLOT_GAP = 4096"

definition MAX_FINALIZED_TO_BMM_MTP_AGE_SECONDS :: u64 where
  "MAX_FINALIZED_TO_BMM_MTP_AGE_SECONDS = 6 * 60 * 60"

definition MINIMUM_BITCOIN_CONFIRMATIONS :: u32 where
  "MINIMUM_BITCOIN_CONFIRMATIONS = 100"

definition MAX_BURN_APPENDS_PER_STATE_TRANSITION :: nat where
  "MAX_BURN_APPENDS_PER_STATE_TRANSITION = 64"

definition ELEMENTS_MAX_EXPLICIT_OUTPUT_TOTAL_BASE :: u64 where
  "ELEMENTS_MAX_EXPLICIT_OUTPUT_TOTAL_BASE = 21000000 * USDD_SCALE"

definition MINT_TRANSACTION_EXPLICIT_HEADROOM_BASE :: u64 where
  "MINT_TRANSACTION_EXPLICIT_HEADROOM_BASE = 1000000 * USDD_SCALE"

definition MAX_MINT_BATCH_USDD_BASE :: u64 where
  "MAX_MINT_BATCH_USDD_BASE =
     ELEMENTS_MAX_EXPLICIT_OUTPUT_TOTAL_BASE - MINT_TRANSACTION_EXPLICIT_HEADROOM_BASE"

definition MAX_MINT_BATCH_USDT_MICRO :: u64 where
  "MAX_MINT_BATCH_USDT_MICRO = MAX_MINT_BATCH_USDD_BASE div USDD_UNITS_PER_USDT_MICRO"

definition MAX_DEPOSIT_AMOUNT_USDT_MICRO :: u64 where
  "MAX_DEPOSIT_AMOUNT_USDT_MICRO = MAX_MINT_BATCH_USDT_MICRO"

definition MAX_BURN_AMOUNT_USDD_BASE :: u64 where
  "MAX_BURN_AMOUNT_USDD_BASE = MAX_MINT_BATCH_USDD_BASE"

definition MAX_BURN_AMOUNT_USDT_MICRO :: u64 where
  "MAX_BURN_AMOUNT_USDT_MICRO = MAX_MINT_BATCH_USDT_MICRO"

definition ACTIVE_LIABILITY_CAP_USDT_MICRO :: u64 where
  "ACTIVE_LIABILITY_CAP_USDT_MICRO = 1000000000000000"

definition usdt_micro_to_usdd_base :: "u64 \<Rightarrow> u64 option" where
  "usdt_micro_to_usdd_base amount = checked_mul amount USDD_UNITS_PER_USDT_MICRO"

definition usdd_base_to_usdt_micro :: "u64 \<Rightarrow> u64 option" where
  "usdd_base_to_usdt_micro amount =
     (if amount mod USDD_UNITS_PER_USDT_MICRO \<noteq> 0 then None
      else Some (amount div USDD_UNITS_PER_USDT_MICRO))"

subsection \<open>Values of the constants\<close>

lemma amount_consts:
  "MAX_MINT_BATCH_USDD_BASE = 2000000000000000"
  "MAX_MINT_BATCH_USDT_MICRO = 20000000000000"
  "MAX_DEPOSIT_AMOUNT_USDT_MICRO = 20000000000000"
  "MAX_BURN_AMOUNT_USDD_BASE = 2000000000000000"
  "MAX_BURN_AMOUNT_USDT_MICRO = 20000000000000"
  by (simp_all add: MAX_MINT_BATCH_USDD_BASE_def MAX_MINT_BATCH_USDT_MICRO_def
      MAX_DEPOSIT_AMOUNT_USDT_MICRO_def MAX_BURN_AMOUNT_USDD_BASE_def
      MAX_BURN_AMOUNT_USDT_MICRO_def ELEMENTS_MAX_EXPLICIT_OUTPUT_TOTAL_BASE_def
      MINT_TRANSACTION_EXPLICIT_HEADROOM_BASE_def USDD_SCALE_def USDD_UNITS_PER_USDT_MICRO_def)

lemma unat_amount_consts [simp]:
  "unat USDD_UNITS_PER_USDT_MICRO = 100"
  "unat MAX_MINT_BATCH_USDD_BASE = 2000000000000000"
  "unat MAX_MINT_BATCH_USDT_MICRO = 20000000000000"
  "unat MAX_DEPOSIT_AMOUNT_USDT_MICRO = 20000000000000"
  "unat MAX_BURN_AMOUNT_USDD_BASE = 2000000000000000"
  "unat MAX_BURN_AMOUNT_USDT_MICRO = 20000000000000"
  "unat MAX_ETHEREUM_FINALITY_SLOT_GAP = 4096"
  "unat MAX_FINALIZED_TO_BMM_MTP_AGE_SECONDS = 21600"
  by (simp_all add: amount_consts USDD_UNITS_PER_USDT_MICRO_def
      MAX_ETHEREUM_FINALITY_SLOT_GAP_def MAX_FINALIZED_TO_BMM_MTP_AGE_SECONDS_def)

text \<open>The cap on a batch leaves the promised headroom below the explicit-output rule.\<close>

lemma batch_cap_headroom:
  "unat MAX_MINT_BATCH_USDD_BASE + unat MINT_TRANSACTION_EXPLICIT_HEADROOM_BASE
     = unat ELEMENTS_MAX_EXPLICIT_OUTPUT_TOTAL_BASE"
  by (simp add: MINT_TRANSACTION_EXPLICIT_HEADROOM_BASE_def
      ELEMENTS_MAX_EXPLICIT_OUTPUT_TOTAL_BASE_def USDD_SCALE_def)

subsection \<open>Conversion\<close>

lemma to_base_iff [ok_iff]:
  "usdt_micro_to_usdd_base a = Some b \<longleftrightarrow> unat b = 100 * unat a"
  by (simp add: usdt_micro_to_usdd_base_def ok_iff mult.commute)

lemma to_base_None:
  "usdt_micro_to_usdd_base a = None \<longleftrightarrow> 2 ^ 64 \<le> 100 * unat a"
  by (auto simp: usdt_micro_to_usdd_base_def checked_mul_def)

lemma to_micro_iff [ok_iff]:
  "usdd_base_to_usdt_micro b = Some a \<longleftrightarrow> unat b = 100 * unat a"
proof
  assume "usdd_base_to_usdt_micro b = Some a"
  then have "b mod USDD_UNITS_PER_USDT_MICRO = 0" "a = b div USDD_UNITS_PER_USDT_MICRO"
    by (auto simp: usdd_base_to_usdt_micro_def split: if_splits)
  then have "unat b mod 100 = 0" "unat a = unat b div 100"
    by (auto simp: word_unat_eq_iff unat_mod unat_div)
  then show "unat b = 100 * unat a" using mult_div_mod_eq [of 100 "unat b"] by simp
next
  assume "unat b = 100 * unat a"
  then have "unat (b mod USDD_UNITS_PER_USDT_MICRO) = 0"
    "unat (b div USDD_UNITS_PER_USDT_MICRO) = unat a"
    by (simp_all add: unat_mod unat_div)
  then show "usdd_base_to_usdt_micro b = Some a"
    by (simp add: usdd_base_to_usdt_micro_def unat_eq_iff [symmetric])
qed

lemma to_micro_None: "usdd_base_to_usdt_micro b = None \<longleftrightarrow> \<not> 100 dvd unat b"
  by (simp add: usdd_base_to_usdt_micro_def word_unat_eq_iff unat_mod dvd_eq_mod_eq_0)

lemma deposit_convertible:
  assumes "a \<le> MAX_DEPOSIT_AMOUNT_USDT_MICRO"
  shows "\<exists>b. usdt_micro_to_usdd_base a = Some b \<and> unat b = 100 * unat a
    \<and> b \<le> MAX_MINT_BATCH_USDD_BASE"
proof -
  have "unat a \<le> 20000000000000" using assms by (simp add: word_le_nat_alt)
  then obtain b where b: "usdt_micro_to_usdd_base a = Some b"
    using to_base_None [of a] by (cases "usdt_micro_to_usdd_base a") auto
  with \<open>unat a \<le> _\<close> show ?thesis by (auto simp: ok_iff word_le_nat_alt)
qed

subsection \<open>Properties\<close>

text \<open>
  The two conversions are inverse to each other. A micro-USDT amount converts to a USDD
  amount exactly when that amount converts back, and both then differ by the factor 100; in
  particular neither direction rounds or wraps.
\<close>

theorem conversions_inverse:
  "usdt_micro_to_usdd_base a = Some b \<longleftrightarrow> usdd_base_to_usdt_micro b = Some a \<and> unat b = 100 * unat a"
  by (simp add: to_base_iff to_micro_iff)

end
