(* ===== verification/Deposit.thy ===== *)
theory Deposit
  imports Amounts
begin

section \<open>Deposits, finality witnesses and mint batches (usdd-core/src/types.rs)\<close>

text \<open>
  Record headers, out points, vault deposits, Ethereum finality witnesses, mint outputs and
  mint batches: their data, validation, canonical codec, and the construction of a batch from
  deposits. A validator keeps the order of the code's checks and its error messages; the
  lemma \<open>\<dots>_validate_ok\<close> states what a successful validation establishes.
\<close>

definition PROTOCOL_VERSION :: u32 where
  "PROTOCOL_VERSION = 1"

definition MAX_MINT_BATCH_SIZE :: nat where
  "MAX_MINT_BATCH_SIZE = 64"

definition MAX_ELEMENTS_SCRIPT_LENGTH :: nat where
  "MAX_ELEMENTS_SCRIPT_LENGTH = 128"

definition SOLIDITY_DEPOSIT_ID_DOMAIN :: hash32 where
  "SOLIDITY_DEPOSIT_ID_DOMAIN =
     0xc0bb4b992ddfe42d70536346a594fd9750dbf7e10534ed34aecdc78d203b88e0"

definition TAG_VAULT_DEPOSIT :: u16 where
  "TAG_VAULT_DEPOSIT = 0x0101"

definition TAG_ETHEREUM_FINALITY :: u16 where
  "TAG_ETHEREUM_FINALITY = 0x0102"

definition TAG_MINT_OUTPUT :: u16 where
  "TAG_MINT_OUTPUT = 0x0103"

definition TAG_MINT_BATCH :: u16 where
  "TAG_MINT_BATCH = 0x0104"

subsection \<open>Headers, addresses, out points\<close>

definition encode_header :: "u16 \<Rightarrow> bytes" where
  "encode_header tag = enc_u16 ENCODING_SCHEMA @ enc_u16 tag"

definition decode_header :: "u16 \<Rightarrow> unit decode_fn" where
  "decode_header expected_tag d =
     and_then (dec_u16 d) (\<lambda>(schema, d).
     if schema \<noteq> ENCODING_SCHEMA then Inl (InvalidValue ''unsupported encoding schema'')
     else and_then (dec_u16 d) (\<lambda>(tag, d).
       if tag \<noteq> expected_tag then Inl (InvalidTag ''record'' (ucast tag)) else Inr ((), d)))"

definition address_to_hex :: "eth_address \<Rightarrow> bytes" where
  "address_to_hex a = encode_hex (enc_address a)"

definition address_display :: "eth_address \<Rightarrow> bytes" where
  "address_display a = ascii ''0x'' @ address_to_hex a"

definition address_from_str :: "bytes \<Rightarrow> hex_error + eth_address" where
  "address_from_str s =
     and_then (decode_hex s) (\<lambda>bs.
       if length bs \<noteq> 20 then Inl (WrongLength 20 (length bs))
       else Inr (from_be_bytes bs))"

record out_point =
  op_txid :: hash32
  op_vout :: u32

definition enc_out_point :: "out_point \<Rightarrow> bytes" where
  "enc_out_point op = enc_hash32 (op_txid op) @ enc_u32 (op_vout op)"

definition dec_out_point :: "out_point decode_fn" where
  "dec_out_point d =
     and_then (dec_hash32 d) (\<lambda>(txid, d).
     and_then (dec_u32 d) (\<lambda>(vout, d).
       Inr (\<lparr>op_txid = txid, op_vout = vout\<rparr>, d)))"

subsection \<open>struct VaultDeposit\<close>

record vault_deposit =
  vd_ethereum_chain_id :: u64
  vd_vault :: eth_address
  vd_usdt :: eth_address
  vd_nonce :: u64
  vd_depositor :: eth_address
  vd_usdt_amount_micro :: u64
  vd_elements_script :: bytes
  vd_user_salt :: hash32

definition vd_validate :: "vault_deposit \<Rightarrow> decode_error + unit" where
  "vd_validate v =
     (if vd_ethereum_chain_id v = 0 then Inl (InvalidValue ''Ethereum chain ID is zero'')
      else if vd_vault v = 0 \<or> vd_usdt v = 0 \<or> vd_depositor v = 0
      then Inl (InvalidValue ''zero Ethereum address'')
      else if vd_usdt_amount_micro v = 0
        \<or> MAX_DEPOSIT_AMOUNT_USDT_MICRO < vd_usdt_amount_micro v
        \<or> usdt_micro_to_usdd_base (vd_usdt_amount_micro v) = None
      then Inl (InvalidValue ''invalid, excessive, or overflowing USDT amount'')
      else if vd_elements_script v = []
        \<or> MAX_ELEMENTS_SCRIPT_LENGTH < length (vd_elements_script v)
      then Inl (InvalidValue ''invalid Elements script length'')
      else Inr ())"

definition vd_elements_script_hash :: "(bytes \<Rightarrow> hash32) \<Rightarrow> vault_deposit \<Rightarrow> hash32" where
  "vd_elements_script_hash H v = hash_bytes H (vd_elements_script v)"

text \<open>The 208-byte commitment; \<open>uint256(chainid)\<close> is the chain id left-padded with 24 zeros.\<close>

definition deposit_id_preimage :: "(bytes \<Rightarrow> hash32) \<Rightarrow> vault_deposit \<Rightarrow> bytes" where
  "deposit_id_preimage H v = concat
     [enc_hash32 SOLIDITY_DEPOSIT_ID_DOMAIN,
      enc_u32 PROTOCOL_VERSION,
      replicate 24 0 @ enc_u64 (vd_ethereum_chain_id v),
      enc_address (vd_vault v),
      enc_address (vd_usdt v),
      enc_u64 (vd_nonce v),
      enc_address (vd_depositor v),
      enc_u64 (vd_usdt_amount_micro v),
      enc_hash32 (vd_elements_script_hash H v),
      enc_hash32 (vd_user_salt v)]"

definition deposit_id :: "(bytes \<Rightarrow> hash32) \<Rightarrow> vault_deposit \<Rightarrow> hash32" where
  "deposit_id H v = hash_bytes H (deposit_id_preimage H v)"

definition vd_usdd_amount_base :: "vault_deposit \<Rightarrow> u64" where
  "vd_usdd_amount_base v = expect (usdt_micro_to_usdd_base (vd_usdt_amount_micro v))"

definition enc_vault_deposit :: "vault_deposit \<Rightarrow> bytes option" where
  "enc_vault_deposit v = enc_seq
     [Some (encode_header TAG_VAULT_DEPOSIT),
      Some (enc_u64 (vd_ethereum_chain_id v)),
      Some (enc_address (vd_vault v)),
      Some (enc_address (vd_usdt v)),
      Some (enc_u64 (vd_nonce v)),
      Some (enc_address (vd_depositor v)),
      Some (enc_u64 (vd_usdt_amount_micro v)),
      enc_vec (vd_elements_script v),
      Some (enc_hash32 (vd_user_salt v))]"

definition dec_vault_deposit :: "vault_deposit decode_fn" where
  "dec_vault_deposit d =
     and_then (decode_header TAG_VAULT_DEPOSIT d) (\<lambda>(_, d).
     and_then (dec_u64 d) (\<lambda>(ethereum_chain_id, d).
     and_then (dec_address d) (\<lambda>(vault, d).
     and_then (dec_address d) (\<lambda>(usdt, d).
     and_then (dec_u64 d) (\<lambda>(nonce, d).
     and_then (dec_address d) (\<lambda>(depositor, d).
     and_then (dec_u64 d) (\<lambda>(usdt_amount_micro, d).
     and_then (dec_vec d) (\<lambda>(elements_script, d).
     and_then (dec_hash32 d) (\<lambda>(user_salt, d).
     let v = \<lparr>vd_ethereum_chain_id = ethereum_chain_id, vd_vault = vault, vd_usdt = usdt,
              vd_nonce = nonce, vd_depositor = depositor,
              vd_usdt_amount_micro = usdt_amount_micro,
              vd_elements_script = elements_script, vd_user_salt = user_salt\<rparr>
     in and_then (vd_validate v) (\<lambda>_. Inr (v, d)))))))))))"

subsection \<open>struct EthereumFinalityWitness\<close>

record finality_witness =
  fw_ethereum_light_client_digest :: hash32
  fw_finalized_beacon_slot :: u64
  fw_finalized_beacon_root :: hash32
  fw_finalized_execution_block :: hash32
  fw_finalized_execution_state_root :: hash32
  fw_execution_block_number :: u64
  fw_execution_block_timestamp :: u64

definition fw_validate :: "finality_witness \<Rightarrow> decode_error + unit" where
  "fw_validate w =
     (if fw_finalized_beacon_slot w = 0
         \<or> fw_ethereum_light_client_digest w = 0
         \<or> fw_finalized_beacon_root w = 0
         \<or> fw_finalized_execution_block w = 0
         \<or> fw_finalized_execution_state_root w = 0
      then Inl (InvalidValue ''invalid Ethereum finality witness'')
      else Inr ())"

definition enc_finality_witness :: "finality_witness \<Rightarrow> bytes" where
  "enc_finality_witness w = concat
     [encode_header TAG_ETHEREUM_FINALITY,
      enc_hash32 (fw_ethereum_light_client_digest w),
      enc_u64 (fw_finalized_beacon_slot w),
      enc_hash32 (fw_finalized_beacon_root w),
      enc_hash32 (fw_finalized_execution_block w),
      enc_hash32 (fw_finalized_execution_state_root w),
      enc_u64 (fw_execution_block_number w),
      enc_u64 (fw_execution_block_timestamp w)]"

definition dec_finality_witness :: "finality_witness decode_fn" where
  "dec_finality_witness d =
     and_then (decode_header TAG_ETHEREUM_FINALITY d) (\<lambda>(_, d).
     and_then (dec_hash32 d) (\<lambda>(digest, d).
     and_then (dec_u64 d) (\<lambda>(slot, d).
     and_then (dec_hash32 d) (\<lambda>(beacon_root, d).
     and_then (dec_hash32 d) (\<lambda>(execution_block, d).
     and_then (dec_hash32 d) (\<lambda>(state_root, d).
     and_then (dec_u64 d) (\<lambda>(number, d).
     and_then (dec_u64 d) (\<lambda>(timestamp, d).
     let w = \<lparr>fw_ethereum_light_client_digest = digest, fw_finalized_beacon_slot = slot,
              fw_finalized_beacon_root = beacon_root,
              fw_finalized_execution_block = execution_block,
              fw_finalized_execution_state_root = state_root,
              fw_execution_block_number = number, fw_execution_block_timestamp = timestamp\<rparr>
     in and_then (fw_validate w) (\<lambda>_. Inr (w, d))))))))))"

subsection \<open>struct MintOutput\<close>

record mint_output =
  mo_deposit_id :: hash32
  mo_nonce :: u64
  mo_usdt_amount_micro :: u64
  mo_usdd_amount_base :: u64
  mo_elements_script :: bytes

definition mo_from_deposit ::
  "(bytes \<Rightarrow> hash32) \<Rightarrow> vault_deposit \<Rightarrow> decode_error + mint_output" where
  "mo_from_deposit H v =
     and_then (vd_validate v) (\<lambda>_.
       Inr \<lparr>mo_deposit_id = deposit_id H v, mo_nonce = vd_nonce v,
            mo_usdt_amount_micro = vd_usdt_amount_micro v,
            mo_usdd_amount_base = vd_usdd_amount_base v,
            mo_elements_script = vd_elements_script v\<rparr>)"

definition mo_validate :: "mint_output \<Rightarrow> decode_error + unit" where
  "mo_validate m =
     (if mo_deposit_id m = 0 then Inl (InvalidValue ''zero deposit ID'')
      else if mo_usdt_amount_micro m = 0
        \<or> MAX_DEPOSIT_AMOUNT_USDT_MICRO < mo_usdt_amount_micro m
        \<or> usdt_micro_to_usdd_base (mo_usdt_amount_micro m) \<noteq> Some (mo_usdd_amount_base m)
      then Inl (InvalidValue ''USDT/USDD conversion mismatch'')
      else if mo_elements_script m = []
        \<or> MAX_ELEMENTS_SCRIPT_LENGTH < length (mo_elements_script m)
      then Inl (InvalidValue ''invalid Elements script length'')
      else Inr ())"

definition enc_mint_output :: "mint_output \<Rightarrow> bytes option" where
  "enc_mint_output m = enc_seq
     [Some (encode_header TAG_MINT_OUTPUT),
      Some (enc_hash32 (mo_deposit_id m)),
      Some (enc_u64 (mo_nonce m)),
      Some (enc_u64 (mo_usdt_amount_micro m)),
      Some (enc_u64 (mo_usdd_amount_base m)),
      enc_vec (mo_elements_script m)]"

definition dec_mint_output :: "mint_output decode_fn" where
  "dec_mint_output d =
     and_then (decode_header TAG_MINT_OUTPUT d) (\<lambda>(_, d).
     and_then (dec_hash32 d) (\<lambda>(deposit_id, d).
     and_then (dec_u64 d) (\<lambda>(nonce, d).
     and_then (dec_u64 d) (\<lambda>(usdt_amount_micro, d).
     and_then (dec_u64 d) (\<lambda>(usdd_amount_base, d).
     and_then (dec_vec d) (\<lambda>(elements_script, d).
     let m = \<lparr>mo_deposit_id = deposit_id, mo_nonce = nonce,
              mo_usdt_amount_micro = usdt_amount_micro,
              mo_usdd_amount_base = usdd_amount_base,
              mo_elements_script = elements_script\<rparr>
     in and_then (mo_validate m) (\<lambda>_. Inr (m, d))))))))"

subsection \<open>struct MintBatch\<close>

record mint_batch =
  mb_first_nonce :: u64
  mb_next_nonce :: u64
  mb_outputs :: "mint_output list"
  mb_total_usdt_amount_micro :: u64
  mb_total_usdd_amount_base :: u64

text \<open>The loop of \<open>from_deposits\<close> over \<open>deposits.iter().enumerate()\<close>.\<close>

fun from_deposits_loop ::
  "(bytes \<Rightarrow> hash32) \<Rightarrow> vault_deposit \<Rightarrow> (nat \<times> vault_deposit) list
     \<Rightarrow> decode_error + mint_output list" where
  "from_deposits_loop H fst_d [] = Inr []"
| "from_deposits_loop H fst_d ((offset, deposit) # deposits) =
     and_then (vd_validate deposit) (\<lambda>_.
     and_then (if offset < 2 ^ 64 then Inr (of_nat offset)
               else Inl (InvalidValue ''batch offset overflow'')) (\<lambda>offset.
     and_then (ok_or (checked_add (vd_nonce fst_d) offset)
       (InvalidValue ''batch nonce overflow'')) (\<lambda>expected_nonce.
     if vd_nonce deposit \<noteq> expected_nonce
     then Inl (InvalidValue ''mint batch deposit nonces are not consecutive'')
     else if vd_ethereum_chain_id deposit \<noteq> vd_ethereum_chain_id fst_d
       \<or> vd_vault deposit \<noteq> vd_vault fst_d \<or> vd_usdt deposit \<noteq> vd_usdt fst_d
     then Inl (InvalidValue ''mint batch mixes chains, vaults, or tokens'')
     else and_then (mo_from_deposit H deposit) (\<lambda>output.
          and_then (from_deposits_loop H fst_d deposits) (\<lambda>outputs.
            Inr (output # outputs))))))"

definition checked_total ::
  "string \<Rightarrow> ('a \<Rightarrow> u64) \<Rightarrow> 'a list \<Rightarrow> decode_error + u64" where
  "checked_total message f xs =
     try_fold (\<lambda>total x. ok_or (checked_add total (f x)) (InvalidValue message)) 0 xs"

definition mb_from_deposits ::
  "(bytes \<Rightarrow> hash32) \<Rightarrow> vault_deposit list \<Rightarrow> decode_error + mint_batch" where
  "mb_from_deposits H deposits =
     (if deposits = [] \<or> MAX_MINT_BATCH_SIZE < length deposits
      then Inl (InvalidValue ''mint batch size must be 1..64'')
      else let fst_d = deposits ! 0
        in and_then (vd_validate fst_d) (\<lambda>_.
           and_then (from_deposits_loop H fst_d (List.enumerate 0 deposits)) (\<lambda>outputs.
           and_then (ok_or (checked_add (vd_nonce fst_d) (of_nat (length deposits)))
             (InvalidValue ''batch next nonce overflow'')) (\<lambda>next_nonce.
           and_then (checked_total ''batch USDT total overflow'' mo_usdt_amount_micro outputs)
             (\<lambda>total_usdt.
           and_then (checked_total ''batch USDD total overflow'' mo_usdd_amount_base outputs)
             (\<lambda>total_usdd.
           if MAX_MINT_BATCH_USDT_MICRO < total_usdt \<or> MAX_MINT_BATCH_USDD_BASE < total_usdd
           then Inl (InvalidValue ''mint batch exceeds Elements explicit-output budget'')
           else Inr \<lparr>mb_first_nonce = vd_nonce fst_d, mb_next_nonce = next_nonce,
                     mb_outputs = outputs, mb_total_usdt_amount_micro = total_usdt,
                     mb_total_usdd_amount_base = total_usdd\<rparr>))))))"

definition mb_validate_step ::
  "u64 \<Rightarrow> u64 \<times> u64 \<Rightarrow> nat \<times> mint_output \<Rightarrow> decode_error + u64 \<times> u64" where
  "mb_validate_step first_nonce totals item =
     (case totals of (usdt_total, usdd_total) \<Rightarrow> case item of (offset, output) \<Rightarrow>
      and_then (mo_validate output) (\<lambda>_.
      and_then (ok_or (checked_add first_nonce (of_nat offset))
        (InvalidValue ''batch nonce overflow'')) (\<lambda>expected_nonce.
      if mo_nonce output \<noteq> expected_nonce
      then Inl (InvalidValue ''mint output nonces are not consecutive'')
      else and_then (ok_or (checked_add usdt_total (mo_usdt_amount_micro output))
             (InvalidValue ''batch USDT total overflow'')) (\<lambda>usdt_total.
           and_then (ok_or (checked_add usdd_total (mo_usdd_amount_base output))
             (InvalidValue ''batch USDD total overflow'')) (\<lambda>usdd_total.
             Inr (usdt_total, usdd_total))))))"

definition mb_validate :: "mint_batch \<Rightarrow> decode_error + unit" where
  "mb_validate b =
     (if mb_outputs b = [] \<or> MAX_MINT_BATCH_SIZE < length (mb_outputs b)
      then Inl (InvalidValue ''mint batch size must be 1..64'')
      else and_then (ok_or (checked_add (mb_first_nonce b) (of_nat (length (mb_outputs b))))
             (InvalidValue ''batch next nonce overflow'')) (\<lambda>expected_next.
        if mb_next_nonce b \<noteq> expected_next then Inl (InvalidValue ''wrong batch next nonce'')
        else and_then (try_fold (mb_validate_step (mb_first_nonce b)) (0, 0)
               (List.enumerate 0 (mb_outputs b))) (\<lambda>(usdt_total, usdd_total).
          if usdt_total \<noteq> mb_total_usdt_amount_micro b
             \<or> usdd_total \<noteq> mb_total_usdd_amount_base b
             \<or> usdt_micro_to_usdd_base usdt_total \<noteq> Some usdd_total
          then Inl (InvalidValue ''wrong mint batch totals'')
          else if MAX_MINT_BATCH_USDT_MICRO < usdt_total \<or> MAX_MINT_BATCH_USDD_BASE < usdd_total
          then Inl (InvalidValue ''mint batch exceeds Elements explicit-output budget'')
          else Inr ())))"

definition enc_mint_batch :: "mint_batch \<Rightarrow> bytes option" where
  "enc_mint_batch b = enc_seq
     [Some (encode_header TAG_MINT_BATCH),
      Some (enc_u64 (mb_first_nonce b)),
      Some (enc_u64 (mb_next_nonce b)),
      (if length (mb_outputs b) < 256 then Some (enc_u8 (of_nat (length (mb_outputs b))))
       else None),
      enc_seq (map enc_mint_output (mb_outputs b)),
      Some (enc_u64 (mb_total_usdt_amount_micro b)),
      Some (enc_u64 (mb_total_usdd_amount_base b))]"

definition dec_mint_batch :: "mint_batch decode_fn" where
  "dec_mint_batch d =
     and_then (decode_header TAG_MINT_BATCH d) (\<lambda>(_, d).
     and_then (dec_u64 d) (\<lambda>(first_nonce, d).
     and_then (dec_u64 d) (\<lambda>(next_nonce, d).
     and_then (dec_u8 d) (\<lambda>(count, d).
     let count = unat count
     in if count = 0 \<or> MAX_MINT_BATCH_SIZE < count
        then Inl (InvalidValue ''mint batch size must be 1..64'')
        else and_then (decode_n dec_mint_output count d) (\<lambda>(outputs, d).
          and_then (dec_u64 d) (\<lambda>(total_usdt, d).
          and_then (dec_u64 d) (\<lambda>(total_usdd, d).
          let b = \<lparr>mb_first_nonce = first_nonce, mb_next_nonce = next_nonce,
                   mb_outputs = outputs, mb_total_usdt_amount_micro = total_usdt,
                   mb_total_usdd_amount_base = total_usdd\<rparr>
          in and_then (mb_validate b) (\<lambda>_. Inr (b, d)))))))))"

subsection \<open>What validation establishes\<close>

lemma decode_header_Inr [reads_enc]:
  "reads d (encode_header tag) d' \<longleftrightarrow> decode_header tag d = Inr ((), d')"
  by (auto simp: encode_header_def decode_header_def ok_iff reads_append reads_enc)

lemma vd_validate_ok [ok_iff]:
  "vd_validate v = Inr u \<longleftrightarrow>
     vd_ethereum_chain_id v \<noteq> 0 \<and> vd_vault v \<noteq> 0 \<and> vd_usdt v \<noteq> 0 \<and> vd_depositor v \<noteq> 0
     \<and> 0 < unat (vd_usdt_amount_micro v) \<and> unat (vd_usdt_amount_micro v) \<le> 20000000000000
     \<and> vd_elements_script v \<noteq> [] \<and> length (vd_elements_script v) \<le> 128"
  by (auto simp: vd_validate_def word_less_nat_alt not_less to_base_None unat_gt_0
      MAX_ELEMENTS_SCRIPT_LENGTH_def split: if_splits)

lemma fw_validate_ok [ok_iff]:
  "fw_validate w = Inr u \<longleftrightarrow>
     fw_finalized_beacon_slot w \<noteq> 0 \<and> fw_ethereum_light_client_digest w \<noteq> 0
     \<and> fw_finalized_beacon_root w \<noteq> 0 \<and> fw_finalized_execution_block w \<noteq> 0
     \<and> fw_finalized_execution_state_root w \<noteq> 0"
  by (auto simp: fw_validate_def)

lemma mo_validate_ok [ok_iff]:
  "mo_validate m = Inr u \<longleftrightarrow>
     mo_deposit_id m \<noteq> 0
     \<and> 0 < unat (mo_usdt_amount_micro m) \<and> unat (mo_usdt_amount_micro m) \<le> 20000000000000
     \<and> unat (mo_usdd_amount_base m) = 100 * unat (mo_usdt_amount_micro m)
     \<and> mo_elements_script m \<noteq> [] \<and> length (mo_elements_script m) \<le> 128"
  by (auto simp: mo_validate_def word_less_nat_alt not_less to_base_iff unat_gt_0
      MAX_ELEMENTS_SCRIPT_LENGTH_def split: if_splits)

lemma mo_from_deposit_ok [ok_iff]:
  "mo_from_deposit H v = Inr m \<longleftrightarrow>
     vd_validate v = Inr () \<and> mo_deposit_id m = deposit_id H v \<and> mo_nonce m = vd_nonce v
     \<and> mo_usdt_amount_micro m = vd_usdt_amount_micro v
     \<and> unat (mo_usdd_amount_base m) = 100 * unat (vd_usdt_amount_micro v)
     \<and> mo_elements_script m = vd_elements_script v"
proof (cases "vd_validate v")
  case (Inr u)
  then have "vd_usdt_amount_micro v \<le> MAX_DEPOSIT_AMOUNT_USDT_MICRO"
    by (simp add: ok_iff word_le_nat_alt)
  then obtain b where "usdt_micro_to_usdd_base (vd_usdt_amount_micro v) = Some b"
    "unat b = 100 * unat (vd_usdt_amount_micro v)"
    using deposit_convertible by blast
  with Inr show ?thesis
    by (cases m) (auto simp: mo_from_deposit_def vd_usdd_amount_base_def unat_eq_iff [symmetric])
qed (simp add: mo_from_deposit_def)

subsection \<open>Batches\<close>

definition total :: "('a \<Rightarrow> u64) \<Rightarrow> 'a list \<Rightarrow> nat" where
  "total f xs = (\<Sum>x\<leftarrow>xs. unat (f x))"

lemma total_simps [simp]: "total f [] = 0" "total f (x # xs) = unat (f x) + total f xs"
  "total f (xs @ ys) = total f xs + total f ys"
  by (simp_all add: total_def)

lemma ex_u64_partial_sum:
  "(\<exists>c :: u64. unat c = x \<and> unat (y :: u64) = unat c + z) \<longleftrightarrow> unat y = x + z"
proof
  assume "unat y = x + z"
  then have "x < 2 ^ 64" using u64_less_pow [of y] by simp
  with \<open>unat y = x + z\<close> show "\<exists>c :: u64. unat c = x \<and> unat y = unat c + z"
    by (intro exI [of _ "of_nat x"]) (simp add: unat_of_nat_u64)
qed auto

lemma checked_total_from:
  "try_fold (\<lambda>t x. ok_or (checked_add t (f x)) (InvalidValue message)) a xs = Inr t \<longleftrightarrow>
     unat t = unat a + total f xs"
proof (induction xs arbitrary: a)
  case Nil
  then show ?case by (auto simp: unat_eq_iff)
next
  case (Cons x xs)
  then show ?case
    unfolding try_fold.simps and_then_Inr ok_or_Inr checked_add_Some Cons.IH
      ex_u64_partial_sum by (simp add: add.assoc)
qed

lemma checked_total_ok [ok_iff]: "checked_total message f xs = Inr t \<longleftrightarrow> unat t = total f xs"
  by (simp add: checked_total_def checked_total_from)

text \<open>\<open>numbered f n xs\<close>: the nonces of \<open>xs\<close> are \<open>n, n + 1, \<dots>\<close>, as integers.\<close>

definition numbered :: "('a \<Rightarrow> u64) \<Rightarrow> nat \<Rightarrow> 'a list \<Rightarrow> bool" where
  "numbered f n xs \<longleftrightarrow> map (\<lambda>x. unat (f x)) xs = [n..<n + length xs]"

lemma numbered_simps [simp]:
  "numbered f n []"
  "numbered f n (x # xs) \<longleftrightarrow> unat (f x) = n \<and> numbered f (Suc n) xs"
  by (auto simp: numbered_def upt_conv_Cons simp del: upt_Suc)

lemma numbered_nth: "numbered f n xs \<Longrightarrow> i < length xs \<Longrightarrow> unat (f (xs ! i)) = n + i"
  by (metis length_map nth_map nth_upt numbered_def add_less_cancel_left)

lemma mb_validate_step_ok [ok_iff]:
  assumes "k < 2 ^ 64"
  shows "mb_validate_step n (a, b) (k, m) = Inr (a', b') \<longleftrightarrow>
     mo_validate m = Inr () \<and> unat (mo_nonce m) = unat n + k
     \<and> unat a' = unat a + unat (mo_usdt_amount_micro m)
     \<and> unat b' = unat b + unat (mo_usdd_amount_base m)"
  using assms by (simp add: mb_validate_step_def ok_iff unat_of_nat_u64)

lemma mb_validate_fold:
  "k + length ms < 2 ^ 64 \<Longrightarrow>
     try_fold (mb_validate_step n) (a, b) (List.enumerate k ms) = Inr (a', b') \<longleftrightarrow>
       (\<forall>m \<in> set ms. mo_validate m = Inr ()) \<and> numbered mo_nonce (unat n + k) ms
       \<and> unat a' = unat a + total mo_usdt_amount_micro ms
       \<and> unat b' = unat b + total mo_usdd_amount_base ms"
proof (induction ms arbitrary: k a b)
  case Nil
  then show ?case by (auto simp: unat_eq_iff)
next
  case (Cons m ms)
  define Q where "Q \<longleftrightarrow> (\<forall>m \<in> set ms. mo_validate m = Inr ()) \<and> numbered mo_nonce (unat n + Suc k) ms"
  have IH: "try_fold (mb_validate_step n) (c, e) (List.enumerate (Suc k) ms) = Inr (a', b') \<longleftrightarrow>
      Q \<and> unat a' = unat c + total mo_usdt_amount_micro ms
        \<and> unat b' = unat e + total mo_usdd_amount_base ms" for c e
    unfolding Q_def using Cons by auto
  have "try_fold (mb_validate_step n) (a, b) (List.enumerate k (m # ms)) = Inr (a', b') \<longleftrightarrow>
      mo_validate m = Inr () \<and> unat (mo_nonce m) = unat n + k \<and> Q
      \<and> (\<exists>c :: u64. unat c = unat a + unat (mo_usdt_amount_micro m)
             \<and> unat a' = unat c + total mo_usdt_amount_micro ms)
      \<and> (\<exists>e :: u64. unat e = unat b + unat (mo_usdd_amount_base m)
             \<and> unat b' = unat e + total mo_usdd_amount_base ms)"
    using Cons.prems by (auto simp: and_then_Inr mb_validate_step_ok IH)
  also have "\<dots> \<longleftrightarrow> (\<forall>m \<in> set (m # ms). mo_validate m = Inr ())
      \<and> numbered mo_nonce (unat n + k) (m # ms)
      \<and> unat a' = unat a + total mo_usdt_amount_micro (m # ms)
      \<and> unat b' = unat b + total mo_usdd_amount_base (m # ms)"
    unfolding ex_u64_partial_sum Q_def by auto
  finally show ?case .
qed

lemma total_conv:
  assumes "\<forall>m \<in> set ms. mo_validate m = Inr ()"
  shows "total mo_usdd_amount_base ms = 100 * total mo_usdt_amount_micro ms"
  using assms by (induction ms) (auto simp: ok_iff)

lemma mb_validate_ok [ok_iff]:
  "mb_validate b = Inr u \<longleftrightarrow>
     mb_outputs b \<noteq> [] \<and> length (mb_outputs b) \<le> 64
     \<and> unat (mb_next_nonce b) = unat (mb_first_nonce b) + length (mb_outputs b)
     \<and> (\<forall>m \<in> set (mb_outputs b). mo_validate m = Inr ())
     \<and> numbered mo_nonce (unat (mb_first_nonce b)) (mb_outputs b)
     \<and> unat (mb_total_usdt_amount_micro b) = total mo_usdt_amount_micro (mb_outputs b)
     \<and> unat (mb_total_usdd_amount_base b) = total mo_usdd_amount_base (mb_outputs b)
     \<and> total mo_usdt_amount_micro (mb_outputs b) \<le> 20000000000000"
  (is "?L \<longleftrightarrow> ?R")
proof
  assume ?L
  then show ?R
    by (auto simp: mb_validate_def MAX_MINT_BATCH_SIZE_def and_then_Inr ok_or_Inr checked_add_Some
        if_Inl_Inr mb_validate_fold unat_of_nat_u64 word_less_nat_alt not_less)
next
  assume R: ?R
  then have "try_fold (mb_validate_step (mb_first_nonce b)) (0, 0) (List.enumerate 0 (mb_outputs b))
      = Inr (mb_total_usdt_amount_micro b, mb_total_usdd_amount_base b)"
    by (subst mb_validate_fold) auto
  moreover have "checked_add (mb_first_nonce b) (of_nat (length (mb_outputs b))) = Some (mb_next_nonce b)"
    using R by (simp add: checked_add_Some unat_of_nat_u64)
  moreover have "unat (mb_total_usdd_amount_base b) = 100 * unat (mb_total_usdt_amount_micro b)"
    using R total_conv [of "mb_outputs b"] by simp
  ultimately show ?L
    using R by (simp add: mb_validate_def MAX_MINT_BATCH_SIZE_def to_base_iff word_less_nat_alt)
qed

lemma mb_totals_convert:
  "mb_validate b = Inr u \<Longrightarrow>
     unat (mb_total_usdd_amount_base b) = 100 * unat (mb_total_usdt_amount_micro b)"
  by (simp add: mb_validate_ok total_conv)

subsection \<open>From deposits to a batch\<close>

text \<open>
  \<open>deposits_ok\<close> is what \<open>from_deposits\<close> accepts, stated on integers: a non-empty run of at
  most 64 valid deposits of one vault with consecutive nonces, whose successor nonce and total
  fit.
\<close>

definition same_vault :: "vault_deposit \<Rightarrow> vault_deposit \<Rightarrow> bool" where
  "same_vault v w \<longleftrightarrow> vd_ethereum_chain_id v = vd_ethereum_chain_id w
     \<and> vd_vault v = vd_vault w \<and> vd_usdt v = vd_usdt w"

definition deposits_ok :: "vault_deposit list \<Rightarrow> bool" where
  "deposits_ok vs \<longleftrightarrow> vs \<noteq> [] \<and> length vs \<le> 64
     \<and> (\<forall>v \<in> set vs. vd_validate v = Inr () \<and> same_vault v (hd vs))
     \<and> numbered vd_nonce (unat (vd_nonce (hd vs))) vs
     \<and> unat (vd_nonce (hd vs)) + length vs < 2 ^ 64
     \<and> total vd_usdt_amount_micro vs \<le> 20000000000000"

lemma from_deposits_loop_ok:
  "k + length vs < 2 ^ 64 \<Longrightarrow>
     from_deposits_loop H v0 (List.enumerate k vs) = Inr ms \<longleftrightarrow>
       (\<forall>v \<in> set vs. same_vault v v0) \<and> numbered vd_nonce (unat (vd_nonce v0) + k) vs
       \<and> list_all2 (\<lambda>v m. mo_from_deposit H v = Inr m) vs ms"
proof (induction vs arbitrary: k ms)
  case Nil
  then show ?case by auto
next
  case (Cons v vs)
  have k: "k < 2 ^ 64" "Suc k + length vs < 2 ^ 64" using Cons.prems by auto
  have "unat (of_nat k :: u64) = k" using k(1) by (rule unat_of_nat_u64)
  then have "from_deposits_loop H v0 (List.enumerate k (v # vs)) = Inr ms \<longleftrightarrow>
      vd_validate v = Inr () \<and> unat (vd_nonce v) = unat (vd_nonce v0) + k \<and> same_vault v v0
      \<and> (\<exists>m ms'. mo_from_deposit H v = Inr m
           \<and> from_deposits_loop H v0 (List.enumerate (Suc k) vs) = Inr ms' \<and> ms = m # ms')"
    using k(1) by (auto simp: and_then_Inr ok_or_Inr checked_add_Some if_Inl_Inr same_vault_def)
  then show ?case
    unfolding Cons.IH [OF k(2)] by (auto simp: list_all2_Cons1 mo_from_deposit_ok)
qed

lemma from_deposit_totals:
  assumes "list_all2 (\<lambda>v m. mo_from_deposit H v = Inr m) vs ms"
  shows "total mo_usdt_amount_micro ms = total vd_usdt_amount_micro vs"
    and "total mo_usdd_amount_base ms = 100 * total vd_usdt_amount_micro vs"
    and "numbered mo_nonce n ms \<longleftrightarrow> numbered vd_nonce n vs"
  using assms by (induction vs ms arbitrary: n) (auto simp: mo_from_deposit_ok)

lemma from_deposit_valid:
  "list_all2 (\<lambda>v m. mo_from_deposit H v = Inr m) vs ms \<Longrightarrow> \<forall>v \<in> set vs. vd_validate v = Inr ()"
  by (induction vs ms rule: list_all2_induct) (auto simp: mo_from_deposit_ok)

lemma from_deposit_map:
  "list_all2 (\<lambda>v m. mo_from_deposit H v = Inr m) vs ms \<Longrightarrow>
     map mo_deposit_id ms = map (deposit_id H) vs \<and> map mo_elements_script ms = map vd_elements_script vs"
  by (induction vs ms rule: list_all2_induct) (auto simp: mo_from_deposit_ok)

lemma mb_from_deposits_ok:
  "mb_from_deposits H vs = Inr b \<longleftrightarrow>
     deposits_ok vs
     \<and> list_all2 (\<lambda>v m. mo_from_deposit H v = Inr m) vs (mb_outputs b)
     \<and> mb_first_nonce b = vd_nonce (hd vs)
     \<and> unat (mb_next_nonce b) = unat (vd_nonce (hd vs)) + length vs
     \<and> unat (mb_total_usdt_amount_micro b) = total vd_usdt_amount_micro vs
     \<and> unat (mb_total_usdd_amount_base b) = 100 * total vd_usdt_amount_micro vs"
  (is "?L \<longleftrightarrow> ?R")
proof (cases "vs \<noteq> [] \<and> length vs \<le> 64")
  case True
  then have hd: "vs ! 0 = hd vs" and len: "0 + length vs < 2 ^ 64" by (auto simp: hd_conv_nth)
  have n: "unat (of_nat (length vs) :: u64) = length vs" using len by (intro unat_of_nat_u64) simp
  have L: "?L \<longleftrightarrow> vd_validate (hd vs) = Inr () \<and>
      from_deposits_loop H (hd vs) (List.enumerate 0 vs) = Inr (mb_outputs b)
      \<and> mb_first_nonce b = vd_nonce (hd vs)
      \<and> unat (mb_next_nonce b) = unat (vd_nonce (hd vs)) + length vs
      \<and> unat (mb_total_usdt_amount_micro b) = total mo_usdt_amount_micro (mb_outputs b)
      \<and> unat (mb_total_usdd_amount_base b) = total mo_usdd_amount_base (mb_outputs b)
      \<and> unat (mb_total_usdt_amount_micro b) \<le> 20000000000000
      \<and> unat (mb_total_usdd_amount_base b) \<le> 2000000000000000"
    using True
    by (cases b) (auto simp: mb_from_deposits_def MAX_MINT_BATCH_SIZE_def hd Let_def and_then_Inr
        ok_or_Inr checked_add_Some checked_total_ok if_Inl_Inr n word_less_nat_alt not_less)
  show ?thesis
  proof
    assume ?L
    with from_deposit_totals from_deposit_valid u64_less_pow [of "mb_next_nonce b"] show ?R
      unfolding L from_deposits_loop_ok [OF len] deposits_ok_def using True by auto
  next
    assume R: ?R
    then have "hd vs \<in> set vs" using True by simp
    with R from_deposit_totals(1,2) [of H vs "mb_outputs b"] show ?L
      unfolding L from_deposits_loop_ok [OF len] deposits_ok_def by auto
  qed
qed (auto simp: mb_from_deposits_def MAX_MINT_BATCH_SIZE_def deposits_ok_def)

lemma mb_from_deposits_total:
  assumes "deposits_ok vs"
  shows "\<exists>b. mb_from_deposits H vs = Inr b"
proof -
  have "\<exists>m. mo_from_deposit H v = Inr m" if "v \<in> set vs" for v
    using assms that by (auto simp: deposits_ok_def mo_from_deposit_def)
  then obtain f where f: "\<And>v. v \<in> set vs \<Longrightarrow> mo_from_deposit H v = Inr (f v)" by metis
  have "list_all2 (\<lambda>v m. mo_from_deposit H v = Inr m) vs (map f vs)"
    using f by (simp add: list.rel_map list_all2_same)
  moreover have "total vd_usdt_amount_micro vs \<le> 20000000000000"
    "unat (vd_nonce (hd vs)) + length vs < 2 ^ 64"
    using assms by (simp_all add: deposits_ok_def)
  ultimately have "mb_from_deposits H vs = Inr
      \<lparr>mb_first_nonce = vd_nonce (hd vs), mb_next_nonce = of_nat (unat (vd_nonce (hd vs)) + length vs),
       mb_outputs = map f vs, mb_total_usdt_amount_micro = of_nat (total vd_usdt_amount_micro vs),
       mb_total_usdd_amount_base = of_nat (100 * total vd_usdt_amount_micro vs)\<rparr>"
    using assms unfolding mb_from_deposits_ok
    by (simp add: unat_of_nat_u64 del: of_nat_add of_nat_mult)
  then show ?thesis by blast
qed

lemma from_deposits_batch_valid:
  assumes "mb_from_deposits H vs = Inr b" "\<forall>v \<in> set vs. deposit_id H v \<noteq> 0"
  shows "mb_validate b = Inr ()"
proof -
  have f: "list_all2 (\<lambda>v m. mo_from_deposit H v = Inr m) vs (mb_outputs b)"
    and d: "deposits_ok vs"
    and t: "unat (mb_total_usdt_amount_micro b) = total vd_usdt_amount_micro vs"
      "unat (mb_total_usdd_amount_base b) = 100 * total vd_usdt_amount_micro vs"
    and n: "mb_first_nonce b = vd_nonce (hd vs)"
      "unat (mb_next_nonce b) = unat (vd_nonce (hd vs)) + length vs"
    using assms(1) unfolding mb_from_deposits_ok by blast+
  have "mo_validate m = Inr ()" if "m \<in> set (mb_outputs b)" for m
  proof -
    obtain i where i: "i < length (mb_outputs b)" "m = mb_outputs b ! i"
      using \<open>m \<in> set (mb_outputs b)\<close> by (auto simp: in_set_conv_nth)
    define v where "v = vs ! i"
    have v: "v \<in> set vs" "mo_from_deposit H v = Inr m"
      using list_all2_nthD2 [OF f i(1)] list_all2_lengthD [OF f] i by (simp_all add: v_def)
    from v(2) [unfolded mo_from_deposit_ok vd_validate_ok] show ?thesis
      using assms(2) v(1) by (simp add: mo_validate_ok)
  qed
  then have valid: "\<forall>m \<in> set (mb_outputs b). mo_validate m = Inr ()" by blast
  have len: "length (mb_outputs b) = length vs" using f by (simp add: list_all2_lengthD)
  have numbered: "numbered mo_nonce (unat (mb_first_nonce b)) (mb_outputs b)"
    unfolding from_deposit_totals(3) [OF f] n(1) using d by (simp add: deposits_ok_def)
  have "vs \<noteq> []" "length vs \<le> 64" "total vd_usdt_amount_micro vs \<le> 20000000000000"
    using d by (simp_all add: deposits_ok_def)
  with len have "mb_outputs b \<noteq> []" "length (mb_outputs b) \<le> 64" by auto
  with valid numbered show ?thesis
    unfolding mb_validate_ok from_deposit_totals(1,2) [OF f] len n t
    using \<open>length vs \<le> 64\<close> \<open>total vd_usdt_amount_micro vs \<le> 20000000000000\<close> by blast
qed

subsection \<open>Codecs\<close>

interpretation codec_out_point: codec "\<lambda>p. Some (enc_out_point p)" dec_out_point "\<lambda>_. True"
proof
  fix d p d'
  show "dec_out_point d = Inr (p, d') \<longleftrightarrow> True \<and> reads_opt d (Some (enc_out_point p)) d'"
    by (cases p) (auto simp: dec_out_point_def enc_out_point_def ok_iff reads_append reads_enc)
qed simp

lemma reads_out_point [reads_enc]:
  "reads d (enc_out_point p) d' \<longleftrightarrow> dec_out_point d = Inr (p, d')"
  by (simp add: codec_out_point.dec_iff)

interpretation codec_vault_deposit:
  codec enc_vault_deposit dec_vault_deposit "\<lambda>v. vd_validate v = Inr ()"
proof
  fix d v d'
  show "dec_vault_deposit d = Inr (v, d') \<longleftrightarrow>
      vd_validate v = Inr () \<and> reads_opt d (enc_vault_deposit v) d'"
    by (cases v) (auto simp: dec_vault_deposit_def enc_vault_deposit_def Let_def and_then_Inr
        reads_enc)
next
  fix v assume "vd_validate v = Inr ()"
  then show "enc_vault_deposit v \<noteq> None"
    unfolding enc_vault_deposit_def enc_seq_not_None by (auto simp: enc_vec_def ok_iff)
qed

interpretation codec_finality_witness:
  codec "\<lambda>w. Some (enc_finality_witness w)" dec_finality_witness "\<lambda>w. fw_validate w = Inr ()"
proof
  fix d w d'
  show "dec_finality_witness d = Inr (w, d') \<longleftrightarrow>
      fw_validate w = Inr () \<and> reads_opt d (Some (enc_finality_witness w)) d'"
    by (cases w) (auto simp: dec_finality_witness_def enc_finality_witness_def Let_def
        and_then_Inr reads_append reads_enc)
qed simp

interpretation codec_mint_output:
  codec enc_mint_output dec_mint_output "\<lambda>m. mo_validate m = Inr ()"
proof
  fix d m d'
  show "dec_mint_output d = Inr (m, d') \<longleftrightarrow>
      mo_validate m = Inr () \<and> reads_opt d (enc_mint_output m) d'"
    by (cases m) (auto simp: dec_mint_output_def enc_mint_output_def Let_def and_then_Inr
        reads_enc)
next
  fix m assume "mo_validate m = Inr ()"
  then show "enc_mint_output m \<noteq> None"
    unfolding enc_mint_output_def enc_seq_not_None by (auto simp: enc_vec_def ok_iff)
qed

interpretation codec_mint_batch:
  codec enc_mint_batch dec_mint_batch "\<lambda>b. mb_validate b = Inr ()"
proof
  fix d b d'
  have "mb_validate b = Inr () \<Longrightarrow> length (mb_outputs b) < 256"
    by (simp add: mb_validate_ok)
  then show "dec_mint_batch d = Inr (b, d') \<longleftrightarrow>
      mb_validate b = Inr () \<and> reads_opt d (enc_mint_batch b) d'"
    by (cases b) (auto simp: dec_mint_batch_def enc_mint_batch_def Let_def and_then_Inr
        if_Inl_Inr codec_mint_output.decode_n_iff reads_enc MAX_MINT_BATCH_SIZE_def
        unat_of_nat_byte mb_validate_ok, blast+)
next
  fix b assume b: "mb_validate b = Inr ()"
  then have "enc_seq (map enc_mint_output (mb_outputs b)) \<noteq> None"
    by (intro codec_mint_output.enc_seq_valid) (simp add: mb_validate_ok)
  with b show "enc_mint_batch b \<noteq> None"
    unfolding enc_mint_batch_def enc_seq_not_None [of "_ # _"]
    by (auto simp: mb_validate_ok)
qed

subsection \<open>Properties\<close>

text \<open>
  What \<open>MintBatch::from_deposits\<close> accepts and returns. It succeeds exactly on the runs of
  1 to 64 valid deposits of one vault with consecutive nonces and a total within the cap, and
  the batch then lists one output per deposit, in order, with exact nonces and totals.
\<close>

theorem from_deposits_characterised:
  "mb_from_deposits H vs = Inr b \<longleftrightarrow>
     deposits_ok vs
     \<and> list_all2 (\<lambda>v m. mo_from_deposit H v = Inr m) vs (mb_outputs b)
     \<and> mb_first_nonce b = vd_nonce (hd vs)
     \<and> unat (mb_next_nonce b) = unat (vd_nonce (hd vs)) + length vs
     \<and> unat (mb_total_usdt_amount_micro b) = total vd_usdt_amount_micro vs
     \<and> unat (mb_total_usdd_amount_base b) = 100 * total vd_usdt_amount_micro vs"
  by (rule mb_from_deposits_ok)

definition example_deposit :: vault_deposit where
  "example_deposit =
     \<lparr>vd_ethereum_chain_id = 1, vd_vault = 1, vd_usdt = 2, vd_nonce = 0, vd_depositor = 3,
      vd_usdt_amount_micro = 5, vd_elements_script = [0x51], vd_user_salt = 0\<rparr>"

definition example_batch :: mint_batch where
  "example_batch =
     \<lparr>mb_first_nonce = 0, mb_next_nonce = 1,
      mb_outputs = [\<lparr>mo_deposit_id = 1, mo_nonce = 0, mo_usdt_amount_micro = 5,
        mo_usdd_amount_base = 500, mo_elements_script = [0x51]\<rparr>],
      mb_total_usdt_amount_micro = 5, mb_total_usdd_amount_base = 500\<rparr>"

lemma example_from_deposits: "mb_from_deposits toy_hash [example_deposit] = Inr example_batch"
  by (simp add: mb_from_deposits_ok deposits_ok_def same_vault_def numbered_def vd_validate_ok
      mo_from_deposit_ok deposit_id_def example_deposit_def example_batch_def)

lemma example_batch_valid: "mb_validate example_batch = Inr ()"
  by (simp add: mb_validate_ok mo_validate_ok numbered_def example_batch_def)

text \<open>
  C40: the batch of accepted deposits is a valid batch. Its own validation, which the
  controller repeats, cannot fail unless a deposit id is zero (the one check of an output that
  \<open>from_deposits\<close> does not make).
\<close>

theorem from_deposits_valid:
  assumes "mb_from_deposits H vs = Inr b" "\<forall>v \<in> set vs. deposit_id H v \<noteq> 0"
  shows "mb_validate b = Inr ()"
  using assms by (rule from_deposits_batch_valid)

theorem from_deposits_valid_witness: "mb_validate example_batch = Inr ()"
  by (rule from_deposits_valid [OF example_from_deposits]) (simp add: deposit_id_def)

text \<open>
  Canonical mint batches. Decoding bytes exactly to a batch happens if and only if the
  batch is valid and the bytes are its encoding; so every valid batch has one encoding, which
  decodes back, and no other bytes decode to it.
\<close>

theorem mint_batch_codec:
  "decode_exact dec_mint_batch bs = Inr b \<longleftrightarrow> mb_validate b = Inr () \<and> enc_mint_batch b = Some bs"
  by (rule codec_mint_batch.decode_exact_iff)

end
