(* ===== verification/Burn.thy ===== *)
theory Burn
  imports Deposit
begin

section \<open>Burns, burn claims and Elements events (usdd-core/src/types.rs)\<close>

text \<open>
  The irreversible Elements burn, its 65-byte on-chain payload, the claim the Solidity vault
  consumes and its accumulator leaf, and the generic Elements event record.
\<close>

definition SOLIDITY_BURN_LEAF_DOMAIN :: hash32 where
  "SOLIDITY_BURN_LEAF_DOMAIN =
     0xb15e96910e56013406f4167f79c8b6e369c3abf0b409d50a63e99e095b25fb94"

definition BURN_ID_DOMAIN :: hash32 where
  "BURN_ID_DOMAIN = 0x5811f3ff8b8f31fb49ffb91afab13197c3d72e926549ae29dbda46c6998a3e45"

definition TAG_BURN :: u16 where
  "TAG_BURN = 0x0201"

definition TAG_ELEMENTS_EVENT :: u16 where
  "TAG_ELEMENTS_EVENT = 0x0202"

definition TAG_SOLIDITY_BURN_CLAIM :: u16 where
  "TAG_SOLIDITY_BURN_CLAIM = 0x0203"

subsection \<open>struct Burn\<close>

record burn =
  bu_vault_id :: hash32
  bu_usdd_asset :: hash32
  bu_usdd_amount_base :: u64
  bu_usdt_amount_micro :: u64
  bu_burn_outpoint :: out_point
  bu_ethereum_destination :: eth_address

definition bu_validate :: "burn \<Rightarrow> decode_error + unit" where
  "bu_validate b =
     (if bu_vault_id b = 0 \<or> bu_ethereum_destination b = 0
      then Inl (InvalidValue ''invalid vault or destination'')
      else if bu_usdd_asset b = 0 \<or> op_txid (bu_burn_outpoint b) = 0
        \<or> bu_usdd_amount_base b = 0
      then Inl (InvalidValue ''invalid burn asset, outpoint, or amount'')
      else if usdd_base_to_usdt_micro (bu_usdd_amount_base b) \<noteq> Some (bu_usdt_amount_micro b)
      then Inl (InvalidValue ''burn is not exactly convertible to micro-USDT'')
      else if MAX_BURN_AMOUNT_USDD_BASE < bu_usdd_amount_base b
      then Inl (InvalidValue ''burn exceeds Elements explicit-output limit'')
      else Inr ())"

definition burn_id_preimage :: "hash32 \<Rightarrow> hash32 \<Rightarrow> u32 \<Rightarrow> bytes" where
  "burn_id_preimage elements_genesis txid vout = concat
     [enc_hash32 BURN_ID_DOMAIN, enc_hash32 elements_genesis, enc_hash32 txid, enc_u32 vout]"

definition redemption_id :: "(bytes \<Rightarrow> hash32) \<Rightarrow> burn \<Rightarrow> hash32 \<Rightarrow> hash32" where
  "redemption_id H b elements_genesis =
     hash_bytes H (burn_id_preimage elements_genesis
       (op_txid (bu_burn_outpoint b)) (op_vout (bu_burn_outpoint b)))"

definition enc_burn :: "burn \<Rightarrow> bytes" where
  "enc_burn b = concat
     [encode_header TAG_BURN,
      enc_hash32 (bu_vault_id b),
      enc_hash32 (bu_usdd_asset b),
      enc_u64 (bu_usdd_amount_base b),
      enc_u64 (bu_usdt_amount_micro b),
      enc_out_point (bu_burn_outpoint b),
      enc_address (bu_ethereum_destination b)]"

definition dec_burn :: "burn decode_fn" where
  "dec_burn d =
     and_then (decode_header TAG_BURN d) (\<lambda>(_, d).
     and_then (dec_hash32 d) (\<lambda>(vault_id, d).
     and_then (dec_hash32 d) (\<lambda>(usdd_asset, d).
     and_then (dec_u64 d) (\<lambda>(usdd_amount_base, d).
     and_then (dec_u64 d) (\<lambda>(usdt_amount_micro, d).
     and_then (dec_out_point d) (\<lambda>(burn_outpoint, d).
     and_then (dec_address d) (\<lambda>(ethereum_destination, d).
     let b = \<lparr>bu_vault_id = vault_id, bu_usdd_asset = usdd_asset,
              bu_usdd_amount_base = usdd_amount_base,
              bu_usdt_amount_micro = usdt_amount_micro, bu_burn_outpoint = burn_outpoint,
              bu_ethereum_destination = ethereum_destination\<rparr>
     in and_then (bu_validate b) (\<lambda>_. Inr (b, d)))))))))"

subsection \<open>struct BurnPayload\<close>

record burn_payload =
  bl_vault_id :: hash32
  bl_ethereum_recipient :: eth_address
  bl_amount_usdt_micro :: u64

definition bl_validate :: "burn_payload \<Rightarrow> decode_error + unit" where
  "bl_validate p =
     (if bl_vault_id p = 0 \<or> bl_ethereum_recipient p = 0 \<or> bl_amount_usdt_micro p = 0
         \<or> MAX_BURN_AMOUNT_USDT_MICRO < bl_amount_usdt_micro p
         \<or> usdt_micro_to_usdd_base (bl_amount_usdt_micro p) = None
      then Inl (InvalidValue ''invalid burn payload'')
      else Inr ())"

definition to_burn_payload :: "burn \<Rightarrow> burn_payload" where
  "to_burn_payload b =
     \<lparr>bl_vault_id = bu_vault_id b, bl_ethereum_recipient = bu_ethereum_destination b,
      bl_amount_usdt_micro = bu_usdt_amount_micro b\<rparr>"

definition BURN_PAYLOAD_ENCODED_LENGTH :: nat where
  "BURN_PAYLOAD_ENCODED_LENGTH = 65"

definition enc_burn_payload :: "burn_payload \<Rightarrow> bytes" where
  "enc_burn_payload p = concat
     [ascii ''USDD'',
      enc_u8 1,
      enc_hash32 (bl_vault_id p),
      enc_address (bl_ethereum_recipient p),
      enc_u64 (bl_amount_usdt_micro p)]"

definition dec_burn_payload :: "burn_payload decode_fn" where
  "dec_burn_payload d =
     and_then (dec_fixed 4 d) (\<lambda>(magic, d).
     if magic \<noteq> ascii ''USDD'' then Inl (InvalidValue ''invalid burn payload header'')
     else and_then (dec_u8 d) (\<lambda>(version, d).
     if version \<noteq> 1 then Inl (InvalidValue ''invalid burn payload header'')
     else and_then (dec_hash32 d) (\<lambda>(vault_id, d).
          and_then (dec_address d) (\<lambda>(ethereum_recipient, d).
          and_then (dec_u64 d) (\<lambda>(amount_usdt_micro, d).
          let p = \<lparr>bl_vault_id = vault_id, bl_ethereum_recipient = ethereum_recipient,
                   bl_amount_usdt_micro = amount_usdt_micro\<rparr>
          in and_then (bl_validate p) (\<lambda>_. Inr (p, d)))))))"

subsection \<open>struct SolidityBurnClaim\<close>

record burn_claim =
  bc_protocol_version :: u32
  bc_elements_genesis_hash :: hash32
  bc_usdd_asset_id :: hash32
  bc_vault_id :: hash32
  bc_burn_txid_display :: hash32
  bc_burn_vout :: u32
  bc_burn_id :: hash32
  bc_amount_usdt_micro :: u64
  bc_recipient :: eth_address

definition solidity_claim :: "(bytes \<Rightarrow> hash32) \<Rightarrow> burn \<Rightarrow> hash32 \<Rightarrow> burn_claim" where
  "solidity_claim H b elements_genesis =
     \<lparr>bc_protocol_version = PROTOCOL_VERSION,
      bc_elements_genesis_hash = elements_genesis,
      bc_usdd_asset_id = bu_usdd_asset b,
      bc_vault_id = bu_vault_id b,
      bc_burn_txid_display = op_txid (bu_burn_outpoint b),
      bc_burn_vout = op_vout (bu_burn_outpoint b),
      bc_burn_id = redemption_id H b elements_genesis,
      bc_amount_usdt_micro = bu_usdt_amount_micro b,
      bc_recipient = bu_ethereum_destination b\<rparr>"

definition bc_validate :: "(bytes \<Rightarrow> hash32) \<Rightarrow> burn_claim \<Rightarrow> decode_error + unit" where
  "bc_validate H c =
     (if bc_protocol_version c \<noteq> PROTOCOL_VERSION
         \<or> bc_elements_genesis_hash c = 0
         \<or> bc_usdd_asset_id c = 0
         \<or> bc_vault_id c = 0
         \<or> bc_burn_txid_display c = 0
         \<or> bc_burn_id c = 0
         \<or> bc_amount_usdt_micro c = 0
         \<or> bc_recipient c = 0
      then Inl (InvalidValue ''invalid Solidity burn claim'')
      else if hash_bytes H (burn_id_preimage (bc_elements_genesis_hash c)
                (bc_burn_txid_display c) (bc_burn_vout c)) \<noteq> bc_burn_id c
      then Inl (InvalidValue ''burn ID does not bind outpoint'')
      else Inr ())"

definition burn_leaf_preimage :: "burn_claim \<Rightarrow> u64 \<Rightarrow> bytes" where
  "burn_leaf_preimage c burn_index = concat
     [enc_u8 0,
      enc_hash32 SOLIDITY_BURN_LEAF_DOMAIN,
      enc_u32 (bc_protocol_version c),
      enc_hash32 (bc_elements_genesis_hash c),
      enc_hash32 (bc_usdd_asset_id c),
      enc_hash32 (bc_vault_id c),
      enc_hash32 (bc_burn_id c),
      enc_u64 burn_index,
      enc_u64 (bc_amount_usdt_micro c),
      enc_address (bc_recipient c)]"

definition burn_leaf ::
  "(bytes \<Rightarrow> hash32) \<Rightarrow> burn_claim \<Rightarrow> u64 \<Rightarrow> decode_error + hash32" where
  "burn_leaf H c burn_index =
     and_then (bc_validate H c) (\<lambda>_. Inr (hash_bytes H (burn_leaf_preimage c burn_index)))"

definition enc_burn_claim :: "burn_claim \<Rightarrow> bytes" where
  "enc_burn_claim c = concat
     [encode_header TAG_SOLIDITY_BURN_CLAIM,
      enc_u32 (bc_protocol_version c),
      enc_hash32 (bc_elements_genesis_hash c),
      enc_hash32 (bc_usdd_asset_id c),
      enc_hash32 (bc_vault_id c),
      enc_hash32 (bc_burn_txid_display c),
      enc_u32 (bc_burn_vout c),
      enc_hash32 (bc_burn_id c),
      enc_u64 (bc_amount_usdt_micro c),
      enc_address (bc_recipient c)]"

definition dec_burn_claim :: "(bytes \<Rightarrow> hash32) \<Rightarrow> burn_claim decode_fn" where
  "dec_burn_claim H d =
     and_then (decode_header TAG_SOLIDITY_BURN_CLAIM d) (\<lambda>(_, d).
     and_then (dec_u32 d) (\<lambda>(protocol_version, d).
     and_then (dec_hash32 d) (\<lambda>(elements_genesis_hash, d).
     and_then (dec_hash32 d) (\<lambda>(usdd_asset_id, d).
     and_then (dec_hash32 d) (\<lambda>(vault_id, d).
     and_then (dec_hash32 d) (\<lambda>(burn_txid_display, d).
     and_then (dec_u32 d) (\<lambda>(burn_vout, d).
     and_then (dec_hash32 d) (\<lambda>(burn_id, d).
     and_then (dec_u64 d) (\<lambda>(amount_usdt_micro, d).
     and_then (dec_address d) (\<lambda>(recipient, d).
     let c = \<lparr>bc_protocol_version = protocol_version,
              bc_elements_genesis_hash = elements_genesis_hash,
              bc_usdd_asset_id = usdd_asset_id, bc_vault_id = vault_id,
              bc_burn_txid_display = burn_txid_display, bc_burn_vout = burn_vout,
              bc_burn_id = burn_id, bc_amount_usdt_micro = amount_usdt_micro,
              bc_recipient = recipient\<rparr>
     in and_then (bc_validate H c) (\<lambda>_. Inr (c, d))))))))))))"

subsection \<open>struct ElementsEvent\<close>

datatype elements_event_kind = MintEvent | BurnEvent

fun enc_event_kind :: "elements_event_kind \<Rightarrow> bytes" where
  "enc_event_kind MintEvent = enc_u8 1"
| "enc_event_kind BurnEvent = enc_u8 2"

definition dec_event_kind :: "elements_event_kind decode_fn" where
  "dec_event_kind d =
     and_then (dec_u8 d) (\<lambda>(tag, d).
       if tag = 1 then Inr (MintEvent, d)
       else if tag = 2 then Inr (BurnEvent, d)
       else Inl (InvalidTag ''ElementsEventKind'' (ucast tag)))"

record elements_event =
  ev_kind :: elements_event_kind
  ev_event_id :: hash32
  ev_outpoint :: out_point
  ev_usdd_amount_base :: u64
  ev_payload_commitment :: hash32
  ev_elements_block_hash :: hash32
  ev_elements_height :: u64
  ev_bitcoin_bmm_block_hash :: hash32
  ev_bitcoin_bmm_height :: u64
  ev_bitcoin_confirmations :: u32

definition enc_elements_event :: "elements_event \<Rightarrow> bytes" where
  "enc_elements_event e = concat
     [encode_header TAG_ELEMENTS_EVENT,
      enc_event_kind (ev_kind e),
      enc_hash32 (ev_event_id e),
      enc_out_point (ev_outpoint e),
      enc_u64 (ev_usdd_amount_base e),
      enc_hash32 (ev_payload_commitment e),
      enc_hash32 (ev_elements_block_hash e),
      enc_u64 (ev_elements_height e),
      enc_hash32 (ev_bitcoin_bmm_block_hash e),
      enc_u64 (ev_bitcoin_bmm_height e),
      enc_u32 (ev_bitcoin_confirmations e)]"

definition dec_elements_event :: "elements_event decode_fn" where
  "dec_elements_event d =
     and_then (decode_header TAG_ELEMENTS_EVENT d) (\<lambda>(_, d).
     and_then (dec_event_kind d) (\<lambda>(kind, d).
     and_then (dec_hash32 d) (\<lambda>(event_id, d).
     and_then (dec_out_point d) (\<lambda>(outpoint, d).
     and_then (dec_u64 d) (\<lambda>(usdd_amount_base, d).
     and_then (dec_hash32 d) (\<lambda>(payload_commitment, d).
     and_then (dec_hash32 d) (\<lambda>(elements_block_hash, d).
     and_then (dec_u64 d) (\<lambda>(elements_height, d).
     and_then (dec_hash32 d) (\<lambda>(bitcoin_bmm_block_hash, d).
     and_then (dec_u64 d) (\<lambda>(bitcoin_bmm_height, d).
     and_then (dec_u32 d) (\<lambda>(bitcoin_confirmations, d).
     let e = \<lparr>ev_kind = kind, ev_event_id = event_id, ev_outpoint = outpoint,
              ev_usdd_amount_base = usdd_amount_base,
              ev_payload_commitment = payload_commitment,
              ev_elements_block_hash = elements_block_hash,
              ev_elements_height = elements_height,
              ev_bitcoin_bmm_block_hash = bitcoin_bmm_block_hash,
              ev_bitcoin_bmm_height = bitcoin_bmm_height,
              ev_bitcoin_confirmations = bitcoin_confirmations\<rparr>
     in if ev_event_id e = 0 \<or> op_txid (ev_outpoint e) = 0 \<or> ev_usdd_amount_base e = 0
           \<or> ev_payload_commitment e = 0 \<or> ev_elements_block_hash e = 0
           \<or> ev_bitcoin_bmm_block_hash e = 0
        then Inl (InvalidValue ''invalid Elements event'')
        else Inr (e, d))))))))))))"

subsection \<open>What validation establishes\<close>

lemma bu_validate_ok [ok_iff]:
  "bu_validate b = Inr u \<longleftrightarrow>
     bu_vault_id b \<noteq> 0 \<and> bu_ethereum_destination b \<noteq> 0 \<and> bu_usdd_asset b \<noteq> 0
     \<and> op_txid (bu_burn_outpoint b) \<noteq> 0
     \<and> 0 < unat (bu_usdt_amount_micro b) \<and> unat (bu_usdt_amount_micro b) \<le> 20000000000000
     \<and> unat (bu_usdd_amount_base b) = 100 * unat (bu_usdt_amount_micro b)"
proof -
  have "bu_usdd_amount_base b \<noteq> 0 \<longleftrightarrow> 0 < unat (bu_usdd_amount_base b)" by (simp add: unat_gt_0)
  then show ?thesis
    by (simp add: bu_validate_def to_micro_iff word_less_nat_alt not_less) linarith
qed

lemma bl_validate_ok [ok_iff]:
  "bl_validate p = Inr u \<longleftrightarrow>
     bl_vault_id p \<noteq> 0 \<and> bl_ethereum_recipient p \<noteq> 0
     \<and> 0 < unat (bl_amount_usdt_micro p) \<and> unat (bl_amount_usdt_micro p) \<le> 20000000000000"
  by (auto simp: bl_validate_def to_base_None word_less_nat_alt not_less unat_gt_0
      split: if_splits)

lemma bc_validate_ok [ok_iff]:
  "bc_validate H c = Inr u \<longleftrightarrow>
     bc_protocol_version c = PROTOCOL_VERSION \<and> bc_elements_genesis_hash c \<noteq> 0
     \<and> bc_usdd_asset_id c \<noteq> 0 \<and> bc_vault_id c \<noteq> 0 \<and> bc_burn_txid_display c \<noteq> 0
     \<and> bc_burn_id c \<noteq> 0 \<and> bc_amount_usdt_micro c \<noteq> 0 \<and> bc_recipient c \<noteq> 0
     \<and> bc_burn_id c = H (burn_id_preimage (bc_elements_genesis_hash c)
         (bc_burn_txid_display c) (bc_burn_vout c))"
  by (auto simp: bc_validate_def hash_bytes_def)

lemma burn_payload_valid: "bu_validate b = Inr u \<Longrightarrow> bl_validate (to_burn_payload b) = Inr ()"
  by (simp add: bu_validate_ok bl_validate_ok to_burn_payload_def)

lemma solidity_claim_valid:
  assumes "bu_validate b = Inr u" "g \<noteq> 0" "redemption_id H b g \<noteq> 0"
  shows "bc_validate H (solidity_claim H b g) = Inr ()"
  using assms
  by (auto simp: bu_validate_ok bc_validate_ok solidity_claim_def redemption_id_def hash_bytes_def)

subsection \<open>Identities are unambiguous\<close>

lemma burn_id_preimage_inject:
  "burn_id_preimage g t v = burn_id_preimage g' t' v' \<longleftrightarrow> g = g' \<and> t = t' \<and> v = v'"
  by (simp add: burn_id_preimage_def)

lemma burn_leaf_preimage_inject:
  "burn_leaf_preimage c i = burn_leaf_preimage c' i' \<longleftrightarrow>
     i = i' \<and> bc_protocol_version c = bc_protocol_version c'
     \<and> bc_elements_genesis_hash c = bc_elements_genesis_hash c'
     \<and> bc_usdd_asset_id c = bc_usdd_asset_id c' \<and> bc_vault_id c = bc_vault_id c'
     \<and> bc_burn_id c = bc_burn_id c' \<and> bc_amount_usdt_micro c = bc_amount_usdt_micro c'
     \<and> bc_recipient c = bc_recipient c'"
  by (auto simp: burn_leaf_preimage_def)

lemma deposit_id_preimage_inject:
  "deposit_id_preimage H v = deposit_id_preimage H w \<longleftrightarrow>
     vd_ethereum_chain_id v = vd_ethereum_chain_id w \<and> vd_vault v = vd_vault w
     \<and> vd_usdt v = vd_usdt w \<and> vd_nonce v = vd_nonce w \<and> vd_depositor v = vd_depositor w
     \<and> vd_usdt_amount_micro v = vd_usdt_amount_micro w
     \<and> H (vd_elements_script v) = H (vd_elements_script w)
     \<and> vd_user_salt v = vd_user_salt w"
  by (simp add: deposit_id_preimage_def vd_elements_script_hash_def hash_bytes_def)

lemma length_preimages:
  "length (deposit_id_preimage H v) = 208" "length (burn_id_preimage g t n) = 100"
  "length (burn_leaf_preimage c i) = 201"
  by (simp_all add: deposit_id_preimage_def burn_id_preimage_def burn_leaf_preimage_def)

subsection \<open>Codecs\<close>

interpretation codec_burn: codec "\<lambda>b. Some (enc_burn b)" dec_burn "\<lambda>b. bu_validate b = Inr ()"
proof
  fix d b d'
  show "dec_burn d = Inr (b, d') \<longleftrightarrow>
      bu_validate b = Inr () \<and> reads_opt d (Some (enc_burn b)) d'"
    by (cases b) (auto simp: dec_burn_def enc_burn_def Let_def and_then_Inr reads_append reads_enc)
qed simp

lemma reads_magic: "length m = n \<Longrightarrow> reads d m d' \<longleftrightarrow> dec_fixed n d = Inr (m, d')"
  by (simp add: codec_fixed.dec_iff)

interpretation codec_burn_payload:
  codec "\<lambda>p. Some (enc_burn_payload p)" dec_burn_payload "\<lambda>p. bl_validate p = Inr ()"
proof
  fix d p d'
  have magic: "reads d (ascii ''USDD'') d1 \<longleftrightarrow> dec_fixed 4 d = Inr (ascii ''USDD'', d1)" for d1
    by (rule reads_magic) simp
  have "reads_opt d (Some (enc_burn_payload p)) d' \<longleftrightarrow>
      (\<exists>d1. dec_fixed 4 d = Inr (ascii ''USDD'', d1) \<and> reads d1 (concat [enc_u8 1,
        enc_hash32 (bl_vault_id p), enc_address (bl_ethereum_recipient p),
        enc_u64 (bl_amount_usdt_micro p)]) d')"
    by (simp only: enc_burn_payload_def concat.simps(2) reads_append magic reads_opt_simps)
  then show "dec_burn_payload d = Inr (p, d') \<longleftrightarrow>
      bl_validate p = Inr () \<and> reads_opt d (Some (enc_burn_payload p)) d'"
    by (cases p) (auto simp: dec_burn_payload_def Let_def and_then_Inr if_Inl_Inr
        reads_append reads_enc)
qed simp

interpretation codec_burn_claim:
  codec "\<lambda>c. Some (enc_burn_claim c)" "dec_burn_claim H" "\<lambda>c. bc_validate H c = Inr ()" for H
proof
  fix d c d'
  show "dec_burn_claim H d = Inr (c, d') \<longleftrightarrow>
      bc_validate H c = Inr () \<and> reads_opt d (Some (enc_burn_claim c)) d'"
    by (cases c) (auto simp: dec_burn_claim_def enc_burn_claim_def Let_def and_then_Inr
        reads_append reads_enc)
qed simp

lemma reads_event_kind [reads_enc]:
  "reads d (enc_event_kind k) d' \<longleftrightarrow> dec_event_kind d = Inr (k, d')"
  by (cases k; cases "dec_u8 d")
    (auto simp: dec_event_kind_def reads_enc split: if_splits)

definition ev_valid :: "elements_event \<Rightarrow> bool" where
  "ev_valid e \<longleftrightarrow> ev_event_id e \<noteq> 0 \<and> op_txid (ev_outpoint e) \<noteq> 0 \<and> ev_usdd_amount_base e \<noteq> 0
     \<and> ev_payload_commitment e \<noteq> 0 \<and> ev_elements_block_hash e \<noteq> 0
     \<and> ev_bitcoin_bmm_block_hash e \<noteq> 0"

interpretation codec_elements_event:
  codec "\<lambda>e. Some (enc_elements_event e)" dec_elements_event ev_valid
proof
  fix d e d'
  show "dec_elements_event d = Inr (e, d') \<longleftrightarrow>
      ev_valid e \<and> reads_opt d (Some (enc_elements_event e)) d'"
    by (cases e) (auto simp: dec_elements_event_def enc_elements_event_def ev_valid_def Let_def
        and_then_Inr if_Inl_Inr reads_append reads_enc)
qed simp

lemma length_enc_burn_payload: "length (enc_burn_payload p) = BURN_PAYLOAD_ENCODED_LENGTH"
  by (simp add: enc_burn_payload_def BURN_PAYLOAD_ENCODED_LENGTH_def)

end
