(* ===== verification/Transitions.thy ===== *)
theory Transitions
  imports Prelude
begin

section \<open>Runs of checked state transitions\<close>

text \<open>
  The interface shared by the mint controller, the Elements bridge state and the Bitcoin header
  chain: a fallible step that increments a sequence number and advances a preorder of
  progress. \<open>guarded_runs\<close> proves what a whole run guarantees from a state that satisfies an
  invariant every step keeps. \<open>checked_transitions\<close> is the stronger contract of steps that
  validate both states themselves; its runs need no premise on the first state.
\<close>

locale guarded_runs =
  fixes step :: "'s \<Rightarrow> 'e \<Rightarrow> 'err + 's"
    and inv :: "'s \<Rightarrow> bool"
    and seq :: "'s \<Rightarrow> nat"
    and progress :: "'s \<Rightarrow> 's \<Rightarrow> bool"
  assumes keeps: "inv s \<Longrightarrow> step s e = Inr s' \<Longrightarrow> inv s'"
    and counts: "inv s \<Longrightarrow> step s e = Inr s' \<Longrightarrow> seq s' = Suc (seq s)"
    and advances: "inv s \<Longrightarrow> step s e = Inr s' \<Longrightarrow> progress s s'"
    and refl: "progress s s"
    and trans: "progress s t \<Longrightarrow> progress t u \<Longrightarrow> progress s u"
begin

theorem guarded_inv: "inv s \<Longrightarrow> try_fold step s es = Inr t \<Longrightarrow> inv t"
  by (induction es arbitrary: s) (auto simp: and_then_Inr dest: keeps)

theorem guarded_seq: "inv s \<Longrightarrow> try_fold step s es = Inr t \<Longrightarrow> seq t = seq s + length es"
proof (induction es arbitrary: s)
  case (Cons e es)
  then obtain u where u: "step s e = Inr u" "try_fold step u es = Inr t"
    by (auto simp: and_then_Inr)
  with Cons.IH [OF keeps [OF Cons.prems(1) u(1)] u(2)] counts [OF Cons.prems(1) u(1)]
  show ?case by simp
qed simp

theorem guarded_progress: "inv s \<Longrightarrow> try_fold step s es = Inr t \<Longrightarrow> progress s t"
proof (induction es arbitrary: s)
  case (Cons e es)
  then obtain u where u: "step s e = Inr u" "try_fold step u es = Inr t"
    by (auto simp: and_then_Inr)
  then show ?case
    using Cons.IH [OF keeps [OF Cons.prems(1) u(1)] u(2)] advances [OF Cons.prems(1) u(1)]
    by (blast intro: trans)
qed (simp add: refl)

end

locale checked_transitions =
  fixes step :: "'s \<Rightarrow> 'e \<Rightarrow> 'err + 's"
    and valid :: "'s \<Rightarrow> bool"
    and seq :: "'s \<Rightarrow> nat"
    and progress :: "'s \<Rightarrow> 's \<Rightarrow> bool"
  assumes step_valid: "step s e = Inr s' \<Longrightarrow> valid s \<and> valid s'"
    and step_seq: "step s e = Inr s' \<Longrightarrow> seq s' = Suc (seq s)"
    and step_progress: "step s e = Inr s' \<Longrightarrow> progress s s'"
    and progress_refl: "progress s s"
    and progress_trans: "progress s t \<Longrightarrow> progress t u \<Longrightarrow> progress s u"

sublocale checked_transitions \<subseteq> any: guarded_runs step "\<lambda>_. True" seq progress
  by unfold_locales (auto intro: step_seq step_progress progress_refl progress_trans)

sublocale checked_transitions \<subseteq> validated: guarded_runs step valid seq progress
  by unfold_locales (auto dest: step_valid intro: step_seq step_progress progress_refl progress_trans)

context checked_transitions
begin

lemma run_append:
  "try_fold step s (es @ fs) = Inr t \<longleftrightarrow>
     (\<exists>u. try_fold step s es = Inr u \<and> try_fold step u fs = Inr t)"
  by (simp add: try_fold_append and_then_Inr)

theorem run_valid: "try_fold step s es = Inr t \<Longrightarrow> valid s \<Longrightarrow> valid t"
  by (rule validated.guarded_inv)

theorem run_seq: "try_fold step s es = Inr t \<Longrightarrow> seq t = seq s + length es"
  by (rule any.guarded_seq [OF TrueI])

theorem run_progress: "try_fold step s es = Inr t \<Longrightarrow> progress s t"
  by (rule any.guarded_progress [OF TrueI])

theorem no_cycle: "try_fold step s es = Inr s \<Longrightarrow> es = []"
  using run_seq [of s es s] by simp

theorem visited_once:
  assumes "try_fold step s es = Inr t" "try_fold step s fs = Inr t"
  shows "length es = length fs"
  using run_seq [OF assms(1)] run_seq [OF assms(2)] by simp

end

end
