(* ===== verification/Bridge_State.thy ===== *)
theory Bridge_State
  imports Burn Transitions
begin

section \<open>The outbound Elements bridge state (usdd-core/src/types.rs)\<close>

text \<open>
  \<open>SolidityElementsBridgeState\<close>: the tuple the Solidity vault stores, its validation, the
  successor check between two finalized states, and its packed contents. \<open>bitcoin_chainwork\<close>
  is compared as the code compares \<open>Hash32\<close>: lexicographically on big-endian bytes, which is
  the order of the 256-bit word.
\<close>

definition TAG_SOLIDITY_ELEMENTS_STATE :: u16 where
  "TAG_SOLIDITY_ELEMENTS_STATE = 0x0204"

record bridge_state =
  bs_sequence :: u64
  bs_burn_count :: u64
  bs_elements_tip_hash :: hash32
  bs_elements_consensus_state_digest :: hash32
  bs_cumulative_burn_root :: hash32
  bs_finalized_bitcoin_block_hash :: hash32
  bs_bitcoin_height :: u64
  bs_elements_height :: u64
  bs_bitcoin_median_time_past :: u64
  bs_bitcoin_chainwork :: hash32

definition bs_is_zero :: "bridge_state \<Rightarrow> bool" where
  "bs_is_zero s \<longleftrightarrow>
     bs_sequence s = 0
     \<and> bs_burn_count s = 0
     \<and> bs_elements_tip_hash s = 0
     \<and> bs_elements_consensus_state_digest s = 0
     \<and> bs_cumulative_burn_root s = 0
     \<and> bs_finalized_bitcoin_block_hash s = 0
     \<and> bs_bitcoin_height s = 0
     \<and> bs_elements_height s = 0
     \<and> bs_bitcoin_median_time_past s = 0
     \<and> bs_bitcoin_chainwork s = 0"

definition bs_validate :: "(bytes \<Rightarrow> hash32) \<Rightarrow> bridge_state \<Rightarrow> decode_error + unit" where
  "bs_validate H s =
     (if bs_is_zero s then Inr ()
      else if bs_elements_tip_hash s = 0
        \<or> bs_elements_consensus_state_digest s = 0
        \<or> bs_cumulative_burn_root s = 0
        \<or> bs_finalized_bitcoin_block_hash s = 0
        \<or> bs_bitcoin_chainwork s = 0
      then Inl (InvalidValue ''invalid Solidity Elements state'')
      else if bs_burn_count s = 0 \<and> bs_cumulative_burn_root s \<noteq> burn_empty_value H 64
      then Inl (InvalidValue ''noncanonical empty burn accumulator root'')
      else Inr ())"

definition validate_successor ::
  "(bytes \<Rightarrow> hash32) \<Rightarrow> bridge_state \<Rightarrow> bridge_state \<Rightarrow> decode_error + unit" where
  "validate_successor H s next =
     and_then (bs_validate H s) (\<lambda>_.
     and_then (bs_validate H next) (\<lambda>_.
     if bs_is_zero next then Inl (InvalidValue ''zero successor Elements state'')
     else and_then (ok_or (checked_add (bs_sequence s) 1)
       (InvalidValue ''Elements state sequence overflow'')) (\<lambda>expected_sequence.
     if bs_sequence next \<noteq> expected_sequence
     then Inl (InvalidValue ''wrong Elements state sequence'')
     else if bs_burn_count next < bs_burn_count s
     then Inl (InvalidValue ''burn count decreased'')
     else if of_nat MAX_BURN_APPENDS_PER_STATE_TRANSITION < bs_burn_count next - bs_burn_count s
     then Inl (InvalidValue ''too many burns in one Elements state transition'')
     else if bs_sequence s \<noteq> 0
       \<and> bs_burn_count next = bs_burn_count s
       \<and> bs_cumulative_burn_root next \<noteq> bs_cumulative_burn_root s
     then Inl (InvalidValue ''burn root changed without a burn'')
     else if bs_sequence s \<noteq> 0
       \<and> bs_elements_consensus_state_digest next = bs_elements_consensus_state_digest s
     then Inl (InvalidValue ''Elements consensus state digest did not advance'')
     else if bs_bitcoin_height next \<le> bs_bitcoin_height s
       \<or> bs_elements_height next \<le> bs_elements_height s
       \<or> bs_bitcoin_median_time_past next < bs_bitcoin_median_time_past s
       \<or> bs_bitcoin_chainwork next \<le> bs_bitcoin_chainwork s
     then Inl (InvalidValue ''Elements/Bitcoin finalized context did not advance'')
     else Inr ())))"

definition packed_contents :: "bridge_state \<Rightarrow> bytes" where
  "packed_contents s = concat
     [enc_u64 (bs_sequence s),
      enc_u64 (bs_burn_count s),
      enc_hash32 (bs_elements_tip_hash s),
      enc_hash32 (bs_elements_consensus_state_digest s),
      enc_hash32 (bs_cumulative_burn_root s),
      enc_hash32 (bs_finalized_bitcoin_block_hash s),
      enc_u64 (bs_bitcoin_height s),
      enc_u64 (bs_elements_height s),
      enc_u64 (bs_bitcoin_median_time_past s),
      enc_hash32 (bs_bitcoin_chainwork s)]"

definition contents_hash :: "(bytes \<Rightarrow> hash32) \<Rightarrow> bridge_state \<Rightarrow> hash32" where
  "contents_hash H s = hash_bytes H (packed_contents s)"

definition enc_bridge_state :: "bridge_state \<Rightarrow> bytes" where
  "enc_bridge_state s = encode_header TAG_SOLIDITY_ELEMENTS_STATE @ packed_contents s"

definition dec_bridge_state :: "(bytes \<Rightarrow> hash32) \<Rightarrow> bridge_state decode_fn" where
  "dec_bridge_state H d =
     and_then (decode_header TAG_SOLIDITY_ELEMENTS_STATE d) (\<lambda>(_, d).
     and_then (dec_u64 d) (\<lambda>(sequence, d).
     and_then (dec_u64 d) (\<lambda>(burn_count, d).
     and_then (dec_hash32 d) (\<lambda>(elements_tip_hash, d).
     and_then (dec_hash32 d) (\<lambda>(elements_consensus_state_digest, d).
     and_then (dec_hash32 d) (\<lambda>(cumulative_burn_root, d).
     and_then (dec_hash32 d) (\<lambda>(finalized_bitcoin_block_hash, d).
     and_then (dec_u64 d) (\<lambda>(bitcoin_height, d).
     and_then (dec_u64 d) (\<lambda>(elements_height, d).
     and_then (dec_u64 d) (\<lambda>(bitcoin_median_time_past, d).
     and_then (dec_hash32 d) (\<lambda>(bitcoin_chainwork, d).
     let s = \<lparr>bs_sequence = sequence, bs_burn_count = burn_count,
              bs_elements_tip_hash = elements_tip_hash,
              bs_elements_consensus_state_digest = elements_consensus_state_digest,
              bs_cumulative_burn_root = cumulative_burn_root,
              bs_finalized_bitcoin_block_hash = finalized_bitcoin_block_hash,
              bs_bitcoin_height = bitcoin_height, bs_elements_height = elements_height,
              bs_bitcoin_median_time_past = bitcoin_median_time_past,
              bs_bitcoin_chainwork = bitcoin_chainwork\<rparr>
     in and_then (bs_validate H s) (\<lambda>_. Inr (s, d)))))))))))))"

subsection \<open>What the checks establish\<close>

lemma bs_validate_ok [ok_iff]:
  "bs_validate H s = Inr u \<longleftrightarrow>
     bs_is_zero s \<or>
     (bs_elements_tip_hash s \<noteq> 0 \<and> bs_elements_consensus_state_digest s \<noteq> 0
      \<and> bs_cumulative_burn_root s \<noteq> 0 \<and> bs_finalized_bitcoin_block_hash s \<noteq> 0
      \<and> bs_bitcoin_chainwork s \<noteq> 0
      \<and> (bs_burn_count s = 0 \<longrightarrow> bs_cumulative_burn_root s = root_for_leaves H []))"
  by (auto simp: bs_validate_def root_for_leaves_def BURN_ACCUMULATOR_DEPTH_def)

lemma validate_successor_ok [ok_iff]:
  "validate_successor H s t = Inr u \<longleftrightarrow>
     bs_validate H s = Inr () \<and> bs_validate H t = Inr () \<and> \<not> bs_is_zero t
     \<and> unat (bs_sequence t) = unat (bs_sequence s) + 1
     \<and> unat (bs_burn_count s) \<le> unat (bs_burn_count t)
     \<and> unat (bs_burn_count t) \<le> unat (bs_burn_count s) + 64
     \<and> (bs_sequence s \<noteq> 0 \<and> bs_burn_count t = bs_burn_count s
          \<longrightarrow> bs_cumulative_burn_root t = bs_cumulative_burn_root s)
     \<and> (bs_sequence s \<noteq> 0
          \<longrightarrow> bs_elements_consensus_state_digest t \<noteq> bs_elements_consensus_state_digest s)
     \<and> bs_bitcoin_height s < bs_bitcoin_height t
     \<and> bs_elements_height s < bs_elements_height t
     \<and> bs_bitcoin_median_time_past s \<le> bs_bitcoin_median_time_past t
     \<and> bs_bitcoin_chainwork s < bs_bitcoin_chainwork t"
proof -
  have gap: "\<not> of_nat MAX_BURN_APPENDS_PER_STATE_TRANSITION < bs_burn_count t - bs_burn_count s
      \<longleftrightarrow> unat (bs_burn_count t) \<le> unat (bs_burn_count s) + 64"
    if "\<not> bs_burn_count t < bs_burn_count s"
    using that by (auto simp: MAX_BURN_APPENDS_PER_STATE_TRANSITION_def word_less_nat_alt
        unat_sub_if' not_less)
  have le: "\<not> bs_burn_count t < bs_burn_count s \<longleftrightarrow> unat (bs_burn_count s) \<le> unat (bs_burn_count t)"
    by (simp add: word_less_nat_alt not_less)
  have sq: "checked_add (bs_sequence s) 1 = Some n \<longleftrightarrow> unat n = unat (bs_sequence s) + 1" for n
    by (simp add: checked_add_Some)
  show ?thesis
    unfolding validate_successor_def and_then_Inr if_Inl_Inr ok_or_Inr sq
    using gap le by (auto simp: not_le not_less unat_eq_iff)
qed

lemma packed_contents_inject: "packed_contents s = packed_contents t \<longleftrightarrow> s = t"
  by (cases s; cases t) (auto simp: packed_contents_def)

lemma length_packed_contents: "length (packed_contents s) = 200"
  by (simp add: packed_contents_def)

interpretation codec_bridge_state:
  codec "\<lambda>s. Some (enc_bridge_state s)" "dec_bridge_state H" "\<lambda>s. bs_validate H s = Inr ()" for H
proof
  fix d s d'
  show "dec_bridge_state H d = Inr (s, d') \<longleftrightarrow>
      bs_validate H s = Inr () \<and> reads_opt d (Some (enc_bridge_state s)) d'"
    by (cases s) (auto simp: dec_bridge_state_def enc_bridge_state_def packed_contents_def Let_def
        and_then_Inr reads_append reads_enc)
qed simp

subsection \<open>Runs of successor states\<close>

definition bridge_step ::
  "(bytes \<Rightarrow> hash32) \<Rightarrow> bridge_state \<Rightarrow> bridge_state \<Rightarrow> decode_error + bridge_state" where
  "bridge_step H s t = and_then (validate_successor H s t) (\<lambda>_. Inr t)"

definition bridge_progress :: "bridge_state \<Rightarrow> bridge_state \<Rightarrow> bool" where
  "bridge_progress s t \<longleftrightarrow>
     bs_burn_count s \<le> bs_burn_count t
     \<and> bs_bitcoin_height s \<le> bs_bitcoin_height t
     \<and> bs_elements_height s \<le> bs_elements_height t
     \<and> bs_bitcoin_median_time_past s \<le> bs_bitcoin_median_time_past t
     \<and> bs_bitcoin_chainwork s \<le> bs_bitcoin_chainwork t"

lemma bridge_step_ok [ok_iff]:
  "bridge_step H s t = Inr r \<longleftrightarrow> r = t \<and> validate_successor H s t = Inr ()"
  by (auto simp: bridge_step_def and_then_Inr)

interpretation bridge: checked_transitions "bridge_step H" "\<lambda>s. bs_validate H s = Inr ()"
    "\<lambda>s. unat (bs_sequence s)" bridge_progress for H
proof
  fix s e s' assume st: "bridge_step H s e = Inr s'"
  then have *: "s' = e" "validate_successor H s e = Inr ()" by (simp_all add: bridge_step_ok)
  from * show "bs_validate H s = Inr () \<and> bs_validate H s' = Inr ()"
    by (simp only: validate_successor_ok)
  from * show "unat (bs_sequence s') = Suc (unat (bs_sequence s))"
    by (simp only: validate_successor_ok)
  from * show "bridge_progress s s'"
    by (simp only: validate_successor_ok bridge_progress_def word_le_nat_alt [where 'a = 64]
        word_less_nat_alt [where 'a = 64]) auto
qed (auto simp: bridge_progress_def)

lemma bridge_run_burns:
  "try_fold (bridge_step H) s ts = Inr t \<Longrightarrow>
     unat (bs_burn_count t) \<le> unat (bs_burn_count s) + 64 * length ts"
proof (induction ts arbitrary: s)
  case (Cons r ts)
  then have "validate_successor H s r = Inr ()" "try_fold (bridge_step H) r ts = Inr t"
    by (auto simp: and_then_Inr bridge_step_ok)
  then have "unat (bs_burn_count r) \<le> unat (bs_burn_count s) + 64"
    "unat (bs_burn_count t) \<le> unat (bs_burn_count r) + 64 * length ts"
    by (simp_all only: validate_successor_ok Cons.IH)
  then show ?case by simp
qed simp

subsection \<open>Properties\<close>

definition example_bridge :: bridge_state where
  "example_bridge =
     \<lparr>bs_sequence = 1, bs_burn_count = 1, bs_elements_tip_hash = 1,
      bs_elements_consensus_state_digest = 1, bs_cumulative_burn_root = 1,
      bs_finalized_bitcoin_block_hash = 1, bs_bitcoin_height = 1, bs_elements_height = 1,
      bs_bitcoin_median_time_past = 1, bs_bitcoin_chainwork = 1\<rparr>"

definition zero_bridge :: bridge_state where
  "zero_bridge =
     \<lparr>bs_sequence = 0, bs_burn_count = 0, bs_elements_tip_hash = 0,
      bs_elements_consensus_state_digest = 0, bs_cumulative_burn_root = 0,
      bs_finalized_bitcoin_block_hash = 0, bs_bitcoin_height = 0, bs_elements_height = 0,
      bs_bitcoin_median_time_past = 0, bs_bitcoin_chainwork = 0\<rparr>"

lemma example_successor: "validate_successor toy_hash zero_bridge example_bridge = Inr ()"
  by (simp add: validate_successor_ok bs_validate_ok bs_is_zero_def zero_bridge_def
      example_bridge_def)

text \<open>
  Runs of bridge states. Along any sequence of accepted successors the sequence number
  counts the steps, heights and chainwork never move back, and the burn count grows by at most
  64 per step.
\<close>

theorem bridge_run_bounds:
  assumes "try_fold (bridge_step H) s ts = Inr t"
  shows "unat (bs_sequence t) = unat (bs_sequence s) + length ts
    \<and> bridge_progress s t
    \<and> unat (bs_burn_count t) \<le> unat (bs_burn_count s) + 64 * length ts"
  using bridge.run_seq [OF assms] bridge.run_progress [OF assms] bridge_run_burns [OF assms] by simp

theorem bridge_run_bounds_witness:
  "unat (bs_sequence example_bridge) = unat (bs_sequence zero_bridge) + length [example_bridge]
    \<and> bridge_progress zero_bridge example_bridge
    \<and> unat (bs_burn_count example_bridge) \<le> unat (bs_burn_count zero_bridge) + 64 * length [example_bridge]"
  by (rule bridge_run_bounds [of toy_hash])
    (simp add: bridge_step_ok and_then_Inr example_successor)

end
