(* ===== verification/Controller.thy ===== *)
theory Controller
  imports Bridge_State
begin

section \<open>The Elements mint controller (usdd-core/src/types.rs)\<close>

text \<open>
  \<open>MintControllerState\<close>: bootstrap, validation, the two state transitions (minting a batch and
  the deposit-free heartbeat), the check that Ethereum finality only moves forward, the
  freshness check against the BMM parent's median time past, and the codec. The transitions
  are also the steps of the inductive relation \<open>controller_step\<close>, over which the invariants
  of every reachable controller state are proved.
\<close>

record controller =
  mc_version :: u32
  mc_sequence :: u64
  mc_next_mint_nonce :: u64
  mc_ethereum_light_client_digest :: hash32
  mc_finalized_beacon_slot :: u64
  mc_finalized_beacon_root :: hash32
  mc_finalized_execution_state_root :: hash32
  mc_total_minted_usdd_base :: u64
  mc_configuration_hash :: hash32

definition mc_validate :: "controller \<Rightarrow> decode_error + unit" where
  "mc_validate c =
     (if mc_version c \<noteq> PROTOCOL_VERSION
         \<or> mc_configuration_hash c = 0
         \<or> mc_ethereum_light_client_digest c = 0
      then Inl (InvalidValue ''invalid controller identity'')
      else and_then
        (if mc_finalized_beacon_slot c = 0
         then if mc_sequence c \<noteq> 0
                \<or> mc_total_minted_usdd_base c \<noteq> 0
                \<or> mc_finalized_beacon_root c \<noteq> 0
                \<or> mc_finalized_execution_state_root c \<noteq> 0
              then Inl (InvalidValue ''invalid bootstrap controller state'')
              else Inr ()
         else if mc_finalized_beacon_root c = 0
           \<or> mc_finalized_execution_state_root c = 0
         then Inl (InvalidValue ''zero finalized state commitment'')
         else Inr ())
        (\<lambda>_. if mc_total_minted_usdd_base c mod USDD_UNITS_PER_USDT_MICRO \<noteq> 0
             then Inl (InvalidValue ''nonconvertible minted total'')
             else Inr ()))"

definition mc_bootstrap ::
  "hash32 \<Rightarrow> u64 \<Rightarrow> finality_witness \<Rightarrow> decode_error + controller" where
  "mc_bootstrap configuration_hash first_mint_nonce finality =
     and_then (fw_validate finality) (\<lambda>_.
     let c = \<lparr>mc_version = PROTOCOL_VERSION,
              mc_sequence = 0,
              mc_next_mint_nonce = first_mint_nonce,
              mc_ethereum_light_client_digest = fw_ethereum_light_client_digest finality,
              mc_finalized_beacon_slot = fw_finalized_beacon_slot finality,
              mc_finalized_beacon_root = fw_finalized_beacon_root finality,
              mc_finalized_execution_state_root = fw_finalized_execution_state_root finality,
              mc_total_minted_usdd_base = 0,
              mc_configuration_hash = configuration_hash\<rparr>
     in and_then (mc_validate c) (\<lambda>_. Inr c))"

definition validate_finality_advance ::
  "controller \<Rightarrow> finality_witness \<Rightarrow> decode_error + unit" where
  "validate_finality_advance c finality =
     (if fw_finalized_beacon_slot finality < mc_finalized_beacon_slot c
      then Inl (InvalidValue ''Ethereum finality regressed'')
      else and_then (ok_or
        (checked_sub (fw_finalized_beacon_slot finality) (mc_finalized_beacon_slot c))
        (InvalidValue ''Ethereum finality regressed'')) (\<lambda>slot_gap.
      if MAX_ETHEREUM_FINALITY_SLOT_GAP < slot_gap
      then Inl (InvalidValue ''Ethereum finalized slot gap exceeds 4096'')
      else if fw_finalized_beacon_slot finality = mc_finalized_beacon_slot c
        \<and> mc_finalized_beacon_slot c \<noteq> 0
        \<and> (fw_finalized_beacon_root finality \<noteq> mc_finalized_beacon_root c
           \<or> fw_finalized_execution_state_root finality \<noteq> mc_finalized_execution_state_root c
           \<or> fw_ethereum_light_client_digest finality \<noteq> mc_ethereum_light_client_digest c)
      then Inl (InvalidValue ''conflicting Ethereum state at the same finalized slot'')
      else if mc_finalized_beacon_slot c < fw_finalized_beacon_slot finality
        \<and> fw_ethereum_light_client_digest finality = mc_ethereum_light_client_digest c
      then Inl (InvalidValue ''Ethereum light-client digest did not advance'')
      else Inr ()))"

definition apply_mint_batch ::
  "controller \<Rightarrow> mint_batch \<Rightarrow> finality_witness \<Rightarrow> decode_error + controller" where
  "apply_mint_batch c batch finality =
     and_then (mc_validate c) (\<lambda>_.
     and_then (mb_validate batch) (\<lambda>_.
     and_then (fw_validate finality) (\<lambda>_.
     if mb_first_nonce batch \<noteq> mc_next_mint_nonce c
     then Inl (InvalidValue ''mint batch nonce is not next'')
     else and_then (validate_finality_advance c finality) (\<lambda>_.
     and_then (ok_or (checked_add (mc_sequence c) 1)
       (InvalidValue ''controller sequence overflow'')) (\<lambda>sequence.
     and_then (ok_or (checked_add (mc_total_minted_usdd_base c) (mb_total_usdd_amount_base batch))
       (InvalidValue ''minted supply overflow'')) (\<lambda>total_minted.
     let next = \<lparr>mc_version = mc_version c,
                 mc_sequence = sequence,
                 mc_next_mint_nonce = mb_next_nonce batch,
                 mc_ethereum_light_client_digest = fw_ethereum_light_client_digest finality,
                 mc_finalized_beacon_slot = fw_finalized_beacon_slot finality,
                 mc_finalized_beacon_root = fw_finalized_beacon_root finality,
                 mc_finalized_execution_state_root = fw_finalized_execution_state_root finality,
                 mc_total_minted_usdd_base = total_minted,
                 mc_configuration_hash = mc_configuration_hash c\<rparr>
     in and_then (mc_validate next) (\<lambda>_. Inr next)))))))"

definition apply_heartbeat :: "controller \<Rightarrow> finality_witness \<Rightarrow> decode_error + controller" where
  "apply_heartbeat c finality =
     and_then (mc_validate c) (\<lambda>_.
     and_then (fw_validate finality) (\<lambda>_.
     if fw_finalized_beacon_slot finality \<le> mc_finalized_beacon_slot c
     then Inl (InvalidValue
       ''heartbeat must advance to a strictly newer finalized beacon slot'')
     else and_then (validate_finality_advance c finality) (\<lambda>_.
     and_then (ok_or (checked_add (mc_sequence c) 1)
       (InvalidValue ''controller sequence overflow'')) (\<lambda>sequence.
     let next = \<lparr>mc_version = mc_version c,
                 mc_sequence = sequence,
                 mc_next_mint_nonce = mc_next_mint_nonce c,
                 mc_ethereum_light_client_digest = fw_ethereum_light_client_digest finality,
                 mc_finalized_beacon_slot = fw_finalized_beacon_slot finality,
                 mc_finalized_beacon_root = fw_finalized_beacon_root finality,
                 mc_finalized_execution_state_root = fw_finalized_execution_state_root finality,
                 mc_total_minted_usdd_base = mc_total_minted_usdd_base c,
                 mc_configuration_hash = mc_configuration_hash c\<rparr>
     in and_then (mc_validate next) (\<lambda>_. Inr next)))))"

definition validate_bmm_finality_freshness :: "u64 \<Rightarrow> u64 \<Rightarrow> decode_error + unit" where
  "validate_bmm_finality_freshness execution_block_timestamp authenticated_bmm_parent_mtp =
     (if execution_block_timestamp = 0 \<or> authenticated_bmm_parent_mtp = 0
      then Inl (InvalidValue ''zero Ethereum timestamp or BMM parent MTP'')
      else if MAX_FINALIZED_TO_BMM_MTP_AGE_SECONDS
          < abs_diff execution_block_timestamp authenticated_bmm_parent_mtp
      then Inl (InvalidValue
        ''Ethereum finalized time differs from BMM parent MTP by over six hours'')
      else Inr ())"

definition enc_controller :: "controller \<Rightarrow> bytes" where
  "enc_controller c = concat
     [enc_u32 (mc_version c),
      enc_u64 (mc_sequence c),
      enc_u64 (mc_next_mint_nonce c),
      enc_hash32 (mc_ethereum_light_client_digest c),
      enc_u64 (mc_finalized_beacon_slot c),
      enc_hash32 (mc_finalized_beacon_root c),
      enc_hash32 (mc_finalized_execution_state_root c),
      enc_u64 (mc_total_minted_usdd_base c),
      enc_hash32 (mc_configuration_hash c)]"

definition dec_controller :: "controller decode_fn" where
  "dec_controller d =
     and_then (dec_u32 d) (\<lambda>(version, d).
     and_then (dec_u64 d) (\<lambda>(sequence, d).
     and_then (dec_u64 d) (\<lambda>(next_mint_nonce, d).
     and_then (dec_hash32 d) (\<lambda>(ethereum_light_client_digest, d).
     and_then (dec_u64 d) (\<lambda>(finalized_beacon_slot, d).
     and_then (dec_hash32 d) (\<lambda>(finalized_beacon_root, d).
     and_then (dec_hash32 d) (\<lambda>(finalized_execution_state_root, d).
     and_then (dec_u64 d) (\<lambda>(total_minted_usdd_base, d).
     and_then (dec_hash32 d) (\<lambda>(configuration_hash, d).
     let c = \<lparr>mc_version = version, mc_sequence = sequence,
              mc_next_mint_nonce = next_mint_nonce,
              mc_ethereum_light_client_digest = ethereum_light_client_digest,
              mc_finalized_beacon_slot = finalized_beacon_slot,
              mc_finalized_beacon_root = finalized_beacon_root,
              mc_finalized_execution_state_root = finalized_execution_state_root,
              mc_total_minted_usdd_base = total_minted_usdd_base,
              mc_configuration_hash = configuration_hash\<rparr>
     in and_then (mc_validate c) (\<lambda>_. Inr (c, d)))))))))))"

subsection \<open>What the checks establish\<close>

lemma mod_units_0: "a mod USDD_UNITS_PER_USDT_MICRO = 0 \<longleftrightarrow> 100 dvd unat a"
  by (simp add: word_unat_eq_iff unat_mod dvd_eq_mod_eq_0)

lemma mc_validate_ok [ok_iff]:
  "mc_validate c = Inr u \<longleftrightarrow>
     mc_version c = PROTOCOL_VERSION \<and> mc_configuration_hash c \<noteq> 0
     \<and> mc_ethereum_light_client_digest c \<noteq> 0
     \<and> (if mc_finalized_beacon_slot c = 0
        then mc_sequence c = 0 \<and> mc_total_minted_usdd_base c = 0
             \<and> mc_finalized_beacon_root c = 0 \<and> mc_finalized_execution_state_root c = 0
        else mc_finalized_beacon_root c \<noteq> 0 \<and> mc_finalized_execution_state_root c \<noteq> 0)
     \<and> 100 dvd unat (mc_total_minted_usdd_base c)"
  by (auto simp: mc_validate_def mod_units_0 and_then_Inr split: if_splits)

lemma mc_bootstrap_ok [ok_iff]:
  "mc_bootstrap cfg n w = Inr c \<longleftrightarrow>
     fw_validate w = Inr () \<and> cfg \<noteq> 0 \<and> mc_version c = PROTOCOL_VERSION \<and> mc_sequence c = 0
     \<and> mc_next_mint_nonce c = n
     \<and> mc_ethereum_light_client_digest c = fw_ethereum_light_client_digest w
     \<and> mc_finalized_beacon_slot c = fw_finalized_beacon_slot w
     \<and> mc_finalized_beacon_root c = fw_finalized_beacon_root w
     \<and> mc_finalized_execution_state_root c = fw_finalized_execution_state_root w
     \<and> mc_total_minted_usdd_base c = 0 \<and> mc_configuration_hash c = cfg"
  by (cases c) (auto simp: mc_bootstrap_def Let_def and_then_Inr fw_validate_ok mc_validate_ok)

text \<open>
  \<open>finality_advances\<close>: the slot never moves back and never jumps more than 4096; at an
  unchanged slot the whole commitment is unchanged; at a newer slot the digest is new.
\<close>

definition finality_advances :: "controller \<Rightarrow> finality_witness \<Rightarrow> bool" where
  "finality_advances c w \<longleftrightarrow>
     unat (mc_finalized_beacon_slot c) \<le> unat (fw_finalized_beacon_slot w)
     \<and> unat (fw_finalized_beacon_slot w) \<le> unat (mc_finalized_beacon_slot c) + 4096
     \<and> (if fw_finalized_beacon_slot w = mc_finalized_beacon_slot c
        then mc_finalized_beacon_slot c = 0 \<or>
          (fw_finalized_beacon_root w = mc_finalized_beacon_root c
           \<and> fw_finalized_execution_state_root w = mc_finalized_execution_state_root c
           \<and> fw_ethereum_light_client_digest w = mc_ethereum_light_client_digest c)
        else fw_ethereum_light_client_digest w \<noteq> mc_ethereum_light_client_digest c)"

lemma ex_checked_sub:
  "(\<exists>g :: u64. unat a = unat b + unat g \<and> unat g \<le> k \<and> P) \<longleftrightarrow>
     unat b \<le> unat a \<and> unat a \<le> unat b + k \<and> P" for a b :: u64
proof
  assume *: "unat b \<le> unat a \<and> unat a \<le> unat b + k \<and> P"
  then have "unat a = unat b + unat (a - b)" by (simp add: unat_sub_if')
  with * show "\<exists>g :: u64. unat a = unat b + unat g \<and> unat g \<le> k \<and> P"
    by (intro exI [of _ "a - b"]) simp
qed auto

lemma finality_advance_ok [ok_iff]:
  "validate_finality_advance c w = Inr u \<longleftrightarrow> finality_advances c w"
proof -
  let ?P = "\<not> (fw_finalized_beacon_slot w = mc_finalized_beacon_slot c
        \<and> mc_finalized_beacon_slot c \<noteq> 0
        \<and> (fw_finalized_beacon_root w \<noteq> mc_finalized_beacon_root c
           \<or> fw_finalized_execution_state_root w \<noteq> mc_finalized_execution_state_root c
           \<or> fw_ethereum_light_client_digest w \<noteq> mc_ethereum_light_client_digest c))
     \<and> \<not> (mc_finalized_beacon_slot c < fw_finalized_beacon_slot w
        \<and> fw_ethereum_light_client_digest w = mc_ethereum_light_client_digest c)"
  have "validate_finality_advance c w = Inr u \<longleftrightarrow>
      unat (mc_finalized_beacon_slot c) \<le> unat (fw_finalized_beacon_slot w) \<and>
      (\<exists>g :: u64. unat (fw_finalized_beacon_slot w) = unat (mc_finalized_beacon_slot c) + unat g
        \<and> unat g \<le> 4096 \<and> ?P)"
    unfolding validate_finality_advance_def if_Inl_Inr and_then_Inr ok_or_Inr checked_sub_Some
      word_less_nat_alt [of "fw_finalized_beacon_slot w"]
      word_less_nat_alt [of MAX_ETHEREUM_FINALITY_SLOT_GAP] not_less
    by simp
  also have "\<dots> \<longleftrightarrow> finality_advances c w"
    unfolding ex_checked_sub finality_advances_def
    by (auto simp: word_less_nat_alt word_unat_eq_iff [where 'a = 64])
  finally show ?thesis .
qed

definition finality_installed :: "controller \<Rightarrow> finality_witness \<Rightarrow> bool" where
  "finality_installed c w \<longleftrightarrow>
     mc_ethereum_light_client_digest c = fw_ethereum_light_client_digest w
     \<and> mc_finalized_beacon_slot c = fw_finalized_beacon_slot w
     \<and> mc_finalized_beacon_root c = fw_finalized_beacon_root w
     \<and> mc_finalized_execution_state_root c = fw_finalized_execution_state_root w"

lemma apply_mint_batch_ok [ok_iff]:
  "apply_mint_batch c b w = Inr c' \<longleftrightarrow>
     mc_validate c = Inr () \<and> mb_validate b = Inr () \<and> fw_validate w = Inr ()
     \<and> mb_first_nonce b = mc_next_mint_nonce c \<and> finality_advances c w
     \<and> mc_version c' = mc_version c \<and> mc_configuration_hash c' = mc_configuration_hash c
     \<and> finality_installed c' w
     \<and> unat (mc_sequence c') = unat (mc_sequence c) + 1
     \<and> mc_next_mint_nonce c' = mb_next_nonce b
     \<and> unat (mc_total_minted_usdd_base c') =
         unat (mc_total_minted_usdd_base c) + unat (mb_total_usdd_amount_base b)"
proof -
  have "apply_mint_batch c b w = Inr c' \<longleftrightarrow>
      mc_validate c = Inr () \<and> mb_validate b = Inr () \<and> fw_validate w = Inr ()
      \<and> mb_first_nonce b = mc_next_mint_nonce c \<and> finality_advances c w
      \<and> mc_version c' = mc_version c \<and> mc_configuration_hash c' = mc_configuration_hash c
      \<and> finality_installed c' w
      \<and> unat (mc_sequence c') = unat (mc_sequence c) + 1
      \<and> mc_next_mint_nonce c' = mb_next_nonce b
      \<and> unat (mc_total_minted_usdd_base c') =
          unat (mc_total_minted_usdd_base c) + unat (mb_total_usdd_amount_base b)
      \<and> mc_validate c' = Inr ()"
    by (cases c') (auto simp: apply_mint_batch_def Let_def and_then_Inr if_Inl_Inr ok_or_Inr
        checked_add_Some finality_advance_ok finality_installed_def)
  moreover have "mc_validate c' = Inr ()"
    if "mc_validate c = Inr ()" "fw_validate w = Inr ()" "mb_validate b = Inr ()"
      "mc_version c' = mc_version c" "mc_configuration_hash c' = mc_configuration_hash c"
      "finality_installed c' w"
      "unat (mc_total_minted_usdd_base c') =
        unat (mc_total_minted_usdd_base c) + unat (mb_total_usdd_amount_base b)"
    using that mb_totals_convert [OF that(3)]
    by (auto simp: mc_validate_ok fw_validate_ok finality_installed_def)
  ultimately show ?thesis by blast
qed

lemma apply_heartbeat_ok [ok_iff]:
  "apply_heartbeat c w = Inr c' \<longleftrightarrow>
     mc_validate c = Inr () \<and> fw_validate w = Inr ()
     \<and> mc_finalized_beacon_slot c < fw_finalized_beacon_slot w \<and> finality_advances c w
     \<and> mc_version c' = mc_version c \<and> mc_configuration_hash c' = mc_configuration_hash c
     \<and> finality_installed c' w
     \<and> unat (mc_sequence c') = unat (mc_sequence c) + 1
     \<and> mc_next_mint_nonce c' = mc_next_mint_nonce c
     \<and> mc_total_minted_usdd_base c' = mc_total_minted_usdd_base c"
proof -
  have "apply_heartbeat c w = Inr c' \<longleftrightarrow>
      mc_validate c = Inr () \<and> fw_validate w = Inr ()
      \<and> mc_finalized_beacon_slot c < fw_finalized_beacon_slot w \<and> finality_advances c w
      \<and> mc_version c' = mc_version c \<and> mc_configuration_hash c' = mc_configuration_hash c
      \<and> finality_installed c' w
      \<and> unat (mc_sequence c') = unat (mc_sequence c) + 1
      \<and> mc_next_mint_nonce c' = mc_next_mint_nonce c
      \<and> mc_total_minted_usdd_base c' = mc_total_minted_usdd_base c
      \<and> mc_validate c' = Inr ()"
    by (cases c') (auto simp: apply_heartbeat_def Let_def and_then_Inr if_Inl_Inr ok_or_Inr
        checked_add_Some finality_advance_ok finality_installed_def not_le)
  moreover have "mc_validate c' = Inr ()"
    if "mc_validate c = Inr ()" "fw_validate w = Inr ()"
      "mc_version c' = mc_version c" "mc_configuration_hash c' = mc_configuration_hash c"
      "finality_installed c' w" "mc_total_minted_usdd_base c' = mc_total_minted_usdd_base c"
    using that by (auto simp: mc_validate_ok fw_validate_ok finality_installed_def)
  ultimately show ?thesis by blast
qed

lemma freshness_ok [ok_iff]:
  "validate_bmm_finality_freshness t m = Inr u \<longleftrightarrow>
     t \<noteq> 0 \<and> m \<noteq> 0 \<and> unat t \<le> unat m + 21600 \<and> unat m \<le> unat t + 21600"
  unfolding validate_bmm_finality_freshness_def word_less_nat_alt unat_abs_diff by auto

interpretation codec_controller:
  codec "\<lambda>c. Some (enc_controller c)" dec_controller "\<lambda>c. mc_validate c = Inr ()"
proof
  fix d c d'
  show "dec_controller d = Inr (c, d') \<longleftrightarrow>
      mc_validate c = Inr () \<and> reads_opt d (Some (enc_controller c)) d'"
    by (cases c) (auto simp: dec_controller_def enc_controller_def Let_def and_then_Inr
        reads_append reads_enc)
qed simp

subsection \<open>Steps and reachable states\<close>

datatype controller_event =
    MintTransition mint_batch finality_witness
  | Heartbeat finality_witness

fun controller_apply :: "controller \<Rightarrow> controller_event \<Rightarrow> decode_error + controller" where
  "controller_apply c (MintTransition b w) = apply_mint_batch c b w"
| "controller_apply c (Heartbeat w) = apply_heartbeat c w"

fun event_outputs :: "controller_event \<Rightarrow> mint_output list" where
  "event_outputs (MintTransition b w) = mb_outputs b"
| "event_outputs (Heartbeat w) = []"

definition minted :: "controller_event list \<Rightarrow> mint_output list" where
  "minted evs = concat (map event_outputs evs)"

inductive controller_reachable ::
  "hash32 \<Rightarrow> u64 \<Rightarrow> finality_witness \<Rightarrow> controller_event list \<Rightarrow> controller \<Rightarrow> bool"
  for cfg n0 w0 where
  bootstrap: "mc_bootstrap cfg n0 w0 = Inr c \<Longrightarrow> controller_reachable cfg n0 w0 [] c"
| mint: "controller_reachable cfg n0 w0 evs c \<Longrightarrow> apply_mint_batch c b w = Inr c' \<Longrightarrow>
    controller_reachable cfg n0 w0 (evs @ [MintTransition b w]) c'"
| heartbeat: "controller_reachable cfg n0 w0 evs c \<Longrightarrow> apply_heartbeat c w = Inr c' \<Longrightarrow>
    controller_reachable cfg n0 w0 (evs @ [Heartbeat w]) c'"

inductive_cases controller_reachable_NilE: "controller_reachable cfg n0 w0 [] c"
inductive_cases controller_reachable_snocE: "controller_reachable cfg n0 w0 (evs @ [e]) c"

definition controller_progress :: "controller \<Rightarrow> controller \<Rightarrow> bool" where
  "controller_progress c c' \<longleftrightarrow>
     mc_version c' = mc_version c \<and> mc_configuration_hash c' = mc_configuration_hash c
     \<and> mc_finalized_beacon_slot c \<le> mc_finalized_beacon_slot c'
     \<and> mc_next_mint_nonce c \<le> mc_next_mint_nonce c'
     \<and> mc_total_minted_usdd_base c \<le> mc_total_minted_usdd_base c'
     \<and> unat (mc_total_minted_usdd_base c') - unat (mc_total_minted_usdd_base c)
         \<le> 2000000000000000 * (unat (mc_next_mint_nonce c') - unat (mc_next_mint_nonce c))"

lemma mint_effect:
  assumes "apply_mint_batch c b w = Inr c'"
  shows "unat (mc_next_mint_nonce c) = unat (mb_first_nonce b)"
    and "unat (mc_next_mint_nonce c') = unat (mc_next_mint_nonce c) + length (mb_outputs b)"
    and "unat (mc_total_minted_usdd_base c') =
          unat (mc_total_minted_usdd_base c) + 100 * total mo_usdt_amount_micro (mb_outputs b)"
    and "0 < length (mb_outputs b)" "length (mb_outputs b) \<le> 64"
    and "total mo_usdt_amount_micro (mb_outputs b) \<le> 20000000000000"
    and "numbered mo_nonce (unat (mc_next_mint_nonce c)) (mb_outputs b)"
    and "mc_finalized_beacon_slot c \<le> mc_finalized_beacon_slot c'"
    and "unat (mc_finalized_beacon_slot c') \<le> unat (mc_finalized_beacon_slot c) + 4096"
proof -
  have ok: "mb_validate b = Inr ()" and nonce: "mb_first_nonce b = mc_next_mint_nonce c"
    and rest: "mc_next_mint_nonce c' = mb_next_nonce b" "finality_advances c w"
      "finality_installed c' w" "unat (mc_total_minted_usdd_base c') =
         unat (mc_total_minted_usdd_base c) + unat (mb_total_usdd_amount_base b)"
    using assms by (simp_all only: apply_mint_batch_ok)
  note b = ok [unfolded mb_validate_ok] and t = mb_totals_convert [OF ok]
  show "unat (mc_next_mint_nonce c) = unat (mb_first_nonce b)" by (simp add: nonce)
  show "unat (mc_next_mint_nonce c') = unat (mc_next_mint_nonce c) + length (mb_outputs b)"
    using b rest(1) by (simp add: nonce [symmetric])
  show "unat (mc_total_minted_usdd_base c') =
      unat (mc_total_minted_usdd_base c) + 100 * total mo_usdt_amount_micro (mb_outputs b)"
    using b t rest(4) by simp
  show "0 < length (mb_outputs b)" "length (mb_outputs b) \<le> 64"
    "total mo_usdt_amount_micro (mb_outputs b) \<le> 20000000000000"
    "numbered mo_nonce (unat (mc_next_mint_nonce c)) (mb_outputs b)"
    using b by (simp_all add: nonce)
  show "mc_finalized_beacon_slot c \<le> mc_finalized_beacon_slot c'"
    "unat (mc_finalized_beacon_slot c') \<le> unat (mc_finalized_beacon_slot c) + 4096"
    using rest(2,3) by (simp_all add: finality_advances_def finality_installed_def word_le_nat_alt)
qed

lemma heartbeat_effect:
  assumes "apply_heartbeat c w = Inr c'"
  shows "mc_next_mint_nonce c' = mc_next_mint_nonce c"
    and "mc_total_minted_usdd_base c' = mc_total_minted_usdd_base c"
    and "mc_finalized_beacon_slot c < mc_finalized_beacon_slot c'"
    and "unat (mc_finalized_beacon_slot c') \<le> unat (mc_finalized_beacon_slot c) + 4096"
  using assms by (simp_all add: apply_heartbeat_ok finality_advances_def finality_installed_def)

lemma numbered_append [simp]:
  "numbered f n (xs @ ys) \<longleftrightarrow> numbered f n xs \<and> numbered f (n + length xs) ys"
  by (induction xs arbitrary: n) simp_all

lemma numbered_distinct: "numbered f n xs \<Longrightarrow> distinct (map f xs)"
proof -
  assume "numbered f n xs"
  then have "distinct (map (\<lambda>x. unat (f x)) xs)" by (simp add: numbered_def)
  then show ?thesis by (simp add: distinct_map inj_on_def)
qed

definition controller_inv ::
  "hash32 \<Rightarrow> u64 \<Rightarrow> finality_witness \<Rightarrow> controller_event list \<Rightarrow> controller \<Rightarrow> bool" where
  "controller_inv cfg n0 w0 evs c \<longleftrightarrow>
     mc_validate c = Inr ()
     \<and> mc_configuration_hash c = cfg
     \<and> unat (mc_sequence c) = length evs
     \<and> unat (mc_next_mint_nonce c) = unat n0 + length (minted evs)
     \<and> numbered mo_nonce (unat n0) (minted evs)
     \<and> unat (mc_total_minted_usdd_base c) = 100 * total mo_usdt_amount_micro (minted evs)
     \<and> unat (fw_finalized_beacon_slot w0) \<le> unat (mc_finalized_beacon_slot c)
     \<and> unat (mc_finalized_beacon_slot c) \<le> unat (fw_finalized_beacon_slot w0) + 4096 * length evs"

lemma minted_snoc [simp]: "minted [] = []" "minted (evs @ [e]) = minted evs @ event_outputs e"
  by (simp_all add: minted_def)

lemma reachable_inv: "controller_reachable cfg n0 w0 evs c \<Longrightarrow> controller_inv cfg n0 w0 evs c"
proof (induction rule: controller_reachable.induct)
  case (bootstrap c)
  then show ?case
    by (auto simp: controller_inv_def mc_bootstrap_ok mc_validate_ok fw_validate_ok)
next
  case (mint evs c b w c')
  have "mc_validate c' = Inr () \<and> mc_configuration_hash c' = mc_configuration_hash c
      \<and> unat (mc_sequence c') = unat (mc_sequence c) + 1"
    using mint.hyps(2) by (auto simp: apply_mint_batch_ok mc_validate_ok fw_validate_ok
        finality_installed_def dest: mb_totals_convert)
  with mint.IH mint_effect [OF mint.hyps(2)] show ?case
    by (simp add: controller_inv_def word_le_nat_alt)
next
  case (heartbeat evs c w c')
  have "mc_validate c' = Inr () \<and> mc_configuration_hash c' = mc_configuration_hash c
      \<and> unat (mc_sequence c') = unat (mc_sequence c) + 1"
    using heartbeat.hyps(2)
    by (auto simp: apply_heartbeat_ok mc_validate_ok fw_validate_ok finality_installed_def)
  with heartbeat.IH heartbeat_effect [OF heartbeat.hyps(2)] show ?case
    by (simp add: controller_inv_def word_less_nat_alt)
qed

lemma reachable_minted_below:
  assumes "controller_reachable cfg n0 w0 evs c" "m \<in> set (minted evs)"
  shows "mo_nonce m < mc_next_mint_nonce c"
proof -
  have inv: "unat (mc_next_mint_nonce c) = unat n0 + length (minted evs)"
    "numbered mo_nonce (unat n0) (minted evs)"
    using reachable_inv [OF assms(1)] by (simp_all add: controller_inv_def)
  obtain i where "i < length (minted evs)" "m = minted evs ! i"
    using assms(2) by (auto simp: in_set_conv_nth)
  with inv show ?thesis by (simp add: numbered_nth word_less_nat_alt)
qed

lemma replayed_batch:
  assumes "controller_reachable cfg n0 w0 evs c" "MintTransition b w \<in> set evs"
    "fw_validate w' = Inr ()" "mb_validate b = Inr ()"
  shows "apply_mint_batch c b w' = Inl (InvalidValue ''mint batch nonce is not next'')"
proof -
  have b: "mb_outputs b \<noteq> []" "numbered mo_nonce (unat (mb_first_nonce b)) (mb_outputs b)"
    using assms(4) by (simp_all add: mb_validate_ok)
  then have "hd (mb_outputs b) \<in> set (minted evs)"
    using assms(2) by (force simp: minted_def intro: hd_in_set)
  then have "mo_nonce (hd (mb_outputs b)) < mc_next_mint_nonce c"
    by (rule reachable_minted_below [OF assms(1)])
  moreover have "mo_nonce (hd (mb_outputs b)) = mb_first_nonce b"
    using b by (cases "mb_outputs b") (simp_all add: unat_eq_iff)
  ultimately have "mb_first_nonce b \<noteq> mc_next_mint_nonce c" by simp
  moreover have "mc_validate c = Inr ()"
    using reachable_inv [OF assms(1)] by (simp add: controller_inv_def)
  ultimately show ?thesis using assms(3,4) by (simp add: apply_mint_batch_def)
qed

interpretation ctl: checked_transitions controller_apply "\<lambda>c. mc_validate c = Inr ()"
    "\<lambda>c. unat (mc_sequence c)" controller_progress
proof
  fix c e c' assume st: "controller_apply c e = Inr c'"
  show "mc_validate c = Inr () \<and> mc_validate c' = Inr ()"
    using st by (cases e) (auto simp: apply_mint_batch_ok apply_heartbeat_ok mc_validate_ok
        fw_validate_ok finality_installed_def dest: mb_totals_convert)
  show "unat (mc_sequence c') = Suc (unat (mc_sequence c))"
    using st by (cases e) (auto simp: apply_mint_batch_ok apply_heartbeat_ok)
  show "controller_progress c c'"
  proof (cases e)
    case (MintTransition b w)
    with st have m: "apply_mint_batch c b w = Inr c'" by simp
    have "2000000000000000 \<le> 2000000000000000 * length (mb_outputs b)"
      using mint_effect(4) [OF m] by (cases "mb_outputs b") simp_all
    with mint_effect [OF m] m show ?thesis
      by (simp add: controller_progress_def apply_mint_batch_ok word_le_nat_alt)
  next
    case (Heartbeat w)
    with st have h: "apply_heartbeat c w = Inr c'" by simp
    with heartbeat_effect [OF h] show ?thesis
      by (simp add: controller_progress_def apply_heartbeat_ok)
  qed
qed (auto simp: controller_progress_def word_le_nat_alt)

lemma reachable_run:
  "controller_reachable cfg n0 w0 evs c \<longleftrightarrow>
     (\<exists>c0. mc_bootstrap cfg n0 w0 = Inr c0 \<and> try_fold controller_apply c0 evs = Inr c)"
proof
  show "controller_reachable cfg n0 w0 evs c \<Longrightarrow>
      \<exists>c0. mc_bootstrap cfg n0 w0 = Inr c0 \<and> try_fold controller_apply c0 evs = Inr c"
    by (induction rule: controller_reachable.induct) (auto simp: ctl.run_append and_then_Inr)
  show "controller_reachable cfg n0 w0 evs c"
    if "\<exists>c0. mc_bootstrap cfg n0 w0 = Inr c0 \<and> try_fold controller_apply c0 evs = Inr c"
    using that
  proof (induction evs arbitrary: c rule: rev_induct)
    case Nil
    then show ?case by (auto intro: controller_reachable.bootstrap)
  next
    case (snoc e evs)
    then obtain c1 where "controller_reachable cfg n0 w0 evs c1" "controller_apply c1 e = Inr c"
      by (auto simp: ctl.run_append and_then_Inr)
    then show ?case by (cases e) (auto intro: controller_reachable.intros)
  qed
qed

subsection \<open>Properties\<close>

definition example_finality :: finality_witness where
  "example_finality =
     \<lparr>fw_ethereum_light_client_digest = 1, fw_finalized_beacon_slot = 1,
      fw_finalized_beacon_root = 1, fw_finalized_execution_block = 1,
      fw_finalized_execution_state_root = 1, fw_execution_block_number = 1,
      fw_execution_block_timestamp = 1\<rparr>"

definition example_controller :: "u64 \<Rightarrow> u64 \<Rightarrow> u64 \<Rightarrow> controller" where
  "example_controller seq nonce minted_base =
     \<lparr>mc_version = 1, mc_sequence = seq, mc_next_mint_nonce = nonce,
      mc_ethereum_light_client_digest = 1, mc_finalized_beacon_slot = 1,
      mc_finalized_beacon_root = 1, mc_finalized_execution_state_root = 1,
      mc_total_minted_usdd_base = minted_base, mc_configuration_hash = 1\<rparr>"

lemma example_mint:
  "apply_mint_batch (example_controller 0 0 0) example_batch example_finality =
     Inr (example_controller 1 1 500)"
  unfolding apply_mint_batch_ok mc_validate_ok
  by (simp add: example_batch_valid)
    (simp add: fw_validate_ok finality_advances_def finality_installed_def example_batch_def
      example_finality_def example_controller_def PROTOCOL_VERSION_def)

lemma example_reachable:
  "controller_reachable 1 0 example_finality [MintTransition example_batch example_finality]
     (example_controller 1 1 500)"
proof -
  have "mc_bootstrap 1 0 example_finality = Inr (example_controller 0 0 0)"
    by (simp add: mc_bootstrap_ok fw_validate_ok example_finality_def example_controller_def
        PROTOCOL_VERSION_def)
  then have "controller_reachable 1 0 example_finality [] (example_controller 0 0 0)"
    by (rule controller_reachable.bootstrap)
  from controller_reachable.mint [OF this example_mint] show ?thesis by simp
qed

text \<open>
  C3: the invariant of the mint controller. In every state reached from the bootstrap by
  accepted mint batches and heartbeats the state validates, the sequence counts the
  transitions, the minted outputs carry consecutive nonces from the bootstrap nonce up to the
  next one, the minted total is exactly 100 times what they deposited, and the finalized slot
  has advanced by at most 4096 per transition.
\<close>

theorem controller_invariant:
  assumes "controller_reachable cfg n0 w0 evs c"
  shows "controller_inv cfg n0 w0 evs c"
  using assms by (rule reachable_inv)

theorem controller_invariant_witness:
  "controller_inv 1 0 example_finality [MintTransition example_batch example_finality]
     (example_controller 1 1 500)"
  by (rule controller_invariant [OF example_reachable])

text \<open>
  C4: no batch is minted twice. In every reachable state a batch that was already applied is
  refused, with the error for a batch that is not next, whatever the finality witness.
\<close>

theorem no_double_mint:
  assumes "controller_reachable cfg n0 w0 evs c" "MintTransition b w \<in> set evs"
    "fw_validate w' = Inr ()" "mb_validate b = Inr ()"
  shows "apply_mint_batch c b w' = Inl (InvalidValue ''mint batch nonce is not next'')"
  using assms by (rule replayed_batch)

theorem no_double_mint_witness:
  "apply_mint_batch (example_controller 1 1 500) example_batch example_finality =
     Inl (InvalidValue ''mint batch nonce is not next'')"
  by (rule no_double_mint [OF example_reachable])
    (simp_all add: example_batch_valid fw_validate_ok example_finality_def)

text \<open>
  What \<open>apply_mint_batch\<close> does. It succeeds exactly when state, batch and finality witness
  validate, the batch starts at the next nonce, the finalized checkpoint advances legally and
  neither the sequence nor the minted total overflows; and the new state then differs in
  exactly the sequence, the nonce, the total and the installed checkpoint.
\<close>

theorem apply_mint_batch_characterised:
  "apply_mint_batch c b w = Inr c' \<longleftrightarrow>
     mc_validate c = Inr () \<and> mb_validate b = Inr () \<and> fw_validate w = Inr ()
     \<and> mb_first_nonce b = mc_next_mint_nonce c \<and> finality_advances c w
     \<and> mc_version c' = mc_version c \<and> mc_configuration_hash c' = mc_configuration_hash c
     \<and> finality_installed c' w
     \<and> unat (mc_sequence c') = unat (mc_sequence c) + 1
     \<and> mc_next_mint_nonce c' = mb_next_nonce b
     \<and> unat (mc_total_minted_usdd_base c') =
         unat (mc_total_minted_usdd_base c) + unat (mb_total_usdd_amount_base b)"
  by (rule apply_mint_batch_ok)

end
