(* ===== verification/Supply_Audit.thy ===== *)
theory Supply_Audit
  imports Controller
begin

section \<open>Cross-chain accounting audit (usdd-core/src/audit.rs)\<close>

text \<open>
  Reconstruction of the accounting snapshot from deposit, mint, burn and payout records, and
  the verification of a snapshot. The four record loops are folds over the accumulators the
  code keeps (its \<open>BTreeMap\<close> and \<open>BTreeSet\<close> as a map and a set). \<open>u128\<close> values stay 128-bit
  words. The specification \<open>audit_accepts\<close> states on plain lists and integers what the
  records must satisfy; the reconstruction succeeds exactly on those.
\<close>

record audited_deposit =
  ad_nonce :: u64
  ad_deposit_id :: hash32
  ad_amount_usdt_micro :: u64

record audited_mint =
  am_nonce :: u64
  am_deposit_id :: hash32
  am_amount_usdd_base :: u64

record audited_burn =
  ab_burn_index :: u64
  ab_burn_id :: hash32
  ab_amount_usdd_base :: u64
  ab_recipient :: eth_address

record audited_payout =
  ap_burn_id :: hash32
  ap_amount_usdt_micro :: u64
  ap_recipient :: eth_address

record audit_snapshot =
  sn_actual_vault_usdt_micro :: u64
  sn_recorded_backing_usdt_micro :: u64
  sn_total_deposited_usdt_micro :: u64
  sn_total_paid_usdt_micro :: u64
  sn_total_minted_usdd_base :: u64
  sn_total_burned_usdd_base :: u64
  sn_deposits_unminted_usdt_micro :: u64
  sn_burns_unpaid_usdt_micro :: u64

record audit_report =
  ar_expected_backing_usdt_micro :: u128
  ar_recorded_backing_usdt_micro :: u128
  ar_physical_surplus_usdt_micro :: u128
  ar_circulating_usdd_base :: u128

datatype audit_error =
    NonConvertibleSupply string
  | BurnExceedsMint
  | PaidExceedsDeposited
  | DepositMintPartitionMismatch u128 u128
  | BurnPayoutPartitionMismatch u128 u128
  | PhysicalReserveShortfall u128 u128
  | RecordedBackingMismatch u128 u128
  | ConservationUnderflow
  | ZeroAuditIdentifier string
  | NonSequentialDepositNonce u64 u64
  | NonSequentialMintNonce u64 u64
  | NonSequentialBurnIndex u64 u64
  | DuplicateDepositId
  | DuplicateBurnId
  | MintDoesNotMatchDeposit
  | PayoutWithoutBurn
  | PayoutDoesNotMatchBurn
  | DuplicatePayout
  | AuditTotalOverflow

subsection \<open>AuditSnapshot::verify\<close>

definition snapshot_verify :: "audit_snapshot \<Rightarrow> audit_error + audit_report" where
  "snapshot_verify s =
     and_then (ok_or (usdd_base_to_usdt_micro (sn_total_minted_usdd_base s))
       (NonConvertibleSupply ''minted USDD'')) (\<lambda>minted.
     and_then (ok_or (usdd_base_to_usdt_micro (sn_total_burned_usdd_base s))
       (NonConvertibleSupply ''burned USDD'')) (\<lambda>burned.
     let minted_micro = ucast minted :: u128; burned_micro = ucast burned :: u128
     in if minted_micro < burned_micro then Inl BurnExceedsMint
     else if sn_total_deposited_usdt_micro s < sn_total_paid_usdt_micro s
     then Inl PaidExceedsDeposited
     else let deposit_partition = minted_micro + ucast (sn_deposits_unminted_usdt_micro s)
     in if deposit_partition \<noteq> ucast (sn_total_deposited_usdt_micro s)
     then Inl (DepositMintPartitionMismatch (ucast (sn_total_deposited_usdt_micro s))
       deposit_partition)
     else let burn_partition = ucast (sn_total_paid_usdt_micro s)
                               + ucast (sn_burns_unpaid_usdt_micro s)
     in if burn_partition \<noteq> burned_micro
     then Inl (BurnPayoutPartitionMismatch burned_micro burn_partition)
     else let backing_from_vault =
       ucast (sn_total_deposited_usdt_micro s - sn_total_paid_usdt_micro s)
     in if backing_from_vault \<noteq> ucast (sn_recorded_backing_usdt_micro s)
     then Inl (RecordedBackingMismatch backing_from_vault
       (ucast (sn_recorded_backing_usdt_micro s)))
     else and_then (ok_or
       (case checked_sub minted_micro burned_micro of None \<Rightarrow> None | Some v \<Rightarrow>
        case checked_add v (ucast (sn_deposits_unminted_usdt_micro s)) of None \<Rightarrow> None | Some v \<Rightarrow>
        checked_add v (ucast (sn_burns_unpaid_usdt_micro s)))
       ConservationUnderflow) (\<lambda>expected.
     if expected \<noteq> backing_from_vault
     then Inl (RecordedBackingMismatch expected backing_from_vault)
     else if ucast (sn_actual_vault_usdt_micro s) < backing_from_vault
     then Inl (PhysicalReserveShortfall backing_from_vault
       (ucast (sn_actual_vault_usdt_micro s)))
     else Inr \<lparr>ar_expected_backing_usdt_micro = expected,
               ar_recorded_backing_usdt_micro = backing_from_vault,
               ar_physical_surplus_usdt_micro =
                 ucast (sn_actual_vault_usdt_micro s) - backing_from_vault,
               ar_circulating_usdd_base =
                 (minted_micro - burned_micro) * ucast USDD_UNITS_PER_USDT_MICRO\<rparr>)))"

subsection \<open>The record loops\<close>

type_synonym deposit_acc = "(u64 \<rightharpoonup> audited_deposit) \<times> hash32 set \<times> u64"

definition deposit_step ::
  "deposit_acc \<Rightarrow> nat \<times> audited_deposit \<Rightarrow> audit_error + deposit_acc" where
  "deposit_step acc item =
     (case acc of (deposits_by_nonce, deposit_ids, total_deposited) \<Rightarrow>
      case item of (expected, deposit) \<Rightarrow>
      and_then (if expected < 2 ^ 64 then Inr (of_nat expected) else Inl AuditTotalOverflow)
        (\<lambda>expected.
      if ad_nonce deposit \<noteq> expected
      then Inl (NonSequentialDepositNonce expected (ad_nonce deposit))
      else if ad_deposit_id deposit = 0 then Inl (ZeroAuditIdentifier ''deposit'')
      else if ad_deposit_id deposit \<in> deposit_ids then Inl DuplicateDepositId
      else if ad_amount_usdt_micro deposit = 0 then Inl MintDoesNotMatchDeposit
      else and_then (ok_or (checked_add total_deposited (ad_amount_usdt_micro deposit))
        AuditTotalOverflow) (\<lambda>total_deposited.
        Inr (deposits_by_nonce(ad_nonce deposit \<mapsto> deposit),
             insert (ad_deposit_id deposit) deposit_ids, total_deposited))))"

definition mint_step ::
  "(u64 \<rightharpoonup> audited_deposit) \<Rightarrow> u64 \<Rightarrow> nat \<times> audited_mint \<Rightarrow> audit_error + u64" where
  "mint_step deposits_by_nonce total_minted item =
     (case item of (expected, mint) \<Rightarrow>
      and_then (if expected < 2 ^ 64 then Inr (of_nat expected) else Inl AuditTotalOverflow)
        (\<lambda>expected.
      if am_nonce mint \<noteq> expected then Inl (NonSequentialMintNonce expected (am_nonce mint))
      else and_then (ok_or (deposits_by_nonce (am_nonce mint)) MintDoesNotMatchDeposit)
        (\<lambda>deposit.
      and_then (ok_or (checked_mul (ad_amount_usdt_micro deposit) USDD_UNITS_PER_USDT_MICRO)
        AuditTotalOverflow) (\<lambda>expected_amount.
      if am_deposit_id mint \<noteq> ad_deposit_id deposit \<or> am_amount_usdd_base mint \<noteq> expected_amount
      then Inl MintDoesNotMatchDeposit
      else ok_or (checked_add total_minted (am_amount_usdd_base mint)) AuditTotalOverflow))))"

type_synonym burn_acc = "(hash32 \<rightharpoonup> audited_burn) \<times> u64"

definition burn_step :: "burn_acc \<Rightarrow> nat \<times> audited_burn \<Rightarrow> audit_error + burn_acc" where
  "burn_step acc item =
     (case acc of (burns_by_id, total_burned) \<Rightarrow> case item of (expected, burn) \<Rightarrow>
      and_then (if expected < 2 ^ 64 then Inr (of_nat expected) else Inl AuditTotalOverflow)
        (\<lambda>expected.
      if ab_burn_index burn \<noteq> expected
      then Inl (NonSequentialBurnIndex expected (ab_burn_index burn))
      else if ab_burn_id burn = 0 \<or> ab_recipient burn = 0
      then Inl (ZeroAuditIdentifier ''burn'')
      else if usdd_base_to_usdt_micro (ab_amount_usdd_base burn) = None
      then Inl (NonConvertibleSupply ''burned USDD'')
      else if burns_by_id (ab_burn_id burn) \<noteq> None then Inl DuplicateBurnId
      else and_then (ok_or (checked_add total_burned (ab_amount_usdd_base burn))
        AuditTotalOverflow) (\<lambda>total_burned.
        Inr (burns_by_id(ab_burn_id burn \<mapsto> burn), total_burned))))"

type_synonym payout_acc = "hash32 set \<times> u64"

definition payout_step ::
  "(hash32 \<rightharpoonup> audited_burn) \<Rightarrow> payout_acc \<Rightarrow> audited_payout \<Rightarrow> audit_error + payout_acc" where
  "payout_step burns_by_id acc payout =
     (case acc of (paid_ids, total_paid) \<Rightarrow>
      if ap_burn_id payout = 0 \<or> ap_recipient payout = 0
      then Inl (ZeroAuditIdentifier ''payout'')
      else if ap_burn_id payout \<in> paid_ids then Inl DuplicatePayout
      else and_then (ok_or (burns_by_id (ap_burn_id payout)) PayoutWithoutBurn) (\<lambda>burn.
      and_then (ok_or (usdd_base_to_usdt_micro (ab_amount_usdd_base burn))
        (NonConvertibleSupply ''burned USDD'')) (\<lambda>expected_amount.
      if ap_amount_usdt_micro payout \<noteq> expected_amount
        \<or> ap_recipient payout \<noteq> ab_recipient burn
      then Inl PayoutDoesNotMatchBurn
      else and_then (ok_or (checked_add total_paid (ap_amount_usdt_micro payout))
        AuditTotalOverflow) (\<lambda>total_paid.
        Inr (insert (ap_burn_id payout) paid_ids, total_paid)))))"

definition reconstruct_audit_snapshot ::
  "u64 \<Rightarrow> u64 \<Rightarrow> audited_deposit list \<Rightarrow> audited_mint list \<Rightarrow> audited_burn list
     \<Rightarrow> audited_payout list \<Rightarrow> audit_error + audit_snapshot \<times> audit_report" where
  "reconstruct_audit_snapshot actual_vault recorded_backing deposits mints burns payouts =
     and_then (try_fold deposit_step (Map.empty, {}, 0) (List.enumerate 0 deposits))
       (\<lambda>(deposits_by_nonce, _, total_deposited).
     and_then (try_fold (mint_step deposits_by_nonce) 0 (List.enumerate 0 mints))
       (\<lambda>total_minted.
     and_then (try_fold burn_step (Map.empty, 0) (List.enumerate 0 burns))
       (\<lambda>(burns_by_id, total_burned).
     and_then (try_fold (payout_step burns_by_id) ({}, 0) payouts) (\<lambda>(_, total_paid).
     and_then (ok_or (usdd_base_to_usdt_micro total_minted)
       (NonConvertibleSupply ''minted USDD'')) (\<lambda>minted_micro.
     and_then (ok_or (usdd_base_to_usdt_micro total_burned)
       (NonConvertibleSupply ''burned USDD'')) (\<lambda>burned_micro.
     and_then (ok_or (checked_sub total_deposited minted_micro) MintDoesNotMatchDeposit)
       (\<lambda>unminted.
     and_then (ok_or (checked_sub burned_micro total_paid) PayoutDoesNotMatchBurn) (\<lambda>unpaid.
     let snapshot = \<lparr>sn_actual_vault_usdt_micro = actual_vault,
                     sn_recorded_backing_usdt_micro = recorded_backing,
                     sn_total_deposited_usdt_micro = total_deposited,
                     sn_total_paid_usdt_micro = total_paid,
                     sn_total_minted_usdd_base = total_minted,
                     sn_total_burned_usdd_base = total_burned,
                     sn_deposits_unminted_usdt_micro = unminted,
                     sn_burns_unpaid_usdt_micro = unpaid\<rparr>
     in and_then (snapshot_verify snapshot) (\<lambda>report. Inr (snapshot, report))))))))))"

subsection \<open>What a verified snapshot satisfies\<close>

text \<open>
  \<open>conserved s\<close>, on integers: both supplies are whole micro-USDT; deposits split into minted
  and waiting, burns into paid and payable; the recorded backing is what came in less what
  went out; and the vault holds at least that.
\<close>

definition conserved :: "audit_snapshot \<Rightarrow> bool" where
  "conserved s \<longleftrightarrow>
     (\<exists>minted burned.
        unat (sn_total_minted_usdd_base s) = 100 * minted
        \<and> unat (sn_total_burned_usdd_base s) = 100 * burned
        \<and> burned \<le> minted
        \<and> minted + unat (sn_deposits_unminted_usdt_micro s) = unat (sn_total_deposited_usdt_micro s)
        \<and> unat (sn_total_paid_usdt_micro s) + unat (sn_burns_unpaid_usdt_micro s) = burned
        \<and> unat (sn_total_paid_usdt_micro s) + unat (sn_recorded_backing_usdt_micro s)
            = unat (sn_total_deposited_usdt_micro s)
        \<and> unat (sn_recorded_backing_usdt_micro s) \<le> unat (sn_actual_vault_usdt_micro s))"

definition report_of :: "audit_snapshot \<Rightarrow> audit_report" where
  "report_of s =
     \<lparr>ar_expected_backing_usdt_micro = of_nat (unat (sn_recorded_backing_usdt_micro s)),
      ar_recorded_backing_usdt_micro = of_nat (unat (sn_recorded_backing_usdt_micro s)),
      ar_physical_surplus_usdt_micro =
        of_nat (unat (sn_actual_vault_usdt_micro s) - unat (sn_recorded_backing_usdt_micro s)),
      ar_circulating_usdd_base =
        of_nat (unat (sn_total_minted_usdd_base s) - unat (sn_total_burned_usdd_base s))\<rparr>"

lemma unat_u64_to_u128 [simp]: "unat (ucast (w :: u64) :: u128) = unat w"
proof -
  have "unat w < 2 ^ 128" using u64_less_pow [of w] by simp
  then show ?thesis by (simp add: unsigned_ucast_eq take_bit_nat_eq_self)
qed

lemma u128_ops:
  fixes a b :: u128
  shows "unat a + unat b < 2 ^ 128 \<Longrightarrow> unat (a + b) = unat a + unat b"
    and "unat a * unat b < 2 ^ 128 \<Longrightarrow> unat (a * b) = unat a * unat b"
  using unat_add_lem [of a b] unat_mult_lem [of a b] by simp_all

lemma u64_sum_u128:
  "unat (ucast (v :: u64) + ucast (w :: u64) :: u128) = unat v + unat w"
  using u64_less_pow [of v] u64_less_pow [of w] by (subst u128_ops) simp_all

text \<open>The conservation equation: given the two partitions it always holds.\<close>

lemma expected_backing:
  fixes m b u x :: u64
  assumes "unat b \<le> unat m"
  shows "(case checked_sub (ucast m :: u128) (ucast b) of None \<Rightarrow> None | Some v \<Rightarrow>
      case checked_add v (ucast u) of None \<Rightarrow> None | Some v \<Rightarrow> checked_add v (ucast x)) =
    Some (of_nat (unat m - unat b + unat u + unat x))"
proof -
  have s: "unat (ucast m - ucast b :: u128) = unat m - unat b"
    using assms by (subst unat_sub) (simp_all add: word_le_nat_alt)
  have au: "unat (ucast m - ucast b + ucast u :: u128) = unat m - unat b + unat u"
    using s u64_less_pow [of m] u64_less_pow [of u] by (subst u128_ops) simp_all
  have ax: "unat (ucast m - ucast b + ucast u + ucast x :: u128) = unat m - unat b + unat u + unat x"
    using au u64_less_pow [of m] u64_less_pow [of u] u64_less_pow [of x]
    by (subst u128_ops) simp_all
  have "checked_sub (ucast m :: u128) (ucast b) = Some (ucast m - ucast b)"
    "checked_add (ucast m - ucast b :: u128) (ucast u) = Some (ucast m - ucast b + ucast u)"
    "checked_add (ucast m - ucast b + ucast u :: u128) (ucast x)
       = Some (ucast m - ucast b + ucast u + ucast x)"
    using assms s au ax by (simp_all add: checked_sub_Some checked_add_Some)
  moreover have "ucast m - ucast b + ucast u + ucast x
      = (of_nat (unat m - unat b + unat u + unat x) :: u128)"
    using ax by (metis of_nat_unat ucast_id)
  ultimately show ?thesis by simp
qed

lemma u128_of_nat: "n < 2 ^ 128 \<Longrightarrow> (w = of_nat n) \<longleftrightarrow> unat (w :: u128) = n"
  by (auto simp: word_unat_eq_iff unat_of_nat)

lemma u128_compare:
  fixes m b u d :: u64
  shows "(ucast m :: u128) < ucast b \<longleftrightarrow> unat m < unat b"
    and "(ucast m + ucast u :: u128) = ucast d \<longleftrightarrow> unat m + unat u = unat d"
    and "(ucast m :: u128) = ucast b \<longleftrightarrow> unat m = unat b"
  by (simp_all add: word_less_nat_alt word_unat_eq_iff [where 'a = 128] u64_sum_u128
      unat_eq_iff)

lemma report_values:
  fixes m b a r :: u64
  assumes "unat b \<le> unat m" "unat r \<le> unat a"
  shows "(ucast a - ucast r :: u128) = of_nat (unat a - unat r)"
    and "((ucast m - ucast b) * ucast USDD_UNITS_PER_USDT_MICRO :: u128)
           = of_nat (100 * unat m - 100 * unat b)"
proof -
  have diff: "unat (ucast a - ucast r :: u128) = unat a - unat r"
    using assms(2) by (subst unat_sub) (simp_all add: word_le_nat_alt)
  then show "(ucast a - ucast r :: u128) = of_nat (unat a - unat r)"
    by (metis of_nat_unat ucast_id)
  have d: "unat (ucast m - ucast b :: u128) = unat m - unat b"
    using assms(1) by (subst unat_sub) (simp_all add: word_le_nat_alt)
  have "unat ((ucast m - ucast b) * ucast USDD_UNITS_PER_USDT_MICRO :: u128) =
      (unat m - unat b) * 100"
    using u64_less_pow [of m] by (subst u128_ops) (simp_all add: d)
  then show "((ucast m - ucast b) * ucast USDD_UNITS_PER_USDT_MICRO :: u128)
      = of_nat (100 * unat m - 100 * unat b)"
    using u64_less_pow [of m]
    by (subst u128_of_nat) (simp_all add: diff_mult_distrib mult.commute)
qed

lemma conserved_iff:
  assumes "unat (sn_total_minted_usdd_base s) = 100 * unat (m :: u64)"
    "unat (sn_total_burned_usdd_base s) = 100 * unat (b :: u64)"
  shows "conserved s \<longleftrightarrow> unat b \<le> unat m
    \<and> unat m + unat (sn_deposits_unminted_usdt_micro s) = unat (sn_total_deposited_usdt_micro s)
    \<and> unat (sn_total_paid_usdt_micro s) + unat (sn_burns_unpaid_usdt_micro s) = unat b
    \<and> unat (sn_total_paid_usdt_micro s) + unat (sn_recorded_backing_usdt_micro s)
        = unat (sn_total_deposited_usdt_micro s)
    \<and> unat (sn_recorded_backing_usdt_micro s) \<le> unat (sn_actual_vault_usdt_micro s)"
  using assms by (auto simp: conserved_def)

lemma conserved_convertible:
  assumes "conserved s"
  shows "\<exists>m b. usdd_base_to_usdt_micro (sn_total_minted_usdd_base s) = Some m
    \<and> usdd_base_to_usdt_micro (sn_total_burned_usdd_base s) = Some b"
proof -
  have "100 dvd unat (sn_total_minted_usdd_base s)" "100 dvd unat (sn_total_burned_usdd_base s)"
    using assms by (auto simp: conserved_def)
  then have "usdd_base_to_usdt_micro (sn_total_minted_usdd_base s) \<noteq> None"
    "usdd_base_to_usdt_micro (sn_total_burned_usdd_base s) \<noteq> None"
    by (simp_all add: to_micro_None)
  then show ?thesis by simp
qed

lemma snapshot_verify_cases:
  assumes m: "usdd_base_to_usdt_micro (sn_total_minted_usdd_base s) = Some m"
    and b: "usdd_base_to_usdt_micro (sn_total_burned_usdd_base s) = Some b"
  shows "snapshot_verify s = Inr r \<longleftrightarrow> conserved s \<and> r = report_of s"
proof -
  define D P U X R A where "D = sn_total_deposited_usdt_micro s"
    and "P = sn_total_paid_usdt_micro s" and "U = sn_deposits_unminted_usdt_micro s"
    and "X = sn_burns_unpaid_usdt_micro s" and "R = sn_recorded_backing_usdt_micro s"
    and "A = sn_actual_vault_usdt_micro s"
  note fields = D_def [symmetric] P_def [symmetric] U_def [symmetric] X_def [symmetric]
    R_def [symmetric] A_def [symmetric]
  have conv: "unat (sn_total_minted_usdd_base s) = 100 * unat m"
    "unat (sn_total_burned_usdd_base s) = 100 * unat b"
    using m b by (simp_all add: to_micro_iff)
  let ?E = "unat m - unat b + unat U + unat X"
  have E: "?E < 2 ^ 128" using u64_less_pow [of m] u64_less_pow [of U] u64_less_pow [of X] by simp
  have DP: "unat (D - P) = unat D - unat P" if "\<not> D < P"
    using that by (simp add: unat_sub not_less)
  show ?thesis
  proof (cases "conserved s")
    case True
    then have C: "unat b \<le> unat m" "unat m + unat U = unat D" "unat P + unat X = unat b"
      "unat P + unat R = unat D" "unat R \<le> unat A"
      using conserved_iff [OF conv] by (simp_all add: fields)
    then have "\<not> D < P" "D - P = R" "?E = unat R"
      by (simp_all add: word_less_nat_alt word_unat_eq_iff unat_sub_if')
    moreover from C have "\<not> (ucast m :: u128) < ucast b" "ucast m + ucast U = (ucast D :: u128)"
      "ucast P + ucast X = (ucast b :: u128)" "\<not> (ucast A :: u128) < ucast R"
      by (simp_all only: u128_compare not_less)
    moreover note expected_backing [OF C(1), where u = U and x = X, unfolded \<open>?E = unat R\<close>]
      report_values [OF C(1,5)]
    ultimately have "snapshot_verify s = Inr (report_of s)"
      unfolding snapshot_verify_def report_of_def m b fields conv by (simp add: Let_def)
    with True show ?thesis by auto
  next
    case False
    have "snapshot_verify s \<noteq> Inr r"
    proof
      assume *: "snapshot_verify s = Inr r"
      from * have c1: "\<not> (ucast m :: u128) < ucast b"
        unfolding snapshot_verify_def m b fields Let_def by (auto simp: if_Inl_Inr)
      then have c: "unat b \<le> unat m" by (simp only: u128_compare not_less)
      from * c1 have "\<not> D < P" "ucast m + ucast U = (ucast D :: u128)"
        "ucast P + ucast X = (ucast b :: u128)" "(ucast (D - P) :: u128) = ucast R"
        "\<not> (ucast A :: u128) < ucast (D - P)"
        unfolding snapshot_verify_def m b fields Let_def
        by (auto simp: if_Inl_Inr and_then_Inr)
      then show False
        using False conserved_iff [OF conv] c DP unfolding u128_compare fields
        by (simp add: word_less_nat_alt)
    qed
    with False show ?thesis by simp
  qed
qed

lemma snapshot_verify_ok:
  "snapshot_verify s = Inr r \<longleftrightarrow> conserved s \<and> r = report_of s"
proof (cases "\<exists>m b. usdd_base_to_usdt_micro (sn_total_minted_usdd_base s) = Some m
    \<and> usdd_base_to_usdt_micro (sn_total_burned_usdd_base s) = Some b")
  case True
  then show ?thesis using snapshot_verify_cases by blast
next
  case False
  then show ?thesis
    using conserved_convertible [of s]
    by (cases "usdd_base_to_usdt_micro (sn_total_minted_usdd_base s)")
      (auto simp: snapshot_verify_def)
qed

subsection \<open>What the record loops accept\<close>

definition deposit_record_ok :: "audited_deposit \<Rightarrow> bool" where
  "deposit_record_ok d \<longleftrightarrow> ad_deposit_id d \<noteq> 0 \<and> ad_amount_usdt_micro d \<noteq> 0"

definition mint_matches :: "audited_mint \<Rightarrow> audited_deposit \<Rightarrow> bool" where
  "mint_matches m d \<longleftrightarrow> am_deposit_id m = ad_deposit_id d
     \<and> unat (am_amount_usdd_base m) = 100 * unat (ad_amount_usdt_micro d)"

definition burn_record_ok :: "audited_burn \<Rightarrow> bool" where
  "burn_record_ok b \<longleftrightarrow> ab_burn_id b \<noteq> 0 \<and> ab_recipient b \<noteq> 0
     \<and> 100 dvd unat (ab_amount_usdd_base b)"

definition payout_matches :: "audited_payout \<Rightarrow> audited_burn \<Rightarrow> bool" where
  "payout_matches p b \<longleftrightarrow> ap_burn_id p = ab_burn_id b \<and> ap_recipient p = ab_recipient b
     \<and> unat (ab_amount_usdd_base b) = 100 * unat (ap_amount_usdt_micro p)"

definition by_nonce :: "audited_deposit list \<Rightarrow> (u64 \<rightharpoonup> audited_deposit) \<Rightarrow> u64 \<rightharpoonup> audited_deposit" where
  "by_nonce ds m = fold (\<lambda>d m. m(ad_nonce d \<mapsto> d)) ds m"

definition by_id :: "audited_burn list \<Rightarrow> (hash32 \<rightharpoonup> audited_burn) \<Rightarrow> hash32 \<rightharpoonup> audited_burn" where
  "by_id bs m = fold (\<lambda>b m. m(ab_burn_id b \<mapsto> b)) bs m"

lemma offset_check [simp]:
  "(if k < 2 ^ 64 then Inr (of_nat k) else Inl e) = Inr w \<longleftrightarrow> unat (w :: u64) = k"
proof
  assume "(if k < 2 ^ 64 then Inr (of_nat k) else Inl e) = Inr w"
  then show "unat w = k" by (auto simp: unat_of_nat_u64 split: if_splits)
next
  assume "unat w = k"
  moreover from this have "k < 2 ^ 64" using u64_less_pow [of w] by simp
  moreover have "of_nat k = w" using \<open>unat w = k\<close> by (metis of_nat_unat ucast_id)
  ultimately show "(if k < 2 ^ 64 then Inr (of_nat k) else Inl e) = Inr w" by simp
qed

lemma deposit_step_ok:
  "deposit_step (m, ids, t) (k, d) = Inr (m', ids', t') \<longleftrightarrow>
     unat (ad_nonce d) = k \<and> deposit_record_ok d \<and> ad_deposit_id d \<notin> ids
     \<and> unat t' = unat t + unat (ad_amount_usdt_micro d)
     \<and> m' = m(ad_nonce d \<mapsto> d) \<and> ids' = insert (ad_deposit_id d) ids"
  by (auto simp: deposit_step_def deposit_record_ok_def and_then_Inr if_Inl_Inr ok_or_Inr
      checked_add_Some simp del: power_numeral)

lemma deposit_fold:
  "try_fold deposit_step (m, ids, t) (List.enumerate k ds) = Inr (m', ids', t') \<longleftrightarrow>
     numbered ad_nonce k ds \<and> (\<forall>d \<in> set ds. deposit_record_ok d)
     \<and> distinct (map ad_deposit_id ds) \<and> ad_deposit_id ` set ds \<inter> ids = {}
     \<and> unat t' = unat t + total ad_amount_usdt_micro ds
     \<and> m' = by_nonce ds m \<and> ids' = ad_deposit_id ` set ds \<union> ids"
proof (induction ds arbitrary: m ids t k)
  case Nil
  then show ?case by (auto simp: by_nonce_def unat_eq_iff)
next
  case (Cons d ds)
  have "try_fold deposit_step (m, ids, t) (List.enumerate k (d # ds)) = Inr (m', ids', t') \<longleftrightarrow>
      unat (ad_nonce d) = k \<and> deposit_record_ok d \<and> ad_deposit_id d \<notin> ids
      \<and> numbered ad_nonce (Suc k) ds \<and> (\<forall>d \<in> set ds. deposit_record_ok d)
      \<and> distinct (map ad_deposit_id ds)
      \<and> ad_deposit_id ` set ds \<inter> insert (ad_deposit_id d) ids = {}
      \<and> m' = by_nonce ds (m(ad_nonce d \<mapsto> d))
      \<and> ids' = ad_deposit_id ` set ds \<union> insert (ad_deposit_id d) ids
      \<and> (\<exists>t1 :: u64. unat t1 = unat t + unat (ad_amount_usdt_micro d)
           \<and> unat t' = unat t1 + total ad_amount_usdt_micro ds)"
    by (auto simp: and_then_Inr deposit_step_ok Cons.IH)
  then show ?case unfolding ex_u64_partial_sum by (auto simp: by_nonce_def)
qed

lemma by_nonce_lookup:
  "numbered ad_nonce k ds \<Longrightarrow> by_nonce ds m n =
     (if k \<le> unat n \<and> unat n < k + length ds then Some (ds ! (unat n - k)) else m n)"
proof (induction ds arbitrary: k m)
  case Nil
  then show ?case by (auto simp: by_nonce_def)
next
  case (Cons d ds)
  then have "numbered ad_nonce (Suc k) ds" by simp
  from Cons.IH [OF this, of "m(ad_nonce d \<mapsto> d)"]
  have "by_nonce (d # ds) m n = (if Suc k \<le> unat n \<and> unat n < Suc k + length ds
      then Some (ds ! (unat n - Suc k)) else (m(ad_nonce d \<mapsto> d)) n)"
    by (simp only: by_nonce_def fold_simps)
  moreover have "n = ad_nonce d \<longleftrightarrow> unat n = k" using Cons.prems by (auto simp: unat_eq_iff)
  ultimately show ?case by (auto simp: nth_Cons' Suc_diff_Suc)
qed

lemma mint_step_ok:
  assumes "numbered ad_nonce 0 ds"
  shows "mint_step (by_nonce ds Map.empty) t (k, m) = Inr t' \<longleftrightarrow>
     unat (am_nonce m) = k \<and> k < length ds \<and> mint_matches m (ds ! k)
     \<and> unat t' = unat t + unat (am_amount_usdd_base m)"
  using by_nonce_lookup [OF assms, of Map.empty "am_nonce m"]
  by (auto simp: mint_step_def mint_matches_def and_then_Inr if_Inl_Inr ok_or_Inr
      checked_add_Some checked_mul_Some simp del: power_numeral split: if_splits)

lemma mint_fold:
  assumes "numbered ad_nonce 0 ds"
  shows "try_fold (mint_step (by_nonce ds Map.empty)) t (List.enumerate k ms) = Inr t' \<longleftrightarrow>
     numbered am_nonce k ms \<and> (ms = [] \<or> k + length ms \<le> length ds)
     \<and> list_all2 mint_matches ms (take (length ms) (drop k ds))
     \<and> unat t' = unat t + total am_amount_usdd_base ms"
proof (induction ms arbitrary: t k)
  case Nil
  then show ?case by (auto simp: unat_eq_iff)
next
  case (Cons m ms)
  have "try_fold (mint_step (by_nonce ds Map.empty)) t (List.enumerate k (m # ms)) = Inr t' \<longleftrightarrow>
      unat (am_nonce m) = k \<and> k < length ds \<and> mint_matches m (ds ! k)
      \<and> numbered am_nonce (Suc k) ms \<and> (ms = [] \<or> Suc k + length ms \<le> length ds)
      \<and> list_all2 mint_matches ms (take (length ms) (drop (Suc k) ds))
      \<and> (\<exists>t1 :: u64. unat t1 = unat t + unat (am_amount_usdd_base m)
           \<and> unat t' = unat t1 + total am_amount_usdd_base ms)"
    by (auto simp: and_then_Inr mint_step_ok [OF assms] Cons.IH)
  moreover have "k < length ds \<Longrightarrow> drop k ds = ds ! k # drop (Suc k) ds"
    by (rule Cons_nth_drop_Suc [symmetric])
  ultimately show ?case unfolding ex_u64_partial_sum by (cases ms) auto
qed

lemma burn_step_ok:
  "burn_step (m, t) (k, b) = Inr (m', t') \<longleftrightarrow>
     unat (ab_burn_index b) = k \<and> burn_record_ok b \<and> m (ab_burn_id b) = None
     \<and> unat t' = unat t + unat (ab_amount_usdd_base b) \<and> m' = m(ab_burn_id b \<mapsto> b)"
  by (auto simp: burn_step_def burn_record_ok_def and_then_Inr if_Inl_Inr ok_or_Inr
      checked_add_Some to_micro_None simp del: power_numeral not_None_eq)

lemma burn_fold:
  "try_fold burn_step (m, t) (List.enumerate k bs) = Inr (m', t') \<longleftrightarrow>
     numbered ab_burn_index k bs \<and> (\<forall>b \<in> set bs. burn_record_ok b)
     \<and> distinct (map ab_burn_id bs) \<and> (\<forall>b \<in> set bs. m (ab_burn_id b) = None)
     \<and> unat t' = unat t + total ab_amount_usdd_base bs \<and> m' = by_id bs m"
proof (induction bs arbitrary: m t k)
  case Nil
  then show ?case by (auto simp: by_id_def unat_eq_iff)
next
  case (Cons b bs)
  have "try_fold burn_step (m, t) (List.enumerate k (b # bs)) = Inr (m', t') \<longleftrightarrow>
      unat (ab_burn_index b) = k \<and> burn_record_ok b \<and> m (ab_burn_id b) = None
      \<and> numbered ab_burn_index (Suc k) bs \<and> (\<forall>b \<in> set bs. burn_record_ok b)
      \<and> distinct (map ab_burn_id bs)
      \<and> (\<forall>c \<in> set bs. ab_burn_id c \<noteq> ab_burn_id b \<and> m (ab_burn_id c) = None)
      \<and> m' = by_id bs (m(ab_burn_id b \<mapsto> b))
      \<and> (\<exists>t1 :: u64. unat t1 = unat t + unat (ab_amount_usdd_base b)
           \<and> unat t' = unat t1 + total ab_amount_usdd_base bs)"
    by (auto simp: and_then_Inr burn_step_ok Cons.IH)
  moreover have "(\<forall>c \<in> set bs. ab_burn_id c \<noteq> ab_burn_id b \<and> m (ab_burn_id c) = None) \<longleftrightarrow>
      ab_burn_id b \<notin> ab_burn_id ` set bs \<and> (\<forall>c \<in> set bs. m (ab_burn_id c) = None)"
    by (auto simp: image_iff)
  ultimately show ?case unfolding ex_u64_partial_sum by (auto simp: by_id_def)
qed

lemma by_id_lookup:
  "distinct (map ab_burn_id bs) \<Longrightarrow>
     by_id bs m i = Some b \<longleftrightarrow>
       b \<in> set bs \<and> ab_burn_id b = i \<or> i \<notin> ab_burn_id ` set bs \<and> m i = Some b"
proof (induction bs arbitrary: m)
  case Nil
  then show ?case by (simp add: by_id_def)
next
  case (Cons c bs)
  then have "by_id (c # bs) m i = Some b \<longleftrightarrow> b \<in> set bs \<and> ab_burn_id b = i
      \<or> i \<notin> ab_burn_id ` set bs \<and> (m(ab_burn_id c \<mapsto> c)) i = Some b"
    by (simp add: by_id_def)
  with Cons.prems show ?case by auto
qed

lemma payout_step_ok:
  assumes "distinct (map ab_burn_id bs)" "\<forall>b \<in> set bs. burn_record_ok b"
  shows "payout_step (by_id bs Map.empty) (ids, t) p = Inr (ids', t') \<longleftrightarrow>
     ap_burn_id p \<notin> ids \<and> (\<exists>b \<in> set bs. payout_matches p b)
     \<and> unat t' = unat t + unat (ap_amount_usdt_micro p) \<and> ids' = insert (ap_burn_id p) ids"
proof -
  have "payout_step (by_id bs Map.empty) (ids, t) p = Inr (ids', t') \<longleftrightarrow>
      ap_burn_id p \<noteq> 0 \<and> ap_recipient p \<noteq> 0 \<and> ap_burn_id p \<notin> ids
      \<and> (\<exists>b \<in> set bs. payout_matches p b)
      \<and> unat t' = unat t + unat (ap_amount_usdt_micro p) \<and> ids' = insert (ap_burn_id p) ids"
    by (auto simp: payout_step_def payout_matches_def and_then_Inr if_Inl_Inr ok_or_Inr
        by_id_lookup [OF assms(1)] to_micro_iff checked_add_Some) force
  then show ?thesis using assms(2) by (auto simp: payout_matches_def burn_record_ok_def)
qed

lemma payout_fold:
  assumes "distinct (map ab_burn_id bs)" "\<forall>b \<in> set bs. burn_record_ok b"
  shows "try_fold (payout_step (by_id bs Map.empty)) (ids, t) ps = Inr (ids', t') \<longleftrightarrow>
     (\<forall>p \<in> set ps. \<exists>b \<in> set bs. payout_matches p b)
     \<and> distinct (map ap_burn_id ps) \<and> ap_burn_id ` set ps \<inter> ids = {}
     \<and> unat t' = unat t + total ap_amount_usdt_micro ps \<and> ids' = ap_burn_id ` set ps \<union> ids"
proof (induction ps arbitrary: ids t)
  case Nil
  then show ?case by (auto simp: unat_eq_iff)
next
  case (Cons p ps)
  have "try_fold (payout_step (by_id bs Map.empty)) (ids, t) (p # ps) = Inr (ids', t') \<longleftrightarrow>
      ap_burn_id p \<notin> ids \<and> (\<exists>b \<in> set bs. payout_matches p b)
      \<and> (\<forall>p \<in> set ps. \<exists>b \<in> set bs. payout_matches p b) \<and> distinct (map ap_burn_id ps)
      \<and> ap_burn_id ` set ps \<inter> insert (ap_burn_id p) ids = {}
      \<and> ids' = ap_burn_id ` set ps \<union> insert (ap_burn_id p) ids
      \<and> (\<exists>t1 :: u64. unat t1 = unat t + unat (ap_amount_usdt_micro p)
           \<and> unat t' = unat t1 + total ap_amount_usdt_micro ps)"
    by (auto simp: and_then_Inr payout_step_ok [OF assms] Cons.IH)
  then show ?case unfolding ex_u64_partial_sum by auto
qed

subsection \<open>Exact totals of the waiting deposits and payable burns\<close>

definition unminted :: "audited_deposit list \<Rightarrow> audited_mint list \<Rightarrow> audited_deposit list" where
  "unminted ds ms = drop (length ms) ds"

definition unpaid :: "audited_burn list \<Rightarrow> audited_payout list \<Rightarrow> audited_burn list" where
  "unpaid bs ps = filter (\<lambda>b. ab_burn_id b \<notin> ap_burn_id ` set ps) bs"

lemma minted_total:
  "list_all2 mint_matches ms ds \<Longrightarrow>
     total am_amount_usdd_base ms = 100 * total ad_amount_usdt_micro ds"
  by (induction ms ds rule: list_all2_induct) (auto simp: mint_matches_def)

lemma deposits_split:
  assumes "list_all2 mint_matches ms (take (length ms) ds)"
  shows "100 * total ad_amount_usdt_micro ds =
    total am_amount_usdd_base ms + 100 * total ad_amount_usdt_micro (unminted ds ms)"
proof -
  have "total ad_amount_usdt_micro ds =
      total ad_amount_usdt_micro (take (length ms) ds) + total ad_amount_usdt_micro (unminted ds ms)"
    using total_simps(3) [of ad_amount_usdt_micro "take (length ms) ds" "drop (length ms) ds"]
    by (simp add: unminted_def)
  then show ?thesis using minted_total [OF assms] by simp
qed

lemma total_partition: "total f xs = total f (filter P xs) + total f (filter (\<lambda>x. \<not> P x) xs)"
  by (induction xs) auto

lemma total_filter_insert:
  assumes "distinct (map g xs)" "x \<in> set xs" "g x \<notin> S"
  shows "total f (filter (\<lambda>y. g y \<in> insert (g x) S) xs) =
    unat (f x) + total f (filter (\<lambda>y. g y \<in> S) xs)"
  using assms
proof (induction xs)
  case (Cons y ys)
  show ?case
  proof (cases "x = y")
    case True
    with Cons.prems have "g z \<noteq> g x" if "z \<in> set ys" for z
      using that by (metis distinct.simps(2) image_eqI list.set_map list.simps(9))
    then have "filter (\<lambda>z. g z \<in> insert (g x) S) ys = filter (\<lambda>z. g z \<in> S) ys"
      by (intro filter_cong) simp_all
    with True Cons.prems show ?thesis by simp
  next
    case False
    with Cons show ?thesis by (auto simp: image_iff)
  qed
qed simp

lemma paid_total:
  assumes "distinct (map ab_burn_id bs)"
  shows "\<lbrakk>\<forall>p \<in> set ps. \<exists>b \<in> set bs. payout_matches p b; distinct (map ap_burn_id ps)\<rbrakk> \<Longrightarrow>
    total ab_amount_usdd_base (filter (\<lambda>b. ab_burn_id b \<in> ap_burn_id ` set ps) bs) =
    100 * total ap_amount_usdt_micro ps"
proof (induction ps)
  case Nil
  then show ?case by simp
next
  case (Cons p ps)
  then obtain b where b: "b \<in> set bs" "payout_matches p b" by auto
  with Cons.prems have "ab_burn_id b \<notin> ap_burn_id ` set ps"
    by (simp add: payout_matches_def)
  from total_filter_insert [OF assms b(1) this, of ab_amount_usdd_base] b(2) Cons
  show ?case by (simp add: payout_matches_def)
qed

lemma burns_split:
  assumes "distinct (map ab_burn_id bs)" "\<forall>p \<in> set ps. \<exists>b \<in> set bs. payout_matches p b"
    "distinct (map ap_burn_id ps)"
  shows "total ab_amount_usdd_base bs =
    100 * total ap_amount_usdt_micro ps + total ab_amount_usdd_base (unpaid bs ps)"
  using total_partition [of ab_amount_usdd_base bs "\<lambda>b. ab_burn_id b \<in> ap_burn_id ` set ps"]
    paid_total [OF assms] by (simp add: unpaid_def)

subsection \<open>The audit accepts exactly the consistent records\<close>

text \<open>
  \<open>records_consistent\<close>: deposits and burns are numbered from zero with distinct non-zero
  identifiers, the mints consume a prefix of the deposits exactly, and every payout settles
  one burn, no burn twice. \<open>audit_accepts\<close> adds that no more was burned than minted, that the
  recorded backing is the deposits less the payouts, that the vault holds it, and that the
  totals fit 64 bits.
\<close>

definition records_consistent ::
  "audited_deposit list \<Rightarrow> audited_mint list \<Rightarrow> audited_burn list \<Rightarrow> audited_payout list \<Rightarrow> bool"
where
  "records_consistent ds ms bs ps \<longleftrightarrow>
     numbered ad_nonce 0 ds \<and> (\<forall>d \<in> set ds. deposit_record_ok d) \<and> distinct (map ad_deposit_id ds)
     \<and> numbered am_nonce 0 ms \<and> length ms \<le> length ds
     \<and> list_all2 mint_matches ms (take (length ms) ds)
     \<and> numbered ab_burn_index 0 bs \<and> (\<forall>b \<in> set bs. burn_record_ok b)
     \<and> distinct (map ab_burn_id bs)
     \<and> (\<forall>p \<in> set ps. \<exists>b \<in> set bs. payout_matches p b) \<and> distinct (map ap_burn_id ps)"

definition audit_accepts ::
  "u64 \<Rightarrow> u64 \<Rightarrow> audited_deposit list \<Rightarrow> audited_mint list \<Rightarrow> audited_burn list
     \<Rightarrow> audited_payout list \<Rightarrow> bool" where
  "audit_accepts actual recorded ds ms bs ps \<longleftrightarrow>
     records_consistent ds ms bs ps
     \<and> total ad_amount_usdt_micro ds < 2 ^ 64 \<and> total am_amount_usdd_base ms < 2 ^ 64
     \<and> total ab_amount_usdd_base bs \<le> total am_amount_usdd_base ms
     \<and> total ap_amount_usdt_micro ps + unat recorded = total ad_amount_usdt_micro ds
     \<and> unat recorded \<le> unat actual"

definition snapshot_of ::
  "u64 \<Rightarrow> u64 \<Rightarrow> audited_deposit list \<Rightarrow> audited_mint list \<Rightarrow> audited_burn list
     \<Rightarrow> audited_payout list \<Rightarrow> audit_snapshot" where
  "snapshot_of actual recorded ds ms bs ps =
     \<lparr>sn_actual_vault_usdt_micro = actual,
      sn_recorded_backing_usdt_micro = recorded,
      sn_total_deposited_usdt_micro = of_nat (total ad_amount_usdt_micro ds),
      sn_total_paid_usdt_micro = of_nat (total ap_amount_usdt_micro ps),
      sn_total_minted_usdd_base = of_nat (total am_amount_usdd_base ms),
      sn_total_burned_usdd_base = of_nat (total ab_amount_usdd_base bs),
      sn_deposits_unminted_usdt_micro = of_nat (total ad_amount_usdt_micro (unminted ds ms)),
      sn_burns_unpaid_usdt_micro = of_nat (total ab_amount_usdd_base (unpaid bs ps) div 100)\<rparr>"

lemma u64_of_nat: "n < 2 ^ 64 \<Longrightarrow> (w = of_nat n) \<longleftrightarrow> unat (w :: u64) = n"
  by (auto simp: word_unat_eq_iff unat_of_nat_u64)

text \<open>The loops, together.\<close>

lemma reconstruct_loops:
  "reconstruct_audit_snapshot actual recorded ds ms bs ps = Inr (sn, rep) \<longleftrightarrow>
     records_consistent ds ms bs ps
     \<and> sn_actual_vault_usdt_micro sn = actual \<and> sn_recorded_backing_usdt_micro sn = recorded
     \<and> unat (sn_total_deposited_usdt_micro sn) = total ad_amount_usdt_micro ds
     \<and> unat (sn_total_minted_usdd_base sn) = total am_amount_usdd_base ms
     \<and> unat (sn_total_burned_usdd_base sn) = total ab_amount_usdd_base bs
     \<and> unat (sn_total_paid_usdt_micro sn) = total ap_amount_usdt_micro ps
     \<and> (\<exists>(m :: u64) (b :: u64). unat (sn_total_minted_usdd_base sn) = 100 * unat m
          \<and> unat (sn_total_burned_usdd_base sn) = 100 * unat b
          \<and> unat (sn_total_deposited_usdt_micro sn)
              = unat m + unat (sn_deposits_unminted_usdt_micro sn)
          \<and> unat b = unat (sn_total_paid_usdt_micro sn) + unat (sn_burns_unpaid_usdt_micro sn))
     \<and> snapshot_verify sn = Inr rep"
  (is "?L \<longleftrightarrow> ?R")
proof
  assume ?L
  then obtain m1 ids t_d t_m m2 t_b ids2 t_p m k where
    loops: "try_fold deposit_step (Map.empty, {}, 0) (List.enumerate 0 ds) = Inr (m1, ids, t_d)"
    "try_fold (mint_step m1) 0 (List.enumerate 0 ms) = Inr t_m"
    "try_fold burn_step (Map.empty, 0) (List.enumerate 0 bs) = Inr (m2, t_b)"
    "try_fold (payout_step m2) ({}, 0) ps = Inr (ids2, t_p)"
    and fin: "sn_actual_vault_usdt_micro sn = actual" "sn_recorded_backing_usdt_micro sn = recorded"
    "sn_total_deposited_usdt_micro sn = t_d" "sn_total_minted_usdd_base sn = t_m"
    "sn_total_burned_usdd_base sn = t_b" "sn_total_paid_usdt_micro sn = t_p"
    "snapshot_verify sn = Inr rep"
    and conv: "usdd_base_to_usdt_micro t_m = Some m" "usdd_base_to_usdt_micro t_b = Some k"
    "checked_sub t_d m = Some (sn_deposits_unminted_usdt_micro sn)"
    "checked_sub k t_p = Some (sn_burns_unpaid_usdt_micro sn)"
    by (auto simp: reconstruct_audit_snapshot_def and_then_Inr ok_or_Inr Let_def)
  have d: "numbered ad_nonce 0 ds" "m1 = by_nonce ds Map.empty"
    using loops(1) by (auto simp: deposit_fold)
  have b: "distinct (map ab_burn_id bs)" "\<forall>b \<in> set bs. burn_record_ok b" "m2 = by_id bs Map.empty"
    using loops(3) by (auto simp: burn_fold)
  have "records_consistent ds ms bs ps"
    "unat t_d = total ad_amount_usdt_micro ds" "unat t_m = total am_amount_usdd_base ms"
    "unat t_b = total ab_amount_usdd_base bs" "unat t_p = total ap_amount_usdt_micro ps"
    using loops unfolding d(2) b(3) deposit_fold mint_fold [OF d(1)] burn_fold
      payout_fold [OF b(1,2)] by (auto simp: records_consistent_def)
  then show ?R
    using fin(7) conv [unfolded to_micro_iff checked_sub_Some] unfolding fin(1-6)
    by blast
next
  assume R: ?R
  then have d: "numbered ad_nonce 0 ds" and b: "distinct (map ab_burn_id bs)"
    "\<forall>b \<in> set bs. burn_record_ok b"
    by (simp_all add: records_consistent_def)
  have loops: "try_fold deposit_step (Map.empty, {}, 0) (List.enumerate 0 ds) =
      Inr (by_nonce ds Map.empty, ad_deposit_id ` set ds, sn_total_deposited_usdt_micro sn)"
    "try_fold (mint_step (by_nonce ds Map.empty)) 0 (List.enumerate 0 ms) =
      Inr (sn_total_minted_usdd_base sn)"
    "try_fold burn_step (Map.empty, 0) (List.enumerate 0 bs) =
      Inr (by_id bs Map.empty, sn_total_burned_usdd_base sn)"
    "try_fold (payout_step (by_id bs Map.empty)) ({}, 0) ps =
      Inr (ap_burn_id ` set ps, sn_total_paid_usdt_micro sn)"
    using R unfolding deposit_fold mint_fold [OF d] burn_fold payout_fold [OF b]
    by (simp_all add: records_consistent_def)
  from R obtain m k :: u64 where
    "usdd_base_to_usdt_micro (sn_total_minted_usdd_base sn) = Some m"
    "usdd_base_to_usdt_micro (sn_total_burned_usdd_base sn) = Some k"
    "checked_sub (sn_total_deposited_usdt_micro sn) m = Some (sn_deposits_unminted_usdt_micro sn)"
    "checked_sub k (sn_total_paid_usdt_micro sn) = Some (sn_burns_unpaid_usdt_micro sn)"
    unfolding to_micro_iff checked_sub_Some by blast
  then show ?L
    using R loops by (cases sn) (simp add: reconstruct_audit_snapshot_def)
qed

lemma total_dvd: "\<forall>x \<in> set xs. k dvd unat (f x) \<Longrightarrow> k dvd total f xs"
  by (induction xs) auto

lemma consistent_totals:
  assumes "records_consistent ds ms bs ps"
  shows "100 * total ad_amount_usdt_micro ds =
      total am_amount_usdd_base ms + 100 * total ad_amount_usdt_micro (unminted ds ms)"
    and "total ab_amount_usdd_base bs =
      100 * total ap_amount_usdt_micro ps + total ab_amount_usdd_base (unpaid bs ps)"
    and "100 dvd total am_amount_usdd_base ms"
    and "100 dvd total ab_amount_usdd_base (unpaid bs ps)"
proof -
  show "100 * total ad_amount_usdt_micro ds =
      total am_amount_usdd_base ms + 100 * total ad_amount_usdt_micro (unminted ds ms)"
    using assms deposits_split by (auto simp: records_consistent_def)
  show "total ab_amount_usdd_base bs =
      100 * total ap_amount_usdt_micro ps + total ab_amount_usdd_base (unpaid bs ps)"
    using assms burns_split by (auto simp: records_consistent_def)
  have "total am_amount_usdd_base ms = 100 * total ad_amount_usdt_micro (take (length ms) ds)"
    using assms minted_total by (auto simp: records_consistent_def)
  then show "100 dvd total am_amount_usdd_base ms" by simp
  have "\<forall>b \<in> set (unpaid bs ps). 100 dvd unat (ab_amount_usdd_base b)"
    using assms by (simp add: records_consistent_def burn_record_ok_def unpaid_def)
  then show "100 dvd total ab_amount_usdd_base (unpaid bs ps)"
    by (rule total_dvd)
qed

lemma reconstruct_sound:
  assumes "reconstruct_audit_snapshot actual recorded ds ms bs ps = Inr (sn, rep)"
  shows "audit_accepts actual recorded ds ms bs ps
     \<and> sn = snapshot_of actual recorded ds ms bs ps \<and> rep = report_of sn"
proof -
  note L = assms [unfolded reconstruct_loops snapshot_verify_ok]
  then have rc: "records_consistent ds ms bs ps" by blast
  note T = consistent_totals [OF rc]
  obtain m b where C: "unat (sn_total_minted_usdd_base sn) = 100 * m"
    "unat (sn_total_burned_usdd_base sn) = 100 * b" "b \<le> m"
    "m + unat (sn_deposits_unminted_usdt_micro sn) = unat (sn_total_deposited_usdt_micro sn)"
    "unat (sn_total_paid_usdt_micro sn) + unat (sn_burns_unpaid_usdt_micro sn) = b"
    "unat (sn_total_paid_usdt_micro sn) + unat (sn_recorded_backing_usdt_micro sn)
       = unat (sn_total_deposited_usdt_micro sn)"
    "unat (sn_recorded_backing_usdt_micro sn) \<le> unat (sn_actual_vault_usdt_micro sn)"
    using L unfolding conserved_def by blast
  have F: "unat (sn_total_deposited_usdt_micro sn) = total ad_amount_usdt_micro ds"
    "unat (sn_total_minted_usdd_base sn) = total am_amount_usdd_base ms"
    "unat (sn_total_burned_usdd_base sn) = total ab_amount_usdd_base bs"
    "unat (sn_total_paid_usdt_micro sn) = total ap_amount_usdt_micro ps"
    "sn_actual_vault_usdt_micro sn = actual" "sn_recorded_backing_usdt_micro sn = recorded"
    "rep = report_of sn"
    using L by blast+
  have U: "unat (sn_deposits_unminted_usdt_micro sn) = total ad_amount_usdt_micro (unminted ds ms)"
    using T(1) C(1,4) F(1,2) by linarith
  have X: "unat (sn_burns_unpaid_usdt_micro sn) = total ab_amount_usdd_base (unpaid bs ps) div 100"
    using T(2) C(2,5) F(3,4) by linarith
  have "audit_accepts actual recorded ds ms bs ps"
    using rc C F u64_less_pow [of "sn_total_deposited_usdt_micro sn"]
      u64_less_pow [of "sn_total_minted_usdd_base sn"]
    unfolding audit_accepts_def by simp
  moreover have "sn = snapshot_of actual recorded ds ms bs ps"
    unfolding snapshot_of_def F(1-4) [symmetric] U [symmetric] X [symmetric]
    using F(5,6) by (cases sn) simp
  ultimately show ?thesis using F(7) by blast
qed

lemma reconstruct_complete:
  assumes "audit_accepts actual recorded ds ms bs ps"
  defines "sn \<equiv> snapshot_of actual recorded ds ms bs ps"
  shows "reconstruct_audit_snapshot actual recorded ds ms bs ps = Inr (sn, report_of sn)"
proof -
  note A = assms(1) [unfolded audit_accepts_def]
  then have rc: "records_consistent ds ms bs ps" by blast
  note T = consistent_totals [OF rc]
  define D M B P U X where "D = total ad_amount_usdt_micro ds" and "M = total am_amount_usdd_base ms"
    and "B = total ab_amount_usdd_base bs" and "P = total ap_amount_usdt_micro ps"
    and "U = total ad_amount_usdt_micro (unminted ds ms)"
    and "X = total ab_amount_usdd_base (unpaid bs ps) div 100"
  note vars = D_def M_def B_def P_def U_def X_def
  have e: "100 * D = M + 100 * U" "B = 100 * P + 100 * X" "100 dvd M"
    using T unfolding vars by simp_all
  have l: "D < 2 ^ 64" "M < 2 ^ 64" "B \<le> M" "P + unat recorded = D" "unat recorded \<le> unat actual"
    using A unfolding vars by simp_all
  have lt: "U < 2 ^ 64" "P < 2 ^ 64" "X < 2 ^ 64" "B < 2 ^ 64" using e l by linarith+
  have F: "unat (sn_total_deposited_usdt_micro sn) = D" "unat (sn_total_minted_usdd_base sn) = M"
    "unat (sn_total_burned_usdd_base sn) = B" "unat (sn_total_paid_usdt_micro sn) = P"
    "unat (sn_deposits_unminted_usdt_micro sn) = U" "unat (sn_burns_unpaid_usdt_micro sn) = X"
    "sn_actual_vault_usdt_micro sn = actual" "sn_recorded_backing_usdt_micro sn = recorded"
    using l lt unfolding sn_def snapshot_of_def vars
    by (simp_all add: unat_of_nat_u64)
  from e(3) obtain m where m: "M = 100 * m" by blast
  have mb: "m < 2 ^ 64" "P + X < 2 ^ 64" using l m lt e by linarith+
  have "conserved sn"
    unfolding conserved_def F using e l m by (intro exI [of _ m] exI [of _ "P + X"]) auto
  moreover have "\<exists>(m :: u64) (b :: u64). M = 100 * unat m \<and> B = 100 * unat b \<and> D = unat m + U \<and> unat b = P + X"
  proof (intro exI conjI)
    show "M = 100 * unat (of_nat m :: u64)" "D = unat (of_nat m :: u64) + U"
      using e m mb(1) by (simp_all add: unat_of_nat_u64)
    show "B = 100 * unat (of_nat (P + X) :: u64)" "unat (of_nat (P + X) :: u64) = P + X"
      using e mb(2) by (simp_all add: unat_of_nat_u64 del: of_nat_add)
  qed
  ultimately show ?thesis
    unfolding reconstruct_loops snapshot_verify_ok F using rc by (simp add: vars)
qed

subsection \<open>Properties\<close>

text \<open>
  C6: the audit is exact. The loops over deposits, mints, burns and payouts accept exactly the
  consistent records whose totals fit and balance, and they return the snapshot of the totals
  with its report.
\<close>

theorem audit_exact:
  "reconstruct_audit_snapshot actual recorded ds ms bs ps = Inr (sn, rep) \<longleftrightarrow>
     audit_accepts actual recorded ds ms bs ps
     \<and> sn = snapshot_of actual recorded ds ms bs ps \<and> rep = report_of sn"
  using reconstruct_sound reconstruct_complete by blast

text \<open>
  C5: solvency. When the audit accepts, the circulating USDD it reports is backed by the USDT
  the vault really holds: at 100 USDD units per micro-USDT it never exceeds the actual balance.
\<close>

theorem audit_solvent:
  assumes "reconstruct_audit_snapshot actual recorded ds ms bs ps = Inr (sn, rep)"
  shows "unat (ar_circulating_usdd_base rep) \<le> 100 * unat actual"
proof -
  from reconstruct_sound [OF assms] have acc: "audit_accepts actual recorded ds ms bs ps"
    and sn: "sn = snapshot_of actual recorded ds ms bs ps" "rep = report_of sn" by blast+
  note A = acc [unfolded audit_accepts_def]
  then have rc: "records_consistent ds ms bs ps" by blast
  have bal: "total am_amount_usdd_base ms - total ab_amount_usdd_base bs \<le> 100 * unat actual"
    using A consistent_totals(1,2) [OF rc] by linarith
  have "unat (of_nat (total am_amount_usdd_base ms) :: u64) = total am_amount_usdd_base ms"
    "unat (of_nat (total ab_amount_usdd_base bs) :: u64) = total ab_amount_usdd_base bs"
    using A by (simp_all add: unat_of_nat_u64)
  then have "ar_circulating_usdd_base rep =
      of_nat (total am_amount_usdd_base ms - total ab_amount_usdd_base bs)"
    by (simp add: sn report_of_def snapshot_of_def)
  then have "unat (ar_circulating_usdd_base rep) \<le>
      total am_amount_usdd_base ms - total ab_amount_usdd_base bs"
    by (simp only: unat_of_nat mod_less_eq_dividend)
  with bal show ?thesis by linarith
qed

definition example_snapshot :: audit_snapshot where
  "example_snapshot = snapshot_of 6 5 [\<lparr>ad_nonce = 0, ad_deposit_id = 1, ad_amount_usdt_micro = 5\<rparr>]
     [\<lparr>am_nonce = 0, am_deposit_id = 1, am_amount_usdd_base = 500\<rparr>] [] []"

theorem audit_solvent_witness:
  "unat (ar_circulating_usdd_base (report_of example_snapshot)) \<le> 100 * unat (6 :: u64)"
proof (rule audit_solvent)
  show "reconstruct_audit_snapshot 6 5 [\<lparr>ad_nonce = 0, ad_deposit_id = 1, ad_amount_usdt_micro = 5\<rparr>]
      [\<lparr>am_nonce = 0, am_deposit_id = 1, am_amount_usdd_base = 500\<rparr>] [] [] =
      Inr (example_snapshot, report_of example_snapshot)"
    unfolding example_snapshot_def
    by (rule reconstruct_complete)
      (simp add: audit_accepts_def records_consistent_def numbered_def deposit_record_ok_def
        mint_matches_def)
qed

end
