(* ===== verification/Manifest.thy ===== *)
theory Manifest
  imports Supply_Audit
begin

section \<open>The deployment manifest (usdd-core/src/manifest.rs)\<close>

text \<open>
  \<open>ProtocolManifest\<close>: the immutable deployment commitments, their validation in the order of
  the code, the derived hashes (vault id, controller configuration, outbound verifier
  configuration, initial controller state), the manifest id and the canonical codec. The
  git commit \<open>[u8; 20]\<close> is the 160-bit word of its bytes.
\<close>

definition TAG_MANIFEST :: u16 where
  "TAG_MANIFEST = 0x4001"

definition SOLIDITY_VAULT_ID_DOMAIN :: hash32 where
  "SOLIDITY_VAULT_ID_DOMAIN =
     0xfb5581acfced59c74e849862350b68b47d96b08d64e095a1cbd3b78a1298a35c"

record manifest =
  pm_ethereum_chain_id :: u64
  pm_ethereum_genesis :: hash32
  pm_bitcoin_genesis :: hash32
  pm_elements_genesis :: hash32
  pm_drivechain_slot :: u8
  pm_usdt :: eth_address
  pm_usdd_asset :: hash32
  pm_usdd_reissuance_token :: hash32
  pm_usdd_public_abf :: hash32
  pm_vault :: eth_address
  pm_vault_id :: hash32
  pm_vault_code_hash :: hash32
  pm_proof_verifier :: eth_address
  pm_proof_verifier_runtime_code_hash :: hash32
  pm_verifier_config_hash :: hash32
  pm_ethereum_guest_program_id :: hash32
  pm_elements_guest_program_id :: hash32
  pm_sp1_version_major :: u16
  pm_sp1_version_minor :: u16
  pm_sp1_version_patch :: u16
  pm_sp1_git_commit :: eth_address
  pm_compressed_proof_circuit_version :: u16
  pm_compressed_proof_codec_version :: u16
  pm_recursion_verifier_constants_hash :: hash32
  pm_public_digest_tag :: u8
  pm_bootstrap_finalized_beacon_slot :: u64
  pm_bootstrap_finalized_beacon_root :: hash32
  pm_bootstrap_execution_state_root :: hash32
  pm_bootstrap_eth_light_client_digest :: hash32
  pm_controller_cmr :: hash32
  pm_controller_configuration_hash :: hash32
  pm_domain_separator_table_hash :: hash32
  pm_issuance_txid_display :: hash32
  pm_issuance_vout :: u32
  pm_asset_entropy :: hash32
  pm_initial_controller_state_hash :: hash32
  pm_active_liability_cap_usdt_micro :: u64
  pm_minimum_activation_chainwork :: hash32
  pm_max_ethereum_finality_slot_gap :: u64
  pm_max_finalized_to_bmm_mtp_age_seconds :: u64
  pm_minimum_bitcoin_confirmations :: u32
  pm_first_deposit_nonce :: u64
  pm_usdt_display_decimals :: u8
  pm_usdd_display_decimals :: u8
  pm_usdd_units_per_usdt_micro :: u64

datatype manifest_error =
    ZeroField string
  | WrongDrivechainSlot u8 u8
  | WrongAmountScale
  | WrongSp1Identity
  | WrongDomainSeparatorTable
  | WrongControllerConfiguration
  | WrongOutboundVerifierConfiguration
  | WrongFinalityThresholds
  | WrongVaultId
  | WrongLiabilityCap
  | WrongFirstDepositNonce
  | WrongInitialControllerState
  | ManifestEncoding decode_error

subsection \<open>Derived commitments\<close>

text \<open>A 64-bit value as the \<open>uint256\<close> the Solidity constructor hashes.\<close>

definition uint256_be :: "u64 \<Rightarrow> bytes" where
  "uint256_be v = replicate 24 0 @ enc_u64 v"

definition vault_id_preimage :: "manifest \<Rightarrow> bytes" where
  "vault_id_preimage m = concat
     [enc_hash32 SOLIDITY_VAULT_ID_DOMAIN,
      uint256_be (pm_ethereum_chain_id m),
      enc_address (pm_vault m),
      enc_address (pm_usdt m),
      enc_address (pm_proof_verifier m),
      enc_hash32 (pm_elements_guest_program_id m),
      enc_hash32 (pm_verifier_config_hash m),
      enc_hash32 (pm_elements_genesis m),
      enc_hash32 (pm_usdd_asset m),
      uint256_be (pm_active_liability_cap_usdt_micro m),
      enc_hash32 (pm_minimum_activation_chainwork m)]"

definition compute_vault_id :: "(bytes \<Rightarrow> hash32) \<Rightarrow> manifest \<Rightarrow> hash32" where
  "compute_vault_id H m = hash_bytes H (vault_id_preimage m)"

definition controller_config_payload :: "manifest \<Rightarrow> bytes" where
  "controller_config_payload m = concat
     [enc_u64 (pm_ethereum_chain_id m),
      enc_hash32 (pm_ethereum_genesis m),
      enc_u8 (pm_drivechain_slot m),
      enc_address (pm_usdt m),
      enc_address (pm_vault m),
      enc_hash32 (pm_vault_code_hash m),
      enc_hash32 (pm_ethereum_guest_program_id m),
      enc_u16 (pm_sp1_version_major m),
      enc_u16 (pm_sp1_version_minor m),
      enc_u16 (pm_sp1_version_patch m),
      enc_address (pm_sp1_git_commit m),
      enc_u16 (pm_compressed_proof_circuit_version m),
      enc_u16 (pm_compressed_proof_codec_version m),
      enc_hash32 (pm_recursion_verifier_constants_hash m),
      enc_u8 (pm_public_digest_tag m),
      enc_u64 (pm_bootstrap_finalized_beacon_slot m),
      enc_hash32 (pm_bootstrap_finalized_beacon_root m),
      enc_hash32 (pm_bootstrap_execution_state_root m),
      enc_hash32 (pm_bootstrap_eth_light_client_digest m),
      enc_hash32 (pm_domain_separator_table_hash m),
      enc_u64 (pm_active_liability_cap_usdt_micro m),
      enc_u64 (pm_max_ethereum_finality_slot_gap m),
      enc_u64 (pm_max_finalized_to_bmm_mtp_age_seconds m),
      enc_u64 (pm_first_deposit_nonce m),
      enc_u8 (pm_usdt_display_decimals m),
      enc_u8 (pm_usdd_display_decimals m),
      enc_u64 (pm_usdd_units_per_usdt_micro m)]"

definition compute_controller_configuration_hash :: "(bytes \<Rightarrow> hash32) \<Rightarrow> manifest \<Rightarrow> hash32" where
  "compute_controller_configuration_hash H m =
     domain_digest H ControllerConfig (controller_config_payload m)"

definition outbound_config_payload :: "manifest \<Rightarrow> bytes" where
  "outbound_config_payload m = concat
     [enc_u16 ENCODING_SCHEMA,
      enc_u64 (pm_ethereum_chain_id m),
      enc_hash32 (pm_bitcoin_genesis m),
      enc_hash32 (pm_elements_genesis m),
      enc_u8 (pm_drivechain_slot m),
      enc_address (pm_vault m),
      enc_hash32 (pm_usdd_asset m),
      enc_hash32 (pm_elements_guest_program_id m),
      enc_u16 (pm_sp1_version_major m),
      enc_u16 (pm_sp1_version_minor m),
      enc_u16 (pm_sp1_version_patch m),
      enc_address (pm_sp1_git_commit m),
      enc_u16 (pm_compressed_proof_circuit_version m),
      enc_u16 (pm_compressed_proof_codec_version m),
      enc_hash32 (pm_recursion_verifier_constants_hash m),
      enc_u8 (pm_public_digest_tag m),
      enc_hash32 (pm_domain_separator_table_hash m),
      enc_hash32 (pm_minimum_activation_chainwork m),
      enc_u32 (pm_minimum_bitcoin_confirmations m),
      enc_u8 (of_nat BURN_ACCUMULATOR_DEPTH),
      enc_u8 (of_nat MAX_BURN_APPENDS_PER_STATE_TRANSITION)]"

definition compute_outbound_verifier_config_hash :: "(bytes \<Rightarrow> hash32) \<Rightarrow> manifest \<Rightarrow> hash32" where
  "compute_outbound_verifier_config_hash H m =
     domain_digest H OutboundVerifierConfig (outbound_config_payload m)"

definition initial_controller :: "manifest \<Rightarrow> controller" where
  "initial_controller m =
     \<lparr>mc_version = 1,
      mc_sequence = 0,
      mc_next_mint_nonce = pm_first_deposit_nonce m,
      mc_ethereum_light_client_digest = pm_bootstrap_eth_light_client_digest m,
      mc_finalized_beacon_slot = pm_bootstrap_finalized_beacon_slot m,
      mc_finalized_beacon_root = pm_bootstrap_finalized_beacon_root m,
      mc_finalized_execution_state_root = pm_bootstrap_execution_state_root m,
      mc_total_minted_usdd_base = 0,
      mc_configuration_hash = pm_controller_configuration_hash m\<rparr>"

definition compute_initial_controller_state_hash :: "(bytes \<Rightarrow> hash32) \<Rightarrow> manifest \<Rightarrow> hash32" where
  "compute_initial_controller_state_hash H m = hash_bytes H (enc_controller (initial_controller m))"

subsection \<open>Validation\<close>

text \<open>The loop over the named hashes: the first zero one is reported.\<close>

fun check_nonzero :: "(string \<times> hash32) list \<Rightarrow> manifest_error + unit" where
  "check_nonzero [] = Inr ()"
| "check_nonzero ((name, hash) # hashes) =
     (if hash = 0 then Inl (ZeroField name) else check_nonzero hashes)"

definition named_hashes :: "manifest \<Rightarrow> (string \<times> hash32) list" where
  "named_hashes m =
     [(''ethereum_genesis'', pm_ethereum_genesis m),
      (''bitcoin_genesis'', pm_bitcoin_genesis m),
      (''elements_genesis'', pm_elements_genesis m),
      (''usdd_asset'', pm_usdd_asset m),
      (''usdd_reissuance_token'', pm_usdd_reissuance_token m),
      (''usdd_public_abf'', pm_usdd_public_abf m),
      (''vault_id'', pm_vault_id m),
      (''vault_code_hash'', pm_vault_code_hash m),
      (''proof_verifier_runtime_code_hash'', pm_proof_verifier_runtime_code_hash m),
      (''verifier_config_hash'', pm_verifier_config_hash m),
      (''ethereum_guest_program_id'', pm_ethereum_guest_program_id m),
      (''elements_guest_program_id'', pm_elements_guest_program_id m),
      (''recursion_verifier_constants_hash'', pm_recursion_verifier_constants_hash m),
      (''bootstrap_finalized_beacon_root'', pm_bootstrap_finalized_beacon_root m),
      (''bootstrap_execution_state_root'', pm_bootstrap_execution_state_root m),
      (''bootstrap_eth_light_client_digest'', pm_bootstrap_eth_light_client_digest m),
      (''controller_cmr'', pm_controller_cmr m),
      (''controller_configuration_hash'', pm_controller_configuration_hash m),
      (''domain_separator_table_hash'', pm_domain_separator_table_hash m),
      (''issuance_txid_display'', pm_issuance_txid_display m),
      (''asset_entropy'', pm_asset_entropy m),
      (''initial_controller_state_hash'', pm_initial_controller_state_hash m),
      (''minimum_activation_chainwork'', pm_minimum_activation_chainwork m)]"

definition pm_validate :: "(bytes \<Rightarrow> hash32) \<Rightarrow> manifest \<Rightarrow> manifest_error + unit" where
  "pm_validate H m =
     (if pm_ethereum_chain_id m = 0 then Inl (ZeroField ''ethereum_chain_id'')
      else and_then (check_nonzero (named_hashes m)) (\<lambda>_.
      if pm_usdt m = 0 then Inl (ZeroField ''usdt'')
      else if pm_vault m = 0 then Inl (ZeroField ''vault'')
      else if pm_proof_verifier m = 0 then Inl (ZeroField ''proof_verifier'')
      else if pm_drivechain_slot m \<noteq> DRIVECHAIN_SLOT
      then Inl (WrongDrivechainSlot DRIVECHAIN_SLOT (pm_drivechain_slot m))
      else if pm_minimum_bitcoin_confirmations m < MINIMUM_BITCOIN_CONFIRMATIONS
        \<or> pm_max_ethereum_finality_slot_gap m \<noteq> MAX_ETHEREUM_FINALITY_SLOT_GAP
        \<or> pm_max_finalized_to_bmm_mtp_age_seconds m \<noteq> MAX_FINALIZED_TO_BMM_MTP_AGE_SECONDS
      then Inl WrongFinalityThresholds
      else if pm_bootstrap_finalized_beacon_slot m = 0
      then Inl (ZeroField ''bootstrap_finalized_beacon_slot'')
      else if pm_usdt_display_decimals m \<noteq> 6
        \<or> pm_usdd_display_decimals m \<noteq> 8
        \<or> pm_usdd_units_per_usdt_micro m \<noteq> USDD_UNITS_PER_USDT_MICRO
        \<or> USDT_SCALE \<noteq> 1000000
        \<or> USDD_SCALE \<noteq> 100000000
      then Inl WrongAmountScale
      else if pm_sp1_version_major m \<noteq> SP1_VERSION_MAJOR
        \<or> pm_sp1_version_minor m \<noteq> SP1_VERSION_MINOR
        \<or> pm_sp1_version_patch m \<noteq> SP1_VERSION_PATCH
        \<or> pm_sp1_git_commit m \<noteq> SP1_GIT_COMMIT
        \<or> pm_compressed_proof_circuit_version m \<noteq> SP1_COMPRESSED_CIRCUIT_VERSION
        \<or> pm_compressed_proof_codec_version m \<noteq> SP1_COMPRESSED_CODEC_VERSION
        \<or> pm_public_digest_tag m \<noteq> SHA256_DIGEST_TAG
      then Inl WrongSp1Identity
      else if pm_domain_separator_table_hash m \<noteq> domain_separator_table_hash H
      then Inl WrongDomainSeparatorTable
      else if pm_controller_configuration_hash m \<noteq> compute_controller_configuration_hash H m
      then Inl WrongControllerConfiguration
      else if pm_verifier_config_hash m \<noteq> compute_outbound_verifier_config_hash H m
      then Inl WrongOutboundVerifierConfiguration
      else if pm_active_liability_cap_usdt_micro m \<noteq> ACTIVE_LIABILITY_CAP_USDT_MICRO
      then Inl WrongLiabilityCap
      else if pm_first_deposit_nonce m \<noteq> 0 then Inl WrongFirstDepositNonce
      else if pm_vault_id m \<noteq> compute_vault_id H m then Inl WrongVaultId
      else if pm_initial_controller_state_hash m \<noteq> compute_initial_controller_state_hash H m
      then Inl WrongInitialControllerState
      else Inr ()))"

subsection \<open>Codec and manifest id\<close>

definition enc_manifest :: "manifest \<Rightarrow> bytes" where
  "enc_manifest m = concat
     [enc_u16 ENCODING_SCHEMA,
      enc_u16 TAG_MANIFEST,
      enc_u64 (pm_ethereum_chain_id m),
      enc_hash32 (pm_ethereum_genesis m),
      enc_hash32 (pm_bitcoin_genesis m),
      enc_hash32 (pm_elements_genesis m),
      enc_u8 (pm_drivechain_slot m),
      enc_address (pm_usdt m),
      enc_hash32 (pm_usdd_asset m),
      enc_hash32 (pm_usdd_reissuance_token m),
      enc_hash32 (pm_usdd_public_abf m),
      enc_address (pm_vault m),
      enc_hash32 (pm_vault_id m),
      enc_hash32 (pm_vault_code_hash m),
      enc_address (pm_proof_verifier m),
      enc_hash32 (pm_proof_verifier_runtime_code_hash m),
      enc_hash32 (pm_verifier_config_hash m),
      enc_hash32 (pm_ethereum_guest_program_id m),
      enc_hash32 (pm_elements_guest_program_id m),
      enc_u16 (pm_sp1_version_major m),
      enc_u16 (pm_sp1_version_minor m),
      enc_u16 (pm_sp1_version_patch m),
      enc_address (pm_sp1_git_commit m),
      enc_u16 (pm_compressed_proof_circuit_version m),
      enc_u16 (pm_compressed_proof_codec_version m),
      enc_hash32 (pm_recursion_verifier_constants_hash m),
      enc_u8 (pm_public_digest_tag m),
      enc_u64 (pm_bootstrap_finalized_beacon_slot m),
      enc_hash32 (pm_bootstrap_finalized_beacon_root m),
      enc_hash32 (pm_bootstrap_execution_state_root m),
      enc_hash32 (pm_bootstrap_eth_light_client_digest m),
      enc_hash32 (pm_controller_cmr m),
      enc_hash32 (pm_controller_configuration_hash m),
      enc_hash32 (pm_domain_separator_table_hash m),
      enc_hash32 (pm_issuance_txid_display m),
      enc_u32 (pm_issuance_vout m),
      enc_hash32 (pm_asset_entropy m),
      enc_hash32 (pm_initial_controller_state_hash m),
      enc_u64 (pm_active_liability_cap_usdt_micro m),
      enc_hash32 (pm_minimum_activation_chainwork m),
      enc_u64 (pm_max_ethereum_finality_slot_gap m),
      enc_u64 (pm_max_finalized_to_bmm_mtp_age_seconds m),
      enc_u32 (pm_minimum_bitcoin_confirmations m),
      enc_u64 (pm_first_deposit_nonce m),
      enc_u8 (pm_usdt_display_decimals m),
      enc_u8 (pm_usdd_display_decimals m),
      enc_u64 (pm_usdd_units_per_usdt_micro m)]"

definition manifest_id :: "(bytes \<Rightarrow> hash32) \<Rightarrow> manifest \<Rightarrow> manifest_error + hash32" where
  "manifest_id H m =
     and_then (pm_validate H m) (\<lambda>_. Inr (domain_digest H Manifest (enc_manifest m)))"

definition dec_manifest :: "(bytes \<Rightarrow> hash32) \<Rightarrow> manifest decode_fn" where
  "dec_manifest H d =
     and_then (dec_u16 d) (\<lambda>(schema, d).
     if schema \<noteq> ENCODING_SCHEMA then Inl (InvalidValue ''invalid manifest header'')
     else and_then (dec_u16 d) (\<lambda>(tag, d).
     if tag \<noteq> TAG_MANIFEST then Inl (InvalidValue ''invalid manifest header'')
     else
     and_then (dec_u64 d) (\<lambda>(ethereum_chain_id, d).
     and_then (dec_hash32 d) (\<lambda>(ethereum_genesis, d).
     and_then (dec_hash32 d) (\<lambda>(bitcoin_genesis, d).
     and_then (dec_hash32 d) (\<lambda>(elements_genesis, d).
     and_then (dec_u8 d) (\<lambda>(drivechain_slot, d).
     and_then (dec_address d) (\<lambda>(usdt, d).
     and_then (dec_hash32 d) (\<lambda>(usdd_asset, d).
     and_then (dec_hash32 d) (\<lambda>(usdd_reissuance_token, d).
     and_then (dec_hash32 d) (\<lambda>(usdd_public_abf, d).
     and_then (dec_address d) (\<lambda>(vault, d).
     and_then (dec_hash32 d) (\<lambda>(vault_id, d).
     and_then (dec_hash32 d) (\<lambda>(vault_code_hash, d).
     and_then (dec_address d) (\<lambda>(proof_verifier, d).
     and_then (dec_hash32 d) (\<lambda>(proof_verifier_runtime_code_hash, d).
     and_then (dec_hash32 d) (\<lambda>(verifier_config_hash, d).
     and_then (dec_hash32 d) (\<lambda>(ethereum_guest_program_id, d).
     and_then (dec_hash32 d) (\<lambda>(elements_guest_program_id, d).
     and_then (dec_u16 d) (\<lambda>(sp1_version_major, d).
     and_then (dec_u16 d) (\<lambda>(sp1_version_minor, d).
     and_then (dec_u16 d) (\<lambda>(sp1_version_patch, d).
     and_then (dec_address d) (\<lambda>(sp1_git_commit, d).
     and_then (dec_u16 d) (\<lambda>(compressed_proof_circuit_version, d).
     and_then (dec_u16 d) (\<lambda>(compressed_proof_codec_version, d).
     and_then (dec_hash32 d) (\<lambda>(recursion_verifier_constants_hash, d).
     and_then (dec_u8 d) (\<lambda>(public_digest_tag, d).
     and_then (dec_u64 d) (\<lambda>(bootstrap_finalized_beacon_slot, d).
     and_then (dec_hash32 d) (\<lambda>(bootstrap_finalized_beacon_root, d).
     and_then (dec_hash32 d) (\<lambda>(bootstrap_execution_state_root, d).
     and_then (dec_hash32 d) (\<lambda>(bootstrap_eth_light_client_digest, d).
     and_then (dec_hash32 d) (\<lambda>(controller_cmr, d).
     and_then (dec_hash32 d) (\<lambda>(controller_configuration_hash, d).
     and_then (dec_hash32 d) (\<lambda>(domain_separator_table_hash, d).
     and_then (dec_hash32 d) (\<lambda>(issuance_txid_display, d).
     and_then (dec_u32 d) (\<lambda>(issuance_vout, d).
     and_then (dec_hash32 d) (\<lambda>(asset_entropy, d).
     and_then (dec_hash32 d) (\<lambda>(initial_controller_state_hash, d).
     and_then (dec_u64 d) (\<lambda>(active_liability_cap_usdt_micro, d).
     and_then (dec_hash32 d) (\<lambda>(minimum_activation_chainwork, d).
     and_then (dec_u64 d) (\<lambda>(max_ethereum_finality_slot_gap, d).
     and_then (dec_u64 d) (\<lambda>(max_finalized_to_bmm_mtp_age_seconds, d).
     and_then (dec_u32 d) (\<lambda>(minimum_bitcoin_confirmations, d).
     and_then (dec_u64 d) (\<lambda>(first_deposit_nonce, d).
     and_then (dec_u8 d) (\<lambda>(usdt_display_decimals, d).
     and_then (dec_u8 d) (\<lambda>(usdd_display_decimals, d).
     and_then (dec_u64 d) (\<lambda>(usdd_units_per_usdt_micro, d).
     let m = \<lparr>pm_ethereum_chain_id = ethereum_chain_id, pm_ethereum_genesis =
              ethereum_genesis, pm_bitcoin_genesis = bitcoin_genesis,
              pm_elements_genesis = elements_genesis, pm_drivechain_slot =
              drivechain_slot, pm_usdt = usdt, pm_usdd_asset = usdd_asset,
              pm_usdd_reissuance_token = usdd_reissuance_token,
              pm_usdd_public_abf = usdd_public_abf, pm_vault = vault,
              pm_vault_id = vault_id, pm_vault_code_hash = vault_code_hash,
              pm_proof_verifier = proof_verifier,
              pm_proof_verifier_runtime_code_hash =
              proof_verifier_runtime_code_hash, pm_verifier_config_hash =
              verifier_config_hash, pm_ethereum_guest_program_id =
              ethereum_guest_program_id, pm_elements_guest_program_id =
              elements_guest_program_id, pm_sp1_version_major =
              sp1_version_major, pm_sp1_version_minor = sp1_version_minor,
              pm_sp1_version_patch = sp1_version_patch, pm_sp1_git_commit =
              sp1_git_commit, pm_compressed_proof_circuit_version =
              compressed_proof_circuit_version,
              pm_compressed_proof_codec_version =
              compressed_proof_codec_version,
              pm_recursion_verifier_constants_hash =
              recursion_verifier_constants_hash, pm_public_digest_tag =
              public_digest_tag, pm_bootstrap_finalized_beacon_slot =
              bootstrap_finalized_beacon_slot,
              pm_bootstrap_finalized_beacon_root =
              bootstrap_finalized_beacon_root,
              pm_bootstrap_execution_state_root =
              bootstrap_execution_state_root,
              pm_bootstrap_eth_light_client_digest =
              bootstrap_eth_light_client_digest, pm_controller_cmr =
              controller_cmr, pm_controller_configuration_hash =
              controller_configuration_hash, pm_domain_separator_table_hash =
              domain_separator_table_hash, pm_issuance_txid_display =
              issuance_txid_display, pm_issuance_vout = issuance_vout,
              pm_asset_entropy = asset_entropy,
              pm_initial_controller_state_hash =
              initial_controller_state_hash,
              pm_active_liability_cap_usdt_micro =
              active_liability_cap_usdt_micro, pm_minimum_activation_chainwork
              = minimum_activation_chainwork,
              pm_max_ethereum_finality_slot_gap =
              max_ethereum_finality_slot_gap,
              pm_max_finalized_to_bmm_mtp_age_seconds =
              max_finalized_to_bmm_mtp_age_seconds,
              pm_minimum_bitcoin_confirmations =
              minimum_bitcoin_confirmations, pm_first_deposit_nonce =
              first_deposit_nonce, pm_usdt_display_decimals =
              usdt_display_decimals, pm_usdd_display_decimals =
              usdd_display_decimals, pm_usdd_units_per_usdt_micro =
              usdd_units_per_usdt_micro\<rparr>
     in and_then (map_err (\<lambda>_. InvalidValue ''invalid protocol manifest'') (pm_validate H m))
          (\<lambda>_. Inr (m, d)))))))))))))))))))))))))))))))))))))))))))))))))"

subsection \<open>What a valid manifest establishes\<close>

lemma check_nonzero_ok [ok_iff]:
  "check_nonzero hs = Inr u \<longleftrightarrow> (\<forall>(n, h) \<in> set hs. h \<noteq> 0)"
  by (induction hs) (auto split: if_splits)

definition manifest_frozen :: "manifest \<Rightarrow> bool" where
  "manifest_frozen m \<longleftrightarrow>
     pm_drivechain_slot m = DRIVECHAIN_SLOT
     \<and> 100 \<le> unat (pm_minimum_bitcoin_confirmations m)
     \<and> pm_max_ethereum_finality_slot_gap m = MAX_ETHEREUM_FINALITY_SLOT_GAP
     \<and> pm_max_finalized_to_bmm_mtp_age_seconds m = MAX_FINALIZED_TO_BMM_MTP_AGE_SECONDS
     \<and> pm_usdt_display_decimals m = 6 \<and> pm_usdd_display_decimals m = 8
     \<and> pm_usdd_units_per_usdt_micro m = USDD_UNITS_PER_USDT_MICRO
     \<and> pm_sp1_version_major m = SP1_VERSION_MAJOR
     \<and> pm_sp1_version_minor m = SP1_VERSION_MINOR
     \<and> pm_sp1_version_patch m = SP1_VERSION_PATCH
     \<and> pm_sp1_git_commit m = SP1_GIT_COMMIT
     \<and> pm_compressed_proof_circuit_version m = SP1_COMPRESSED_CIRCUIT_VERSION
     \<and> pm_compressed_proof_codec_version m = SP1_COMPRESSED_CODEC_VERSION
     \<and> pm_public_digest_tag m = SHA256_DIGEST_TAG
     \<and> pm_active_liability_cap_usdt_micro m = ACTIVE_LIABILITY_CAP_USDT_MICRO
     \<and> pm_first_deposit_nonce m = 0"

definition manifest_bound :: "(bytes \<Rightarrow> hash32) \<Rightarrow> manifest \<Rightarrow> bool" where
  "manifest_bound H m \<longleftrightarrow>
     pm_domain_separator_table_hash m = domain_separator_table_hash H
     \<and> pm_controller_configuration_hash m = compute_controller_configuration_hash H m
     \<and> pm_verifier_config_hash m = compute_outbound_verifier_config_hash H m
     \<and> pm_vault_id m = compute_vault_id H m
     \<and> pm_initial_controller_state_hash m = compute_initial_controller_state_hash H m"

definition manifest_nonzero :: "manifest \<Rightarrow> bool" where
  "manifest_nonzero m \<longleftrightarrow>
     pm_ethereum_chain_id m \<noteq> 0 \<and> 0 \<notin> snd ` set (named_hashes m) \<and> pm_usdt m \<noteq> 0
     \<and> pm_vault m \<noteq> 0 \<and> pm_proof_verifier m \<noteq> 0 \<and> pm_bootstrap_finalized_beacon_slot m \<noteq> 0"

lemma nonzero_hashes: "(\<forall>(n, h) \<in> set hs. h \<noteq> (0 :: hash32)) \<longleftrightarrow> 0 \<notin> snd ` set hs"
  by force

lemma pm_validate_ok:
  "pm_validate H m = Inr u \<longleftrightarrow> manifest_nonzero m \<and> manifest_frozen m \<and> manifest_bound H m"
proof -
  have "\<not> pm_minimum_bitcoin_confirmations m < MINIMUM_BITCOIN_CONFIRMATIONS \<longleftrightarrow>
      100 \<le> unat (pm_minimum_bitcoin_confirmations m)"
    by (simp add: word_less_nat_alt MINIMUM_BITCOIN_CONFIRMATIONS_def not_less)
  then show ?thesis
    unfolding pm_validate_def manifest_nonzero_def manifest_frozen_def manifest_bound_def
      and_then_Inr if_Inl_Inr check_nonzero_ok nonzero_hashes USDT_SCALE_def USDD_SCALE_def
    by auto
qed

lemma length_enc_manifest: "length (enc_manifest m) < 2 ^ 32"
  by (simp add: enc_manifest_def)

lemma manifest_id_is_domain_hash:
  "pm_validate H m = Inr u \<Longrightarrow>
     manifest_id H m = Inr (expect (domain_hash H Manifest (enc_manifest m)))"
  using length_enc_manifest [of m] by (simp add: manifest_id_def domain_hash_def)

text \<open>The committed initial state is the state that \<open>MintControllerState::bootstrap\<close> builds.\<close>

definition bootstrap_witness :: "manifest \<Rightarrow> finality_witness \<Rightarrow> bool" where
  "bootstrap_witness m w \<longleftrightarrow>
     fw_ethereum_light_client_digest w = pm_bootstrap_eth_light_client_digest m
     \<and> fw_finalized_beacon_slot w = pm_bootstrap_finalized_beacon_slot m
     \<and> fw_finalized_beacon_root w = pm_bootstrap_finalized_beacon_root m
     \<and> fw_finalized_execution_state_root w = pm_bootstrap_execution_state_root m"

lemma initial_controller_bootstrap:
  assumes "pm_validate H m = Inr u" "bootstrap_witness m w" "fw_finalized_execution_block w \<noteq> 0"
  shows "mc_bootstrap (pm_controller_configuration_hash m) (pm_first_deposit_nonce m) w =
    Inr (initial_controller m)"
  using assms
  by (auto simp: mc_bootstrap_ok fw_validate_ok pm_validate_ok manifest_nonzero_def
      named_hashes_def bootstrap_witness_def initial_controller_def PROTOCOL_VERSION_def)

subsection \<open>The codec\<close>

interpretation codec_manifest:
  codec "\<lambda>m. Some (enc_manifest m)" "dec_manifest H" "\<lambda>m. pm_validate H m = Inr ()" for H
proof
  fix d m d'
  show "dec_manifest H d = Inr (m, d') \<longleftrightarrow>
      pm_validate H m = Inr () \<and> reads_opt d (Some (enc_manifest m)) d'"
    by (cases m) (auto simp: dec_manifest_def enc_manifest_def Let_def and_then_Inr if_Inl_Inr
        map_err_Inr reads_append reads_enc)
qed simp

subsection \<open>Properties\<close>

text \<open>
  What a valid manifest is. Validation accepts exactly the manifests whose required fields
  are non-zero, whose frozen parameters have the protocol's values, and whose commitments are
  the ones recomputed from the other fields.
\<close>

theorem manifest_validation:
  "pm_validate H m = Inr () \<longleftrightarrow> manifest_nonzero m \<and> manifest_frozen m \<and> manifest_bound H m"
  by (rule pm_validate_ok)

definition example_manifest :: manifest where
  "example_manifest =
     \<lparr>pm_ethereum_chain_id = 1, pm_ethereum_genesis = 1, pm_bitcoin_genesis = 1,
      pm_elements_genesis = 1, pm_drivechain_slot = DRIVECHAIN_SLOT, pm_usdt = 2,
      pm_usdd_asset = 1, pm_usdd_reissuance_token = 1, pm_usdd_public_abf = 1, pm_vault = 1,
      pm_vault_id = 1, pm_vault_code_hash = 1, pm_proof_verifier = 1,
      pm_proof_verifier_runtime_code_hash = 1, pm_verifier_config_hash = 1,
      pm_ethereum_guest_program_id = 1, pm_elements_guest_program_id = 1,
      pm_sp1_version_major = SP1_VERSION_MAJOR, pm_sp1_version_minor = SP1_VERSION_MINOR,
      pm_sp1_version_patch = SP1_VERSION_PATCH, pm_sp1_git_commit = SP1_GIT_COMMIT,
      pm_compressed_proof_circuit_version = SP1_COMPRESSED_CIRCUIT_VERSION,
      pm_compressed_proof_codec_version = SP1_COMPRESSED_CODEC_VERSION,
      pm_recursion_verifier_constants_hash = 1, pm_public_digest_tag = SHA256_DIGEST_TAG,
      pm_bootstrap_finalized_beacon_slot = 1, pm_bootstrap_finalized_beacon_root = 1,
      pm_bootstrap_execution_state_root = 1, pm_bootstrap_eth_light_client_digest = 1,
      pm_controller_cmr = 1, pm_controller_configuration_hash = 1,
      pm_domain_separator_table_hash = 1, pm_issuance_txid_display = 1, pm_issuance_vout = 0,
      pm_asset_entropy = 1, pm_initial_controller_state_hash = 1,
      pm_active_liability_cap_usdt_micro = ACTIVE_LIABILITY_CAP_USDT_MICRO,
      pm_minimum_activation_chainwork = 1,
      pm_max_ethereum_finality_slot_gap = MAX_ETHEREUM_FINALITY_SLOT_GAP,
      pm_max_finalized_to_bmm_mtp_age_seconds = MAX_FINALIZED_TO_BMM_MTP_AGE_SECONDS,
      pm_minimum_bitcoin_confirmations = 100, pm_first_deposit_nonce = 0,
      pm_usdt_display_decimals = 6, pm_usdd_display_decimals = 8,
      pm_usdd_units_per_usdt_micro = USDD_UNITS_PER_USDT_MICRO\<rparr>"

lemma toy_domain_hash [simp]: "domain_digest toy_hash t p = 1"
  by (simp add: domain_digest_def)

lemma example_manifest_valid: "pm_validate toy_hash example_manifest = Inr ()"
  unfolding pm_validate_ok
  by (simp add: manifest_nonzero_def manifest_frozen_def manifest_bound_def named_hashes_def
      domain_separator_table_hash_def compute_controller_configuration_hash_def
      compute_outbound_verifier_config_hash_def compute_vault_id_def
      compute_initial_controller_state_hash_def example_manifest_def)

lemma example_manifest_id: "manifest_id toy_hash example_manifest = Inr 1"
  by (simp add: manifest_id_def example_manifest_valid)

text \<open>
  The committed initial state is reachable. The controller state whose hash a valid
  manifest commits to is the one \<open>MintControllerState::bootstrap\<close> builds from the manifest's
  configuration, first nonce and bootstrap checkpoint.
\<close>

theorem manifest_commits_bootstrap:
  assumes "pm_validate H m = Inr ()" "bootstrap_witness m w" "fw_finalized_execution_block w \<noteq> 0"
  shows "mc_bootstrap (pm_controller_configuration_hash m) (pm_first_deposit_nonce m) w =
      Inr (initial_controller m)
    \<and> pm_initial_controller_state_hash m = hash_bytes H (enc_controller (initial_controller m))"
  using initial_controller_bootstrap [OF assms] assms(1)
  by (simp add: pm_validate_ok manifest_bound_def compute_initial_controller_state_hash_def)

theorem manifest_commits_bootstrap_witness:
  "mc_bootstrap (pm_controller_configuration_hash example_manifest)
      (pm_first_deposit_nonce example_manifest) example_finality =
      Inr (initial_controller example_manifest)
    \<and> pm_initial_controller_state_hash example_manifest =
      hash_bytes toy_hash (enc_controller (initial_controller example_manifest))"
  by (rule manifest_commits_bootstrap [OF example_manifest_valid])
    (simp_all add: bootstrap_witness_def example_finality_def example_manifest_def)

text \<open>
  Canonical manifests. Bytes decode exactly to a manifest if and only if the manifest is
  valid and the bytes are its encoding, over all 45 fields.
\<close>

theorem manifest_codec:
  "decode_exact (dec_manifest H) bs = Inr m \<longleftrightarrow> pm_validate H m = Inr () \<and> enc_manifest m = bs"
  using codec_manifest.decode_exact_iff [of H bs m] by simp

end
