(* ===== verification/Claims.thy ===== *)
theory Claims
  imports Manifest
begin

section \<open>Proof claims and public outputs (usdd-proof-core/src/claims.rs)\<close>

text \<open>
  The claims the guests are asked to prove and the public outputs they commit to: data,
  validation and canonical codecs. The claim ids hash the canonical encoding under the
  claim's domain.
\<close>

definition TAG_ETHEREUM_DEPOSIT_CLAIM :: u16 where
  "TAG_ETHEREUM_DEPOSIT_CLAIM = 0x5101"

definition TAG_DEPOSIT_PUBLIC_OUTPUT :: u16 where
  "TAG_DEPOSIT_PUBLIC_OUTPUT = 0x5201"

definition TAG_ELEMENTS_STATE_TRANSITION_CLAIM :: u16 where
  "TAG_ELEMENTS_STATE_TRANSITION_CLAIM = 0x5103"

definition TAG_BURN_APPEND :: u16 where
  "TAG_BURN_APPEND = 0x5104"

definition TAG_ELEMENTS_STATE_PUBLIC_OUTPUT :: u16 where
  "TAG_ELEMENTS_STATE_PUBLIC_OUTPUT = 0x5203"

definition TAG_ETHEREUM_HEARTBEAT_CLAIM :: u16 where
  "TAG_ETHEREUM_HEARTBEAT_CLAIM = 0x5105"

definition TAG_HEARTBEAT_PUBLIC_OUTPUT :: u16 where
  "TAG_HEARTBEAT_PUBLIC_OUTPUT = 0x5204"

definition encode_proof_header :: "u16 \<Rightarrow> bytes" where
  "encode_proof_header tag = enc_u16 ENCODING_SCHEMA @ enc_u16 tag"

definition decode_proof_header :: "u16 \<Rightarrow> unit decode_fn" where
  "decode_proof_header expected_tag d =
     and_then (dec_u16 d) (\<lambda>(schema, d).
     if schema \<noteq> ENCODING_SCHEMA then Inl (InvalidValue ''invalid proof record header'')
     else and_then (dec_u16 d) (\<lambda>(tag, d).
       if tag \<noteq> expected_tag then Inl (InvalidValue ''invalid proof record header'')
       else Inr ((), d)))"

subsection \<open>struct EthereumDepositClaim\<close>

record deposit_claim =
  dc_manifest_id :: hash32
  dc_prior_state :: controller
  dc_finality :: finality_witness
  dc_deposits :: "vault_deposit list"

definition dc_validate :: "(bytes \<Rightarrow> hash32) \<Rightarrow> deposit_claim \<Rightarrow> decode_error + unit" where
  "dc_validate H c =
     (if dc_manifest_id c = 0 then Inl (InvalidValue ''zero manifest ID'')
      else and_then (mc_validate (dc_prior_state c)) (\<lambda>_.
      and_then (fw_validate (dc_finality c)) (\<lambda>_.
      and_then (mb_from_deposits H (dc_deposits c)) (\<lambda>_. Inr ()))))"

definition enc_deposit_claim :: "deposit_claim \<Rightarrow> bytes option" where
  "enc_deposit_claim c = enc_seq
     [Some (encode_proof_header TAG_ETHEREUM_DEPOSIT_CLAIM),
      Some (enc_hash32 (dc_manifest_id c)),
      Some (enc_controller (dc_prior_state c)),
      Some (enc_finality_witness (dc_finality c)),
      (if length (dc_deposits c) < 256 then Some (enc_u8 (of_nat (length (dc_deposits c))))
       else None),
      enc_seq (map enc_vault_deposit (dc_deposits c))]"

definition dec_deposit_claim :: "(bytes \<Rightarrow> hash32) \<Rightarrow> deposit_claim decode_fn" where
  "dec_deposit_claim H d =
     and_then (decode_proof_header TAG_ETHEREUM_DEPOSIT_CLAIM d) (\<lambda>(_, d).
     and_then (dec_hash32 d) (\<lambda>(manifest_id, d).
     and_then (dec_controller d) (\<lambda>(prior_state, d).
     and_then (dec_finality_witness d) (\<lambda>(finality, d).
     and_then (dec_u8 d) (\<lambda>(count, d).
     let count = unat count
     in if count = 0 \<or> MAX_MINT_BATCH_SIZE < count
        then Inl (InvalidValue ''deposit proof batch must be 1..64'')
        else and_then (decode_n dec_vault_deposit count d) (\<lambda>(deposits, d).
          let c = \<lparr>dc_manifest_id = manifest_id, dc_prior_state = prior_state,
                   dc_finality = finality, dc_deposits = deposits\<rparr>
          in and_then (dc_validate H c) (\<lambda>_. Inr (c, d))))))))"

definition dc_claim_id :: "(bytes \<Rightarrow> hash32) \<Rightarrow> deposit_claim \<Rightarrow> hash32" where
  "dc_claim_id H c = expect (domain_hash H EthereumStateClaim (expect (enc_deposit_claim c)))"

subsection \<open>struct EthereumHeartbeatClaim\<close>

record heartbeat_claim =
  hc_manifest_id :: hash32
  hc_prior_state :: controller
  hc_finality :: finality_witness

definition hc_validate :: "heartbeat_claim \<Rightarrow> decode_error + unit" where
  "hc_validate c =
     (if hc_manifest_id c = 0 then Inl (InvalidValue ''zero manifest ID'')
      else and_then (mc_validate (hc_prior_state c)) (\<lambda>_.
      and_then (fw_validate (hc_finality c)) (\<lambda>_. Inr ())))"

definition enc_heartbeat_claim :: "heartbeat_claim \<Rightarrow> bytes" where
  "enc_heartbeat_claim c = concat
     [encode_proof_header TAG_ETHEREUM_HEARTBEAT_CLAIM,
      enc_hash32 (hc_manifest_id c),
      enc_controller (hc_prior_state c),
      enc_finality_witness (hc_finality c)]"

definition dec_heartbeat_claim :: "heartbeat_claim decode_fn" where
  "dec_heartbeat_claim d =
     and_then (decode_proof_header TAG_ETHEREUM_HEARTBEAT_CLAIM d) (\<lambda>(_, d).
     and_then (dec_hash32 d) (\<lambda>(manifest_id, d).
     and_then (dec_controller d) (\<lambda>(prior_state, d).
     and_then (dec_finality_witness d) (\<lambda>(finality, d).
     let c = \<lparr>hc_manifest_id = manifest_id, hc_prior_state = prior_state,
              hc_finality = finality\<rparr>
     in and_then (hc_validate c) (\<lambda>_. Inr (c, d))))))"

definition hc_claim_id :: "(bytes \<Rightarrow> hash32) \<Rightarrow> heartbeat_claim \<Rightarrow> hash32" where
  "hc_claim_id H c = expect (domain_hash H EthereumStateClaim (enc_heartbeat_claim c))"

subsection \<open>struct BurnAppend\<close>

record burn_append_t =
  bap_burn :: burn
  bap_empty_branch :: burn_proof

definition enc_burn_append :: "burn_append_t \<Rightarrow> bytes" where
  "enc_burn_append a = concat
     [encode_proof_header TAG_BURN_APPEND,
      enc_burn (bap_burn a),
      enc_burn_proof (bap_empty_branch a)]"

definition dec_burn_append :: "burn_append_t decode_fn" where
  "dec_burn_append d =
     and_then (decode_proof_header TAG_BURN_APPEND d) (\<lambda>(_, d).
     and_then (dec_burn d) (\<lambda>(burn, d).
     and_then (dec_burn_proof d) (\<lambda>(empty_branch, d).
       Inr (\<lparr>bap_burn = burn, bap_empty_branch = empty_branch\<rparr>, d))))"

subsection \<open>struct ElementsStateTransitionClaim\<close>

record elements_claim =
  ec_manifest_id :: hash32
  ec_prior_bridge_state_hash :: hash32
  ec_prior_state :: bridge_state
  ec_next_state :: bridge_state
  ec_appended_burns :: "burn_append_t list"

definition enc_elements_claim :: "elements_claim \<Rightarrow> bytes option" where
  "enc_elements_claim c = enc_seq
     [Some (encode_proof_header TAG_ELEMENTS_STATE_TRANSITION_CLAIM),
      Some (enc_hash32 (ec_manifest_id c)),
      Some (enc_hash32 (ec_prior_bridge_state_hash c)),
      Some (enc_bridge_state (ec_prior_state c)),
      Some (enc_bridge_state (ec_next_state c)),
      (if length (ec_appended_burns c) < 256
       then Some (enc_u8 (of_nat (length (ec_appended_burns c)))) else None),
      enc_seq (map (\<lambda>a. Some (enc_burn_append a)) (ec_appended_burns c))]"

definition dec_elements_claim :: "(bytes \<Rightarrow> hash32) \<Rightarrow> elements_claim decode_fn" where
  "dec_elements_claim H d =
     and_then (decode_proof_header TAG_ELEMENTS_STATE_TRANSITION_CLAIM d) (\<lambda>(_, d).
     and_then (dec_hash32 d) (\<lambda>(manifest_id, d).
     and_then (dec_hash32 d) (\<lambda>(prior_bridge_state_hash, d).
     and_then (dec_bridge_state H d) (\<lambda>(prior_state, d).
     and_then (dec_bridge_state H d) (\<lambda>(next_state, d).
     and_then (dec_u8 d) (\<lambda>(count, d).
     let count = unat count
     in if MAX_BURN_APPENDS_PER_STATE_TRANSITION < count
        then Inl (InvalidValue ''too many burns in state transition'')
        else and_then (decode_n dec_burn_append count d) (\<lambda>(appended_burns, d).
          Inr (\<lparr>ec_manifest_id = manifest_id,
                ec_prior_bridge_state_hash = prior_bridge_state_hash,
                ec_prior_state = prior_state, ec_next_state = next_state,
                ec_appended_burns = appended_burns\<rparr>, d))))))))"

definition ec_claim_id :: "(bytes \<Rightarrow> hash32) \<Rightarrow> elements_claim \<Rightarrow> hash32" where
  "ec_claim_id H c = expect (domain_hash H ElementsEventClaim (expect (enc_elements_claim c)))"

subsection \<open>struct DepositPublicOutput\<close>

record deposit_output =
  dpo_manifest_id :: hash32
  dpo_claim_id :: hash32
  dpo_prior_state :: controller
  dpo_next_state :: controller
  dpo_finalized_execution_block_timestamp :: u64
  dpo_mint_batch :: mint_batch

definition dpo_validate :: "deposit_output \<Rightarrow> decode_error + unit" where
  "dpo_validate v =
     (let prior = dpo_prior_state v; next = dpo_next_state v; batch = dpo_mint_batch v
      in if dpo_manifest_id v = 0 \<or> dpo_claim_id v = 0
        \<or> dpo_finalized_execution_block_timestamp v = 0
      then Inl (InvalidValue ''invalid deposit public output'')
      else and_then (mc_validate prior) (\<lambda>_.
      and_then (mc_validate next) (\<lambda>_.
      and_then (mb_validate batch) (\<lambda>_.
      and_then (ok_or
        (checked_add (mc_total_minted_usdd_base prior) (mb_total_usdd_amount_base batch))
        (InvalidValue ''minted supply overflow'')) (\<lambda>expected_total.
      let mismatch = Inl (InvalidValue ''deposit output does not bind the controller transition'')
      in if mc_version next \<noteq> mc_version prior then mismatch
      else and_then (ok_or (checked_add (mc_sequence prior) 1)
        (InvalidValue ''controller sequence overflow'')) (\<lambda>expected_sequence.
      if mc_sequence next \<noteq> expected_sequence
        \<or> mc_next_mint_nonce next \<noteq> mb_next_nonce batch
        \<or> mb_first_nonce batch \<noteq> mc_next_mint_nonce prior
        \<or> mc_total_minted_usdd_base next \<noteq> expected_total
        \<or> mc_configuration_hash next \<noteq> mc_configuration_hash prior
        \<or> mc_finalized_beacon_slot next < mc_finalized_beacon_slot prior
        \<or> MAX_ETHEREUM_FINALITY_SLOT_GAP
            < saturating_sub (mc_finalized_beacon_slot next) (mc_finalized_beacon_slot prior)
        \<or> (mc_finalized_beacon_slot next = mc_finalized_beacon_slot prior
            \<and> (mc_ethereum_light_client_digest next \<noteq> mc_ethereum_light_client_digest prior
               \<or> mc_finalized_beacon_root next \<noteq> mc_finalized_beacon_root prior
               \<or> mc_finalized_execution_state_root next
                   \<noteq> mc_finalized_execution_state_root prior))
        \<or> (mc_finalized_beacon_slot prior < mc_finalized_beacon_slot next
            \<and> mc_ethereum_light_client_digest next = mc_ethereum_light_client_digest prior)
      then mismatch else Inr ()))))))"

definition enc_deposit_output :: "deposit_output \<Rightarrow> bytes option" where
  "enc_deposit_output v = enc_seq
     [Some (encode_proof_header TAG_DEPOSIT_PUBLIC_OUTPUT),
      Some (enc_hash32 (dpo_manifest_id v)),
      Some (enc_hash32 (dpo_claim_id v)),
      Some (enc_controller (dpo_prior_state v)),
      Some (enc_controller (dpo_next_state v)),
      Some (enc_u64 (dpo_finalized_execution_block_timestamp v)),
      enc_mint_batch (dpo_mint_batch v)]"

definition dpo_output_id :: "(bytes \<Rightarrow> hash32) \<Rightarrow> deposit_output \<Rightarrow> hash32" where
  "dpo_output_id H v = expect (domain_hash H DepositPublicOutput (expect (enc_deposit_output v)))"

definition dec_deposit_output :: "deposit_output decode_fn" where
  "dec_deposit_output d =
     and_then (decode_proof_header TAG_DEPOSIT_PUBLIC_OUTPUT d) (\<lambda>(_, d).
     and_then (dec_hash32 d) (\<lambda>(manifest_id, d).
     and_then (dec_hash32 d) (\<lambda>(claim_id, d).
     and_then (dec_controller d) (\<lambda>(prior_state, d).
     and_then (dec_controller d) (\<lambda>(next_state, d).
     and_then (dec_u64 d) (\<lambda>(timestamp, d).
     and_then (dec_mint_batch d) (\<lambda>(mint_batch, d).
     let v = \<lparr>dpo_manifest_id = manifest_id, dpo_claim_id = claim_id,
              dpo_prior_state = prior_state, dpo_next_state = next_state,
              dpo_finalized_execution_block_timestamp = timestamp,
              dpo_mint_batch = mint_batch\<rparr>
     in and_then (dpo_validate v) (\<lambda>_. Inr (v, d)))))))))"

subsection \<open>struct HeartbeatPublicOutput\<close>

record heartbeat_output =
  hbo_manifest_id :: hash32
  hbo_claim_id :: hash32
  hbo_prior_state :: controller
  hbo_next_state :: controller
  hbo_finalized_execution_block_timestamp :: u64

definition hbo_validate :: "heartbeat_output \<Rightarrow> decode_error + unit" where
  "hbo_validate v =
     (let prior = hbo_prior_state v; next = hbo_next_state v
      in if hbo_manifest_id v = 0 \<or> hbo_claim_id v = 0
        \<or> hbo_finalized_execution_block_timestamp v = 0
      then Inl (InvalidValue ''invalid heartbeat public output'')
      else and_then (mc_validate prior) (\<lambda>_.
      and_then (mc_validate next) (\<lambda>_.
      let mismatch = Inl (InvalidValue ''heartbeat output does not bind a state-only transition'')
      in if mc_version next \<noteq> mc_version prior then mismatch
      else and_then (ok_or (checked_add (mc_sequence prior) 1)
        (InvalidValue ''controller sequence overflow'')) (\<lambda>expected_sequence.
      if mc_sequence next \<noteq> expected_sequence
        \<or> mc_next_mint_nonce next \<noteq> mc_next_mint_nonce prior
        \<or> mc_total_minted_usdd_base next \<noteq> mc_total_minted_usdd_base prior
        \<or> mc_configuration_hash next \<noteq> mc_configuration_hash prior
        \<or> mc_finalized_beacon_slot next \<le> mc_finalized_beacon_slot prior
        \<or> mc_ethereum_light_client_digest next = mc_ethereum_light_client_digest prior
        \<or> MAX_ETHEREUM_FINALITY_SLOT_GAP
            < saturating_sub (mc_finalized_beacon_slot next) (mc_finalized_beacon_slot prior)
      then mismatch else Inr ()))))"

definition enc_heartbeat_output :: "heartbeat_output \<Rightarrow> bytes" where
  "enc_heartbeat_output v = concat
     [encode_proof_header TAG_HEARTBEAT_PUBLIC_OUTPUT,
      enc_hash32 (hbo_manifest_id v),
      enc_hash32 (hbo_claim_id v),
      enc_controller (hbo_prior_state v),
      enc_controller (hbo_next_state v),
      enc_u64 (hbo_finalized_execution_block_timestamp v)]"

definition dec_heartbeat_output :: "heartbeat_output decode_fn" where
  "dec_heartbeat_output d =
     and_then (decode_proof_header TAG_HEARTBEAT_PUBLIC_OUTPUT d) (\<lambda>(_, d).
     and_then (dec_hash32 d) (\<lambda>(manifest_id, d).
     and_then (dec_hash32 d) (\<lambda>(claim_id, d).
     and_then (dec_controller d) (\<lambda>(prior_state, d).
     and_then (dec_controller d) (\<lambda>(next_state, d).
     and_then (dec_u64 d) (\<lambda>(timestamp, d).
     let v = \<lparr>hbo_manifest_id = manifest_id, hbo_claim_id = claim_id,
              hbo_prior_state = prior_state, hbo_next_state = next_state,
              hbo_finalized_execution_block_timestamp = timestamp\<rparr>
     in and_then (hbo_validate v) (\<lambda>_. Inr (v, d))))))))"

subsection \<open>struct ElementsStatePublicOutput\<close>

record elements_output =
  eso_manifest_id :: hash32
  eso_claim_id :: hash32
  eso_prior_bridge_state_hash :: hash32
  eso_next_bridge_state_hash :: hash32
  eso_verifier_statement :: hash32
  eso_prior_state :: bridge_state
  eso_next_state :: bridge_state

definition enc_elements_output :: "elements_output \<Rightarrow> bytes" where
  "enc_elements_output v = concat
     [encode_proof_header TAG_ELEMENTS_STATE_PUBLIC_OUTPUT,
      enc_hash32 (eso_manifest_id v),
      enc_hash32 (eso_claim_id v),
      enc_hash32 (eso_prior_bridge_state_hash v),
      enc_hash32 (eso_next_bridge_state_hash v),
      enc_hash32 (eso_verifier_statement v),
      enc_bridge_state (eso_prior_state v),
      enc_bridge_state (eso_next_state v)]"

definition dec_elements_output :: "(bytes \<Rightarrow> hash32) \<Rightarrow> elements_output decode_fn" where
  "dec_elements_output H d =
     and_then (decode_proof_header TAG_ELEMENTS_STATE_PUBLIC_OUTPUT d) (\<lambda>(_, d).
     and_then (dec_hash32 d) (\<lambda>(manifest_id, d).
     and_then (dec_hash32 d) (\<lambda>(claim_id, d).
     and_then (dec_hash32 d) (\<lambda>(prior_bridge_state_hash, d).
     and_then (dec_hash32 d) (\<lambda>(next_bridge_state_hash, d).
     and_then (dec_hash32 d) (\<lambda>(verifier_statement, d).
     and_then (dec_bridge_state H d) (\<lambda>(prior_state, d).
     and_then (dec_bridge_state H d) (\<lambda>(next_state, d).
     let v = \<lparr>eso_manifest_id = manifest_id, eso_claim_id = claim_id,
              eso_prior_bridge_state_hash = prior_bridge_state_hash,
              eso_next_bridge_state_hash = next_bridge_state_hash,
              eso_verifier_statement = verifier_statement,
              eso_prior_state = prior_state, eso_next_state = next_state\<rparr>
     in if eso_manifest_id v = 0 \<or> eso_claim_id v = 0 \<or> eso_next_bridge_state_hash v = 0
          \<or> eso_verifier_statement v = 0
          \<or> bs_is_zero (eso_prior_state v) \<noteq> (eso_prior_bridge_state_hash v = 0)
        then Inl (InvalidValue ''invalid Elements state public output'')
        else and_then (validate_successor H (eso_prior_state v) (eso_next_state v))
          (\<lambda>_. Inr (v, d))))))))))"

subsection \<open>What validation establishes\<close>

lemma decode_proof_header_reads [reads_enc]:
  "reads d (encode_proof_header tag) d' \<longleftrightarrow> decode_proof_header tag d = Inr ((), d')"
  by (auto simp: encode_proof_header_def decode_proof_header_def and_then_Inr if_Inl_Inr
      reads_append reads_enc)

lemma dc_validate_ok:
  "dc_validate H c = Inr u \<longleftrightarrow>
     dc_manifest_id c \<noteq> 0 \<and> mc_validate (dc_prior_state c) = Inr ()
     \<and> fw_validate (dc_finality c) = Inr () \<and> deposits_ok (dc_deposits c)"
proof -
  have "(\<exists>b. mb_from_deposits H (dc_deposits c) = Inr b) \<longleftrightarrow> deposits_ok (dc_deposits c)"
    using mb_from_deposits_total by (auto simp: mb_from_deposits_ok)
  then show ?thesis by (auto simp: dc_validate_def and_then_Inr)
qed

lemma hc_validate_ok:
  "hc_validate c = Inr u \<longleftrightarrow>
     hc_manifest_id c \<noteq> 0 \<and> mc_validate (hc_prior_state c) = Inr ()
     \<and> fw_validate (hc_finality c) = Inr ()"
  by (auto simp: hc_validate_def and_then_Inr)

text \<open>
  The two public outputs of the Ethereum guest re-check the controller transition from its
  two end states alone. They accept exactly the pairs of states that a transition of the
  controller connects, for some finality witness.
\<close>

definition witness_for :: "controller \<Rightarrow> finality_witness" where
  "witness_for c =
     \<lparr>fw_ethereum_light_client_digest = mc_ethereum_light_client_digest c,
      fw_finalized_beacon_slot = mc_finalized_beacon_slot c,
      fw_finalized_beacon_root = mc_finalized_beacon_root c,
      fw_finalized_execution_block = 1,
      fw_finalized_execution_state_root = mc_finalized_execution_state_root c,
      fw_execution_block_number = 0, fw_execution_block_timestamp = 0\<rparr>"

lemma witness_for_installed:
  "finality_installed c (witness_for c)"
  "finality_installed c w \<Longrightarrow> finality_advances p w \<longleftrightarrow> finality_advances p (witness_for c)"
  by (auto simp: finality_installed_def witness_for_def finality_advances_def)

lemma witness_for_valid:
  "mc_validate c = Inr u \<Longrightarrow> mc_sequence c \<noteq> 0 \<Longrightarrow> fw_validate (witness_for c) = Inr ()"
  by (auto simp: mc_validate_ok fw_validate_ok witness_for_def split: if_splits)

lemma slot_advance_iff:
  fixes s t :: u64
  shows "\<not> t < s \<and> \<not> MAX_ETHEREUM_FINALITY_SLOT_GAP < saturating_sub t s \<longleftrightarrow>
    unat s \<le> unat t \<and> unat t \<le> unat s + 4096"
  by (auto simp: word_less_nat_alt unat_saturating_sub)

lemma advances_witness_iff:
  assumes "mc_finalized_beacon_slot n \<noteq> 0"
  shows "finality_advances p (witness_for n) \<longleftrightarrow>
    unat (mc_finalized_beacon_slot p) \<le> unat (mc_finalized_beacon_slot n)
    \<and> unat (mc_finalized_beacon_slot n) \<le> unat (mc_finalized_beacon_slot p) + 4096
    \<and> \<not> (mc_finalized_beacon_slot n = mc_finalized_beacon_slot p
        \<and> (mc_ethereum_light_client_digest n \<noteq> mc_ethereum_light_client_digest p
           \<or> mc_finalized_beacon_root n \<noteq> mc_finalized_beacon_root p
           \<or> mc_finalized_execution_state_root n \<noteq> mc_finalized_execution_state_root p))
    \<and> \<not> (mc_finalized_beacon_slot p < mc_finalized_beacon_slot n
        \<and> mc_ethereum_light_client_digest n = mc_ethereum_light_client_digest p)"
  using assms
  by (auto simp: finality_advances_def witness_for_def word_less_nat_alt
      word_unat_eq_iff [where 'a = 64])

lemma next_slot_nonzero:
  assumes "mc_validate n = Inr u" "unat (mc_sequence n) = unat (mc_sequence p) + 1"
  shows "mc_finalized_beacon_slot n \<noteq> 0" "mc_sequence n \<noteq> 0"
proof -
  show "mc_sequence n \<noteq> 0" using assms(2) by auto
  then show "mc_finalized_beacon_slot n \<noteq> 0"
    using assms(1) by (auto simp: mc_validate_ok split: if_splits)
qed

definition mint_connects :: "controller \<Rightarrow> mint_batch \<Rightarrow> controller \<Rightarrow> bool" where
  "mint_connects p b n \<longleftrightarrow> (\<exists>w. apply_mint_batch p b w = Inr n)"

definition heartbeat_connects :: "controller \<Rightarrow> controller \<Rightarrow> bool" where
  "heartbeat_connects p n \<longleftrightarrow> (\<exists>w. apply_heartbeat p w = Inr n)"

lemma mint_connects_iff:
  "mint_connects p b n \<longleftrightarrow>
     mc_validate p = Inr () \<and> mc_validate n = Inr () \<and> mb_validate b = Inr ()
     \<and> mb_first_nonce b = mc_next_mint_nonce p \<and> finality_advances p (witness_for n)
     \<and> mc_version n = mc_version p \<and> mc_configuration_hash n = mc_configuration_hash p
     \<and> unat (mc_sequence n) = unat (mc_sequence p) + 1
     \<and> mc_next_mint_nonce n = mb_next_nonce b
     \<and> unat (mc_total_minted_usdd_base n) =
         unat (mc_total_minted_usdd_base p) + unat (mb_total_usdd_amount_base b)"
  (is "?L \<longleftrightarrow> ?R")
proof
  assume ?L
  then obtain w where w: "apply_mint_batch p b w = Inr n" by (auto simp: mint_connects_def)
  then have "controller_apply p (MintTransition b w) = Inr n" by simp
  then have "mc_validate n = Inr ()" by (rule ctl.step_valid [THEN conjunct2])
  with w witness_for_installed(2) show ?R unfolding apply_mint_batch_ok by blast
next
  assume R: ?R
  then have "fw_validate (witness_for n) = Inr ()"
    using witness_for_valid next_slot_nonzero(2) by blast
  with R witness_for_installed(1) have "apply_mint_batch p b (witness_for n) = Inr n"
    unfolding apply_mint_batch_ok by blast
  then show ?L unfolding mint_connects_def by blast
qed

lemma heartbeat_connects_iff:
  "heartbeat_connects p n \<longleftrightarrow>
     mc_validate p = Inr () \<and> mc_validate n = Inr ()
     \<and> mc_finalized_beacon_slot p < mc_finalized_beacon_slot n
     \<and> finality_advances p (witness_for n)
     \<and> mc_version n = mc_version p \<and> mc_configuration_hash n = mc_configuration_hash p
     \<and> unat (mc_sequence n) = unat (mc_sequence p) + 1
     \<and> mc_next_mint_nonce n = mc_next_mint_nonce p
     \<and> mc_total_minted_usdd_base n = mc_total_minted_usdd_base p"
  (is "?L \<longleftrightarrow> ?R")
proof
  assume ?L
  then obtain w where w: "apply_heartbeat p w = Inr n" by (auto simp: heartbeat_connects_def)
  then have "controller_apply p (Heartbeat w) = Inr n" by simp
  then have "mc_validate n = Inr ()" by (rule ctl.step_valid [THEN conjunct2])
  moreover have "fw_finalized_beacon_slot w = mc_finalized_beacon_slot n"
    using w by (simp add: apply_heartbeat_ok finality_installed_def)
  ultimately show ?R using w witness_for_installed(2) unfolding apply_heartbeat_ok by metis
next
  assume R: ?R
  then have "fw_validate (witness_for n) = Inr ()"
    using witness_for_valid next_slot_nonzero(2) by blast
  moreover have "fw_finalized_beacon_slot (witness_for n) = mc_finalized_beacon_slot n"
    by (simp add: witness_for_def)
  ultimately have "apply_heartbeat p (witness_for n) = Inr n"
    using R witness_for_installed(1) unfolding apply_heartbeat_ok by metis
  then show ?L unfolding heartbeat_connects_def by blast
qed

lemma dpo_validate_ok:
  "dpo_validate v = Inr u \<longleftrightarrow>
     dpo_manifest_id v \<noteq> 0 \<and> dpo_claim_id v \<noteq> 0
     \<and> dpo_finalized_execution_block_timestamp v \<noteq> 0
     \<and> mint_connects (dpo_prior_state v) (dpo_mint_batch v) (dpo_next_state v)"
proof -
  let ?p = "dpo_prior_state v" and ?n = "dpo_next_state v" and ?b = "dpo_mint_batch v"
  have sum: "(\<exists>t. unat t = x \<and> w = t \<and> P) \<longleftrightarrow> unat (w :: u64) = x \<and> P" for x w P by auto
  have "dpo_validate v = Inr u \<longleftrightarrow>
      dpo_manifest_id v \<noteq> 0 \<and> dpo_claim_id v \<noteq> 0
      \<and> dpo_finalized_execution_block_timestamp v \<noteq> 0
      \<and> mc_validate ?p = Inr () \<and> mc_validate ?n = Inr () \<and> mb_validate ?b = Inr ()
      \<and> mc_version ?n = mc_version ?p
      \<and> unat (mc_sequence ?n) = unat (mc_sequence ?p) + 1
      \<and> mc_next_mint_nonce ?n = mb_next_nonce ?b \<and> mb_first_nonce ?b = mc_next_mint_nonce ?p
      \<and> unat (mc_total_minted_usdd_base ?n) =
          unat (mc_total_minted_usdd_base ?p) + unat (mb_total_usdd_amount_base ?b)
      \<and> mc_configuration_hash ?n = mc_configuration_hash ?p
      \<and> (\<not> mc_finalized_beacon_slot ?n < mc_finalized_beacon_slot ?p
         \<and> \<not> MAX_ETHEREUM_FINALITY_SLOT_GAP
            < saturating_sub (mc_finalized_beacon_slot ?n) (mc_finalized_beacon_slot ?p))
      \<and> \<not> (mc_finalized_beacon_slot ?n = mc_finalized_beacon_slot ?p
          \<and> (mc_ethereum_light_client_digest ?n \<noteq> mc_ethereum_light_client_digest ?p
             \<or> mc_finalized_beacon_root ?n \<noteq> mc_finalized_beacon_root ?p
             \<or> mc_finalized_execution_state_root ?n \<noteq> mc_finalized_execution_state_root ?p))
      \<and> \<not> (mc_finalized_beacon_slot ?p < mc_finalized_beacon_slot ?n
          \<and> mc_ethereum_light_client_digest ?n = mc_ethereum_light_client_digest ?p)"
    unfolding dpo_validate_def Let_def if_Inl_Inr and_then_Inr ok_or_Inr checked_add_Some
    by (auto simp: if_Inl_Inr)
  then show ?thesis
    unfolding mint_connects_iff slot_advance_iff
    using advances_witness_iff [OF next_slot_nonzero(1), of ?n "()" ?p ?p] by blast
qed

lemma hbo_validate_ok:
  "hbo_validate v = Inr u \<longleftrightarrow>
     hbo_manifest_id v \<noteq> 0 \<and> hbo_claim_id v \<noteq> 0
     \<and> hbo_finalized_execution_block_timestamp v \<noteq> 0
     \<and> heartbeat_connects (hbo_prior_state v) (hbo_next_state v)"
proof -
  let ?p = "hbo_prior_state v" and ?n = "hbo_next_state v"
  have "hbo_validate v = Inr u \<longleftrightarrow>
      hbo_manifest_id v \<noteq> 0 \<and> hbo_claim_id v \<noteq> 0
      \<and> hbo_finalized_execution_block_timestamp v \<noteq> 0
      \<and> mc_validate ?p = Inr () \<and> mc_validate ?n = Inr () \<and> mc_version ?n = mc_version ?p
      \<and> unat (mc_sequence ?n) = unat (mc_sequence ?p) + 1
      \<and> mc_next_mint_nonce ?n = mc_next_mint_nonce ?p
      \<and> mc_total_minted_usdd_base ?n = mc_total_minted_usdd_base ?p
      \<and> mc_configuration_hash ?n = mc_configuration_hash ?p
      \<and> mc_finalized_beacon_slot ?p < mc_finalized_beacon_slot ?n
      \<and> mc_ethereum_light_client_digest ?n \<noteq> mc_ethereum_light_client_digest ?p
      \<and> (\<not> mc_finalized_beacon_slot ?n < mc_finalized_beacon_slot ?p
         \<and> \<not> MAX_ETHEREUM_FINALITY_SLOT_GAP
            < saturating_sub (mc_finalized_beacon_slot ?n) (mc_finalized_beacon_slot ?p))"
    unfolding hbo_validate_def Let_def if_Inl_Inr and_then_Inr ok_or_Inr checked_add_Some
    by (auto simp: if_Inl_Inr not_le)
  then show ?thesis
    unfolding heartbeat_connects_iff slot_advance_iff
    using advances_witness_iff [OF next_slot_nonzero(1), of ?n "()" ?p ?p] by auto
qed

subsection \<open>Codecs\<close>

text \<open>Reading a nested record; the record is valid on both sides.\<close>

lemma reads_nested [reads_enc]:
  "mc_validate c = Inr () \<Longrightarrow> reads d (enc_controller c) d' \<longleftrightarrow> dec_controller d = Inr (c, d')"
  "fw_validate w = Inr () \<Longrightarrow>
     reads d (enc_finality_witness w) d' \<longleftrightarrow> dec_finality_witness d = Inr (w, d')"
  "bs_validate H s = Inr () \<Longrightarrow>
     reads d (enc_bridge_state s) d' \<longleftrightarrow> dec_bridge_state H d = Inr (s, d')"
  "bu_validate b = Inr () \<Longrightarrow> reads d (enc_burn b) d' \<longleftrightarrow> dec_burn d = Inr (b, d')"
  "mb_validate m = Inr () \<Longrightarrow>
     reads_opt d (enc_mint_batch m) d' \<longleftrightarrow> dec_mint_batch d = Inr (m, d')"
  by (simp_all add: codec_controller.dec_iff codec_finality_witness.dec_iff
      codec_bridge_state.dec_iff codec_burn.dec_iff codec_mint_batch.dec_iff)

interpretation codec_heartbeat_claim:
  codec "\<lambda>c. Some (enc_heartbeat_claim c)" dec_heartbeat_claim "\<lambda>c. hc_validate c = Inr ()"
proof
  fix d c d'
  show "dec_heartbeat_claim d = Inr (c, d') \<longleftrightarrow>
      hc_validate c = Inr () \<and> reads_opt d (Some (enc_heartbeat_claim c)) d'"
    by (cases c) (auto simp: dec_heartbeat_claim_def enc_heartbeat_claim_def hc_validate_ok Let_def
        and_then_Inr reads_append reads_enc)
qed simp

interpretation codec_deposit_output:
  codec enc_deposit_output dec_deposit_output "\<lambda>v. dpo_validate v = Inr ()"
proof
  fix d v d'
  show "dec_deposit_output d = Inr (v, d') \<longleftrightarrow>
      dpo_validate v = Inr () \<and> reads_opt d (enc_deposit_output v) d'"
    by (cases v) (auto simp: dec_deposit_output_def enc_deposit_output_def dpo_validate_ok
        mint_connects_iff Let_def and_then_Inr reads_append reads_enc)
next
  fix v assume "dpo_validate v = Inr ()"
  then have "mb_validate (dpo_mint_batch v) = Inr ()"
    by (simp add: dpo_validate_ok mint_connects_iff)
  then have "enc_mint_batch (dpo_mint_batch v) \<noteq> None" by (rule codec_mint_batch.valid_enc)
  then show "enc_deposit_output v \<noteq> None"
    unfolding enc_deposit_output_def enc_seq_not_None by simp
qed

interpretation codec_heartbeat_output:
  codec "\<lambda>v. Some (enc_heartbeat_output v)" dec_heartbeat_output "\<lambda>v. hbo_validate v = Inr ()"
proof
  fix d v d'
  show "dec_heartbeat_output d = Inr (v, d') \<longleftrightarrow>
      hbo_validate v = Inr () \<and> reads_opt d (Some (enc_heartbeat_output v)) d'"
    by (cases v) (auto simp: dec_heartbeat_output_def enc_heartbeat_output_def hbo_validate_ok
        heartbeat_connects_iff Let_def and_then_Inr reads_append reads_enc)
qed simp

definition eso_valid :: "(bytes \<Rightarrow> hash32) \<Rightarrow> elements_output \<Rightarrow> bool" where
  "eso_valid H v \<longleftrightarrow>
     eso_manifest_id v \<noteq> 0 \<and> eso_claim_id v \<noteq> 0 \<and> eso_next_bridge_state_hash v \<noteq> 0
     \<and> eso_verifier_statement v \<noteq> 0
     \<and> (bs_is_zero (eso_prior_state v) \<longleftrightarrow> eso_prior_bridge_state_hash v = 0)
     \<and> validate_successor H (eso_prior_state v) (eso_next_state v) = Inr ()"

lemma successor_valid:
  "validate_successor H s t = Inr u \<Longrightarrow> bs_validate H s = Inr () \<and> bs_validate H t = Inr ()"
  by (simp only: validate_successor_ok)

interpretation codec_elements_output:
  codec "\<lambda>v. Some (enc_elements_output v)" "dec_elements_output H" "eso_valid H" for H
proof
  fix d and v :: elements_output and d'
  have "bs_validate H (eso_prior_state v) = Inr ()" "bs_validate H (eso_next_state v) = Inr ()"
    if "validate_successor H (eso_prior_state v) (eso_next_state v) = Inr ()"
    using successor_valid [OF that] by simp_all
  then show "dec_elements_output H d = Inr (v, d') \<longleftrightarrow>
      eso_valid H v \<and> reads_opt d (Some (enc_elements_output v)) d'"
    by (cases v) (auto simp: dec_elements_output_def enc_elements_output_def eso_valid_def Let_def
        and_then_Inr if_Inl_Inr reads_append reads_enc(1-19) reads_nested(3) [where H = H])
qed simp

definition bap_valid :: "burn_append_t \<Rightarrow> bool" where
  "bap_valid a \<longleftrightarrow> bu_validate (bap_burn a) = Inr () \<and> burn_proof_ok (bap_empty_branch a)"

interpretation codec_burn_append:
  codec "\<lambda>a. Some (enc_burn_append a)" dec_burn_append bap_valid
proof
  fix d a d'
  have "dec_burn_append d = Inr (a, d') \<longleftrightarrow> (\<exists>d1 d2.
      decode_proof_header TAG_BURN_APPEND d = Inr ((), d1)
      \<and> dec_burn d1 = Inr (bap_burn a, d2) \<and> dec_burn_proof d2 = Inr (bap_empty_branch a, d'))"
    by (cases a) (auto simp: dec_burn_append_def and_then_Inr)
  also have "\<dots> \<longleftrightarrow> bap_valid a \<and> reads_opt d (Some (enc_burn_append a)) d'"
    unfolding codec_burn.dec_iff codec_burn_proof.dec_iff decode_proof_header_reads [symmetric]
      bap_valid_def enc_burn_append_def
    by (auto simp: reads_append)
  finally show "dec_burn_append d = Inr (a, d') \<longleftrightarrow>
      bap_valid a \<and> reads_opt d (Some (enc_burn_append a)) d'" .
qed simp

lemma byte_count: "unat (n :: u8) = k \<longleftrightarrow> k < 256 \<and> n = of_nat k"
  using unat_bound [of n] by (auto simp: unat_of_nat_byte)

interpretation codec_deposit_claim:
  codec enc_deposit_claim "dec_deposit_claim H" "\<lambda>c. dc_validate H c = Inr ()" for H
proof
  fix d c d'
  have "dec_deposit_claim H d = Inr (c, d') \<longleftrightarrow> (\<exists>d1 d2 d3 d4 n d5.
      decode_proof_header TAG_ETHEREUM_DEPOSIT_CLAIM d = Inr ((), d1)
      \<and> dec_hash32 d1 = Inr (dc_manifest_id c, d2)
      \<and> dec_controller d2 = Inr (dc_prior_state c, d3)
      \<and> dec_finality_witness d3 = Inr (dc_finality c, d4)
      \<and> dec_u8 d4 = Inr (n, d5) \<and> unat n \<noteq> 0 \<and> unat n \<le> 64
      \<and> decode_n dec_vault_deposit (unat n) d5 = Inr (dc_deposits c, d')
      \<and> dc_validate H c = Inr ())"
    by (cases c) (auto simp: dec_deposit_claim_def Let_def and_then_Inr if_Inl_Inr
        MAX_MINT_BATCH_SIZE_def not_less)
  also have "\<dots> \<longleftrightarrow> dc_validate H c = Inr () \<and> (\<exists>n. unat n = length (dc_deposits c)
      \<and> reads_opt d (enc_seq
         [Some (encode_proof_header TAG_ETHEREUM_DEPOSIT_CLAIM), Some (enc_hash32 (dc_manifest_id c)),
          Some (enc_controller (dc_prior_state c)), Some (enc_finality_witness (dc_finality c)),
          Some (enc_u8 n), enc_seq (map enc_vault_deposit (dc_deposits c))]) d')"
    unfolding dc_validate_ok deposits_ok_def codec_vault_deposit.decode_n_iff reads_enc_seq
      reads_opt_simps
    by (auto simp: reads_enc)
  also have "\<dots> \<longleftrightarrow> dc_validate H c = Inr () \<and> reads_opt d (enc_deposit_claim c) d'"
    using byte_count [of _ "length (dc_deposits c)"]
    by (auto simp: enc_deposit_claim_def dc_validate_ok deposits_ok_def)
  finally show "dec_deposit_claim H d = Inr (c, d') \<longleftrightarrow>
      dc_validate H c = Inr () \<and> reads_opt d (enc_deposit_claim c) d'" .
next
  fix c assume c: "dc_validate H c = Inr ()"
  then have "enc_seq (map enc_vault_deposit (dc_deposits c)) \<noteq> None"
    by (intro codec_vault_deposit.enc_seq_valid) (auto simp: dc_validate_ok deposits_ok_def)
  with c show "enc_deposit_claim c \<noteq> None"
    unfolding enc_deposit_claim_def enc_seq_not_None [of "_ # _"]
    by (auto simp: dc_validate_ok deposits_ok_def)
qed

definition ec_valid :: "(bytes \<Rightarrow> hash32) \<Rightarrow> elements_claim \<Rightarrow> bool" where
  "ec_valid H c \<longleftrightarrow> bs_validate H (ec_prior_state c) = Inr ()
     \<and> bs_validate H (ec_next_state c) = Inr ()
     \<and> length (ec_appended_burns c) \<le> 64 \<and> (\<forall>a \<in> set (ec_appended_burns c). bap_valid a)"

interpretation codec_elements_claim:
  codec enc_elements_claim "dec_elements_claim H" "ec_valid H" for H
proof
  fix d c d'
  have "dec_elements_claim H d = Inr (c, d') \<longleftrightarrow> (\<exists>d1 d2 d3 d4 d5 n d6.
      decode_proof_header TAG_ELEMENTS_STATE_TRANSITION_CLAIM d = Inr ((), d1)
      \<and> dec_hash32 d1 = Inr (ec_manifest_id c, d2)
      \<and> dec_hash32 d2 = Inr (ec_prior_bridge_state_hash c, d3)
      \<and> dec_bridge_state H d3 = Inr (ec_prior_state c, d4)
      \<and> dec_bridge_state H d4 = Inr (ec_next_state c, d5)
      \<and> dec_u8 d5 = Inr (n, d6) \<and> unat n \<le> 64
      \<and> decode_n dec_burn_append (unat n) d6 = Inr (ec_appended_burns c, d'))"
    by (cases c) (auto simp: dec_elements_claim_def Let_def and_then_Inr if_Inl_Inr
        MAX_BURN_APPENDS_PER_STATE_TRANSITION_def not_less)
  also have "\<dots> \<longleftrightarrow> ec_valid H c \<and> (\<exists>n. unat n = length (ec_appended_burns c)
      \<and> reads_opt d (enc_seq
         [Some (encode_proof_header TAG_ELEMENTS_STATE_TRANSITION_CLAIM),
          Some (enc_hash32 (ec_manifest_id c)), Some (enc_hash32 (ec_prior_bridge_state_hash c)),
          Some (enc_bridge_state (ec_prior_state c)), Some (enc_bridge_state (ec_next_state c)),
          Some (enc_u8 n),
          enc_seq (map (\<lambda>a. Some (enc_burn_append a)) (ec_appended_burns c))]) d')"
    unfolding ec_valid_def codec_burn_append.decode_n_iff codec_bridge_state.dec_iff
      reads_enc_seq reads_opt_simps
    by (auto simp: reads_hash32 reads_prim decode_proof_header_reads
        reads_nested(3) [where H = H])
  also have "\<dots> \<longleftrightarrow> ec_valid H c \<and> reads_opt d (enc_elements_claim c) d'"
    using byte_count [of _ "length (ec_appended_burns c)"]
    by (auto simp: enc_elements_claim_def ec_valid_def)
  finally show "dec_elements_claim H d = Inr (c, d') \<longleftrightarrow>
      ec_valid H c \<and> reads_opt d (enc_elements_claim c) d'" .
next
  fix c assume c: "ec_valid H c"
  then have "enc_seq (map (\<lambda>a. Some (enc_burn_append a)) (ec_appended_burns c)) \<noteq> None"
    by (intro codec_burn_append.enc_seq_valid) (simp add: ec_valid_def)
  with c show "enc_elements_claim c \<noteq> None"
    unfolding enc_elements_claim_def enc_seq_not_None [of "_ # _"] by (auto simp: ec_valid_def)
qed

subsection \<open>Properties\<close>

text \<open>
  The deposit output re-checks the whole transition. Its validation, which sees only the
  two end states and the batch, accepts exactly the pairs that some accepted
  \<open>apply_mint_batch\<close> connects, with non-zero ids and timestamp.
\<close>

theorem deposit_output_validation:
  "dpo_validate v = Inr () \<longleftrightarrow>
     dpo_manifest_id v \<noteq> 0 \<and> dpo_claim_id v \<noteq> 0
     \<and> dpo_finalized_execution_block_timestamp v \<noteq> 0
     \<and> (\<exists>w. apply_mint_batch (dpo_prior_state v) (dpo_mint_batch v) w = Inr (dpo_next_state v))"
  by (simp add: dpo_validate_ok mint_connects_def)

text \<open>
  The heartbeat output re-checks the whole transition: it is valid exactly when some
  accepted heartbeat leads from its prior to its next state.
\<close>

theorem heartbeat_output_validation:
  "hbo_validate v = Inr () \<longleftrightarrow>
     hbo_manifest_id v \<noteq> 0 \<and> hbo_claim_id v \<noteq> 0
     \<and> hbo_finalized_execution_block_timestamp v \<noteq> 0
     \<and> (\<exists>w. apply_heartbeat (hbo_prior_state v) w = Inr (hbo_next_state v))"
  by (simp add: hbo_validate_ok heartbeat_connects_def)

text \<open>
  Canonical Elements claims. A claim with its list of up to 64 burns and branches is decoded
  from exactly one byte string, its encoding.
\<close>

theorem elements_claim_codec:
  "decode_exact (dec_elements_claim H) bs = Inr c \<longleftrightarrow> ec_valid H c \<and> enc_elements_claim c = Some bs"
  by (rule codec_elements_claim.decode_exact_iff)

end
