(* ===== verification/Journal.thy ===== *)
theory Journal
  imports Claims
begin

section \<open>The strict proof journal (usdd-proof-core/src/journal.rs)\<close>

text \<open>
  The envelope around every accepted proof's public values: magic, schema, digest tag,
  success marker, statement kind, program id, payload digest and payload, and the typed
  payload records authorized for each statement kind. \<open>decode_strict\<close> keeps the order of the
  code's checks; its errors other than those of the decoder are the constructors of
  \<open>journal_error\<close>.
\<close>

definition JOURNAL_MAGIC :: bytes where
  "JOURNAL_MAGIC = ascii ''USDDJNL1''"

definition JOURNAL_SUCCESS_MARKER :: bytes where
  "JOURNAL_SUCCESS_MARKER = ascii ''SUCCESS!''"

datatype digest_algorithm = Sha256

fun digest_byte :: "digest_algorithm \<Rightarrow> u8" where
  "digest_byte Sha256 = 1"

datatype statement_kind = EthereumState | ElementsState

fun kind_byte :: "statement_kind \<Rightarrow> u8" where
  "kind_byte EthereumState = 1"
| "kind_byte ElementsState = 2"

datatype journal_error =
    JournalDecode decode_error
  | WrongMagic
  | UnsupportedSchema u16
  | UnsupportedDigest u8
  | GuestNotSuccessful
  | UnsupportedStatementKind u8
  | ZeroProgramId
  | EmptyPayload
  | PayloadDigestMismatch
  | JournalTrailingBytes nat
  | NonCanonicalEncoding
  | WrongProgramId
  | WrongStatementKind
  | InvalidPayloadForStatement

definition kind_decode :: "u8 \<Rightarrow> journal_error + statement_kind" where
  "kind_decode tag =
     (if tag = 1 then Inr EthereumState
      else if tag = 2 then Inr ElementsState
      else Inl (UnsupportedStatementKind tag))"

record strict_journal =
  sj_statement_kind :: statement_kind
  sj_program_id :: hash32
  sj_payload_sha256 :: hash32
  sj_payload :: bytes

datatype typed_public_values =
    TypedDeposit deposit_output
  | TypedHeartbeat heartbeat_output
  | TypedElementsState elements_output

fun typed_decode ::
  "(bytes \<Rightarrow> hash32) \<Rightarrow> statement_kind \<Rightarrow> bytes \<Rightarrow> journal_error + typed_public_values" where
  "typed_decode H EthereumState payload =
     (case decode_exact dec_deposit_output payload of
        Inr v \<Rightarrow> Inr (TypedDeposit v)
      | Inl _ \<Rightarrow>
          (case decode_exact dec_heartbeat_output payload of
             Inr v \<Rightarrow> Inr (TypedHeartbeat v)
           | Inl _ \<Rightarrow> Inl InvalidPayloadForStatement))"
| "typed_decode H ElementsState payload =
     (case decode_exact (dec_elements_output H) payload of
        Inr v \<Rightarrow> Inr (TypedElementsState v)
      | Inl _ \<Rightarrow> Inl InvalidPayloadForStatement)"

definition journal_new ::
  "(bytes \<Rightarrow> hash32) \<Rightarrow> statement_kind \<Rightarrow> hash32 \<Rightarrow> bytes \<Rightarrow> journal_error + strict_journal" where
  "journal_new H kind program_id payload =
     (if program_id = 0 then Inl ZeroProgramId
      else if payload = [] then Inl EmptyPayload
      else and_then (typed_decode H kind payload) (\<lambda>_.
        Inr \<lparr>sj_statement_kind = kind, sj_program_id = program_id,
             sj_payload_sha256 = hash_bytes H payload, sj_payload = payload\<rparr>))"

definition enc_journal :: "strict_journal \<Rightarrow> bytes option" where
  "enc_journal j = enc_seq
     [Some JOURNAL_MAGIC,
      Some (enc_u16 ENCODING_SCHEMA),
      Some (enc_u8 (digest_byte Sha256)),
      Some JOURNAL_SUCCESS_MARKER,
      Some (enc_u8 (kind_byte (sj_statement_kind j))),
      Some (enc_hash32 (sj_program_id j)),
      Some (enc_hash32 (sj_payload_sha256 j)),
      enc_vec (sj_payload j)]"

definition decode_strict :: "(bytes \<Rightarrow> hash32) \<Rightarrow> bytes \<Rightarrow> journal_error + strict_journal" where
  "decode_strict H bs =
     and_then (map_err JournalDecode (dec_fixed 8 (decoder_new bs))) (\<lambda>(magic, d).
     if magic \<noteq> JOURNAL_MAGIC then Inl WrongMagic
     else and_then (map_err JournalDecode (dec_u16 d)) (\<lambda>(schema, d).
     if schema \<noteq> ENCODING_SCHEMA then Inl (UnsupportedSchema schema)
     else and_then (map_err JournalDecode (dec_u8 d)) (\<lambda>(digest_tag, d).
     if digest_tag \<noteq> digest_byte Sha256 then Inl (UnsupportedDigest digest_tag)
     else and_then (map_err JournalDecode (dec_fixed 8 d)) (\<lambda>(marker, d).
     if marker \<noteq> JOURNAL_SUCCESS_MARKER then Inl GuestNotSuccessful
     else and_then (map_err JournalDecode (dec_u8 d)) (\<lambda>(tag, d).
     and_then (kind_decode tag) (\<lambda>kind.
     and_then (map_err JournalDecode (dec_hash32 d)) (\<lambda>(program_id, d).
     if program_id = 0 then Inl ZeroProgramId
     else and_then (map_err JournalDecode (dec_hash32 d)) (\<lambda>(payload_sha256, d).
     and_then (map_err JournalDecode (dec_vec d)) (\<lambda>(payload, d).
     if payload = [] then Inl EmptyPayload
     else if remaining d \<noteq> 0 then Inl (JournalTrailingBytes (remaining d))
     else if hash_bytes H payload \<noteq> payload_sha256 then Inl PayloadDigestMismatch
     else and_then (typed_decode H kind payload) (\<lambda>_.
     let j = \<lparr>sj_statement_kind = kind, sj_program_id = program_id,
              sj_payload_sha256 = payload_sha256, sj_payload = payload\<rparr>
     in if enc_journal j \<noteq> Some bs then Inl NonCanonicalEncoding else Inr j))))))))))"

definition typed_payload :: "(bytes \<Rightarrow> hash32) \<Rightarrow> strict_journal \<Rightarrow> typed_public_values option" where
  "typed_payload H j =
     (case typed_decode H (sj_statement_kind j) (sj_payload j) of
        Inr v \<Rightarrow> Some v | Inl _ \<Rightarrow> None)"

definition verify_expected ::
  "(bytes \<Rightarrow> hash32) \<Rightarrow> bytes \<Rightarrow> hash32 \<Rightarrow> statement_kind \<Rightarrow> journal_error + strict_journal" where
  "verify_expected H bs expected_program_id expected_kind =
     and_then (decode_strict H bs) (\<lambda>j.
       if sj_program_id j \<noteq> expected_program_id then Inl WrongProgramId
       else if sj_statement_kind j \<noteq> expected_kind then Inl WrongStatementKind
       else Inr j)"

subsection \<open>Typed payloads are unambiguous\<close>

lemma proof_header_prefix:
  "encode_proof_header t @ xs = encode_proof_header t' @ ys \<longleftrightarrow> t = t' \<and> xs = ys"
  by (simp add: encode_proof_header_def)

lemma deposit_not_heartbeat: "enc_deposit_output v \<noteq> Some (enc_heartbeat_output w)"
proof
  assume "enc_deposit_output v = Some (enc_heartbeat_output w)"
  then obtain bs where "encode_proof_header TAG_DEPOSIT_PUBLIC_OUTPUT @ bs = enc_heartbeat_output w"
    unfolding enc_deposit_output_def
    using enc_seq_Cons_Some [of "Some (encode_proof_header TAG_DEPOSIT_PUBLIC_OUTPUT)"] by fastforce
  then show False
    by (simp add: enc_heartbeat_output_def proof_header_prefix TAG_DEPOSIT_PUBLIC_OUTPUT_def
        TAG_HEARTBEAT_PUBLIC_OUTPUT_def)
qed

lemma decode_exact_cases:
  "(case decode_exact dec bs of Inr v \<Rightarrow> Inr (f v) | Inl _ \<Rightarrow> e) = Inr r \<longleftrightarrow>
     (\<exists>v. decode_exact dec bs = Inr v \<and> r = f v) \<or> ((\<nexists>v. decode_exact dec bs = Inr v) \<and> e = Inr r)"
  by (cases "decode_exact dec bs") auto

lemma typed_decode_deposit:
  "typed_decode H kind p = Inr (TypedDeposit v) \<longleftrightarrow>
     kind = EthereumState \<and> dpo_validate v = Inr () \<and> enc_deposit_output v = Some p"
  by (cases kind) (auto simp: decode_exact_cases codec_deposit_output.decode_exact_iff)

lemma typed_decode_heartbeat:
  "typed_decode H kind p = Inr (TypedHeartbeat v) \<longleftrightarrow>
     kind = EthereumState \<and> hbo_validate v = Inr () \<and> enc_heartbeat_output v = p"
  using deposit_not_heartbeat
  by (cases kind) (auto simp: decode_exact_cases codec_deposit_output.decode_exact_iff
      codec_heartbeat_output.decode_exact_iff)

lemma typed_decode_elements:
  "typed_decode H kind p = Inr (TypedElementsState v) \<longleftrightarrow>
     kind = ElementsState \<and> eso_valid H v \<and> enc_elements_output v = p"
  by (cases kind) (auto simp: decode_exact_cases codec_elements_output.decode_exact_iff)

subsection \<open>Strict decoding is exact\<close>

definition journal_ok :: "(bytes \<Rightarrow> hash32) \<Rightarrow> strict_journal \<Rightarrow> bool" where
  "journal_ok H j \<longleftrightarrow>
     sj_program_id j \<noteq> 0 \<and> sj_payload j \<noteq> []
     \<and> sj_payload_sha256 j = H (sj_payload j)
     \<and> is_ok (typed_decode H (sj_statement_kind j) (sj_payload j))"

lemma journal_new_ok [ok_iff]:
  "journal_new H kind pid payload = Inr j \<longleftrightarrow>
     journal_ok H j \<and> sj_statement_kind j = kind \<and> sj_program_id j = pid
     \<and> sj_payload j = payload"
  by (cases j; cases "typed_decode H kind payload")
    (auto simp: journal_new_def journal_ok_def hash_bytes_def)

lemma kind_decode_ok [ok_iff]: "kind_decode tag = Inr kind \<longleftrightarrow> tag = kind_byte kind"
  by (cases kind) (auto simp: kind_decode_def)

lemma reads_all:
  "reads_opt (decoder_new bs) e d' \<and> remaining d' = 0 \<longleftrightarrow>
     e = Some bs \<and> d' = advance (length bs) (decoder_new bs)"
  by (auto simp: reads_opt_def reads_def remaining_rest prefix_def)

lemma journal_reads:
  "reads_opt d (enc_journal j) d' \<longleftrightarrow> (\<exists>d1 d2 d3 d4 d5 d6 d7.
     dec_fixed 8 d = Inr (JOURNAL_MAGIC, d1) \<and> dec_u16 d1 = Inr (ENCODING_SCHEMA, d2)
     \<and> dec_u8 d2 = Inr (digest_byte Sha256, d3) \<and> dec_fixed 8 d3 = Inr (JOURNAL_SUCCESS_MARKER, d4)
     \<and> dec_u8 d4 = Inr (kind_byte (sj_statement_kind j), d5)
     \<and> dec_hash32 d5 = Inr (sj_program_id j, d6) \<and> dec_hash32 d6 = Inr (sj_payload_sha256 j, d7)
     \<and> dec_vec d7 = Inr (sj_payload j, d'))"
proof -
  have m: "length JOURNAL_MAGIC = 8" "length JOURNAL_SUCCESS_MARKER = 8"
    by (simp_all add: JOURNAL_MAGIC_def JOURNAL_SUCCESS_MARKER_def)
  show ?thesis
    unfolding enc_journal_def reads_enc_seq reads_opt_simps reads_prim reads_hash32 reads_vec
      reads_magic [OF m(1)] reads_magic [OF m(2)] by blast
qed

lemma decode_strict_steps:
  "decode_strict H bs = Inr j \<longleftrightarrow>
     (\<exists>d'. reads_opt (decoder_new bs) (enc_journal j) d' \<and> remaining d' = 0)
     \<and> journal_ok H j \<and> enc_journal j = Some bs"
proof -
  have "decode_strict H bs = Inr j \<longleftrightarrow> (\<exists>d1 d2 d3 d4 d5 d6 d7 d'.
     dec_fixed 8 (decoder_new bs) = Inr (JOURNAL_MAGIC, d1)
     \<and> dec_u16 d1 = Inr (ENCODING_SCHEMA, d2)
     \<and> dec_u8 d2 = Inr (digest_byte Sha256, d3) \<and> dec_fixed 8 d3 = Inr (JOURNAL_SUCCESS_MARKER, d4)
     \<and> dec_u8 d4 = Inr (kind_byte (sj_statement_kind j), d5)
     \<and> dec_hash32 d5 = Inr (sj_program_id j, d6) \<and> dec_hash32 d6 = Inr (sj_payload_sha256 j, d7)
     \<and> dec_vec d7 = Inr (sj_payload j, d') \<and> remaining d' = 0)
     \<and> journal_ok H j \<and> enc_journal j = Some bs"
    by (cases j) (auto simp: decode_strict_def journal_ok_def hash_bytes_def Let_def and_then_Inr
        map_err_Inr if_Inl_Inr kind_decode_ok is_ok_def split: sum.splits)
  then show ?thesis unfolding journal_reads by blast
qed

lemma decode_strict_iff:
  "decode_strict H bs = Inr j \<longleftrightarrow> journal_ok H j \<and> enc_journal j = Some bs"
  unfolding decode_strict_steps by (metis reads_all)

lemma verify_expected_ok [ok_iff]:
  "verify_expected H bs pid kind = Inr j \<longleftrightarrow>
     journal_ok H j \<and> enc_journal j = Some bs \<and> sj_program_id j = pid \<and> sj_statement_kind j = kind"
  by (auto simp: verify_expected_def and_then_Inr decode_strict_iff)

text \<open>
  The last check of \<open>decode_strict\<close> and the \<open>expect\<close> in \<open>typed_payload\<close> never fire: the
  checked steps already determine the bytes.
\<close>

lemma and_then_not_Inl:
  "m \<noteq> Inl e \<Longrightarrow> (\<And>x. m = Inr x \<Longrightarrow> f x \<noteq> Inl e) \<Longrightarrow> and_then m f \<noteq> Inl e"
  by (cases m) auto

lemma and_then_pair_not_Inl:
  "m \<noteq> Inl e \<Longrightarrow> (\<And>x d. m = Inr (x, d) \<Longrightarrow> f x d \<noteq> Inl e)
     \<Longrightarrow> and_then m (\<lambda>(x, d). f x d) \<noteq> Inl e"
  by (cases m) auto

lemma if_not_Inl:
  "(c \<Longrightarrow> e' \<noteq> e) \<Longrightarrow> (\<not> c \<Longrightarrow> m \<noteq> Inl e) \<Longrightarrow> (if c then Inl e' else m) \<noteq> Inl e"
  by simp

lemma map_err_not_Inl: "(\<And>e'. g e' \<noteq> e) \<Longrightarrow> map_err g m \<noteq> Inl e"
  by (cases m) auto

lemma typed_decode_not_Inl: "e \<noteq> InvalidPayloadForStatement \<Longrightarrow> typed_decode H kind p \<noteq> Inl e"
  by (cases kind) (auto split: sum.splits)

lemma kind_decode_not_Inl: "(\<And>t. e \<noteq> UnsupportedStatementKind t) \<Longrightarrow> kind_decode tag \<noteq> Inl e"
  by (auto simp: kind_decode_def split: if_splits)

lemma decode_strict_canonical: "decode_strict H bs \<noteq> Inl NonCanonicalEncoding"
proof -
  have canonical: "enc_journal \<lparr>sj_statement_kind = kind, sj_program_id = pid,
      sj_payload_sha256 = digest, sj_payload = payload\<rparr> = Some bs"
    if "map_err JournalDecode (dec_fixed 8 (decoder_new bs)) = Inr (magic, d1)"
      "\<not> magic \<noteq> JOURNAL_MAGIC"
      "map_err JournalDecode (dec_u16 d1) = Inr (schema, d2)" "\<not> schema \<noteq> ENCODING_SCHEMA"
      "map_err JournalDecode (dec_u8 d2) = Inr (alg, d3)" "\<not> alg \<noteq> digest_byte Sha256"
      "map_err JournalDecode (dec_fixed 8 d3) = Inr (marker, d4)"
      "\<not> marker \<noteq> JOURNAL_SUCCESS_MARKER"
      "map_err JournalDecode (dec_u8 d4) = Inr (tag, d5)" "kind_decode tag = Inr kind"
      "map_err JournalDecode (dec_hash32 d5) = Inr (pid, d6)"
      "map_err JournalDecode (dec_hash32 d6) = Inr (digest, d7)"
      "map_err JournalDecode (dec_vec d7) = Inr (payload, d')" "\<not> remaining d' \<noteq> 0"
    for magic d1 schema d2 alg d3 marker d4 tag d5 kind pid d6 digest d7 payload d'
  proof -
    have r: "reads_opt (decoder_new bs) (enc_journal \<lparr>sj_statement_kind = kind, sj_program_id = pid,
        sj_payload_sha256 = digest, sj_payload = payload\<rparr>) d'"
      unfolding journal_reads using that by (simp add: map_err_Inr kind_decode_ok)
    have "remaining d' = 0" using that(14) by (rule notnotD)
    with r show ?thesis by (rule reads_all [THEN iffD1, OF conjI, THEN conjunct1])
  qed
  show ?thesis
    unfolding decode_strict_def Let_def
    by (intro and_then_pair_not_Inl if_not_Inl map_err_not_Inl and_then_not_Inl
        typed_decode_not_Inl kind_decode_not_Inl;
        (simp; fail | (erule notE, rule canonical; assumption)))
qed

lemma typed_payload_total: "journal_ok H j \<Longrightarrow> typed_payload H j \<noteq> None"
  by (auto simp: journal_ok_def typed_payload_def is_ok_def split: sum.splits)

subsection \<open>Properties\<close>

text \<open>
  C33: strict journals are canonical. Strict decoding returns a journal if and only if the
  journal is well-formed (program id, payload, digest, typed payload) and the input is its
  encoding; no second byte string decodes to it.
\<close>

theorem journal_strict:
  "decode_strict H bs = Inr j \<longleftrightarrow> journal_ok H j \<and> enc_journal j = Some bs"
  by (rule decode_strict_iff)

text \<open>
  The re-encoding check is redundant. The error for a non-canonical encoding is never
  returned: the steps before it already determine every byte of the input.
\<close>

theorem journal_reencoding_redundant: "decode_strict H bs \<noteq> Inl NonCanonicalEncoding"
  by (rule decode_strict_canonical)

text \<open>
  Typed payloads are unambiguous. Although an Ethereum payload is first tried as a deposit
  and then as a heartbeat output, each reading is exact: no heartbeat is taken for a deposit.
\<close>

theorem typed_payload_exact:
  "(typed_decode H kind p = Inr (TypedDeposit v) \<longleftrightarrow>
      kind = EthereumState \<and> dpo_validate v = Inr () \<and> enc_deposit_output v = Some p)
   \<and> (typed_decode H kind p = Inr (TypedHeartbeat w) \<longleftrightarrow>
      kind = EthereumState \<and> hbo_validate w = Inr () \<and> enc_heartbeat_output w = p)
   \<and> (typed_decode H kind p = Inr (TypedElementsState e) \<longleftrightarrow>
      kind = ElementsState \<and> eso_valid H e \<and> enc_elements_output e = p)"
  by (intro conjI typed_decode_deposit typed_decode_heartbeat typed_decode_elements)

end
