(* ===== verification/Annex.thy ===== *)
theory Annex
  imports Journal
begin

section \<open>The SP1 proof annex (usdd-proof-core/src/annex.rs)\<close>

text \<open>
  The bounded container that carries an SP1 proof next to the public values it proves. The
  annex has its own header: one byte tags, two 32-bit lengths, and no room for anything the
  header does not announce. \<open>annex_decode_strict\<close> keeps the order of the code's checks; an
  annex that decodes and whose public values are the expected strict journal is what a
  verifier accepts.
\<close>

definition SP1_ANNEX_TAG :: u8 where
  "SP1_ANNEX_TAG = 0x50"

definition SP1_ANNEX_MAGIC :: bytes where
  "SP1_ANNEX_MAGIC = ascii ''USDDSP1'' @ [0]"

definition SP1_ANNEX_HEADER_SIZE :: nat where
  "SP1_ANNEX_HEADER_SIZE = 55"

definition SP1_ANNEX_MAX_SIZE :: nat where
  "SP1_ANNEX_MAX_SIZE = 512 * 1024"

definition SP1_PUBLIC_VALUES_MAX_SIZE :: nat where
  "SP1_PUBLIC_VALUES_MAX_SIZE = 16 * 1024"

datatype annex_error =
    AnnexDecode decode_error
  | TooLarge
  | Truncated
  | AnnexWrongTag
  | AnnexWrongMagic
  | WrongVersion
  | WrongProofSystem
  | AnnexWrongStatementKind
  | WrongDigestMode
  | NonzeroFlags
  | EmptyPublicValues
  | PublicValuesTooLarge
  | EmptyProof
  | ZeroGuestProgramId
  | WrongGuestProgramId
  | LengthMismatch
  | AnnexNonCanonicalEncoding
  | AnnexJournal journal_error

record annex =
  sa_statement_kind :: statement_kind
  sa_guest_program_id :: hash32
  sa_public_values :: bytes
  sa_proof :: bytes

definition annex_validate :: "annex \<Rightarrow> annex_error + unit" where
  "annex_validate a =
     (if sa_guest_program_id a = 0 then Inl ZeroGuestProgramId
      else if sa_public_values a = [] then Inl EmptyPublicValues
      else if SP1_PUBLIC_VALUES_MAX_SIZE < length (sa_public_values a)
      then Inl PublicValuesTooLarge
      else if sa_proof a = [] then Inl EmptyProof
      else and_then (ok_or
        (case usize_checked_add SP1_ANNEX_HEADER_SIZE (length (sa_public_values a)) of
           None \<Rightarrow> None
         | Some n \<Rightarrow> usize_checked_add n (length (sa_proof a))) TooLarge) (\<lambda>size.
        if SP1_ANNEX_MAX_SIZE < size then Inl TooLarge else Inr ()))"

definition annex_new ::
  "statement_kind \<Rightarrow> hash32 \<Rightarrow> bytes \<Rightarrow> bytes \<Rightarrow> annex_error + annex" where
  "annex_new kind guest_program_id public_values p =
     (let a = \<lparr>sa_statement_kind = kind, sa_guest_program_id = guest_program_id,
              sa_public_values = public_values, sa_proof = p\<rparr>
      in if sa_statement_kind a \<noteq> EthereumState then Inl AnnexWrongStatementKind
         else and_then (annex_validate a) (\<lambda>_. Inr a))"

text \<open>\<open>encode_to\<close>; it panics where a length does not fit 32 bits.\<close>

definition enc_annex :: "annex \<Rightarrow> bytes option" where
  "enc_annex a =
     (if length (sa_public_values a) < 2 ^ 32 \<and> length (sa_proof a) < 2 ^ 32
      then Some (concat
        [enc_u8 SP1_ANNEX_TAG,
         SP1_ANNEX_MAGIC,
         enc_u8 1,
         enc_u8 1,
         enc_u8 (kind_byte (sa_statement_kind a)),
         enc_u8 1,
         enc_u16 0,
         enc_u32 (of_nat (length (sa_public_values a))),
         enc_u32 (of_nat (length (sa_proof a))),
         enc_hash32 (sa_guest_program_id a),
         sa_public_values a,
         sa_proof a])
      else None)"

definition annex_decode_strict :: "bytes \<Rightarrow> annex_error + annex" where
  "annex_decode_strict bs =
     (if SP1_ANNEX_MAX_SIZE < length bs then Inl TooLarge
      else if length bs < SP1_ANNEX_HEADER_SIZE then Inl Truncated
      else and_then (map_err AnnexDecode (dec_u8 (decoder_new bs))) (\<lambda>(tag, d).
      if tag \<noteq> SP1_ANNEX_TAG then Inl AnnexWrongTag
      else and_then (map_err AnnexDecode (dec_fixed 8 d)) (\<lambda>(magic, d).
      if magic \<noteq> SP1_ANNEX_MAGIC then Inl AnnexWrongMagic
      else and_then (map_err AnnexDecode (dec_u8 d)) (\<lambda>(version, d).
      if version \<noteq> 1 then Inl WrongVersion
      else and_then (map_err AnnexDecode (dec_u8 d)) (\<lambda>(proof_system, d).
      if proof_system \<noteq> 1 then Inl WrongProofSystem
      else and_then (map_err AnnexDecode (dec_u8 d)) (\<lambda>(kind, d).
      and_then (if kind = 1 then Inr EthereumState else Inl AnnexWrongStatementKind) (\<lambda>kind.
      and_then (map_err AnnexDecode (dec_u8 d)) (\<lambda>(digest_mode, d).
      if digest_mode \<noteq> 1 then Inl WrongDigestMode
      else and_then (map_err AnnexDecode (dec_u16 d)) (\<lambda>(flags, d).
      if flags \<noteq> 0 then Inl NonzeroFlags
      else and_then (map_err AnnexDecode (dec_u32 d)) (\<lambda>(public_values_len, d).
      and_then (map_err AnnexDecode (dec_u32 d)) (\<lambda>(proof_len, d).
      and_then (map_err AnnexDecode (dec_hash32 d)) (\<lambda>(guest_program_id, d).
      and_then (ok_or
        (case usize_checked_add SP1_ANNEX_HEADER_SIZE (unat public_values_len) of
           None \<Rightarrow> None
         | Some n \<Rightarrow> usize_checked_add n (unat proof_len)) LengthMismatch) (\<lambda>expected_len.
      if expected_len \<noteq> length bs then Inl LengthMismatch
      else and_then (map_err AnnexDecode (dec_take (unat public_values_len) d))
        (\<lambda>(public_values, d).
      and_then (map_err AnnexDecode (dec_take (unat proof_len) d)) (\<lambda>(p, d).
      if remaining d \<noteq> 0 then Inl LengthMismatch
      else let a = \<lparr>sa_statement_kind = kind, sa_guest_program_id = guest_program_id,
                  sa_public_values = public_values, sa_proof = p\<rparr>
        in and_then (annex_validate a) (\<lambda>_.
           if enc_annex a \<noteq> Some bs then Inl AnnexNonCanonicalEncoding else Inr a))))))))))))))))"

definition verify_strict_journal ::
  "(bytes \<Rightarrow> hash32) \<Rightarrow> bytes \<Rightarrow> hash32 \<Rightarrow> statement_kind
     \<Rightarrow> annex_error + annex \<times> strict_journal" where
  "verify_strict_journal H bs expected_program_id expected_kind =
     and_then (annex_decode_strict bs) (\<lambda>a.
     if sa_statement_kind a \<noteq> expected_kind then Inl AnnexWrongStatementKind
     else if sa_guest_program_id a \<noteq> expected_program_id then Inl WrongGuestProgramId
     else and_then (map_err AnnexJournal
       (verify_expected H (sa_public_values a) expected_program_id expected_kind)) (\<lambda>j.
       Inr (a, j)))"

subsection \<open>What validation and decoding accept\<close>

definition annex_ok :: "annex \<Rightarrow> bool" where
  "annex_ok a \<longleftrightarrow>
     sa_guest_program_id a \<noteq> 0
     \<and> 0 < length (sa_public_values a) \<and> length (sa_public_values a) \<le> 16384
     \<and> 0 < length (sa_proof a)
     \<and> 55 + length (sa_public_values a) + length (sa_proof a) \<le> 524288"

lemma annex_size_ok:
  "(case usize_checked_add a b of None \<Rightarrow> None | Some n \<Rightarrow> usize_checked_add n c) = Some s \<longleftrightarrow>
     s = a + b + c \<and> a + b + c < 2 ^ 64"
  by (auto simp: usize_checked_add_def)

lemma annex_validate_ok [ok_iff]: "annex_validate a = Inr u \<longleftrightarrow> annex_ok a"
  unfolding annex_validate_def annex_ok_def if_Inl_Inr and_then_Inr ok_or_Inr annex_size_ok
    SP1_ANNEX_HEADER_SIZE_def SP1_ANNEX_MAX_SIZE_def SP1_PUBLIC_VALUES_MAX_SIZE_def
  by auto

lemma annex_new_ok [ok_iff]:
  "annex_new kind pid values p = Inr a \<longleftrightarrow>
     kind = EthereumState \<and> annex_ok a
     \<and> a = \<lparr>sa_statement_kind = kind, sa_guest_program_id = pid,
           sa_public_values = values, sa_proof = p\<rparr>"
  by (auto simp: annex_new_def Let_def and_then_Inr annex_validate_ok)

lemma length_SP1_ANNEX_MAGIC: "length SP1_ANNEX_MAGIC = 8"
  by (simp add: SP1_ANNEX_MAGIC_def)

lemma annex_ok_lengths:
  "annex_ok a \<Longrightarrow> length (sa_public_values a) < 2 ^ 32 \<and> length (sa_proof a) < 2 ^ 32"
  by (simp add: annex_ok_def)

lemma length_enc_annex:
  "enc_annex a = Some bs \<Longrightarrow>
     length bs = 55 + length (sa_public_values a) + length (sa_proof a)"
  by (auto simp: enc_annex_def length_SP1_ANNEX_MAGIC enc_hash32_def split: if_splits)

lemma reads_take: "reads d bs d' \<longleftrightarrow> dec_take (length bs) d = Inr (bs, d')"
  by (simp add: dec_take_Inr)

lemma annex_reads:
  assumes "annex_ok a"
  shows "reads_opt d (enc_annex a) d' \<longleftrightarrow> (\<exists>d1 d2 d3 d4 d5 d6 d7 d8 d9 d10 d11.
     dec_u8 d = Inr (SP1_ANNEX_TAG, d1) \<and> dec_fixed 8 d1 = Inr (SP1_ANNEX_MAGIC, d2)
     \<and> dec_u8 d2 = Inr (1, d3) \<and> dec_u8 d3 = Inr (1, d4)
     \<and> dec_u8 d4 = Inr (kind_byte (sa_statement_kind a), d5) \<and> dec_u8 d5 = Inr (1, d6)
     \<and> dec_u16 d6 = Inr (0, d7)
     \<and> dec_u32 d7 = Inr (of_nat (length (sa_public_values a)), d8)
     \<and> dec_u32 d8 = Inr (of_nat (length (sa_proof a)), d9)
     \<and> dec_hash32 d9 = Inr (sa_guest_program_id a, d10)
     \<and> dec_take (length (sa_public_values a)) d10 = Inr (sa_public_values a, d11)
     \<and> dec_take (length (sa_proof a)) d11 = Inr (sa_proof a, d'))"
proof -
  have enc: "reads_opt d (enc_annex a) d' \<longleftrightarrow> reads d (concat
        [enc_u8 SP1_ANNEX_TAG, SP1_ANNEX_MAGIC, enc_u8 1, enc_u8 1,
         enc_u8 (kind_byte (sa_statement_kind a)), enc_u8 1, enc_u16 0,
         enc_u32 (of_nat (length (sa_public_values a))), enc_u32 (of_nat (length (sa_proof a))),
         enc_hash32 (sa_guest_program_id a), sa_public_values a, sa_proof a]) d'"
    using annex_ok_lengths [OF assms] unfolding enc_annex_def by simp
  show ?thesis
    unfolding enc concat.simps reads_append append_Nil2 reads_prim reads_hash32
      reads_magic [OF length_SP1_ANNEX_MAGIC]
    by (simp only: reads_take [where bs = "sa_public_values a"] reads_take [where bs = "sa_proof a"]
        ex_simps)
qed

lemma annex_decode_steps:
  "annex_decode_strict bs = Inr a \<longleftrightarrow>
     (\<exists>d'. reads_opt (decoder_new bs) (enc_annex a) d' \<and> remaining d' = 0)
     \<and> sa_statement_kind a = EthereumState \<and> annex_ok a \<and> enc_annex a = Some bs"
  (is "?L \<longleftrightarrow> ?R")
proof
  assume ?L
  then have *: "sa_statement_kind a = EthereumState" "annex_ok a" "enc_annex a = Some bs"
    by (auto simp: annex_decode_strict_def Let_def and_then_Inr map_err_Inr if_Inl_Inr
        annex_validate_ok split: if_splits)
  then have "reads_opt (decoder_new bs) (enc_annex a) (advance (length bs) (decoder_new bs))
      \<and> remaining (advance (length bs) (decoder_new bs)) = 0"
    unfolding reads_all by simp
  with * show ?R by blast
next
  assume R: ?R
  then have ok: "annex_ok a" and kind: "sa_statement_kind a = EthereumState" by blast+
  have len: "length bs = 55 + length (sa_public_values a) + length (sa_proof a)"
    using R length_enc_annex by blast
  have sizes: "unat (of_nat (length (sa_public_values a)) :: u32) = length (sa_public_values a)"
    "unat (of_nat (length (sa_proof a)) :: u32) = length (sa_proof a)"
    using annex_ok_lengths [OF ok] by (simp_all add: unat_of_nat_u32)
  have bounds: "\<not> SP1_ANNEX_MAX_SIZE < length bs" "\<not> length bs < SP1_ANNEX_HEADER_SIZE"
    using ok len by (simp_all add: annex_ok_def SP1_ANNEX_MAX_SIZE_def SP1_ANNEX_HEADER_SIZE_def)
  have size: "ok_or (case usize_checked_add SP1_ANNEX_HEADER_SIZE (length (sa_public_values a)) of
      None \<Rightarrow> None | Some n \<Rightarrow> usize_checked_add n (unat (of_nat (length (sa_proof a)) :: u32)))
      LengthMismatch = Inr (length bs)"
    unfolding sizes ok_or_Inr annex_size_ok using ok len by (simp add: annex_ok_def SP1_ANNEX_HEADER_SIZE_def)
  have valid: "annex_validate a = Inr ()" using ok by (simp only: annex_validate_ok)
  have a: "\<lparr>sa_statement_kind = EthereumState, sa_guest_program_id = sa_guest_program_id a,
      sa_public_values = sa_public_values a, sa_proof = sa_proof a\<rparr> = a"
    using kind by (cases a) simp
  from R obtain d' where "reads_opt (decoder_new bs) (enc_annex a) d'" "remaining d' = 0" by blast
  with kind show ?L
    unfolding annex_reads [OF ok] annex_decode_strict_def if_not_P [OF bounds(1)]
      if_not_P [OF bounds(2)]
    by (elim exE conjE) (simp add: map_err_Inr sizes size a valid R Let_def)
qed

lemma annex_decode_strict_iff:
  "annex_decode_strict bs = Inr a \<longleftrightarrow>
     sa_statement_kind a = EthereumState \<and> annex_ok a \<and> enc_annex a = Some bs"
  unfolding annex_decode_steps by (metis reads_all)

lemma annex_enc_total: "annex_ok a \<Longrightarrow> enc_annex a \<noteq> None"
  using annex_ok_lengths by (simp add: enc_annex_def)

lemma annex_new_round_trip:
  assumes "annex_new kind pid values p = Inr a"
  shows "\<exists>bs. enc_annex a = Some bs \<and> annex_decode_strict bs = Inr a"
  using assms annex_enc_total [of a] by (auto simp: annex_new_ok annex_decode_strict_iff)

lemma verify_strict_journal_ok:
  "verify_strict_journal H bs pid kind = Inr (a, j) \<longleftrightarrow>
     kind = EthereumState \<and> sa_statement_kind a = kind \<and> sa_guest_program_id a = pid
     \<and> annex_ok a \<and> enc_annex a = Some bs
     \<and> journal_ok H j \<and> enc_journal j = Some (sa_public_values a)
     \<and> sj_program_id j = pid \<and> sj_statement_kind j = kind"
  by (auto simp: verify_strict_journal_def and_then_Inr annex_decode_strict_iff map_err_Inr
      verify_expected_ok if_Inl_Inr)

subsection \<open>Properties\<close>

text \<open>
  C14: what an accepted annex is. The annex verifier accepts exactly the encodings of
  well-formed annexes of the expected kind and program whose public values are the encoding of
  a well-formed strict journal of the same kind and program; only Ethereum statements pass.
\<close>

theorem annex_verification:
  "verify_strict_journal H bs pid kind = Inr (a, j) \<longleftrightarrow>
     kind = EthereumState \<and> sa_statement_kind a = kind \<and> sa_guest_program_id a = pid
     \<and> annex_ok a \<and> enc_annex a = Some bs
     \<and> journal_ok H j \<and> enc_journal j = Some (sa_public_values a)
     \<and> sj_program_id j = pid \<and> sj_statement_kind j = kind"
  by (rule verify_strict_journal_ok)

end
