(* ===== verification/Guest.thy ===== *)
theory Guest
  imports Annex
begin

section \<open>The guest programs' journal builders (usdd-proof-core/src/guest.rs)\<close>

text \<open>
  The three functions that turn a claim and a proof into a strict journal. The code is
  generic in an implementation of the traits \<open>EthereumStateProofVerifier\<close> and
  \<open>ElementsValidityProofVerifier\<close>, so a verifier is an argument: a function from the manifest,
  the claim and the proof to an error or unit. Nothing is assumed about it; theory
  Ethereum_Inbound instantiates the first with the adapter to Ethereum. The output of a builder is
  characterised exactly, and the burn loop is shown to compute the root of the accumulator
  extended by the claimed burns.
\<close>

datatype verification_error = InvalidProof string

datatype guest_error =
    InvalidManifest
  | ManifestMismatch
  | InvalidControllerState
  | ConfigurationMismatch
  | DepositTargetsWrongVault
  | DepositNonceNotNext
  | InvalidDepositBatch
  | InvalidControllerTransition
  | InvalidBurn
  | BurnTargetsWrongAssetOrVault
  | InvalidElementsStateTransition
  | ActivationChainworkNotReached
  | BurnAccumulatorMismatch
  | VerifierRejected verification_error
  | GuestJournal journal_error

type_synonym ('c, 'p) verifier = "manifest \<Rightarrow> 'c \<Rightarrow> 'p \<Rightarrow> verification_error + unit"

definition ELEMENTS_STATE_DOMAIN :: hash32 where
  "ELEMENTS_STATE_DOMAIN = 0x33606645c453278aa64c7b45b3f17605cf891556e007fcfc5b9b1daae4f64d5b"

definition ELEMENTS_STATEMENT_DOMAIN :: hash32 where
  "ELEMENTS_STATEMENT_DOMAIN = 0xe37bee57c273e85755233d972afff18dfe208234eab044e588eec5329f3e8da6"

subsection \<open>Deposits\<close>

fun check_deposit_targets :: "manifest \<Rightarrow> vault_deposit list \<Rightarrow> guest_error + unit" where
  "check_deposit_targets m [] = Inr ()"
| "check_deposit_targets m (v # vs) =
     (if vd_ethereum_chain_id v \<noteq> pm_ethereum_chain_id m \<or> vd_vault v \<noteq> pm_vault m
         \<or> vd_usdt v \<noteq> pm_usdt m
      then Inl DepositTargetsWrongVault else check_deposit_targets m vs)"

definition build_deposit_journal ::
  "(bytes \<Rightarrow> hash32) \<Rightarrow> (deposit_claim, 'p) verifier \<Rightarrow> manifest \<Rightarrow> deposit_claim \<Rightarrow> 'p
     \<Rightarrow> guest_error + strict_journal" where
  "build_deposit_journal H verify m c p =
     and_then (map_err (\<lambda>_. InvalidManifest) (pm_validate H m)) (\<lambda>_.
     and_then (map_err (\<lambda>_. InvalidManifest) (manifest_id H m)) (\<lambda>mid.
     if dc_manifest_id c \<noteq> mid then Inl ManifestMismatch
     else and_then (map_err (\<lambda>_. InvalidControllerState) (mc_validate (dc_prior_state c))) (\<lambda>_.
     if mc_configuration_hash (dc_prior_state c) \<noteq> pm_controller_configuration_hash m
     then Inl ConfigurationMismatch
     else and_then (check_deposit_targets m (dc_deposits c)) (\<lambda>_.
     and_then (map_err (\<lambda>_. InvalidDepositBatch) (mb_from_deposits H (dc_deposits c)))
       (\<lambda>mint_batch.
     if mb_first_nonce mint_batch \<noteq> mc_next_mint_nonce (dc_prior_state c)
     then Inl DepositNonceNotNext
     else and_then (map_err (\<lambda>_. InvalidControllerTransition)
       (apply_mint_batch (dc_prior_state c) mint_batch (dc_finality c))) (\<lambda>next_state.
     and_then (map_err VerifierRejected (verify m c p)) (\<lambda>_.
     let output = \<lparr>dpo_manifest_id = mid,
                   dpo_claim_id = dc_claim_id H c,
                   dpo_prior_state = dc_prior_state c,
                   dpo_next_state = next_state,
                   dpo_finalized_execution_block_timestamp =
                     fw_execution_block_timestamp (dc_finality c),
                   dpo_mint_batch = mint_batch\<rparr>
     in map_err GuestJournal (journal_new H EthereumState (pm_ethereum_guest_program_id m)
          (expect (enc_deposit_output output))))))))))"

subsection \<open>Heartbeats\<close>

definition build_heartbeat_journal ::
  "(bytes \<Rightarrow> hash32) \<Rightarrow> (heartbeat_claim, 'p) verifier \<Rightarrow> manifest \<Rightarrow> heartbeat_claim \<Rightarrow> 'p
     \<Rightarrow> guest_error + strict_journal" where
  "build_heartbeat_journal H verify m c p =
     and_then (map_err (\<lambda>_. InvalidManifest) (pm_validate H m)) (\<lambda>_.
     and_then (map_err (\<lambda>_. InvalidManifest) (manifest_id H m)) (\<lambda>mid.
     if hc_manifest_id c \<noteq> mid then Inl ManifestMismatch
     else if mc_configuration_hash (hc_prior_state c) \<noteq> pm_controller_configuration_hash m
     then Inl ConfigurationMismatch
     else and_then (map_err (\<lambda>_. InvalidControllerTransition)
       (apply_heartbeat (hc_prior_state c) (hc_finality c))) (\<lambda>next_state.
     and_then (map_err VerifierRejected (verify m c p)) (\<lambda>_.
     let output = \<lparr>hbo_manifest_id = mid,
                   hbo_claim_id = hc_claim_id H c,
                   hbo_prior_state = hc_prior_state c,
                   hbo_next_state = next_state,
                   hbo_finalized_execution_block_timestamp =
                     fw_execution_block_timestamp (hc_finality c)\<rparr>
     in map_err GuestJournal (journal_new H EthereumState (pm_ethereum_guest_program_id m)
          (enc_heartbeat_output output))))))"

subsection \<open>Elements state transitions\<close>

text \<open>
  The loop over \<open>claim.appended_burns.iter().enumerate()\<close>: \<open>offset\<close> is the position in the
  claim, the last argument what is left of it.
\<close>

fun append_burns ::
  "(bytes \<Rightarrow> hash32) \<Rightarrow> manifest \<Rightarrow> u64 \<Rightarrow> hash32 \<Rightarrow> nat \<Rightarrow> hash32 \<Rightarrow> burn_append_t list
     \<Rightarrow> guest_error + hash32" where
  "append_burns H m prior_count empty_leaf offset root [] = Inr root"
| "append_burns H m prior_count empty_leaf offset root (a # appends) =
     and_then (map_err (\<lambda>_. InvalidBurn) (bu_validate (bap_burn a))) (\<lambda>_.
     if bu_vault_id (bap_burn a) \<noteq> pm_vault_id m \<or> bu_usdd_asset (bap_burn a) \<noteq> pm_usdd_asset m
     then Inl BurnTargetsWrongAssetOrVault
     else and_then (ok_or (checked_add prior_count (of_nat offset))
       InvalidElementsStateTransition) (\<lambda>index.
     if \<not> burn_proof_verify H (bap_empty_branch a) root empty_leaf index
     then Inl BurnAccumulatorMismatch
     else and_then (map_err (\<lambda>_. InvalidBurn)
       (burn_leaf H (solidity_claim H (bap_burn a) (pm_elements_genesis m)) index)) (\<lambda>leaf.
       append_burns H m prior_count empty_leaf (offset + 1)
         (compute_root H (bap_empty_branch a) leaf index) appends)))"

definition next_state_preimage :: "hash32 \<Rightarrow> hash32 \<Rightarrow> bytes" where
  "next_state_preimage prior_bridge_state_hash next_contents_hash = concat
     [enc_hash32 ELEMENTS_STATE_DOMAIN,
      enc_hash32 prior_bridge_state_hash,
      enc_hash32 next_contents_hash]"

definition statement_preimage ::
  "manifest \<Rightarrow> hash32 \<Rightarrow> hash32 \<Rightarrow> hash32 \<Rightarrow> hash32 \<Rightarrow> bytes" where
  "statement_preimage m prior_bridge_state_hash current_contents_hash
     next_bridge_state_hash next_contents_hash = concat
     [enc_hash32 ELEMENTS_STATEMENT_DOMAIN,
      replicate 24 0 @ to_be_bytes 8 (pm_ethereum_chain_id m),
      enc_address (pm_vault m),
      enc_hash32 (pm_vault_id m),
      enc_hash32 (pm_elements_guest_program_id m),
      enc_hash32 (pm_verifier_config_hash m),
      enc_hash32 (pm_elements_genesis m),
      enc_hash32 (pm_usdd_asset m),
      enc_hash32 prior_bridge_state_hash,
      enc_hash32 current_contents_hash,
      enc_hash32 next_bridge_state_hash,
      enc_hash32 next_contents_hash]"

definition elements_output_of :: "(bytes \<Rightarrow> hash32) \<Rightarrow> manifest \<Rightarrow> hash32 \<Rightarrow> elements_claim \<Rightarrow> elements_output"
where
  "elements_output_of H m mid c =
     (let current_contents_hash = contents_hash H (ec_prior_state c);
          next_contents_hash = contents_hash H (ec_next_state c);
          next_bridge_state_hash =
            hash_bytes H (next_state_preimage (ec_prior_bridge_state_hash c) next_contents_hash);
          verifier_statement =
            hash_bytes H (statement_preimage m (ec_prior_bridge_state_hash c)
              current_contents_hash next_bridge_state_hash next_contents_hash)
      in \<lparr>eso_manifest_id = mid,
          eso_claim_id = ec_claim_id H c,
          eso_prior_bridge_state_hash = ec_prior_bridge_state_hash c,
          eso_next_bridge_state_hash = next_bridge_state_hash,
          eso_verifier_statement = verifier_statement,
          eso_prior_state = ec_prior_state c,
          eso_next_state = ec_next_state c\<rparr>)"

definition build_elements_state_journal ::
  "(bytes \<Rightarrow> hash32) \<Rightarrow> (elements_claim, 'p) verifier \<Rightarrow> manifest \<Rightarrow> elements_claim \<Rightarrow> 'p
     \<Rightarrow> guest_error + strict_journal" where
  "build_elements_state_journal H verify m c p =
     and_then (map_err (\<lambda>_. InvalidManifest) (pm_validate H m)) (\<lambda>_.
     and_then (map_err (\<lambda>_. InvalidManifest) (manifest_id H m)) (\<lambda>mid.
     if ec_manifest_id c \<noteq> mid then Inl ManifestMismatch
     else if bs_is_zero (ec_prior_state c) \<noteq> (ec_prior_bridge_state_hash c = 0)
     then Inl InvalidElementsStateTransition
     else and_then (map_err (\<lambda>_. InvalidElementsStateTransition)
       (validate_successor H (ec_prior_state c) (ec_next_state c))) (\<lambda>_.
     if ec_prior_bridge_state_hash c = 0
        \<and> bs_bitcoin_chainwork (ec_next_state c) < pm_minimum_activation_chainwork m
     then Inl ActivationChainworkNotReached
     else and_then (ok_or (if length (ec_appended_burns c) < 2 ^ 64
         then Some (of_nat (length (ec_appended_burns c))) else None)
       InvalidElementsStateTransition) (\<lambda>append_count.
     and_then (ok_or (checked_add (bs_burn_count (ec_prior_state c)) append_count)
       InvalidElementsStateTransition) (\<lambda>expected_burn_count.
     if bs_burn_count (ec_next_state c) \<noteq> expected_burn_count
     then Inl InvalidElementsStateTransition
     else and_then (if bs_is_zero (ec_prior_state c)
         then map_err (\<lambda>_. InvalidElementsStateTransition) (burn_accumulator_empty H 64)
         else Inr (bs_cumulative_burn_root (ec_prior_state c))) (\<lambda>root.
     and_then (map_err (\<lambda>_. InvalidElementsStateTransition) (burn_accumulator_empty H 0))
       (\<lambda>empty_leaf.
     and_then (append_burns H m (bs_burn_count (ec_prior_state c)) empty_leaf 0 root
       (ec_appended_burns c)) (\<lambda>root.
     if root \<noteq> bs_cumulative_burn_root (ec_next_state c) then Inl BurnAccumulatorMismatch
     else and_then (map_err VerifierRejected (verify m c p)) (\<lambda>_.
       map_err GuestJournal (journal_new H ElementsState (pm_elements_guest_program_id m)
         (enc_elements_output (elements_output_of H m mid c))))))))))))"

subsection \<open>An output record is committed only when it is valid\<close>

lemma reads_own: "e = Some bs \<Longrightarrow> reads_opt (decoder_new bs) e (advance (length bs) (decoder_new bs))"
  by (simp add: reads_def)

lemma enc_deposit_output_inject:
  assumes "enc_deposit_output v = Some bs" "enc_deposit_output w = Some bs"
    and "mc_validate (dpo_prior_state v) = Inr ()" "mc_validate (dpo_next_state v) = Inr ()"
    and "mb_validate (dpo_mint_batch v) = Inr ()"
    and "mc_validate (dpo_prior_state w) = Inr ()" "mc_validate (dpo_next_state w) = Inr ()"
    and "mb_validate (dpo_mint_batch w) = Inr ()"
  shows "v = w"
proof -
  note r = reads_own [OF assms(1)] reads_own [OF assms(2)]
  show ?thesis
    using r unfolding enc_deposit_output_def reads_enc_seq reads_opt_simps reads_prim reads_hash32
      decode_proof_header_reads reads_nested(1) [OF assms(3)] reads_nested(1) [OF assms(4)]
      reads_nested(1) [OF assms(6)] reads_nested(1) [OF assms(7)]
      reads_nested(5) [OF assms(5)] reads_nested(5) [OF assms(8)]
    by (elim exE conjE) (cases v; cases w; simp)
qed

lemma enc_heartbeat_output_inject:
  assumes "enc_heartbeat_output v = enc_heartbeat_output w"
    and "mc_validate (hbo_prior_state v) = Inr ()" "mc_validate (hbo_next_state v) = Inr ()"
    and "mc_validate (hbo_prior_state w) = Inr ()" "mc_validate (hbo_next_state w) = Inr ()"
  shows "v = w"
proof -
  note r = reads_own [of "Some (enc_heartbeat_output v)", OF refl]
    reads_own [of "Some (enc_heartbeat_output w)", OF arg_cong [where f = Some, OF assms(1) [symmetric]]]
  show ?thesis
    using r unfolding reads_opt_simps enc_heartbeat_output_def concat.simps reads_append
      append_Nil2 reads_prim reads_hash32 decode_proof_header_reads
      reads_nested(1) [OF assms(2)] reads_nested(1) [OF assms(3)]
      reads_nested(1) [OF assms(4)] reads_nested(1) [OF assms(5)]
    by (elim exE conjE) (cases v; cases w; simp)
qed

lemma enc_elements_output_inject:
  assumes "enc_elements_output v = enc_elements_output w"
    and "bs_validate H (eso_prior_state v) = Inr ()" "bs_validate H (eso_next_state v) = Inr ()"
    and "bs_validate H (eso_prior_state w) = Inr ()" "bs_validate H (eso_next_state w) = Inr ()"
  shows "v = w"
proof -
  note r = reads_own [of "Some (enc_elements_output v)", OF refl]
    reads_own [of "Some (enc_elements_output w)", OF arg_cong [where f = Some, OF assms(1) [symmetric]]]
  show ?thesis
    using r unfolding reads_opt_simps enc_elements_output_def concat.simps reads_append
      append_Nil2 reads_prim reads_hash32 decode_proof_header_reads
      reads_nested(3) [OF assms(2)] reads_nested(3) [OF assms(3)]
      reads_nested(3) [OF assms(4)] reads_nested(3) [OF assms(5)]
    by (elim exE conjE) (cases v; cases w; simp)
qed

lemma length_encode_proof_header [simp]: "length (encode_proof_header t) = 4"
  by (simp add: encode_proof_header_def)

lemma enc_seq_header_nonempty: "enc_seq (Some (encode_proof_header t) # es) = Some bs \<Longrightarrow> bs \<noteq> []"
  by (auto simp: enc_seq_Cons_Some encode_proof_header_def enc_u16_def to_be_bytes_def numeral_2_eq_2)

lemma journal_new_deposit:
  assumes "enc_deposit_output v = Some bs"
    and "mc_validate (dpo_prior_state v) = Inr ()" "mc_validate (dpo_next_state v) = Inr ()"
    and "mb_validate (dpo_mint_batch v) = Inr ()"
  shows "is_ok (typed_decode H EthereumState bs) \<longleftrightarrow> dpo_validate v = Inr ()"
proof
  assume "is_ok (typed_decode H EthereumState bs)"
  then consider w where "dpo_validate w = Inr ()" "enc_deposit_output w = Some bs"
    | w where "enc_heartbeat_output w = bs"
    by (auto simp: codec_deposit_output.decode_exact_iff codec_heartbeat_output.decode_exact_iff
        split: sum.splits)
  then show "dpo_validate v = Inr ()"
  proof cases
    case (1 w)
    then have "v = w"
      using assms by (intro enc_deposit_output_inject) (auto simp: dpo_validate_ok mint_connects_iff)
    with 1 show ?thesis by simp
  next
    case (2 w)
    with assms(1) deposit_not_heartbeat show ?thesis by blast
  qed
next
  assume "dpo_validate v = Inr ()"
  then have "typed_decode H EthereumState bs = Inr (TypedDeposit v)"
    using assms(1) by (simp only: typed_decode_deposit)
  then show "is_ok (typed_decode H EthereumState bs)" by simp
qed

lemma journal_new_heartbeat:
  assumes "mc_validate (hbo_prior_state v) = Inr ()" "mc_validate (hbo_next_state v) = Inr ()"
  shows "is_ok (typed_decode H EthereumState (enc_heartbeat_output v)) \<longleftrightarrow> hbo_validate v = Inr ()"
proof
  assume "is_ok (typed_decode H EthereumState (enc_heartbeat_output v))"
  then obtain w where "hbo_validate w = Inr ()" "enc_heartbeat_output w = enc_heartbeat_output v"
    using deposit_not_heartbeat
    by (auto simp: codec_deposit_output.decode_exact_iff codec_heartbeat_output.decode_exact_iff
        split: sum.splits)
  moreover from this have "w = v"
    using assms by (intro enc_heartbeat_output_inject) (auto simp: hbo_validate_ok heartbeat_connects_iff)
  ultimately show "hbo_validate v = Inr ()" by simp
next
  assume "hbo_validate v = Inr ()"
  then have "typed_decode H EthereumState (enc_heartbeat_output v) = Inr (TypedHeartbeat v)"
    by (simp only: typed_decode_heartbeat)
  then show "is_ok (typed_decode H EthereumState (enc_heartbeat_output v))" by simp
qed

lemma journal_new_elements:
  assumes "bs_validate H (eso_prior_state v) = Inr ()" "bs_validate H (eso_next_state v) = Inr ()"
  shows "is_ok (typed_decode H ElementsState (enc_elements_output v)) \<longleftrightarrow> eso_valid H v"
proof
  assume "is_ok (typed_decode H ElementsState (enc_elements_output v))"
  then obtain w where w: "eso_valid H w" "enc_elements_output w = enc_elements_output v"
    by (auto simp: codec_elements_output.decode_exact_iff split: sum.splits)
  then have "bs_validate H (eso_prior_state w) = Inr () \<and> bs_validate H (eso_next_state w) = Inr ()"
    by (intro successor_valid) (simp add: eso_valid_def)
  with w(2) have "w = v" using assms enc_elements_output_inject by blast
  with w show "eso_valid H v" by simp
next
  assume "eso_valid H v"
  then have "typed_decode H ElementsState (enc_elements_output v) = Inr (TypedElementsState v)"
    by (simp only: typed_decode_elements)
  then show "is_ok (typed_decode H ElementsState (enc_elements_output v))" by simp
qed

subsection \<open>What a journal commits to\<close>

definition commits ::
  "(bytes \<Rightarrow> hash32) \<Rightarrow> strict_journal \<Rightarrow> hash32 \<Rightarrow> typed_public_values \<Rightarrow> bool" where
  "commits H j pid v \<longleftrightarrow> journal_ok H j \<and> sj_program_id j = pid \<and> typed_payload H j = Some v"

lemma typed_payload_Some: "typed_payload H j = Some v \<longleftrightarrow>
    typed_decode H (sj_statement_kind j) (sj_payload j) = Inr v"
  by (auto simp: typed_payload_def split: sum.splits)

lemma commits_unique: "commits H j pid v \<Longrightarrow> commits H j pid' w \<Longrightarrow> pid = pid' \<and> v = w"
  by (auto simp: commits_def)

lemma enc_deposit_output_total:
  "mb_validate (dpo_mint_batch v) = Inr () \<Longrightarrow> enc_deposit_output v \<noteq> None"
  using codec_mint_batch.valid_enc unfolding enc_deposit_output_def enc_seq_not_None by simp

lemma journal_new_commits_deposit:
  assumes "mc_validate (dpo_prior_state v) = Inr ()" "mc_validate (dpo_next_state v) = Inr ()"
    and "mb_validate (dpo_mint_batch v) = Inr ()"
  shows "journal_new H EthereumState pid (expect (enc_deposit_output v)) = Inr j \<longleftrightarrow>
    commits H j pid (TypedDeposit v)"
proof -
  obtain bs where bs: "enc_deposit_output v = Some bs"
    using enc_deposit_output_total [OF assms(3)] by blast
  have "journal_new H EthereumState pid bs = Inr j \<longleftrightarrow>
      journal_ok H j \<and> sj_statement_kind j = EthereumState \<and> sj_program_id j = pid
      \<and> sj_payload j = bs"
    by (rule journal_new_ok)
  also have "\<dots> \<longleftrightarrow> journal_ok H j \<and> sj_statement_kind j = EthereumState \<and> sj_program_id j = pid
      \<and> sj_payload j = bs \<and> dpo_validate v = Inr ()"
    using journal_new_deposit [OF bs assms, of H] by (auto simp: journal_ok_def)
  also have "\<dots> \<longleftrightarrow> commits H j pid (TypedDeposit v)"
    unfolding commits_def typed_payload_Some typed_decode_deposit bs by auto
  finally show ?thesis by (simp add: bs)
qed

lemma journal_new_commits_heartbeat:
  assumes "mc_validate (hbo_prior_state v) = Inr ()" "mc_validate (hbo_next_state v) = Inr ()"
  shows "journal_new H EthereumState pid (enc_heartbeat_output v) = Inr j \<longleftrightarrow>
    commits H j pid (TypedHeartbeat v)"
  unfolding journal_new_ok commits_def typed_payload_Some typed_decode_heartbeat
  using journal_new_heartbeat [OF assms, of H] by (auto simp: journal_ok_def)

lemma journal_new_commits_elements:
  assumes "bs_validate H (eso_prior_state v) = Inr ()" "bs_validate H (eso_next_state v) = Inr ()"
  shows "journal_new H ElementsState pid (enc_elements_output v) = Inr j \<longleftrightarrow>
    commits H j pid (TypedElementsState v)"
  unfolding journal_new_ok commits_def typed_payload_Some typed_decode_elements
  using journal_new_elements [OF assms] by (auto simp: journal_ok_def)

subsection \<open>When a builder succeeds, and with which journal\<close>

definition targets_vault :: "manifest \<Rightarrow> vault_deposit \<Rightarrow> bool" where
  "targets_vault m v \<longleftrightarrow> vd_ethereum_chain_id v = pm_ethereum_chain_id m
     \<and> vd_vault v = pm_vault m \<and> vd_usdt v = pm_usdt m"

lemma check_deposit_targets_ok [ok_iff]:
  "check_deposit_targets m vs = Inr u \<longleftrightarrow> (\<forall>v \<in> set vs. targets_vault m v)"
  by (induction vs) (auto simp: targets_vault_def)

definition deposit_output_of ::
  "(bytes \<Rightarrow> hash32) \<Rightarrow> deposit_claim \<Rightarrow> mint_batch \<Rightarrow> controller \<Rightarrow> deposit_output" where
  "deposit_output_of H c b next =
     \<lparr>dpo_manifest_id = dc_manifest_id c, dpo_claim_id = dc_claim_id H c,
      dpo_prior_state = dc_prior_state c, dpo_next_state = next,
      dpo_finalized_execution_block_timestamp = fw_execution_block_timestamp (dc_finality c),
      dpo_mint_batch = b\<rparr>"

lemma mint_result_valid:
  "apply_mint_batch c b w = Inr c' \<Longrightarrow>
     mc_validate c = Inr () \<and> mb_validate b = Inr () \<and> mc_validate c' = Inr ()
     \<and> mb_first_nonce b = mc_next_mint_nonce c"
  using ctl.step_valid [of c "MintTransition b w" c'] by (simp add: apply_mint_batch_ok)

lemma heartbeat_result_valid:
  "apply_heartbeat c w = Inr c' \<Longrightarrow> mc_validate c = Inr () \<and> mc_validate c' = Inr ()"
  using ctl.step_valid [of c "Heartbeat w" c'] by (simp add: apply_heartbeat_ok)

lemma build_deposit_ok:
  "build_deposit_journal H V m c p = Inr j \<longleftrightarrow>
     pm_validate H m = Inr () \<and> manifest_id H m = Inr (dc_manifest_id c)
     \<and> mc_configuration_hash (dc_prior_state c) = pm_controller_configuration_hash m
     \<and> (\<forall>v \<in> set (dc_deposits c). targets_vault m v)
     \<and> V m c p = Inr ()
     \<and> (\<exists>b n. mb_from_deposits H (dc_deposits c) = Inr b
         \<and> apply_mint_batch (dc_prior_state c) b (dc_finality c) = Inr n
         \<and> commits H j (pm_ethereum_guest_program_id m)
             (TypedDeposit (deposit_output_of H c b n)))"
proof -
  have commit: "journal_new H EthereumState (pm_ethereum_guest_program_id m)
      (expect (enc_deposit_output (deposit_output_of H c b n))) = Inr j \<longleftrightarrow>
      commits H j (pm_ethereum_guest_program_id m) (TypedDeposit (deposit_output_of H c b n))"
    if "apply_mint_batch (dc_prior_state c) b (dc_finality c) = Inr n" for b n
    using mint_result_valid [OF that]
    by (intro journal_new_commits_deposit) (simp_all add: deposit_output_of_def)
  have "build_deposit_journal H V m c p = Inr j \<longleftrightarrow>
     pm_validate H m = Inr () \<and> manifest_id H m = Inr (dc_manifest_id c)
     \<and> mc_validate (dc_prior_state c) = Inr ()
     \<and> mc_configuration_hash (dc_prior_state c) = pm_controller_configuration_hash m
     \<and> (\<forall>v \<in> set (dc_deposits c). targets_vault m v)
     \<and> (\<exists>b. mb_from_deposits H (dc_deposits c) = Inr b
         \<and> mb_first_nonce b = mc_next_mint_nonce (dc_prior_state c)
         \<and> (\<exists>n. apply_mint_batch (dc_prior_state c) b (dc_finality c) = Inr n
         \<and> V m c p = Inr ()
         \<and> journal_new H EthereumState (pm_ethereum_guest_program_id m)
             (expect (enc_deposit_output (deposit_output_of H c b n))) = Inr j))"
    unfolding build_deposit_journal_def Let_def and_then_Inr map_err_Inr if_Inl_Inr
      check_deposit_targets_ok deposit_output_of_def
    by auto
  then show ?thesis using commit mint_result_valid by blast
qed

text \<open>
  The output of an applied batch is valid as soon as its two ids and its timestamp are nonzero:
  every other check of its validation has been made by \<open>apply_mint_batch\<close>.
\<close>

lemma deposit_output_valid:
  assumes "apply_mint_batch (dc_prior_state c) b (dc_finality c) = Inr n"
  shows "dpo_validate (deposit_output_of H c b n) = Inr () \<longleftrightarrow>
    dc_manifest_id c \<noteq> 0 \<and> dc_claim_id H c \<noteq> 0 \<and> fw_execution_block_timestamp (dc_finality c) \<noteq> 0"
  using assms by (auto simp: dpo_validate_ok deposit_output_of_def mint_connects_def)

definition deposit_journal_of ::
  "(bytes \<Rightarrow> hash32) \<Rightarrow> manifest \<Rightarrow> deposit_claim \<Rightarrow> mint_batch \<Rightarrow> controller \<Rightarrow> strict_journal" where
  "deposit_journal_of H m c b n =
     (let payload = expect (enc_deposit_output (deposit_output_of H c b n))
      in \<lparr>sj_statement_kind = EthereumState, sj_program_id = pm_ethereum_guest_program_id m,
          sj_payload_sha256 = hash_bytes H payload, sj_payload = payload\<rparr>)"

lemma deposit_journal_commits:
  assumes batch: "apply_mint_batch (dc_prior_state c) b (dc_finality c) = Inr n"
    and m: "pm_validate H m = Inr ()"
  shows "commits H j (pm_ethereum_guest_program_id m) (TypedDeposit (deposit_output_of H c b n)) \<longleftrightarrow>
    dc_manifest_id c \<noteq> 0 \<and> dc_claim_id H c \<noteq> 0 \<and> fw_execution_block_timestamp (dc_finality c) \<noteq> 0
    \<and> j = deposit_journal_of H m c b n"
proof -
  have "mb_validate (dpo_mint_batch (deposit_output_of H c b n)) = Inr ()"
    using mint_result_valid [OF batch] by (simp add: deposit_output_of_def)
  from enc_deposit_output_total [OF this] obtain bs
    where bs: "enc_deposit_output (deposit_output_of H c b n) = Some bs" by blast
  have program: "pm_ethereum_guest_program_id m \<noteq> 0"
    using m by (simp add: pm_validate_ok manifest_nonzero_def named_hashes_def)
  have "bs \<noteq> []"
    using bs enc_seq_header_nonempty unfolding enc_deposit_output_def by blast
  moreover have "is_ok (typed_decode H EthereumState bs)"
    if "dpo_validate (deposit_output_of H c b n) = Inr ()"
    using that bs typed_decode_deposit
      [of H EthereumState bs "deposit_output_of H c b n"] by (simp del: typed_decode.simps)
  ultimately show ?thesis
    using deposit_output_valid [OF batch, of H] program
    unfolding commits_def journal_ok_def typed_payload_Some typed_decode_deposit bs
      deposit_journal_of_def hash_bytes_def Let_def
    by (cases j) (auto simp: bs simp del: typed_decode.simps)
qed

definition heartbeat_output_of ::
  "(bytes \<Rightarrow> hash32) \<Rightarrow> heartbeat_claim \<Rightarrow> controller \<Rightarrow> heartbeat_output" where
  "heartbeat_output_of H c next =
     \<lparr>hbo_manifest_id = hc_manifest_id c, hbo_claim_id = hc_claim_id H c,
      hbo_prior_state = hc_prior_state c, hbo_next_state = next,
      hbo_finalized_execution_block_timestamp = fw_execution_block_timestamp (hc_finality c)\<rparr>"

lemma build_heartbeat_ok:
  "build_heartbeat_journal H V m c p = Inr j \<longleftrightarrow>
     pm_validate H m = Inr () \<and> manifest_id H m = Inr (hc_manifest_id c)
     \<and> mc_configuration_hash (hc_prior_state c) = pm_controller_configuration_hash m
     \<and> V m c p = Inr ()
     \<and> (\<exists>n. apply_heartbeat (hc_prior_state c) (hc_finality c) = Inr n
         \<and> commits H j (pm_ethereum_guest_program_id m)
             (TypedHeartbeat (heartbeat_output_of H c n)))"
proof -
  have commit: "journal_new H EthereumState (pm_ethereum_guest_program_id m)
      (enc_heartbeat_output (heartbeat_output_of H c n)) = Inr j \<longleftrightarrow>
      commits H j (pm_ethereum_guest_program_id m) (TypedHeartbeat (heartbeat_output_of H c n))"
    if "apply_heartbeat (hc_prior_state c) (hc_finality c) = Inr n" for n
    using heartbeat_result_valid [OF that]
    by (intro journal_new_commits_heartbeat) (simp_all add: heartbeat_output_of_def)
  have "build_heartbeat_journal H V m c p = Inr j \<longleftrightarrow>
     pm_validate H m = Inr () \<and> manifest_id H m = Inr (hc_manifest_id c)
     \<and> mc_configuration_hash (hc_prior_state c) = pm_controller_configuration_hash m
     \<and> (\<exists>n. apply_heartbeat (hc_prior_state c) (hc_finality c) = Inr n
         \<and> V m c p = Inr ()
         \<and> journal_new H EthereumState (pm_ethereum_guest_program_id m)
             (enc_heartbeat_output (heartbeat_output_of H c n)) = Inr j)"
    unfolding build_heartbeat_journal_def Let_def and_then_Inr map_err_Inr if_Inl_Inr
      heartbeat_output_of_def
    by auto
  then show ?thesis using commit by blast
qed

definition start_root :: "(bytes \<Rightarrow> hash32) \<Rightarrow> bridge_state \<Rightarrow> hash32" where
  "start_root H s = (if bs_is_zero s then burn_empty_value H 64 else bs_cumulative_burn_root s)"

lemma build_elements_ok:
  "build_elements_state_journal H V m c p = Inr j \<longleftrightarrow>
     pm_validate H m = Inr () \<and> manifest_id H m = Inr (ec_manifest_id c)
     \<and> (bs_is_zero (ec_prior_state c) \<longleftrightarrow> ec_prior_bridge_state_hash c = 0)
     \<and> validate_successor H (ec_prior_state c) (ec_next_state c) = Inr ()
     \<and> (ec_prior_bridge_state_hash c = 0 \<longrightarrow>
         pm_minimum_activation_chainwork m \<le> bs_bitcoin_chainwork (ec_next_state c))
     \<and> unat (bs_burn_count (ec_next_state c)) =
         unat (bs_burn_count (ec_prior_state c)) + length (ec_appended_burns c)
     \<and> append_burns H m (bs_burn_count (ec_prior_state c)) (hash_bytes H [0]) 0
         (start_root H (ec_prior_state c)) (ec_appended_burns c) =
         Inr (bs_cumulative_burn_root (ec_next_state c))
     \<and> V m c p = Inr ()
     \<and> commits H j (pm_elements_guest_program_id m)
         (TypedElementsState (elements_output_of H m (ec_manifest_id c) c))"
proof -
  let ?prior = "ec_prior_state c" and ?next = "ec_next_state c" and ?n = "length (ec_appended_burns c)"
  have commit: "journal_new H ElementsState (pm_elements_guest_program_id m)
      (enc_elements_output (elements_output_of H m mid c)) = Inr j \<longleftrightarrow>
      commits H j (pm_elements_guest_program_id m) (TypedElementsState (elements_output_of H m mid c))"
    if "validate_successor H ?prior ?next = Inr ()" for mid
    using successor_valid [OF that]
    by (intro journal_new_commits_elements) (simp_all add: elements_output_of_def Let_def)
  have root: "(if bs_is_zero ?prior then map_err (\<lambda>_. InvalidElementsStateTransition)
        (burn_accumulator_empty H 64) else Inr (bs_cumulative_burn_root ?prior)) =
      Inr (start_root H ?prior)"
    by (simp add: start_root_def burn_accumulator_empty_def BURN_ACCUMULATOR_DEPTH_def)
  have leaf: "map_err (\<lambda>_. InvalidElementsStateTransition) (burn_accumulator_empty H 0) =
      Inr (hash_bytes H [0])"
    by (simp add: burn_accumulator_empty_def)
  have count: "(\<exists>k. (if ?n < 2 ^ 64 then Some (of_nat ?n :: u64) else None) = Some k
        \<and> (\<exists>e. unat e = unat (bs_burn_count ?prior) + unat k \<and> bs_burn_count ?next = e \<and> P)) \<longleftrightarrow>
      unat (bs_burn_count ?next) = unat (bs_burn_count ?prior) + ?n \<and> P" for P
    using unat_bound [of "bs_burn_count ?next"] by (auto simp: unat_of_nat_u64)
  have "build_elements_state_journal H V m c p = Inr j \<longleftrightarrow>
     pm_validate H m = Inr () \<and> manifest_id H m = Inr (ec_manifest_id c)
     \<and> (bs_is_zero ?prior \<longleftrightarrow> ec_prior_bridge_state_hash c = 0)
     \<and> validate_successor H ?prior ?next = Inr ()
     \<and> \<not> (ec_prior_bridge_state_hash c = 0
          \<and> bs_bitcoin_chainwork ?next < pm_minimum_activation_chainwork m)
     \<and> (\<exists>k. (if ?n < 2 ^ 64 then Some (of_nat ?n :: u64) else None) = Some k
        \<and> (\<exists>e. unat e = unat (bs_burn_count ?prior) + unat k \<and> bs_burn_count ?next = e
        \<and> append_burns H m (bs_burn_count ?prior) (hash_bytes H [0]) 0
            (start_root H ?prior) (ec_appended_burns c) = Inr (bs_cumulative_burn_root ?next)
        \<and> V m c p = Inr ()
        \<and> journal_new H ElementsState (pm_elements_guest_program_id m)
            (enc_elements_output (elements_output_of H m (ec_manifest_id c) c)) = Inr j))"
    unfolding build_elements_state_journal_def root leaf and_then_simps and_then_Inr map_err_Inr
      if_Inl_Inr ok_or_Inr checked_add_Some
    by auto
  then show ?thesis unfolding count using commit by (auto simp: not_less)
qed

subsection \<open>The burn loop extends the accumulator\<close>

definition appended_leaf :: "(bytes \<Rightarrow> hash32) \<Rightarrow> manifest \<Rightarrow> nat \<Rightarrow> burn_append_t \<Rightarrow> hash32" where
  "appended_leaf H m n a = hash_bytes H
     (burn_leaf_preimage (solidity_claim H (bap_burn a) (pm_elements_genesis m)) (of_nat n))"

fun appended_leaves ::
  "(bytes \<Rightarrow> hash32) \<Rightarrow> manifest \<Rightarrow> nat \<Rightarrow> burn_append_t list \<Rightarrow> hash32 list" where
  "appended_leaves H m n [] = []"
| "appended_leaves H m n (a # as) = appended_leaf H m n a # appended_leaves H m (n + 1) as"

text \<open>The preimages hashed while the claimed branches are checked against the true tree.\<close>

fun append_preimages ::
  "(bytes \<Rightarrow> hash32) \<Rightarrow> manifest \<Rightarrow> hash32 list \<Rightarrow> burn_append_t list \<Rightarrow> bytes set" where
  "append_preimages H m leaves [] = {}"
| "append_preimages H m leaves (a # as) =
     burn_preimages H leaves (bap_empty_branch a) (hash_bytes H [0]) (of_nat (length leaves))
     \<union> append_preimages H m (leaves @ [appended_leaf H m (length leaves) a]) as"

definition append_targets :: "manifest \<Rightarrow> burn_append_t \<Rightarrow> bool" where
  "append_targets m a \<longleftrightarrow> bu_validate (bap_burn a) = Inr ()
     \<and> bu_vault_id (bap_burn a) = pm_vault_id m \<and> bu_usdd_asset (bap_burn a) = pm_usdd_asset m"

lemma append_burns_Cons:
  assumes "unat count + k < 2 ^ 64"
  shows "append_burns H m count e k root (a # as) = Inr root' \<longleftrightarrow>
    append_targets m a
    \<and> burn_proof_verify H (bap_empty_branch a) root e (of_nat (unat count + k))
    \<and> bc_validate H (solidity_claim H (bap_burn a) (pm_elements_genesis m)) = Inr ()
    \<and> append_burns H m count e (k + 1)
        (compute_root H (bap_empty_branch a) (appended_leaf H m (unat count + k) a)
          (of_nat (unat count + k))) as = Inr root'"
proof -
  have "unat (of_nat k :: u64) = k" using assms by (simp add: unat_of_nat_u64)
  then have "checked_add count (of_nat k) = Some (of_nat (unat count + k))"
    using assms unat_of_nat_u64 [OF assms] by (simp only: checked_add_Some)
  then show ?thesis
    by (auto simp: and_then_Inr map_err_Inr if_Inl_Inr burn_leaf_def append_targets_def
        appended_leaf_def)
qed

lemma append_burns_root:
  assumes "append_burns H m count (hash_bytes H [0]) k (root_for_leaves H leaves) as = Inr root"
    and "unat count + k = length leaves" "length leaves + length as < 2 ^ 64"
    and "\<forall>a \<in> set as. burn_proof_ok (bap_empty_branch a)"
    and "inj_on H (append_preimages H m leaves as)"
  shows "root = root_for_leaves H (leaves @ appended_leaves H m (length leaves) as)"
    and "\<forall>a \<in> set as. append_targets m a"
proof -
  have "root = root_for_leaves H (leaves @ appended_leaves H m (length leaves) as)
      \<and> (\<forall>a \<in> set as. append_targets m a)"
    using assms
  proof (induction as arbitrary: k leaves)
    case Nil
    then show ?case by simp
  next
    case (Cons a as)
    let ?n = "length leaves" and ?leaf = "appended_leaf H m (length leaves) a"
    have bound: "unat count + k < 2 ^ 64" using Cons.prems(2,3) by simp
    have step: "append_targets m a"
      "burn_proof_verify H (bap_empty_branch a) (root_for_leaves H leaves) (hash_bytes H [0]) (of_nat ?n)"
      "append_burns H m count (hash_bytes H [0]) (k + 1)
         (compute_root H (bap_empty_branch a) ?leaf (of_nat ?n)) as = Inr root"
      using Cons.prems(1) unfolding append_burns_Cons [OF bound] Cons.prems(2) by blast+
    have inj: "inj_on H (burn_preimages H leaves (bap_empty_branch a) (hash_bytes H [0]) (of_nat ?n))"
      "inj_on H (append_preimages H m (leaves @ [?leaf]) as)"
      using Cons.prems(5) by (auto intro: inj_on_subset)
    have n: "unat (of_nat ?n :: u64) = ?n" using bound Cons.prems(2) by (intro unat_of_nat_u64) simp
    have ok: "burn_proof_ok (bap_empty_branch a)" using Cons.prems(4) by simp
    have root: "compute_root H (bap_empty_branch a) ?leaf (of_nat ?n) =
        root_for_leaves H (leaves @ [?leaf])"
      by (rule burn_append_root [OF step(2) ok n inj(1)])
    have "root = root_for_leaves H ((leaves @ [?leaf])
          @ appended_leaves H m (length (leaves @ [?leaf])) as) \<and> (\<forall>a \<in> set as. append_targets m a)"
      using step(3) Cons.prems(2-4) inj(2) unfolding root by (intro Cons.IH) (simp_all, linarith)
    with step(1) show ?case by simp
  qed
  then show "root = root_for_leaves H (leaves @ appended_leaves H m (length leaves) as)"
    "\<forall>a \<in> set as. append_targets m a" by blast+
qed

text \<open>
  The same loop from the prover's side: for every list of valid burns whose claims validate
  there are branches, those of the true tree, with which the loop succeeds.
\<close>

lemma append_burns_complete:
  assumes "unat count + k = length leaves" "length leaves + length bs < 2 ^ 64"
    and "\<forall>b \<in> set bs. bu_validate b = Inr () \<and> bu_vault_id b = pm_vault_id m
      \<and> bu_usdd_asset b = pm_usdd_asset m
      \<and> bc_validate H (solidity_claim H b (pm_elements_genesis m)) = Inr ()"
  shows "\<exists>as. map bap_burn as = bs \<and> (\<forall>a \<in> set as. burn_proof_ok (bap_empty_branch a))
    \<and> append_burns H m count (hash_bytes H [0]) k (root_for_leaves H leaves) as =
        Inr (root_for_leaves H (leaves @ appended_leaves H m (length leaves) as))"
  using assms
proof (induction bs arbitrary: k leaves)
  case Nil
  then show ?case by simp
next
  case (Cons b bs)
  let ?n = "length leaves" and ?f = "padded H leaves" and ?node = "burn_accumulator_node H"
  let ?branch = "\<lparr>bp_siblings = sibling_path ?node ?f 64 ?n\<rparr>"
  let ?a = "\<lparr>bap_burn = b, bap_empty_branch = ?branch\<rparr>"
  let ?leaf = "appended_leaf H m ?n ?a"
  have bound: "unat count + k < 2 ^ 64" using Cons.prems by simp
  have n: "unat (of_nat ?n :: u64) = ?n" using bound Cons.prems(1) by (intro unat_of_nat_u64) simp
  have small: "?n < 2 ^ 64" using bound Cons.prems(1) by simp
  have padded_end: "?f ?n = hash_bytes H [0]" by (simp add: padded_def)
  have verify: "burn_proof_verify H ?branch (root_for_leaves H leaves) (hash_bytes H [0]) (of_nat ?n)"
    using path_root_sibling_path [of ?node ?f ?n 64] div_less [OF small] padded_end
    by (simp only: burn_proof_verify_def compute_root_path n root_for_leaves_refines
        burn_proof.select_convs)
  have root: "compute_root H ?branch ?leaf (of_nat ?n) = root_for_leaves H (leaves @ [?leaf])"
    using path_root_sibling_path [of ?node "?f(?n := ?leaf)" ?n 64] div_less [OF small]
    by (simp only: compute_root_path n root_for_leaves_refines padded_append sibling_path_update
        burn_proof.select_convs fun_upd_same)
  have pos: "unat count + (k + 1) = length (leaves @ [?leaf])"
    using Cons.prems(1) by (simp only: length_append list.size)
  have size: "length (leaves @ [?leaf]) + length bs < 2 ^ 64"
    using Cons.prems(2) by simp
  have rest: "\<forall>b \<in> set bs. bu_validate b = Inr () \<and> bu_vault_id b = pm_vault_id m
      \<and> bu_usdd_asset b = pm_usdd_asset m
      \<and> bc_validate H (solidity_claim H b (pm_elements_genesis m)) = Inr ()"
    and first: "bu_validate b = Inr ()" "bu_vault_id b = pm_vault_id m"
      "bu_usdd_asset b = pm_usdd_asset m"
      "bc_validate H (solidity_claim H b (pm_elements_genesis m)) = Inr ()"
    using Cons.prems(3) by simp_all
  obtain as where as: "map bap_burn as = bs" "\<forall>a \<in> set as. burn_proof_ok (bap_empty_branch a)"
    "append_burns H m count (hash_bytes H [0]) (k + 1) (root_for_leaves H (leaves @ [?leaf])) as =
        Inr (root_for_leaves H ((leaves @ [?leaf]) @ appended_leaves H m (length (leaves @ [?leaf])) as))"
    using Cons.IH [OF pos size rest] by blast
  have "append_burns H m count (hash_bytes H [0]) k (root_for_leaves H leaves) (?a # as) =
      Inr (root_for_leaves H (leaves @ appended_leaves H m ?n (?a # as)))"
    unfolding append_burns_Cons [OF bound] Cons.prems(1)
    using first verify root as(3) by (simp add: append_targets_def)
  moreover have "burn_proof_ok ?branch"
    by (simp add: burn_proof_ok_def BURN_ACCUMULATOR_DEPTH_def)
  ultimately show ?case using as(1,2) by (intro exI [of _ "?a # as"]) simp
qed

subsection \<open>The bridge state of an accepted transition\<close>

lemma elements_burn_root:
  assumes "build_elements_state_journal H V m c p = Inr j"
    and "start_root H (ec_prior_state c) = root_for_leaves H leaves"
    and "unat (bs_burn_count (ec_prior_state c)) = length leaves"
    and "\<forall>a \<in> set (ec_appended_burns c). burn_proof_ok (bap_empty_branch a)"
    and "inj_on H (append_preimages H m leaves (ec_appended_burns c))"
  shows "bs_cumulative_burn_root (ec_next_state c) = root_for_leaves H
      (leaves @ appended_leaves H m (length leaves) (ec_appended_burns c))"
    and "unat (bs_burn_count (ec_next_state c)) =
      length (leaves @ appended_leaves H m (length leaves) (ec_appended_burns c))"
    and "\<forall>a \<in> set (ec_appended_burns c). append_targets m a"
proof -
  have len: "length (appended_leaves H m n as) = length as" for n as
    by (induction as arbitrary: n) simp_all
  have count: "unat (bs_burn_count (ec_next_state c)) = length leaves + length (ec_appended_burns c)"
    and run: "append_burns H m (bs_burn_count (ec_prior_state c)) (hash_bytes H [0]) 0
      (root_for_leaves H leaves) (ec_appended_burns c) = Inr (bs_cumulative_burn_root (ec_next_state c))"
    using assms(1) unfolding build_elements_ok assms(2,3) by blast+
  have bound: "length leaves + length (ec_appended_burns c) < 2 ^ 64"
    using unat_bound [of "bs_burn_count (ec_next_state c)"] count by simp
  show "bs_cumulative_burn_root (ec_next_state c) = root_for_leaves H
      (leaves @ appended_leaves H m (length leaves) (ec_appended_burns c))"
    "\<forall>a \<in> set (ec_appended_burns c). append_targets m a"
    using append_burns_root [OF run _ bound assms(4,5)] assms(3) by simp_all
  show "unat (bs_burn_count (ec_next_state c)) =
      length (leaves @ appended_leaves H m (length leaves) (ec_appended_burns c))"
    by (simp add: count len)
qed

lemma statement_preimage_inject:
  "statement_preimage m p cur nxt con = statement_preimage m' p' cur' nxt' con' \<longleftrightarrow>
     pm_ethereum_chain_id m = pm_ethereum_chain_id m' \<and> pm_vault m = pm_vault m'
     \<and> pm_vault_id m = pm_vault_id m'
     \<and> pm_elements_guest_program_id m = pm_elements_guest_program_id m'
     \<and> pm_verifier_config_hash m = pm_verifier_config_hash m'
     \<and> pm_elements_genesis m = pm_elements_genesis m' \<and> pm_usdd_asset m = pm_usdd_asset m'
     \<and> p = p' \<and> cur = cur' \<and> nxt = nxt' \<and> con = con'"
  by (auto simp: statement_preimage_def to_be_bytes_inject)

subsection \<open>Properties\<close>

text \<open>
  C2: deposit journals. The builder returns a journal exactly when the manifest is valid and is
  the one the claim names, the controller configuration is the manifest's, every deposit targets
  the manifest's chain, vault and token, the manifest id, the claim id and the timestamp of the
  finalized execution block are nonzero, the verifier accepts the claim, and the deposits form a
  batch that the prior state accepts. The journal is then determined: it carries the encoding of
  that transition under the manifest's program id with its digest.
\<close>

theorem deposit_journal_characterised:
  "build_deposit_journal H V m c p = Inr j \<longleftrightarrow>
     pm_validate H m = Inr () \<and> manifest_id H m = Inr (dc_manifest_id c)
     \<and> mc_configuration_hash (dc_prior_state c) = pm_controller_configuration_hash m
     \<and> list_all (targets_vault m) (dc_deposits c)
     \<and> dc_manifest_id c \<noteq> 0 \<and> dc_claim_id H c \<noteq> 0
     \<and> fw_execution_block_timestamp (dc_finality c) \<noteq> 0
     \<and> V m c p = Inr ()
     \<and> (\<exists>b n. mb_from_deposits H (dc_deposits c) = Inr b
         \<and> apply_mint_batch (dc_prior_state c) b (dc_finality c) = Inr n
         \<and> j = deposit_journal_of H m c b n)"
  unfolding build_deposit_ok list_all_iff using deposit_journal_commits by blast

text \<open>
  C7: Elements journals. The builder returns a journal exactly when the manifest is valid and
  named by the claim, the next state is a valid successor with enough chainwork at activation
  and one more burn per append, the burn loop leads from the prior to the next root, the verifier
  accepts, and the output record is valid, which asks in addition that manifest id, claim id,
  next state hash and verifier statement are nonzero; the journal then commits to exactly this
  pair of states.
\<close>

theorem elements_journal_characterised:
  "build_elements_state_journal H V m c p = Inr j \<longleftrightarrow>
     pm_validate H m = Inr () \<and> manifest_id H m = Inr (ec_manifest_id c)
     \<and> (bs_is_zero (ec_prior_state c) \<longleftrightarrow> ec_prior_bridge_state_hash c = 0)
     \<and> validate_successor H (ec_prior_state c) (ec_next_state c) = Inr ()
     \<and> (if ec_prior_bridge_state_hash c = 0
        then pm_minimum_activation_chainwork m \<le> bs_bitcoin_chainwork (ec_next_state c) else True)
     \<and> unat (bs_burn_count (ec_next_state c)) =
         unat (bs_burn_count (ec_prior_state c)) + length (ec_appended_burns c)
     \<and> append_burns H m (bs_burn_count (ec_prior_state c)) (hash_bytes H [0]) 0
         (start_root H (ec_prior_state c)) (ec_appended_burns c) =
         Inr (bs_cumulative_burn_root (ec_next_state c))
     \<and> V m c p = Inr ()
     \<and> commits H j (pm_elements_guest_program_id m)
         (TypedElementsState (elements_output_of H m (ec_manifest_id c) c))"
  unfolding build_elements_ok by (simp split: if_split)

definition example_append :: burn_append_t where
  "example_append =
     \<lparr>bap_burn = \<lparr>bu_vault_id = 1, bu_usdd_asset = 1, bu_usdd_amount_base = 500,
        bu_usdt_amount_micro = 5, bu_burn_outpoint = \<lparr>op_txid = 1, op_vout = 0\<rparr>,
        bu_ethereum_destination = 7\<rparr>,
      bap_empty_branch = \<lparr>bp_siblings = replicate 64 1\<rparr>\<rparr>"

definition example_claim :: elements_claim where
  "example_claim =
     \<lparr>ec_manifest_id = 1, ec_prior_bridge_state_hash = 0, ec_prior_state = zero_bridge,
      ec_next_state = example_bridge, ec_appended_burns = [example_append]\<rparr>"

definition example_output :: elements_output where
  "example_output = elements_output_of toy_hash example_manifest 1 example_claim"

definition example_journal :: strict_journal where
  "example_journal =
     \<lparr>sj_statement_kind = ElementsState, sj_program_id = 1, sj_payload_sha256 = 1,
      sj_payload = enc_elements_output example_output\<rparr>"

lemma example_burn_claim:
  "bu_validate (bap_burn example_append) = Inr ()"
  "bc_validate toy_hash (solidity_claim toy_hash (bap_burn example_append) 1) = Inr ()"
proof -
  show valid: "bu_validate (bap_burn example_append) = Inr ()"
    by (simp add: bu_validate_ok example_append_def word_le_nat_alt)
  show "bc_validate toy_hash (solidity_claim toy_hash (bap_burn example_append) 1) = Inr ()"
    by (rule solidity_claim_valid [OF valid]) (simp_all add: redemption_id_def)
qed

lemma example_append_burns:
  "append_burns toy_hash example_manifest 0 (hash_bytes toy_hash [0]) 0 1 [example_append] = Inr 1"
proof -
  have leaf: "appended_leaf toy_hash example_manifest n example_append = 1" for n
    by (simp add: appended_leaf_def)
  have branch: "bap_empty_branch example_append = \<lparr>bp_siblings = replicate 64 1\<rparr>"
    by (simp add: example_append_def)
  have m: "pm_elements_genesis example_manifest = 1" "append_targets example_manifest example_append"
    using example_burn_claim(1)
    by (simp_all add: append_targets_def) (simp_all add: example_manifest_def example_append_def)
  have bound: "unat (0 :: u64) + 0 < 2 ^ 64" by simp
  show ?thesis
    unfolding append_burns_Cons [OF bound]
    by (simp only: branch leaf m example_burn_claim burn_proof_verify_def toy_compute_root
        toy_hash_simps append_burns.simps simp_thms)
qed

lemma example_claim_simps [simp]:
  "ec_manifest_id example_claim = 1" "ec_prior_bridge_state_hash example_claim = 0"
  "ec_prior_state example_claim = zero_bridge" "ec_next_state example_claim = example_bridge"
  "ec_appended_burns example_claim = [example_append]"
  by (simp_all add: example_claim_def)

lemma example_bridge_simps [simp]:
  "bs_is_zero zero_bridge" "bs_burn_count zero_bridge = 0" "bs_burn_count example_bridge = 1"
  "bs_cumulative_burn_root example_bridge = 1" "bs_bitcoin_chainwork example_bridge = 1"
  by (simp_all add: bs_is_zero_def zero_bridge_def example_bridge_def)

lemma example_start_root: "start_root toy_hash zero_bridge = root_for_leaves toy_hash []"
  by (simp add: start_root_def root_for_leaves_def BURN_ACCUMULATOR_DEPTH_def del: burn_empty_value.simps)

lemma example_claim_length:
  "\<exists>bs. enc_elements_claim example_claim = Some bs \<and> length bs < 2 ^ 32"
  by (simp add: enc_elements_claim_def enc_seq.simps enc_burn_append_def enc_burn_def
      enc_burn_proof_def enc_out_point_def enc_bridge_state_def packed_contents_def
      encode_header_def example_append_def length_concat sum_list_replicate)

lemma example_journal_commits:
  "commits toy_hash example_journal 1 (TypedElementsState example_output)"
proof -
  have "ec_claim_id toy_hash example_claim = 1"
    using example_claim_length by (auto simp: ec_claim_id_def domain_hash_def)
  then have "eso_valid toy_hash example_output"
    by (simp add: eso_valid_def example_output_def elements_output_of_def Let_def example_successor)
  then have "typed_decode toy_hash ElementsState (enc_elements_output example_output) =
      Inr (TypedElementsState example_output)"
    by (simp only: typed_decode_elements)
  moreover have "enc_elements_output example_output \<noteq> []"
    using length_encode_proof_header [of TAG_ELEMENTS_STATE_PUBLIC_OUTPUT]
    by (auto simp: enc_elements_output_def simp del: length_encode_proof_header)
  ultimately show ?thesis
    by (simp add: commits_def journal_ok_def typed_payload_Some example_journal_def)
qed

lemma example_elements_journal:
  "build_elements_state_journal toy_hash (\<lambda>_ _ _. Inr ()) example_manifest example_claim () =
     Inr example_journal"
proof -
  have pm: "pm_minimum_activation_chainwork example_manifest = 1"
    "pm_elements_guest_program_id example_manifest = 1"
    by (simp_all add: example_manifest_def)
  have root: "start_root toy_hash zero_bridge = 1"
    by (simp only: example_start_root) (simp add: toy_root)
  have out: "elements_output_of toy_hash example_manifest 1 example_claim = example_output"
    by (simp add: example_output_def)
  show ?thesis
    unfolding build_elements_ok example_claim_simps example_bridge_simps root pm out
    by (intro conjI impI example_manifest_valid example_manifest_id example_successor
        example_append_burns example_journal_commits) simp_all
qed

text \<open>
  C1: an accepted Elements transition extends the burn accumulator. If the prior root is the
  root of a list of as many leaves as the prior burn count, then the next root is the root of
  that list followed by the leaves of the claimed burns, each valid and targeting the
  manifest's vault and asset, at the next free indices; provided the hash has no collision
  among the preimages on the branches checked.
\<close>

theorem elements_transition_appends_burns:
  assumes "build_elements_state_journal H V m c p = Inr j"
    and "start_root H (ec_prior_state c) = root_for_leaves H leaves"
    and "unat (bs_burn_count (ec_prior_state c)) = length leaves"
    and "\<forall>a \<in> set (ec_appended_burns c). burn_proof_ok (bap_empty_branch a)"
    and "inj_on H (append_preimages H m leaves (ec_appended_burns c))"
  shows "bs_cumulative_burn_root (ec_next_state c) = root_for_leaves H
      (leaves @ appended_leaves H m (length leaves) (ec_appended_burns c))
    \<and> unat (bs_burn_count (ec_next_state c)) =
      length (leaves @ appended_leaves H m (length leaves) (ec_appended_burns c))
    \<and> list_all (append_targets m) (ec_appended_burns c)"
  using elements_burn_root [OF assms] by (simp only: list_all_iff)

theorem elements_transition_appends_burns_witness:
  "bs_cumulative_burn_root (ec_next_state example_claim) = root_for_leaves toy_hash
      ([] @ appended_leaves toy_hash example_manifest (length ([] :: hash32 list))
        (ec_appended_burns example_claim))
    \<and> unat (bs_burn_count (ec_next_state example_claim)) =
      length ([] @ appended_leaves toy_hash example_manifest (length ([] :: hash32 list))
        (ec_appended_burns example_claim))
    \<and> list_all (append_targets example_manifest) (ec_appended_burns example_claim)"
proof (rule elements_transition_appends_burns [OF example_elements_journal])
  show "start_root toy_hash (ec_prior_state example_claim) = root_for_leaves toy_hash []"
    by (simp only: example_claim_simps example_start_root)
  show "unat (bs_burn_count (ec_prior_state example_claim)) = length ([] :: hash32 list)"
    by simp
  show "\<forall>a \<in> set (ec_appended_burns example_claim). burn_proof_ok (bap_empty_branch a)"
    by (simp add: example_append_def burn_proof_ok_def BURN_ACCUMULATOR_DEPTH_def)
  show "inj_on toy_hash (append_preimages toy_hash example_manifest []
      (ec_appended_burns example_claim))"
    using toy_preimages [of "[]"]
    by (intro toy_inj) (simp add: example_append_def)
qed

text \<open>
  C39: an honest prover succeeds. For every list of valid burns of the manifest's vault and
  asset whose claims validate, and every list of leaves with room for them, there are branches
  with which the burn loop runs to the end and returns the root of the extended list.
\<close>

theorem burn_loop_complete:
  assumes "unat count = length leaves" "length leaves + length bs < 2 ^ 64"
    and "\<forall>b \<in> set bs. bu_validate b = Inr () \<and> bu_vault_id b = pm_vault_id m
      \<and> bu_usdd_asset b = pm_usdd_asset m
      \<and> bc_validate H (solidity_claim H b (pm_elements_genesis m)) = Inr ()"
  shows "\<exists>as. map bap_burn as = bs \<and> list_all (burn_proof_ok \<circ> bap_empty_branch) as
    \<and> append_burns H m count (hash_bytes H [0]) 0 (root_for_leaves H leaves) as =
        Inr (root_for_leaves H (leaves @ appended_leaves H m (length leaves) as))"
proof -
  have "unat count + 0 = length leaves" using assms(1) by simp
  from append_burns_complete [OF this assms(2,3)] show ?thesis
    by (auto simp: list_all_iff)
qed

theorem burn_loop_complete_witness:
  "\<exists>as. map bap_burn as = [bap_burn example_append] \<and> list_all (burn_proof_ok \<circ> bap_empty_branch) as
    \<and> append_burns toy_hash example_manifest 1 (hash_bytes toy_hash [0]) 0
        (root_for_leaves toy_hash [9]) as =
        Inr (root_for_leaves toy_hash
          ([9] @ appended_leaves toy_hash example_manifest (length [9 :: hash32]) as))"
proof (rule burn_loop_complete)
  have "pm_elements_genesis example_manifest = 1" "append_targets example_manifest example_append"
    using example_burn_claim(1)
    by (simp_all add: append_targets_def) (simp_all add: example_manifest_def example_append_def)
  then show "\<forall>b \<in> set [bap_burn example_append]. bu_validate b = Inr ()
      \<and> bu_vault_id b = pm_vault_id example_manifest
      \<and> bu_usdd_asset b = pm_usdd_asset example_manifest
      \<and> bc_validate toy_hash (solidity_claim toy_hash b (pm_elements_genesis example_manifest)) = Inr ()"
    using example_burn_claim by (simp add: append_targets_def)
qed simp_all

text \<open>
  The verifier statement binds its context. The bytes hashed into the statement determine
  the chain, vault, program, verifier configuration, genesis, asset and all four state hashes.
\<close>

theorem statement_binds_context:
  "statement_preimage m p cur nxt con = statement_preimage m' p' cur' nxt' con' \<longleftrightarrow>
     pm_ethereum_chain_id m = pm_ethereum_chain_id m' \<and> pm_vault m = pm_vault m'
     \<and> pm_vault_id m = pm_vault_id m'
     \<and> pm_elements_guest_program_id m = pm_elements_guest_program_id m'
     \<and> pm_verifier_config_hash m = pm_verifier_config_hash m'
     \<and> pm_elements_genesis m = pm_elements_genesis m' \<and> pm_usdd_asset m = pm_usdd_asset m'
     \<and> p = p' \<and> cur = cur' \<and> nxt = nxt' \<and> con = con'"
  by (rule statement_preimage_inject)

end
