(* ===== verification/Vault_Witness.thy ===== *)
theory Vault_Witness
  imports Guest
begin

section \<open>The vault storage witness (usdd-ethereum-inbound/src/lib.rs, 22--62 and 531--650)\<close>

text \<open>
  The private witness of a deposit batch: the claimed account of the vault with its inclusion
  branch, and one inclusion branch per deposit. Branches are lists of trie nodes, copied bytes
  the trie library reads later; here their resource bounds and the canonical codec of the
  witness are modelled. \<open>balance_be: [u8; 32]\<close> is the word with those big-endian bytes, which
  is also the number that \<open>U256::from_be_bytes\<close> makes of it. The decoder keeps a running byte
  count over all branches, an argument and a result of the model's \<open>decode_nodes\<close>.
\<close>

definition MAX_MPT_PROOF_NODES :: nat where
  "MAX_MPT_PROOF_NODES = 65"

definition MAX_MPT_NODE_BYTES :: nat where
  "MAX_MPT_NODE_BYTES = 4096"

definition MAX_MPT_WITNESS_BYTES :: nat where
  "MAX_MPT_WITNESS_BYTES = 4 * 1024 * 1024"

definition TAG_VAULT_STORAGE_WITNESS :: u16 where
  "TAG_VAULT_STORAGE_WITNESS = 0x6101"

record vault_account_witness =
  vaw_nonce :: u64
  vaw_balance_be :: hash32
  vaw_storage_root :: hash32
  vaw_code_hash :: hash32
  vaw_proof_nodes :: "bytes list"

record deposit_storage_proof =
  dsp_proof_nodes :: "bytes list"

record vault_storage_witness =
  vsw_account :: vault_account_witness
  vsw_deposits :: "deposit_storage_proof list"

datatype inbound_error =
    InvalidManifest
  | InvalidControllerState
  | InvalidFinality
  | FinalityRejected
  | EmptyDepositBatch
  | TooManyDeposits
  | InvalidDeposit
  | WrongDepositTarget
  | NonConsecutiveDepositNonce
  | ZeroDepositCommitment
  | StorageProofCountMismatch
  | VaultCodeHashMismatch
  | InvalidVaultAccount
  | ProofLimitsExceeded
  | AccountProofRejected
  | StorageProofRejected nat
  | AmountOverflow

subsection \<open>Resource bounds\<close>

definition node_step :: "nat \<Rightarrow> bytes \<Rightarrow> inbound_error + nat" where
  "node_step total_bytes node =
     (if node = [] \<or> MAX_MPT_NODE_BYTES < length node then Inl ProofLimitsExceeded
      else ok_or (usize_checked_add total_bytes (length node)) ProofLimitsExceeded)"

definition validate_nodes :: "bytes list \<Rightarrow> inbound_error + nat" where
  "validate_nodes nodes =
     (if nodes = [] \<or> MAX_MPT_PROOF_NODES < length nodes then Inl ProofLimitsExceeded
      else try_fold node_step 0 nodes)"

definition limit_step :: "nat \<Rightarrow> deposit_storage_proof \<Rightarrow> inbound_error + nat" where
  "limit_step total_bytes storage =
     and_then (validate_nodes (dsp_proof_nodes storage)) (\<lambda>n.
     and_then (ok_or (usize_checked_add total_bytes n) ProofLimitsExceeded) (\<lambda>total_bytes.
     if MAX_MPT_WITNESS_BYTES < total_bytes then Inl ProofLimitsExceeded
     else Inr total_bytes))"

definition validate_limits :: "vault_storage_witness \<Rightarrow> inbound_error + unit" where
  "validate_limits w =
     (if MAX_MINT_BATCH_SIZE < length (vsw_deposits w) then Inl TooManyDeposits
      else and_then (validate_nodes (vaw_proof_nodes (vsw_account w))) (\<lambda>total_bytes.
           and_then (try_fold limit_step total_bytes (vsw_deposits w)) (\<lambda>_. Inr ())))"

subsection \<open>The codec\<close>

definition enc_node :: "bytes \<Rightarrow> bytes option" where
  "enc_node node =
     (if length node < 2 ^ 16 then Some (enc_u16 (of_nat (length node)) @ node) else None)"

definition encode_nodes :: "bytes list \<Rightarrow> bytes option" where
  "encode_nodes nodes = enc_seq
     ((if length nodes < 256 then Some (enc_u8 (of_nat (length nodes))) else None)
      # map enc_node nodes)"

text \<open>The loop body of \<open>decode_nodes\<close>, run \<open>n\<close> times with the running byte count.\<close>

fun decode_node_loop :: "nat \<Rightarrow> nat \<Rightarrow> (bytes list \<times> nat) decode_fn" where
  "decode_node_loop 0 total_bytes d = Inr (([], total_bytes), d)"
| "decode_node_loop (Suc n) total_bytes d =
     and_then (dec_u16 d) (\<lambda>(len, d).
     if unat len = 0 \<or> MAX_MPT_NODE_BYTES < unat len
     then Inl (InvalidValue ''invalid MPT proof node length'')
     else and_then (ok_or (usize_checked_add total_bytes (unat len)) LengthOverflow)
       (\<lambda>total_bytes.
     if MAX_MPT_WITNESS_BYTES < total_bytes
     then Inl (InvalidValue ''MPT witness exceeds byte limit'')
     else and_then (dec_take (unat len) d) (\<lambda>(node, d).
          and_then (decode_node_loop n total_bytes d) (\<lambda>((nodes, total_bytes), d).
            Inr ((node # nodes, total_bytes), d)))))"

definition decode_nodes :: "nat \<Rightarrow> (bytes list \<times> nat) decode_fn" where
  "decode_nodes total_bytes d =
     and_then (dec_u8 d) (\<lambda>(count, d).
     if unat count = 0 \<or> MAX_MPT_PROOF_NODES < unat count
     then Inl (InvalidValue ''invalid MPT proof node count'')
     else decode_node_loop (unat count) total_bytes d)"

fun decode_deposit_loop :: "nat \<Rightarrow> nat \<Rightarrow> deposit_storage_proof list decode_fn" where
  "decode_deposit_loop 0 total_bytes d = Inr ([], d)"
| "decode_deposit_loop (Suc n) total_bytes d =
     and_then (decode_nodes total_bytes d) (\<lambda>((nodes, total_bytes), d).
     and_then (decode_deposit_loop n total_bytes d) (\<lambda>(deposits, d).
       Inr (\<lparr>dsp_proof_nodes = nodes\<rparr> # deposits, d)))"

definition enc_vault_witness :: "vault_storage_witness \<Rightarrow> bytes option" where
  "enc_vault_witness w = enc_seq
     [Some (enc_u16 ENCODING_SCHEMA),
      Some (enc_u16 TAG_VAULT_STORAGE_WITNESS),
      Some (enc_u64 (vaw_nonce (vsw_account w))),
      Some (enc_hash32 (vaw_balance_be (vsw_account w))),
      Some (enc_hash32 (vaw_storage_root (vsw_account w))),
      Some (enc_hash32 (vaw_code_hash (vsw_account w))),
      encode_nodes (vaw_proof_nodes (vsw_account w)),
      (if length (vsw_deposits w) < 256 then Some (enc_u8 (of_nat (length (vsw_deposits w))))
       else None),
      enc_seq (map (\<lambda>s. encode_nodes (dsp_proof_nodes s)) (vsw_deposits w))]"

definition dec_vault_witness :: "vault_storage_witness decode_fn" where
  "dec_vault_witness d =
     and_then (dec_u16 d) (\<lambda>(schema, d).
     if schema \<noteq> ENCODING_SCHEMA then Inl (InvalidValue ''invalid vault witness header'')
     else and_then (dec_u16 d) (\<lambda>(tag, d).
     if tag \<noteq> TAG_VAULT_STORAGE_WITNESS
     then Inl (InvalidValue ''invalid vault witness header'')
     else and_then (dec_u64 d) (\<lambda>(nonce, d).
     and_then (dec_hash32 d) (\<lambda>(balance_be, d).
     and_then (dec_hash32 d) (\<lambda>(storage_root, d).
     and_then (dec_hash32 d) (\<lambda>(code_hash, d).
     and_then (decode_nodes 0 d) (\<lambda>((account_nodes, total_bytes), d).
     and_then (dec_u8 d) (\<lambda>(count, d).
     if MAX_MINT_BATCH_SIZE < unat count
     then Inl (InvalidValue ''too many deposit storage proofs'')
     else and_then (decode_deposit_loop (unat count) total_bytes d) (\<lambda>(deposits, d).
     let w = \<lparr>vsw_account = \<lparr>vaw_nonce = nonce, vaw_balance_be = balance_be,
                vaw_storage_root = storage_root, vaw_code_hash = code_hash,
                vaw_proof_nodes = account_nodes\<rparr>,
              vsw_deposits = deposits\<rparr>
     in and_then (map_err (\<lambda>_. InvalidValue ''vault witness exceeds resource bounds'')
          (validate_limits w)) (\<lambda>_. Inr (w, d)))))))))))"

subsection \<open>What the bounds accept\<close>

definition node_ok :: "bytes \<Rightarrow> bool" where
  "node_ok node \<longleftrightarrow> node \<noteq> [] \<and> length node \<le> 4096"

definition nodes_ok :: "bytes list \<Rightarrow> bool" where
  "nodes_ok nodes \<longleftrightarrow> nodes \<noteq> [] \<and> length nodes \<le> 65 \<and> list_all node_ok nodes"

definition nodes_bytes :: "bytes list \<Rightarrow> nat" where
  "nodes_bytes nodes = sum_list (map length nodes)"

definition witness_bytes :: "vault_storage_witness \<Rightarrow> nat" where
  "witness_bytes w = nodes_bytes (vaw_proof_nodes (vsw_account w))
     + sum_list (map (\<lambda>s. nodes_bytes (dsp_proof_nodes s)) (vsw_deposits w))"

definition witness_ok :: "vault_storage_witness \<Rightarrow> bool" where
  "witness_ok w \<longleftrightarrow> length (vsw_deposits w) \<le> 64
     \<and> nodes_ok (vaw_proof_nodes (vsw_account w))
     \<and> list_all (\<lambda>s. nodes_ok (dsp_proof_nodes s)) (vsw_deposits w)
     \<and> witness_bytes w \<le> 4194304"

lemma node_bytes_simps [simp]:
  "nodes_bytes [] = 0" "nodes_bytes (x # xs) = length x + nodes_bytes xs"
  by (simp_all add: nodes_bytes_def)

lemma nodes_bytes_bound: "list_all node_ok nodes \<Longrightarrow> nodes_bytes nodes \<le> 4096 * length nodes"
  by (induction nodes) (auto simp: node_ok_def)

lemma nodes_ok_bound: "nodes_ok nodes \<Longrightarrow> nodes_bytes nodes \<le> 266240"
  using nodes_bytes_bound [of nodes] by (auto simp: nodes_ok_def)

lemma node_step_ok:
  "t \<le> 2 ^ 40 \<Longrightarrow> node_step t node = Inr t' \<longleftrightarrow> node_ok node \<and> t' = t + length node"
  by (auto simp: node_step_def if_Inl_Inr ok_or_Inr usize_checked_add_def node_ok_def
      MAX_MPT_NODE_BYTES_def)

lemma node_fold:
  "t + 4096 * length nodes \<le> 2 ^ 40 \<Longrightarrow>
     try_fold node_step t nodes = Inr t' \<longleftrightarrow> list_all node_ok nodes \<and> t' = t + nodes_bytes nodes"
proof (induction nodes arbitrary: t)
  case Nil
  then show ?case by auto
next
  case (Cons node nodes)
  then have t: "t \<le> 2 ^ 40" by simp
  have "(t + length node) + 4096 * length nodes \<le> 2 ^ 40" if "node_ok node"
    using Cons.prems that by (simp add: node_ok_def)
  then show ?case
    unfolding try_fold.simps and_then_Inr node_step_ok [OF t] using Cons.IH by auto
qed

lemma validate_nodes_ok [ok_iff]:
  "validate_nodes nodes = Inr t \<longleftrightarrow> nodes_ok nodes \<and> t = nodes_bytes nodes"
proof (cases "length nodes \<le> 65")
  case True
  then show ?thesis
    using node_fold [of 0 nodes t]
    by (auto simp: validate_nodes_def nodes_ok_def MAX_MPT_PROOF_NODES_def)
qed (auto simp: validate_nodes_def nodes_ok_def MAX_MPT_PROOF_NODES_def)

lemma limit_step_ok:
  "t \<le> 4194304 \<Longrightarrow> limit_step t s = Inr t' \<longleftrightarrow>
     nodes_ok (dsp_proof_nodes s) \<and> t' = t + nodes_bytes (dsp_proof_nodes s) \<and> t' \<le> 4194304"
  using nodes_ok_bound [of "dsp_proof_nodes s"]
  by (auto simp: limit_step_def and_then_Inr ok_or_Inr if_Inl_Inr validate_nodes_ok
      usize_checked_add_def MAX_MPT_WITNESS_BYTES_def)

lemma limit_fold:
  "t \<le> 4194304 \<Longrightarrow> try_fold limit_step t ss = Inr t' \<longleftrightarrow>
     list_all (\<lambda>s. nodes_ok (dsp_proof_nodes s)) ss
     \<and> t' = t + sum_list (map (\<lambda>s. nodes_bytes (dsp_proof_nodes s)) ss) \<and> t' \<le> 4194304"
proof (induction ss arbitrary: t)
  case Nil
  then show ?case by auto
next
  case (Cons s ss)
  show ?case
    unfolding try_fold.simps and_then_Inr limit_step_ok [OF Cons.prems] using Cons.IH by auto
qed

lemma validate_limits_ok [ok_iff]: "validate_limits w = Inr u \<longleftrightarrow> witness_ok w"
proof (cases "nodes_ok (vaw_proof_nodes (vsw_account w))")
  case True
  then have "nodes_bytes (vaw_proof_nodes (vsw_account w)) \<le> 4194304"
    using nodes_ok_bound by fastforce
  from limit_fold [OF this] True show ?thesis
    by (auto simp: validate_limits_def witness_ok_def witness_bytes_def MAX_MINT_BATCH_SIZE_def
        and_then_Inr validate_nodes_ok if_Inl_Inr)
qed (auto simp: validate_limits_def witness_ok_def and_then_Inr validate_nodes_ok)

subsection \<open>The codec meets the contract\<close>

lemma decode_node_loop_iff:
  "t \<le> 4194304 \<Longrightarrow> decode_node_loop n t d = Inr ((ns, t'), d') \<longleftrightarrow>
     length ns = n \<and> list_all node_ok ns \<and> t' = t + nodes_bytes ns \<and> t' \<le> 4194304
     \<and> reads_opt d (enc_seq (map enc_node ns)) d'"
proof (induction n arbitrary: t d ns)
  case 0
  then show ?case by (auto simp: reads_enc)
next
  case (Suc n)
  have read: "(\<exists>len d1 d2. dec_u16 d = Inr (len, d1) \<and> 0 < unat len \<and> unat len \<le> 4096
        \<and> dec_take (unat len) d1 = Inr (x, d2) \<and> P (unat len) d2) \<longleftrightarrow>
      node_ok x \<and> (\<exists>d2. reads_opt d (enc_node x) d2 \<and> P (length x) d2)" for x P
  proof
    assume "\<exists>len d1 d2. dec_u16 d = Inr (len, d1) \<and> 0 < unat len \<and> unat len \<le> 4096
        \<and> dec_take (unat len) d1 = Inr (x, d2) \<and> P (unat len) d2"
    then obtain len d1 d2 where x: "dec_u16 d = Inr (len, d1)" "0 < unat len" "unat len \<le> 4096"
      "length x = unat len" "reads d1 x d2" "P (unat len) d2"
      by (auto simp: dec_take_Inr)
    have "len = of_nat (length x)" using x(4) by simp
    then have "reads_opt d (enc_node x) d2"
      using x by (auto simp: enc_node_def reads_append reads_prim)
    then show "node_ok x \<and> (\<exists>d2. reads_opt d (enc_node x) d2 \<and> P (length x) d2)"
      using x by (auto simp: node_ok_def)
  next
    assume *: "node_ok x \<and> (\<exists>d2. reads_opt d (enc_node x) d2 \<and> P (length x) d2)"
    then have len: "unat (of_nat (length x) :: u16) = length x"
      by (intro unat_of_nat_u16) (simp add: node_ok_def)
    from * obtain d1 d2 where "dec_u16 d = Inr (of_nat (length x), d1)" "reads d1 x d2" "P (length x) d2"
      by (auto simp: enc_node_def reads_append reads_prim split: if_splits)
    with * len show "\<exists>len d1 d2. dec_u16 d = Inr (len, d1) \<and> 0 < unat len \<and> unat len \<le> 4096
        \<and> dec_take (unat len) d1 = Inr (x, d2) \<and> P (unat len) d2"
      by (intro exI [of _ "of_nat (length x)"] exI [of _ d1] exI [of _ d2])
        (auto simp: node_ok_def dec_take_Inr)
  qed
  show ?case
  proof (cases ns)
    case Nil
    then show ?thesis by (auto simp: and_then_Inr split_beta if_Inl_Inr)
  next
    case (Cons x xs)
    have "decode_node_loop (Suc n) t d = Inr ((ns, t'), d') \<longleftrightarrow>
        (\<exists>len d1 d2. dec_u16 d = Inr (len, d1) \<and> 0 < unat len \<and> unat len \<le> 4096
          \<and> dec_take (unat len) d1 = Inr (x, d2)
          \<and> (t + unat len \<le> 4194304
             \<and> decode_node_loop n (t + unat len) d2 = Inr ((xs, t'), d')))"
      unfolding Cons using Suc.prems
      by (fastforce simp: and_then_Inr ok_or_Inr if_Inl_Inr split_beta usize_checked_add_def
          MAX_MPT_NODE_BYTES_def MAX_MPT_WITNESS_BYTES_def)
    also have "\<dots> \<longleftrightarrow> length ns = Suc n \<and> list_all node_ok ns \<and> t' = t + nodes_bytes ns
        \<and> t' \<le> 4194304 \<and> reads_opt d (enc_seq (map enc_node ns)) d'"
      unfolding read [where P = "\<lambda>k d2. t + k \<le> 4194304
          \<and> decode_node_loop n (t + k) d2 = Inr ((xs, t'), d')"] Cons list.map reads_enc_seq
      using Suc.IH by auto
    finally show ?thesis .
  qed
qed

lemma decode_nodes_iff:
  assumes "t \<le> 4194304"
  shows "decode_nodes t d = Inr ((ns, t'), d') \<longleftrightarrow>
     nodes_ok ns \<and> t' = t + nodes_bytes ns \<and> t' \<le> 4194304 \<and> reads_opt d (encode_nodes ns) d'"
proof -
  have "decode_nodes t d = Inr ((ns, t'), d') \<longleftrightarrow>
      (\<exists>count d1. dec_u8 d = Inr (count, d1) \<and> 0 < unat count \<and> unat count \<le> 65
        \<and> length ns = unat count \<and> list_all node_ok ns \<and> t' = t + nodes_bytes ns
        \<and> t' \<le> 4194304 \<and> reads_opt d1 (enc_seq (map enc_node ns)) d')"
    by (auto simp: decode_nodes_def and_then_Inr if_Inl_Inr MAX_MPT_PROOF_NODES_def
        decode_node_loop_iff [OF assms] not_less)
  also have "\<dots> \<longleftrightarrow> nodes_ok ns \<and> t' = t + nodes_bytes ns \<and> t' \<le> 4194304
      \<and> (\<exists>d1. dec_u8 d = Inr (of_nat (length ns), d1)
          \<and> reads_opt d1 (enc_seq (map enc_node ns)) d')"
    by (auto simp: nodes_ok_def unat_of_nat_byte)
  also have "\<dots> \<longleftrightarrow> nodes_ok ns \<and> t' = t + nodes_bytes ns \<and> t' \<le> 4194304
      \<and> reads_opt d (encode_nodes ns) d'"
    by (auto simp: encode_nodes_def reads_enc nodes_ok_def)
  finally show ?thesis .
qed

lemma decode_deposit_loop_iff:
  "t \<le> 4194304 \<Longrightarrow> decode_deposit_loop n t d = Inr (ss, d') \<longleftrightarrow>
     length ss = n \<and> list_all (\<lambda>s. nodes_ok (dsp_proof_nodes s)) ss
     \<and> t + sum_list (map (\<lambda>s. nodes_bytes (dsp_proof_nodes s)) ss) \<le> 4194304
     \<and> reads_opt d (enc_seq (map (\<lambda>s. encode_nodes (dsp_proof_nodes s)) ss)) d'"
proof (induction n arbitrary: t d ss)
  case 0
  then show ?case by (auto simp: reads_enc)
next
  case (Suc n)
  show ?case
  proof (cases ss)
    case Nil
    then show ?thesis by (auto simp: and_then_Inr split_beta)
  next
    case (Cons x xs)
    have "decode_deposit_loop (Suc n) t d = Inr (ss, d') \<longleftrightarrow>
        (\<exists>t1 d1. decode_nodes t d = Inr ((dsp_proof_nodes x, t1), d1)
          \<and> decode_deposit_loop n t1 d1 = Inr (xs, d'))"
      unfolding Cons by (cases x) (auto simp: and_then_Inr split_beta)
    also have "\<dots> \<longleftrightarrow> nodes_ok (dsp_proof_nodes x)
        \<and> t + nodes_bytes (dsp_proof_nodes x) \<le> 4194304
        \<and> (\<exists>d1. reads_opt d (encode_nodes (dsp_proof_nodes x)) d1
            \<and> decode_deposit_loop n (t + nodes_bytes (dsp_proof_nodes x)) d1 = Inr (xs, d'))"
      unfolding decode_nodes_iff [OF Suc.prems] by blast
    also have "\<dots> \<longleftrightarrow> length ss = Suc n \<and> list_all (\<lambda>s. nodes_ok (dsp_proof_nodes s)) ss
        \<and> t + sum_list (map (\<lambda>s. nodes_bytes (dsp_proof_nodes s)) ss) \<le> 4194304
        \<and> reads_opt d (enc_seq (map (\<lambda>s. encode_nodes (dsp_proof_nodes s)) ss)) d'"
      unfolding Cons list.map reads_enc_seq using Suc.IH by auto
    finally show ?thesis .
  qed
qed

lemma encode_nodes_total: "nodes_ok ns \<Longrightarrow> encode_nodes ns \<noteq> None"
  unfolding encode_nodes_def enc_seq_not_None
  by (auto simp: nodes_ok_def node_ok_def enc_node_def list_all_iff)

interpretation codec_vault_witness: codec enc_vault_witness dec_vault_witness witness_ok
proof
  fix d w d'
  show "dec_vault_witness d = Inr (w, d') \<longleftrightarrow> witness_ok w \<and> reads_opt d (enc_vault_witness w) d'"
  proof (cases w)
    case (fields account deposits)
    have bytes: "witness_ok w \<longleftrightarrow> length deposits \<le> 64 \<and> nodes_ok (vaw_proof_nodes account)
        \<and> list_all (\<lambda>s. nodes_ok (dsp_proof_nodes s)) deposits
        \<and> nodes_bytes (vaw_proof_nodes account)
          + sum_list (map (\<lambda>s. nodes_bytes (dsp_proof_nodes s)) deposits) \<le> 4194304"
      by (auto simp: fields witness_ok_def witness_bytes_def)
    have steps: "dec_vault_witness d = Inr (w, d') \<longleftrightarrow> witness_ok w \<and>
        (\<exists>d1. dec_u16 d = Inr (ENCODING_SCHEMA, d1)
        \<and> (\<exists>d2. dec_u16 d1 = Inr (TAG_VAULT_STORAGE_WITNESS, d2)
        \<and> (\<exists>d3. dec_u64 d2 = Inr (vaw_nonce account, d3)
        \<and> (\<exists>d4. dec_hash32 d3 = Inr (vaw_balance_be account, d4)
        \<and> (\<exists>d5. dec_hash32 d4 = Inr (vaw_storage_root account, d5)
        \<and> (\<exists>d6. dec_hash32 d5 = Inr (vaw_code_hash account, d6)
        \<and> (\<exists>t d7. decode_nodes 0 d6 = Inr ((vaw_proof_nodes account, t), d7)
        \<and> (\<exists>n d8. dec_u8 d7 = Inr (n, d8) \<and> unat n \<le> 64
        \<and> decode_deposit_loop (unat n) t d8 = Inr (deposits, d')))))))))"
      unfolding fields
      by (cases account) (simp add: dec_vault_witness_def Let_def and_then_Inr if_Inl_Inr map_err_Inr
          split_beta MAX_MINT_BATCH_SIZE_def validate_limits_ok, auto)
    have branches: "(\<exists>t d7. decode_nodes 0 d6 = Inr ((vaw_proof_nodes account, t), d7)
          \<and> (\<exists>n d8. dec_u8 d7 = Inr (n, d8) \<and> unat n \<le> 64
          \<and> decode_deposit_loop (unat n) t d8 = Inr (deposits, d'))) \<longleftrightarrow>
        (\<exists>d7. reads_opt d6 (encode_nodes (vaw_proof_nodes account)) d7
          \<and> (\<exists>d8. dec_u8 d7 = Inr (of_nat (length deposits), d8)
          \<and> reads_opt d8 (enc_seq (map (\<lambda>s. encode_nodes (dsp_proof_nodes s)) deposits)) d'))"
      if "witness_ok w" for d6
    proof -
      have t: "nodes_bytes (vaw_proof_nodes account) \<le> 4194304"
        and n: "unat (of_nat (length deposits) :: u8) = length deposits"
        using \<open>witness_ok w\<close> unfolding bytes by (simp_all add: unat_of_nat_byte)
      have loop: "unat n \<le> 64 \<and> decode_deposit_loop (unat n)
            (nodes_bytes (vaw_proof_nodes account)) d8 = Inr (deposits, d') \<longleftrightarrow>
          n = of_nat (length deposits)
          \<and> reads_opt d8 (enc_seq (map (\<lambda>s. encode_nodes (dsp_proof_nodes s)) deposits)) d'"
        for n :: u8 and d8
        unfolding decode_deposit_loop_iff [OF t]
        using \<open>witness_ok w\<close> n unfolding bytes by auto
      have nodes: "decode_nodes 0 d6 = Inr ((vaw_proof_nodes account, t), d7) \<longleftrightarrow>
          t = nodes_bytes (vaw_proof_nodes account)
          \<and> reads_opt d6 (encode_nodes (vaw_proof_nodes account)) d7" for t d7
        using decode_nodes_iff [of 0] \<open>witness_ok w\<close> t unfolding bytes by auto
      show ?thesis unfolding nodes by (simp add: loop)
    qed
    show ?thesis
    proof (cases "witness_ok w")
      case True
      then have "length deposits < 256" unfolding bytes by simp
      with True show ?thesis
        unfolding steps branches [OF True]
        by (simp add: fields enc_vault_witness_def reads_enc)
    qed (simp add: steps)
  qed
next
  fix w assume w: "witness_ok w"
  then have "enc_seq (map (\<lambda>s. encode_nodes (dsp_proof_nodes s)) (vsw_deposits w)) \<noteq> None"
    unfolding enc_seq_not_None using encode_nodes_total by (auto simp: witness_ok_def list_all_iff)
  with w show "enc_vault_witness w \<noteq> None"
    unfolding enc_vault_witness_def enc_seq_not_None [of "_ # _"]
    using encode_nodes_total by (auto simp: witness_ok_def)
qed

subsection \<open>Properties\<close>

text \<open>
  C13: the vault witness codec. Decoding bytes exactly to a witness happens if and only if the
  witness keeps the resource bounds (at most 64 branches, 1 to 65 nodes each, nodes of 1 to
  4096 bytes, at most 4 MiB together) and the bytes are its encoding. So the decoder enforces
  the limits that the verifier checks again, and no witness has two encodings.
\<close>

theorem vault_witness_codec:
  "(decode_exact dec_vault_witness bs = Inr w \<longleftrightarrow>
      validate_limits w = Inr () \<and> enc_vault_witness w = Some bs)
   \<and> (validate_limits w = Inr () \<longleftrightarrow>
      length (vsw_deposits w) \<le> 64
      \<and> nodes_ok (vaw_proof_nodes (vsw_account w))
      \<and> list_all (\<lambda>s. nodes_ok (dsp_proof_nodes s)) (vsw_deposits w)
      \<and> witness_bytes w \<le> 4194304)"
  by (simp only: codec_vault_witness.decode_exact_iff validate_limits_ok witness_ok_def)

end
