(* ===== verification/Ethereum_Inbound.thy ===== *)
theory Ethereum_Inbound
  imports Vault_Witness
begin

section \<open>The Ethereum inbound adapter (usdd-ethereum-inbound/src/lib.rs)\<close>

text \<open>
  The verifier that stands behind the deposit and heartbeat journals. The finality verifier is
  an argument, a function from the transition and a proof to an error or unit. What the adapter
  takes from the crates \<open>alloy_primitives\<close>, \<open>alloy_rlp\<close> and \<open>alloy_trie\<close> is the record
  \<open>trie_library\<close>: Keccak-256, the RLP encodings of an account and of a 256-bit integer, the
  nibble path of a byte string, and the Merkle-Patricia inclusion check. No law of them is
  assumed except where a statement names it. \<open>B256\<close>, \<open>U256\<close> and \<open>Hash32\<close> are all 256-bit words,
  so the conversions between them (\<open>to_b256\<close>, \<open>U256::from_be_bytes\<close>) are identities here.
\<close>

definition DEPOSIT_COMMITMENT_MAPPING_SLOT :: u64 where
  "DEPOSIT_COMMITMENT_MAPPING_SLOT = 12"

definition FINALITY_TRANSITION_COMMITMENT_DOMAIN :: bytes where
  "FINALITY_TRANSITION_COMMITMENT_DOMAIN = ascii ''USDD_ETH_FINALITY_TRANSITION_V1''"

record ('n, 'e) trie_library =
  keccak256 :: "bytes \<Rightarrow> hash32"
  rlp_account :: "u64 \<Rightarrow> hash32 \<Rightarrow> hash32 \<Rightarrow> hash32 \<Rightarrow> bytes"
  rlp_u256 :: "hash32 \<Rightarrow> bytes"
  nibbles_unpack :: "bytes \<Rightarrow> 'n"
  verify_proof :: "hash32 \<Rightarrow> 'n \<Rightarrow> bytes option \<Rightarrow> bytes list \<Rightarrow> 'e + unit"

datatype 'p inbound_proof =
    DepositProof 'p vault_storage_witness
  | HeartbeatProof 'p

record finality_transition =
  eft_manifest :: manifest
  eft_prior_state :: controller
  eft_next :: finality_witness

definition transition_preimage :: "hash32 \<Rightarrow> finality_transition \<Rightarrow> bytes option" where
  "transition_preimage mid t = enc_seq
     [Some FINALITY_TRANSITION_COMMITMENT_DOMAIN,
      Some (enc_u16 ENCODING_SCHEMA),
      Some (enc_hash32 mid),
      enc_vec (enc_controller (eft_prior_state t)),
      enc_vec (enc_finality_witness (eft_next t))]"

definition transition_commitment ::
  "(bytes \<Rightarrow> hash32) \<Rightarrow> finality_transition \<Rightarrow> inbound_error + hash32" where
  "transition_commitment H t =
     and_then (map_err (\<lambda>_. InvalidManifest) (manifest_id H (eft_manifest t))) (\<lambda>mid.
       Inr (hash_bytes H (expect (transition_preimage mid t))))"

datatype finality_error = Rejected

type_synonym 'p finality_verifier = "finality_transition \<Rightarrow> 'p \<Rightarrow> finality_error + unit"

record verified_batch =
  vb_execution_state_root :: hash32
  vb_first_nonce :: u64
  vb_next_nonce :: u64
  vb_total_usdt_micro :: u64
  vb_deposit_ids :: "hash32 list"
  vb_storage_keys :: "hash32 list"

subsection \<open>Checks before any proof is read\<close>

definition validate_transition_shape ::
  "(bytes \<Rightarrow> hash32) \<Rightarrow> manifest \<Rightarrow> controller \<Rightarrow> finality_witness \<Rightarrow> inbound_error + unit" where
  "validate_transition_shape H m prior finality =
     and_then (map_err (\<lambda>_. InvalidManifest) (pm_validate H m)) (\<lambda>_.
     and_then (map_err (\<lambda>_. InvalidControllerState) (mc_validate prior)) (\<lambda>_.
     and_then (map_err (\<lambda>_. InvalidFinality) (fw_validate finality)) (\<lambda>_.
     if mc_configuration_hash prior \<noteq> pm_controller_configuration_hash m
       \<or> fw_finalized_beacon_slot finality < mc_finalized_beacon_slot prior
       \<or> MAX_ETHEREUM_FINALITY_SLOT_GAP
           < saturating_sub (fw_finalized_beacon_slot finality) (mc_finalized_beacon_slot prior)
       \<or> (fw_finalized_beacon_slot finality = mc_finalized_beacon_slot prior
          \<and> (fw_ethereum_light_client_digest finality \<noteq> mc_ethereum_light_client_digest prior
             \<or> fw_finalized_beacon_root finality \<noteq> mc_finalized_beacon_root prior
             \<or> fw_finalized_execution_state_root finality
                 \<noteq> mc_finalized_execution_state_root prior))
       \<or> (mc_finalized_beacon_slot prior < fw_finalized_beacon_slot finality
          \<and> fw_ethereum_light_client_digest finality = mc_ethereum_light_client_digest prior)
     then Inl InvalidFinality
     else Inr ())))"

definition check_batch_deposit ::
  "manifest \<Rightarrow> controller \<Rightarrow> nat \<times> vault_deposit \<Rightarrow> inbound_error + unit" where
  "check_batch_deposit m prior item =
     (case item of (offset, deposit) \<Rightarrow>
      and_then (map_err (\<lambda>_. InvalidDeposit) (vd_validate deposit)) (\<lambda>_.
      and_then (ok_or (checked_add (mc_next_mint_nonce prior) (of_nat offset))
        NonConsecutiveDepositNonce) (\<lambda>expected_nonce.
      if vd_ethereum_chain_id deposit \<noteq> pm_ethereum_chain_id m
        \<or> vd_vault deposit \<noteq> pm_vault m
        \<or> vd_usdt deposit \<noteq> pm_usdt m
        \<or> vd_nonce deposit \<noteq> expected_nonce
      then Inl (if vd_nonce deposit \<noteq> expected_nonce then NonConsecutiveDepositNonce
                else WrongDepositTarget)
      else Inr ())))"

definition validate_deposit_batch ::
  "(bytes \<Rightarrow> hash32) \<Rightarrow> manifest \<Rightarrow> controller \<Rightarrow> vault_deposit list \<Rightarrow> inbound_error + unit" where
  "validate_deposit_batch H m prior deposits =
     (if deposits = [] then Inl EmptyDepositBatch
      else if MAX_MINT_BATCH_SIZE < length deposits then Inl TooManyDeposits
      else and_then (try_fold (\<lambda>_. check_batch_deposit m prior) () (List.enumerate 0 deposits)) (\<lambda>_.
           and_then (map_err (\<lambda>_. InvalidDeposit) (mb_from_deposits H deposits)) (\<lambda>_. Inr ())))"

subsection \<open>Trie proofs\<close>

definition account_value ::
  "('n, 'e) trie_library \<Rightarrow> vault_account_witness \<Rightarrow> bytes" where
  "account_value L w =
     rlp_account L (vaw_nonce w) (vaw_balance_be w) (vaw_storage_root w) (vaw_code_hash w)"

definition account_path :: "('n, 'e) trie_library \<Rightarrow> manifest \<Rightarrow> 'n" where
  "account_path L m = nibbles_unpack L (enc_hash32 (keccak256 L (enc_address (pm_vault m))))"

definition verify_vault_account ::
  "('n, 'e) trie_library \<Rightarrow> hash32 \<Rightarrow> manifest \<Rightarrow> vault_account_witness
     \<Rightarrow> inbound_error + unit" where
  "verify_vault_account L state_root m w =
     (if vaw_storage_root w = 0 \<or> vaw_code_hash w = 0 then Inl InvalidVaultAccount
      else if vaw_code_hash w \<noteq> pm_vault_code_hash m then Inl VaultCodeHashMismatch
      else map_err (\<lambda>_. AccountProofRejected)
        (verify_proof L state_root (account_path L m) (Some (account_value L w))
          (vaw_proof_nodes w)))"

definition storage_key_preimage :: "u64 \<Rightarrow> bytes" where
  "storage_key_preimage nonce = concat
     [replicate 24 0, to_be_bytes 8 nonce,
      replicate 24 0, to_be_bytes 8 DEPOSIT_COMMITMENT_MAPPING_SLOT]"

definition deposit_commitment_storage_key :: "('n, 'e) trie_library \<Rightarrow> u64 \<Rightarrow> hash32" where
  "deposit_commitment_storage_key L nonce = keccak256 L (storage_key_preimage nonce)"

definition storage_path :: "('n, 'e) trie_library \<Rightarrow> hash32 \<Rightarrow> 'n" where
  "storage_path L key = nibbles_unpack L (enc_hash32 (keccak256 L (enc_hash32 key)))"

definition verify_storage_value ::
  "('n, 'e) trie_library \<Rightarrow> hash32 \<Rightarrow> hash32 \<Rightarrow> hash32 \<Rightarrow> bytes list \<Rightarrow> unit + unit" where
  "verify_storage_value L storage_root storage_key v nodes =
     map_err (\<lambda>_. ()) (verify_proof L storage_root (storage_path L storage_key)
       (Some (rlp_u256 L v)) nodes)"

subsection \<open>The verifications\<close>

definition verify_finalized_heartbeat ::
  "(bytes \<Rightarrow> hash32) \<Rightarrow> 'p finality_verifier \<Rightarrow> manifest \<Rightarrow> controller \<Rightarrow> finality_witness
     \<Rightarrow> 'p \<Rightarrow> inbound_error + unit" where
  "verify_finalized_heartbeat H F m prior finality p =
     and_then (validate_transition_shape H m prior finality) (\<lambda>_.
     if fw_finalized_beacon_slot finality \<le> mc_finalized_beacon_slot prior
     then Inl InvalidFinality
     else map_err (\<lambda>_. FinalityRejected)
       (F \<lparr>eft_manifest = m, eft_prior_state = prior, eft_next = finality\<rparr> p))"

record batch_scan =
  bsc_deposit_ids :: "hash32 list"
  bsc_storage_keys :: "hash32 list"
  bsc_total_usdt_micro :: u64

definition verify_deposit_step ::
  "(bytes \<Rightarrow> hash32) \<Rightarrow> ('n, 'e) trie_library \<Rightarrow> hash32 \<Rightarrow> batch_scan
     \<Rightarrow> nat \<times> vault_deposit \<times> deposit_storage_proof \<Rightarrow> inbound_error + batch_scan" where
  "verify_deposit_step H L storage_root sc item =
     (case item of (index, deposit, storage_proof) \<Rightarrow>
      let did = deposit_id H deposit
      in if did = 0 then Inl ZeroDepositCommitment
         else let storage_key = deposit_commitment_storage_key L (vd_nonce deposit)
         in and_then (map_err (\<lambda>_. StorageProofRejected index)
              (verify_storage_value L storage_root storage_key did
                (dsp_proof_nodes storage_proof))) (\<lambda>_.
            and_then (ok_or (checked_add (bsc_total_usdt_micro sc) (vd_usdt_amount_micro deposit))
              AmountOverflow) (\<lambda>t.
            Inr \<lparr>bsc_deposit_ids = bsc_deposit_ids sc @ [did],
                 bsc_storage_keys = bsc_storage_keys sc @ [storage_key],
                 bsc_total_usdt_micro = t\<rparr>)))"

definition verify_finalized_deposit_batch ::
  "(bytes \<Rightarrow> hash32) \<Rightarrow> ('n, 'e) trie_library \<Rightarrow> 'p finality_verifier \<Rightarrow> manifest \<Rightarrow> controller
     \<Rightarrow> finality_witness \<Rightarrow> vault_deposit list \<Rightarrow> 'p \<Rightarrow> vault_storage_witness
     \<Rightarrow> inbound_error + verified_batch" where
  "verify_finalized_deposit_batch H L F m prior finality deposits finality_proof w =
     and_then (validate_transition_shape H m prior finality) (\<lambda>_.
     and_then (validate_deposit_batch H m prior deposits) (\<lambda>_.
     if length (vsw_deposits w) \<noteq> length deposits then Inl StorageProofCountMismatch
     else and_then (validate_limits w) (\<lambda>_.
     and_then (map_err (\<lambda>_. FinalityRejected)
       (F \<lparr>eft_manifest = m, eft_prior_state = prior, eft_next = finality\<rparr> finality_proof)) (\<lambda>_.
     and_then (verify_vault_account L (fw_finalized_execution_state_root finality) m
       (vsw_account w)) (\<lambda>_.
     and_then (try_fold (verify_deposit_step H L (vaw_storage_root (vsw_account w)))
         \<lparr>bsc_deposit_ids = [], bsc_storage_keys = [], bsc_total_usdt_micro = 0\<rparr>
         (List.enumerate 0 (zip deposits (vsw_deposits w)))) (\<lambda>sc.
     and_then (ok_or (checked_add (mc_next_mint_nonce prior) (of_nat (length deposits)))
       NonConsecutiveDepositNonce) (\<lambda>next_nonce.
     Inr \<lparr>vb_execution_state_root = fw_finalized_execution_state_root finality,
          vb_first_nonce = mc_next_mint_nonce prior,
          vb_next_nonce = next_nonce,
          vb_total_usdt_micro = bsc_total_usdt_micro sc,
          vb_deposit_ids = bsc_deposit_ids sc,
          vb_storage_keys = bsc_storage_keys sc\<rparr>)))))))"

subsection \<open>The adapter\<close>

fun map_proof_error :: "inbound_error \<Rightarrow> verification_error" where
  "map_proof_error FinalityRejected = InvalidProof ''Ethereum finality transition rejected''"
| "map_proof_error AccountProofRejected = InvalidProof ''vault account proof rejected''"
| "map_proof_error (StorageProofRejected _) =
     InvalidProof ''vault deposit storage proof rejected''"
| "map_proof_error _ = InvalidProof ''invalid Ethereum inbound proof witness''"

definition inbound_deposits ::
  "(bytes \<Rightarrow> hash32) \<Rightarrow> ('n, 'e) trie_library \<Rightarrow> 'p finality_verifier
     \<Rightarrow> (deposit_claim, 'p inbound_proof) verifier" where
  "inbound_deposits H L F m c p =
     (case p of
        HeartbeatProof _ \<Rightarrow> Inl (InvalidProof ''heartbeat proof supplied for deposit statement'')
      | DepositProof finality_proof vault_storage \<Rightarrow>
          map_err map_proof_error
            (map_sum id (\<lambda>_. ()) (verify_finalized_deposit_batch H L F m (dc_prior_state c)
              (dc_finality c) (dc_deposits c) finality_proof vault_storage)))"

definition inbound_heartbeat ::
  "(bytes \<Rightarrow> hash32) \<Rightarrow> 'p finality_verifier \<Rightarrow> (heartbeat_claim, 'p inbound_proof) verifier"
where
  "inbound_heartbeat H F m c p =
     (case p of
        DepositProof _ _ \<Rightarrow> Inl (InvalidProof ''deposit proof supplied for heartbeat statement'')
      | HeartbeatProof finality_proof \<Rightarrow>
          map_err map_proof_error (verify_finalized_heartbeat H F m (hc_prior_state c)
            (hc_finality c) finality_proof))"

subsection \<open>What the checks establish\<close>

lemma saturating_gap:
  "unat b \<le> unat a \<Longrightarrow> MAX_ETHEREUM_FINALITY_SLOT_GAP < saturating_sub a b \<longleftrightarrow>
     unat b + 4096 < unat a"
  by (auto simp: word_less_nat_alt unat_saturating_sub)

lemma validate_transition_shape_ok [ok_iff]:
  "validate_transition_shape H m c w = Inr u \<longleftrightarrow>
     pm_validate H m = Inr () \<and> mc_validate c = Inr () \<and> fw_validate w = Inr ()
     \<and> mc_configuration_hash c = pm_controller_configuration_hash m \<and> finality_advances c w"
proof -
  let ?s = "fw_finalized_beacon_slot w" and ?p = "mc_finalized_beacon_slot c"
  let ?same = "fw_ethereum_light_client_digest w = mc_ethereum_light_client_digest c
      \<and> fw_finalized_beacon_root w = mc_finalized_beacon_root c
      \<and> fw_finalized_execution_state_root w = mc_finalized_execution_state_root c"
  have advance: "\<not> (?s < ?p \<or> MAX_ETHEREUM_FINALITY_SLOT_GAP < saturating_sub ?s ?p
        \<or> (?s = ?p \<and> \<not> ?same)
        \<or> (?p < ?s \<and> fw_ethereum_light_client_digest w = mc_ethereum_light_client_digest c))
      \<longleftrightarrow> finality_advances c w"
    if "fw_validate w = Inr ()"
  proof (cases "unat ?p \<le> unat ?s")
    case True
    have "?s \<noteq> 0" using that by (simp add: fw_validate_ok)
    moreover have "?s = ?p \<or> unat ?p < unat ?s" using True by (auto simp: word_unat_eq_iff)
    ultimately show ?thesis
      using True unfolding saturating_gap [OF True]
      unfolding finality_advances_def word_less_nat_alt by auto
  qed (simp add: finality_advances_def word_less_nat_alt)
  show ?thesis
    unfolding validate_transition_shape_def and_then_Inr map_err_Inr if_Inl_Inr ex_unit
    by (cases u) (use advance in blast)
qed

lemma check_batch_fold:
  "k + length vs < 2 ^ 64 \<Longrightarrow>
     try_fold (\<lambda>_. check_batch_deposit m prior) () (List.enumerate k vs) = Inr () \<longleftrightarrow>
       (\<forall>v \<in> set vs. vd_validate v = Inr ()) \<and> list_all (targets_vault m) vs
       \<and> numbered vd_nonce (unat (mc_next_mint_nonce prior) + k) vs"
proof (induction vs arbitrary: k)
  case Nil
  then show ?case by simp
next
  case (Cons v vs)
  have k: "unat (of_nat k :: u64) = k" using Cons.prems by (intro unat_of_nat_u64) simp
  have "check_batch_deposit m prior (k, v) = Inr () \<longleftrightarrow> vd_validate v = Inr ()
      \<and> targets_vault m v \<and> unat (vd_nonce v) = unat (mc_next_mint_nonce prior) + k"
    by (auto simp: check_batch_deposit_def and_then_Inr ok_or_Inr map_err_Inr if_Inl_Inr
        checked_add_Some k targets_vault_def)
  then show ?case
    using Cons.IH [of "Suc k"] Cons.prems by (auto simp: and_then_Inr)
qed

lemma validate_deposit_batch_ok [ok_iff]:
  "validate_deposit_batch H m prior vs = Inr u \<longleftrightarrow>
     deposits_ok vs \<and> vd_nonce (hd vs) = mc_next_mint_nonce prior \<and> list_all (targets_vault m) vs"
proof (cases "vs \<noteq> [] \<and> length vs \<le> 64")
  case True
  then have len: "0 + length vs < 2 ^ 64" by simp
  have hd: "vd_nonce (hd vs) = n" if "numbered vd_nonce (unat n) vs" for n
    using True that by (cases vs) (auto simp: unat_eq_iff)
  have ok: "(\<forall>v \<in> set vs. vd_validate v = Inr ())
      \<and> numbered vd_nonce (unat (vd_nonce (hd vs))) vs" if "deposits_ok vs"
    using that by (simp add: deposits_ok_def)
  have "validate_deposit_batch H m prior vs = Inr u \<longleftrightarrow>
      (\<forall>v \<in> set vs. vd_validate v = Inr ()) \<and> list_all (targets_vault m) vs
      \<and> numbered vd_nonce (unat (mc_next_mint_nonce prior)) vs
      \<and> (\<exists>b. mb_from_deposits H vs = Inr b)"
    using True check_batch_fold [OF len, of m prior]
    by (auto simp: validate_deposit_batch_def MAX_MINT_BATCH_SIZE_def and_then_Inr map_err_Inr)
  moreover have "(\<exists>b. mb_from_deposits H vs = Inr b) \<longleftrightarrow> deposits_ok vs"
    using mb_from_deposits_total unfolding mb_from_deposits_ok by blast
  ultimately show ?thesis
    using hd ok by metis
qed (auto simp: validate_deposit_batch_def MAX_MINT_BATCH_SIZE_def deposits_ok_def)

definition deposit_proven ::
  "(bytes \<Rightarrow> hash32) \<Rightarrow> ('n, 'e) trie_library \<Rightarrow> hash32 \<Rightarrow> vault_deposit \<times> deposit_storage_proof
     \<Rightarrow> bool" where
  "deposit_proven H L storage_root item =
     (case item of (v, s) \<Rightarrow> deposit_id H v \<noteq> 0
      \<and> verify_proof L storage_root
          (storage_path L (deposit_commitment_storage_key L (vd_nonce v)))
          (Some (rlp_u256 L (deposit_id H v))) (dsp_proof_nodes s) = Inr ())"

definition account_proven ::
  "('n, 'e) trie_library \<Rightarrow> hash32 \<Rightarrow> manifest \<Rightarrow> vault_account_witness \<Rightarrow> bool" where
  "account_proven L state_root m w \<longleftrightarrow> vaw_storage_root w \<noteq> 0 \<and> vaw_code_hash w \<noteq> 0
     \<and> vaw_code_hash w = pm_vault_code_hash m
     \<and> verify_proof L state_root (account_path L m) (Some (account_value L w))
         (vaw_proof_nodes w) = Inr ()"

lemma verify_vault_account_ok [ok_iff]:
  "verify_vault_account L root m w = Inr u \<longleftrightarrow> account_proven L root m w"
  by (auto simp: verify_vault_account_def account_proven_def map_err_Inr if_Inl_Inr)

lemma verify_deposit_step_ok:
  "verify_deposit_step H L root sc (i, v, s) = Inr sc' \<longleftrightarrow>
     deposit_proven H L root (v, s)
     \<and> bsc_deposit_ids sc' = bsc_deposit_ids sc @ [deposit_id H v]
     \<and> bsc_storage_keys sc' =
         bsc_storage_keys sc @ [deposit_commitment_storage_key L (vd_nonce v)]
     \<and> unat (bsc_total_usdt_micro sc') =
         unat (bsc_total_usdt_micro sc) + unat (vd_usdt_amount_micro v)"
  by (cases sc') (auto simp: verify_deposit_step_def deposit_proven_def verify_storage_value_def
      Let_def and_then_Inr map_err_Inr ok_or_Inr if_Inl_Inr checked_add_Some)

lemma verify_deposit_fold:
  "try_fold (verify_deposit_step H L root) sc (List.enumerate k ps) = Inr sc' \<longleftrightarrow>
     list_all (deposit_proven H L root) ps
     \<and> bsc_deposit_ids sc' = bsc_deposit_ids sc @ map (\<lambda>(v, s). deposit_id H v) ps
     \<and> bsc_storage_keys sc' =
         bsc_storage_keys sc @ map (\<lambda>(v, s). deposit_commitment_storage_key L (vd_nonce v)) ps
     \<and> unat (bsc_total_usdt_micro sc') =
         unat (bsc_total_usdt_micro sc) + total (\<lambda>(v, s). vd_usdt_amount_micro v) ps"
proof (induction ps arbitrary: sc k)
  case Nil
  then show ?case by (cases sc; cases sc') (auto simp: unat_eq_iff)
next
  case (Cons p ps)
  obtain v s where p: "p = (v, s)" by (cases p)
  show ?case (is "?lhs \<longleftrightarrow> ?rhs")
  proof
    assume ?lhs
    then obtain sc1 where "verify_deposit_step H L root sc (k, v, s) = Inr sc1"
      "try_fold (verify_deposit_step H L root) sc1 (List.enumerate (Suc k) ps) = Inr sc'"
      by (auto simp: and_then_Inr p)
    then show ?rhs unfolding verify_deposit_step_ok Cons.IH p by auto
  next
    assume R: ?rhs
    then have "unat (bsc_total_usdt_micro sc) + unat (vd_usdt_amount_micro v) < 2 ^ 64"
      using unat_bound [of "bsc_total_usdt_micro sc'"] by (simp add: p)
    then have "\<exists>t :: u64. unat t = unat (bsc_total_usdt_micro sc) + unat (vd_usdt_amount_micro v)"
      by (intro exI [of _ "of_nat (unat (bsc_total_usdt_micro sc) + unat (vd_usdt_amount_micro v))"]
          unat_of_nat_u64)
    then obtain t :: u64 where "unat t = unat (bsc_total_usdt_micro sc) + unat (vd_usdt_amount_micro v)"
      by blast
    then have "verify_deposit_step H L root sc (k, v, s) =
        Inr \<lparr>bsc_deposit_ids = bsc_deposit_ids sc @ [deposit_id H v],
             bsc_storage_keys = bsc_storage_keys sc @ [deposit_commitment_storage_key L (vd_nonce v)],
             bsc_total_usdt_micro = t\<rparr>" (is "_ = Inr ?sc1")
      unfolding verify_deposit_step_ok using R by (simp add: p)
    moreover have "try_fold (verify_deposit_step H L root) ?sc1 (List.enumerate (Suc k) ps) = Inr sc'"
      unfolding Cons.IH using R \<open>unat t = _\<close> by (simp add: p)
    ultimately show ?lhs
      by (simp add: p)
  qed
qed

subsection \<open>The deposit batch\<close>

text \<open>What the witness and the finality proof must show of a well-formed batch.\<close>

definition batch_evidence ::
  "(bytes \<Rightarrow> hash32) \<Rightarrow> ('n, 'e) trie_library \<Rightarrow> 'p finality_verifier \<Rightarrow> manifest \<Rightarrow> controller
     \<Rightarrow> finality_witness \<Rightarrow> vault_deposit list \<Rightarrow> 'p \<Rightarrow> vault_storage_witness \<Rightarrow> bool" where
  "batch_evidence H L F m prior finality vs fp w \<longleftrightarrow>
     length (vsw_deposits w) = length vs \<and> witness_ok w
     \<and> F \<lparr>eft_manifest = m, eft_prior_state = prior, eft_next = finality\<rparr> fp = Inr ()
     \<and> account_proven L (fw_finalized_execution_state_root finality) m (vsw_account w)
     \<and> list_all (deposit_proven H L (vaw_storage_root (vsw_account w))) (zip vs (vsw_deposits w))"

definition batch_accepted ::
  "(bytes \<Rightarrow> hash32) \<Rightarrow> manifest \<Rightarrow> controller \<Rightarrow> finality_witness \<Rightarrow> vault_deposit list \<Rightarrow> bool" where
  "batch_accepted H m prior finality vs \<longleftrightarrow>
     pm_validate H m = Inr () \<and> mc_validate prior = Inr () \<and> fw_validate finality = Inr ()
     \<and> mc_configuration_hash prior = pm_controller_configuration_hash m
     \<and> finality_advances prior finality
     \<and> deposits_ok vs \<and> vd_nonce (hd vs) = mc_next_mint_nonce prior
     \<and> list_all (targets_vault m) vs"

definition batch_result ::
  "(bytes \<Rightarrow> hash32) \<Rightarrow> ('n, 'e) trie_library \<Rightarrow> controller \<Rightarrow> finality_witness
     \<Rightarrow> vault_deposit list \<Rightarrow> verified_batch \<Rightarrow> bool" where
  "batch_result H L prior finality vs r \<longleftrightarrow>
     vb_execution_state_root r = fw_finalized_execution_state_root finality
     \<and> vb_first_nonce r = mc_next_mint_nonce prior
     \<and> unat (vb_next_nonce r) = unat (mc_next_mint_nonce prior) + length vs
     \<and> unat (vb_total_usdt_micro r) = total vd_usdt_amount_micro vs
     \<and> vb_deposit_ids r = map (deposit_id H) vs
     \<and> vb_storage_keys r = map (\<lambda>v. deposit_commitment_storage_key L (vd_nonce v)) vs"

lemma zip_firsts:
  assumes "length ss = length vs"
  shows "map (\<lambda>(v, s). f v) (zip vs ss) = map f vs"
    and "total (\<lambda>(v, s). g v) (zip vs ss) = total g vs"
  using assms by (induction ss vs rule: list_induct2) simp_all

lemma ex_batch_scan:
  "(\<exists>sc :: batch_scan. bsc_deposit_ids sc = ids \<and> bsc_storage_keys sc = keys
      \<and> unat (bsc_total_usdt_micro sc) = n \<and> P sc) \<longleftrightarrow>
   (\<exists>t. unat t = n \<and> P \<lparr>bsc_deposit_ids = ids, bsc_storage_keys = keys,
      bsc_total_usdt_micro = t\<rparr>)"
proof
  assume "\<exists>sc :: batch_scan. bsc_deposit_ids sc = ids \<and> bsc_storage_keys sc = keys
      \<and> unat (bsc_total_usdt_micro sc) = n \<and> P sc"
  then obtain sc :: batch_scan where "bsc_deposit_ids sc = ids" "bsc_storage_keys sc = keys"
    "unat (bsc_total_usdt_micro sc) = n" "P sc" by blast
  then show "\<exists>t. unat t = n \<and> P \<lparr>bsc_deposit_ids = ids, bsc_storage_keys = keys,
      bsc_total_usdt_micro = t\<rparr>"
    by (cases sc) auto
next
  assume "\<exists>t. unat t = n \<and> P \<lparr>bsc_deposit_ids = ids, bsc_storage_keys = keys,
      bsc_total_usdt_micro = t\<rparr>"
  then obtain t where "unat t = n" "P \<lparr>bsc_deposit_ids = ids, bsc_storage_keys = keys,
      bsc_total_usdt_micro = t\<rparr>" by blast
  then show "\<exists>sc :: batch_scan. bsc_deposit_ids sc = ids \<and> bsc_storage_keys sc = keys
      \<and> unat (bsc_total_usdt_micro sc) = n \<and> P sc"
    by (intro exI [of _ "\<lparr>bsc_deposit_ids = ids, bsc_storage_keys = keys,
      bsc_total_usdt_micro = t\<rparr>"]) simp
qed

lemma verify_batch_ok [ok_iff]:
  "verify_finalized_deposit_batch H L F m prior finality vs fp w = Inr r \<longleftrightarrow>
     batch_accepted H m prior finality vs \<and> batch_evidence H L F m prior finality vs fp w
     \<and> batch_result H L prior finality vs r"
proof (cases "length (vsw_deposits w) = length vs \<and> deposits_ok vs")
  case True
  then have len: "length (vsw_deposits w) = length vs"
    and small: "length vs \<le> 64" by (simp_all add: deposits_ok_def)
  have n: "unat (of_nat (length vs) :: u64) = length vs" using small by (intro unat_of_nat_u64) simp
  have scan: "try_fold (verify_deposit_step H L root)
        \<lparr>bsc_deposit_ids = [], bsc_storage_keys = [], bsc_total_usdt_micro = 0\<rparr>
        (List.enumerate 0 (zip vs (vsw_deposits w))) = Inr sc \<longleftrightarrow>
      list_all (deposit_proven H L root) (zip vs (vsw_deposits w))
      \<and> bsc_deposit_ids sc = map (deposit_id H) vs
      \<and> bsc_storage_keys sc = map (\<lambda>v. deposit_commitment_storage_key L (vd_nonce v)) vs
      \<and> unat (bsc_total_usdt_micro sc) = total vd_usdt_amount_micro vs" for root sc
    unfolding verify_deposit_fold by (simp add: zip_firsts [OF len])
  have "verify_finalized_deposit_batch H L F m prior finality vs fp w = Inr r \<longleftrightarrow>
      batch_accepted H m prior finality vs \<and> batch_evidence H L F m prior finality vs fp w
      \<and> (\<exists>sc :: batch_scan. bsc_deposit_ids sc = map (deposit_id H) vs
         \<and> bsc_storage_keys sc = map (\<lambda>v. deposit_commitment_storage_key L (vd_nonce v)) vs
         \<and> unat (bsc_total_usdt_micro sc) = total vd_usdt_amount_micro vs
         \<and> (\<exists>k. unat k = unat (mc_next_mint_nonce prior) + length vs
         \<and> \<lparr>vb_execution_state_root = fw_finalized_execution_state_root finality,
            vb_first_nonce = mc_next_mint_nonce prior, vb_next_nonce = k,
            vb_total_usdt_micro = bsc_total_usdt_micro sc, vb_deposit_ids = bsc_deposit_ids sc,
            vb_storage_keys = bsc_storage_keys sc\<rparr> = r))"
    unfolding verify_finalized_deposit_batch_def and_then_Inr map_err_Inr ok_or_Inr if_Inl_Inr
      ex_unit validate_transition_shape_ok validate_deposit_batch_ok validate_limits_ok
      verify_vault_account_ok scan checked_add_Some n batch_accepted_def batch_evidence_def
      sum.inject len simp_thms conj_assoc ex_simps
    by (rule TrueI)
  then show ?thesis
    unfolding ex_batch_scan by (cases r) (auto simp: batch_result_def)
qed (auto simp: verify_finalized_deposit_batch_def and_then_Inr if_Inl_Inr validate_deposit_batch_ok
    batch_accepted_def batch_evidence_def)

lemma batch_result_exists:
  assumes "batch_accepted H m prior finality vs"
  shows "\<exists>r. batch_result H L prior finality vs r"
proof -
  have "unat (vd_nonce (hd vs)) + length vs < 2 ^ 64" "total vd_usdt_amount_micro vs < 2 ^ 64"
    "vd_nonce (hd vs) = mc_next_mint_nonce prior"
    using assms by (auto simp: batch_accepted_def deposits_ok_def)
  then show ?thesis
    by (intro exI [of _ "\<lparr>vb_execution_state_root = fw_finalized_execution_state_root finality,
          vb_first_nonce = mc_next_mint_nonce prior,
          vb_next_nonce = of_nat (unat (mc_next_mint_nonce prior) + length vs),
          vb_total_usdt_micro = of_nat (total vd_usdt_amount_micro vs),
          vb_deposit_ids = map (deposit_id H) vs,
          vb_storage_keys = map (\<lambda>v. deposit_commitment_storage_key L (vd_nonce v)) vs\<rparr>"])
      (simp add: batch_result_def unat_of_nat_u64 del: of_nat_add)
qed

subsection \<open>Journals built with the adapter\<close>

lemma inbound_deposits_ok:
  "inbound_deposits H L F m c p = Inr u \<longleftrightarrow>
     batch_accepted H m (dc_prior_state c) (dc_finality c) (dc_deposits c)
     \<and> (\<exists>fp w. p = DepositProof fp w
         \<and> batch_evidence H L F m (dc_prior_state c) (dc_finality c) (dc_deposits c) fp w)"
proof (cases p)
  case (DepositProof fp w)
  have "inbound_deposits H L F m c p = Inr u \<longleftrightarrow>
      (\<exists>r. verify_finalized_deposit_batch H L F m (dc_prior_state c) (dc_finality c) (dc_deposits c) fp w = Inr r)"
    unfolding inbound_deposits_def DepositProof
    by (cases "verify_finalized_deposit_batch H L F m (dc_prior_state c) (dc_finality c) (dc_deposits c) fp w")
      simp_all
  then show ?thesis unfolding verify_batch_ok DepositProof using batch_result_exists by blast
qed (simp add: inbound_deposits_def)

lemma inbound_heartbeat_ok:
  "inbound_heartbeat H F m c p = Inr u \<longleftrightarrow>
     pm_validate H m = Inr () \<and> mc_validate (hc_prior_state c) = Inr ()
     \<and> fw_validate (hc_finality c) = Inr ()
     \<and> mc_configuration_hash (hc_prior_state c) = pm_controller_configuration_hash m
     \<and> finality_advances (hc_prior_state c) (hc_finality c)
     \<and> mc_finalized_beacon_slot (hc_prior_state c) < fw_finalized_beacon_slot (hc_finality c)
     \<and> (\<exists>fp. p = HeartbeatProof fp \<and> F \<lparr>eft_manifest = m, eft_prior_state = hc_prior_state c,
          eft_next = hc_finality c\<rparr> fp = Inr ())"
  by (cases p) (auto simp: inbound_heartbeat_def verify_finalized_heartbeat_def and_then_Inr
      map_err_Inr if_Inl_Inr validate_transition_shape_ok)

lemma inbound_deposit_journal:
  "build_deposit_journal H (inbound_deposits H L F) m c p = Inr j \<longleftrightarrow>
     pm_validate H m = Inr () \<and> manifest_id H m = Inr (dc_manifest_id c)
     \<and> mc_configuration_hash (dc_prior_state c) = pm_controller_configuration_hash m
     \<and> list_all (targets_vault m) (dc_deposits c)
     \<and> (\<exists>fp w. p = DepositProof fp w
         \<and> batch_evidence H L F m (dc_prior_state c) (dc_finality c) (dc_deposits c) fp w)
     \<and> (\<exists>b n. mb_from_deposits H (dc_deposits c) = Inr b
         \<and> apply_mint_batch (dc_prior_state c) b (dc_finality c) = Inr n
         \<and> commits H j (pm_ethereum_guest_program_id m)
             (TypedDeposit (deposit_output_of H c b n)))"
proof -
  have "batch_accepted H m (dc_prior_state c) (dc_finality c) (dc_deposits c)"
    if "pm_validate H m = Inr ()"
      "mc_configuration_hash (dc_prior_state c) = pm_controller_configuration_hash m"
      "\<forall>v \<in> set (dc_deposits c). targets_vault m v"
      "mb_from_deposits H (dc_deposits c) = Inr b"
      "apply_mint_batch (dc_prior_state c) b (dc_finality c) = Inr n" for b n
    using that by (simp add: batch_accepted_def mb_from_deposits_ok apply_mint_batch_ok list_all_iff)
  then show ?thesis unfolding build_deposit_ok inbound_deposits_ok list_all_iff by blast
qed

lemma inbound_heartbeat_journal:
  "build_heartbeat_journal H (inbound_heartbeat H F) m c p = Inr j \<longleftrightarrow>
     pm_validate H m = Inr () \<and> manifest_id H m = Inr (hc_manifest_id c)
     \<and> mc_configuration_hash (hc_prior_state c) = pm_controller_configuration_hash m
     \<and> (\<exists>fp. p = HeartbeatProof fp \<and> F \<lparr>eft_manifest = m, eft_prior_state = hc_prior_state c,
          eft_next = hc_finality c\<rparr> fp = Inr ())
     \<and> (\<exists>n. apply_heartbeat (hc_prior_state c) (hc_finality c) = Inr n
         \<and> commits H j (pm_ethereum_guest_program_id m)
             (TypedHeartbeat (heartbeat_output_of H c n)))"
  unfolding build_heartbeat_ok inbound_heartbeat_ok apply_heartbeat_ok by blast

subsection \<open>Which error\<close>

lemma ex_less_Suc_cases: "(\<exists>i < Suc n. P i) \<longleftrightarrow> P 0 \<or> (\<exists>i < n. P (Suc i))"
  using less_Suc_eq_0_disj by auto

lemma verify_deposit_step_Inl:
  "verify_deposit_step H L root sc (i, v, s) = Inl e \<longleftrightarrow>
     (deposit_id H v = 0 \<and> e = ZeroDepositCommitment)
     \<or> (deposit_id H v \<noteq> 0 \<and> \<not> deposit_proven H L root (v, s) \<and> e = StorageProofRejected i)
     \<or> (deposit_proven H L root (v, s) \<and> e = AmountOverflow
        \<and> checked_add (bsc_total_usdt_micro sc) (vd_usdt_amount_micro v) = None)"
proof (cases "verify_proof L root (storage_path L (deposit_commitment_storage_key L (vd_nonce v)))
    (Some (rlp_u256 L (deposit_id H v))) (dsp_proof_nodes s)")
  case (Inr u)
  then show ?thesis
    by (cases "checked_add (bsc_total_usdt_micro sc) (vd_usdt_amount_micro v)")
      (auto simp: verify_deposit_step_def verify_storage_value_def deposit_proven_def Let_def)
qed (auto simp: verify_deposit_step_def verify_storage_value_def deposit_proven_def Let_def)

text \<open>
  The failing deposit: the error of the loop names the first pair that is not proven, provided
  the amounts cannot overflow.
\<close>

lemma verify_deposit_fold_Inl:
  assumes "unat (bsc_total_usdt_micro sc) + total (\<lambda>(v, s). vd_usdt_amount_micro v) ps < 2 ^ 64"
  shows "try_fold (verify_deposit_step H L root) sc (List.enumerate k ps) = Inl e \<longleftrightarrow>
     (\<exists>i < length ps. list_all (deposit_proven H L root) (take i ps)
        \<and> \<not> deposit_proven H L root (ps ! i)
        \<and> e = (if deposit_id H (fst (ps ! i)) = 0 then ZeroDepositCommitment
               else StorageProofRejected (k + i)))"
  using assms
proof (induction ps arbitrary: sc k)
  case Nil
  then show ?case by simp
next
  case (Cons p ps)
  obtain v s where p: "p = (v, s)" by (cases p)
  have "unat (bsc_total_usdt_micro sc) + unat (vd_usdt_amount_micro v) < 2 ^ 64"
    using Cons.prems by (simp add: p)
  then have add: "checked_add (bsc_total_usdt_micro sc) (vd_usdt_amount_micro v) \<noteq> None"
    by (simp add: checked_add_def)
  show ?case
  proof (cases "deposit_proven H L root p")
    case True
    then obtain sc1 where sc1: "verify_deposit_step H L root sc (k, v, s) = Inr sc1"
      using add by (cases "verify_deposit_step H L root sc (k, v, s)")
        (auto simp: verify_deposit_step_Inl p deposit_proven_def)
    then have "unat (bsc_total_usdt_micro sc1) + total (\<lambda>(v, s). vd_usdt_amount_micro v) ps < 2 ^ 64"
      using Cons.prems by (simp add: verify_deposit_step_ok p)
    from Cons.IH [OF this, of "Suc k"] sc1 True show ?thesis
      by (simp add: p ex_less_Suc_cases)
  next
    case False
    then show ?thesis
      using add by (auto simp: and_then_Inl verify_deposit_step_Inl verify_deposit_step_ok p
          ex_less_Suc_cases)
  qed
qed

text \<open>The errors of the deposit loop; no earlier check reports one of them.\<close>

fun loop_error :: "inbound_error \<Rightarrow> bool" where
  "loop_error (StorageProofRejected i) = True"
| "loop_error AmountOverflow = True"
| "loop_error _ = False"

lemma early_checks_Inl:
  "validate_transition_shape H m prior w = Inl e \<Longrightarrow> \<not> loop_error e"
  "validate_deposit_batch H m prior vs = Inl e \<Longrightarrow> \<not> loop_error e"
  "validate_nodes ns = Inl e \<Longrightarrow> \<not> loop_error e"
  "limit_step t s = Inl e \<Longrightarrow> \<not> loop_error e"
  "validate_limits vw = Inl e \<Longrightarrow> \<not> loop_error e"
  "verify_vault_account L root m aw = Inl e \<Longrightarrow> \<not> loop_error e"
proof -
  show "validate_transition_shape H m prior w = Inl e \<Longrightarrow> \<not> loop_error e"
    unfolding validate_transition_shape_def and_then_Inl map_err_Inl if_Inl_Inl by auto
  have check: "check_batch_deposit m prior x = Inl e \<Longrightarrow> \<not> loop_error e" for x
    unfolding check_batch_deposit_def and_then_Inl map_err_Inl if_Inl_Inl ok_or_Inl
    by (cases x) (auto simp: and_then_Inl map_err_Inl if_Inl_Inl ok_or_Inl split: if_splits)
  show "validate_deposit_batch H m prior vs = Inl e \<Longrightarrow> \<not> loop_error e"
    unfolding validate_deposit_batch_def and_then_Inl map_err_Inl if_Inl_Inl
    using check by (auto dest!: try_fold_Inl)
  have "node_step t node = Inl e \<Longrightarrow> \<not> loop_error e" for t node
    unfolding node_step_def if_Inl_Inl ok_or_Inl by auto
  then show nodes: "validate_nodes ns = Inl e \<Longrightarrow> \<not> loop_error e" for ns
    unfolding validate_nodes_def if_Inl_Inl by (auto dest!: try_fold_Inl)
  show limit: "limit_step t s = Inl e \<Longrightarrow> \<not> loop_error e" for t s
    unfolding limit_step_def and_then_Inl if_Inl_Inl ok_or_Inl using nodes by auto
  show "validate_limits vw = Inl e \<Longrightarrow> \<not> loop_error e"
    unfolding validate_limits_def and_then_Inl if_Inl_Inl using nodes limit
    by (auto dest!: try_fold_Inl)
  show "verify_vault_account L root m aw = Inl e \<Longrightarrow> \<not> loop_error e"
    unfolding verify_vault_account_def map_err_Inl if_Inl_Inl by auto
qed

lemma verify_batch_loop_error:
  assumes "loop_error e"
  shows "verify_finalized_deposit_batch H L F m prior finality vs fp w = Inl e \<longleftrightarrow>
     batch_accepted H m prior finality vs
     \<and> length (vsw_deposits w) = length vs \<and> witness_ok w
     \<and> F \<lparr>eft_manifest = m, eft_prior_state = prior, eft_next = finality\<rparr> fp = Inr ()
     \<and> account_proven L (fw_finalized_execution_state_root finality) m (vsw_account w)
     \<and> (\<exists>i < length vs.
          list_all (deposit_proven H L (vaw_storage_root (vsw_account w)))
            (take i (zip vs (vsw_deposits w)))
          \<and> \<not> deposit_proven H L (vaw_storage_root (vsw_account w)) (vs ! i, vsw_deposits w ! i)
          \<and> deposit_id H (vs ! i) \<noteq> 0 \<and> e = StorageProofRejected i)"
proof (cases "length (vsw_deposits w) = length vs \<and> deposits_ok vs")
  case True
  then have len: "length (vsw_deposits w) = length vs" and "length vs \<le> 64"
    and total: "total vd_usdt_amount_micro vs < 2 ^ 64" by (simp_all add: deposits_ok_def)
  let ?root = "vaw_storage_root (vsw_account w)" and ?ps = "zip vs (vsw_deposits w)"
  let ?sc = "\<lparr>bsc_deposit_ids = [], bsc_storage_keys = [], bsc_total_usdt_micro = 0\<rparr>"
  have scan: "try_fold (verify_deposit_step H L ?root) ?sc (List.enumerate 0 ?ps) = Inl e \<longleftrightarrow>
      (\<exists>i < length vs. list_all (deposit_proven H L ?root) (take i ?ps)
        \<and> \<not> deposit_proven H L ?root (vs ! i, vsw_deposits w ! i)
        \<and> deposit_id H (vs ! i) \<noteq> 0 \<and> e = StorageProofRejected i)"
    using assms total len
    by (subst verify_deposit_fold_Inl) (auto simp: zip_firsts [OF len] split: if_splits)
  have other: "(FinalityRejected = e) = False" "(e = FinalityRejected) = False"
    "(NonConsecutiveDepositNonce = e) = False" using assms by auto
  have early: "(validate_transition_shape H m prior finality = Inl e) = False"
    "(validate_deposit_batch H m prior vs = Inl e) = False"
    "(validate_limits w = Inl e) = False"
    "(verify_vault_account L (fw_finalized_execution_state_root finality) m (vsw_account w) = Inl e)
       = False"
    using early_checks_Inl(1) [of H m prior finality e] early_checks_Inl(2) [of H m prior vs e]
      early_checks_Inl(5) [of w e] assms
      early_checks_Inl(6) [of L "fw_finalized_execution_state_root finality" m "vsw_account w" e]
    by auto
  show ?thesis
    unfolding verify_finalized_deposit_batch_def and_then_Inl map_err_Inl if_Inl_Inl ok_or_Inl
      scan and_then_Inr map_err_Inr if_Inl_Inr ex_unit validate_transition_shape_ok
      validate_deposit_batch_ok validate_limits_ok verify_vault_account_ok early other len
      simp_thms batch_accepted_def conj_assoc
    by (simp only: sum.distinct simp_thms)
next
  case False
  then show ?thesis
    using early_checks_Inl(1,2) assms
    by (auto simp: verify_finalized_deposit_batch_def and_then_Inl if_Inl_Inl
        validate_deposit_batch_ok batch_accepted_def)
qed

subsection \<open>What a state root can prove\<close>

text \<open>
  \<open>trie_binding\<close>: what an inclusion check is documented to give when the hash has no
  collisions. A root and a path determine the proven value, and the RLP encodings determine
  the integer and the storage root they were made from.
\<close>

definition trie_binding :: "('n, 'e) trie_library \<Rightarrow> bool" where
  "trie_binding L \<longleftrightarrow>
     (\<forall>root path x y ns ms. verify_proof L root path (Some x) ns = Inr ()
        \<longrightarrow> verify_proof L root path (Some y) ms = Inr () \<longrightarrow> x = y)
     \<and> inj (rlp_u256 L)
     \<and> (\<forall>n b s c n' b' s' c'. rlp_account L n b s c = rlp_account L n' b' s' c' \<longrightarrow> s = s')"

lemma trie_bindingD:
  assumes "trie_binding L"
  shows "verify_proof L root path (Some x) ns = Inr () \<Longrightarrow>
      verify_proof L root path (Some y) ms = Inr () \<Longrightarrow> x = y"
    and "rlp_u256 L a = rlp_u256 L b \<longleftrightarrow> a = b"
    and "rlp_account L n b' s c = rlp_account L n' b'' s' c' \<Longrightarrow> s = s'"
  using assms unfolding trie_binding_def inj_def by blast+

lemma account_proven_binds:
  assumes "trie_binding L" "account_proven L root m a" "account_proven L root m a'"
  shows "vaw_storage_root a = vaw_storage_root a'"
  using trie_bindingD(1,3) [OF assms(1)] assms(2,3)
  unfolding account_proven_def account_value_def by blast

lemma deposit_proven_binds:
  assumes "trie_binding L" "deposit_proven H L root (v, s)" "deposit_proven H L root (v', s')"
    and "vd_nonce v = vd_nonce v'"
  shows "deposit_id H v = deposit_id H v'"
proof -
  have "rlp_u256 L (deposit_id H v) = rlp_u256 L (deposit_id H v')"
    using trie_bindingD(1) [OF assms(1)] assms(2-4) unfolding deposit_proven_def prod.case by metis
  then show ?thesis by (simp only: trie_bindingD(2) [OF assms(1)])
qed

lemma deposit_in_batch:
  assumes "batch_evidence H L F m prior finality vs fp w" "v \<in> set vs"
  obtains s where "deposit_proven H L (vaw_storage_root (vsw_account w)) (v, s)"
proof -
  obtain i where i: "i < length vs" "v = vs ! i" using assms(2) by (auto simp: in_set_conv_nth)
  with assms(1) have "(v, vsw_deposits w ! i) \<in> set (zip vs (vsw_deposits w))"
    by (auto simp: batch_evidence_def in_set_zip)
  with assms(1) that show ?thesis unfolding batch_evidence_def list_all_iff by blast
qed

lemma deposit_id_binds:
  assumes "deposit_id H v = deposit_id H v'"
    and "inj_on H {deposit_id_preimage H v, deposit_id_preimage H v'}"
    and "inj_on H {vd_elements_script v, vd_elements_script v'}"
  shows "v = v'"
proof -
  have "deposit_id_preimage H v = deposit_id_preimage H v'"
    using inj_onD [OF assms(2)] assms(1) unfolding deposit_id_def hash_bytes_def by blast
  moreover have "vd_elements_script v = vd_elements_script v'"
    if "H (vd_elements_script v) = H (vd_elements_script v')"
    using inj_onD [OF assms(3) that] by blast
  ultimately show ?thesis
    unfolding deposit_id_preimage_inject by (cases v; cases v') simp
qed

subsection \<open>Properties\<close>

text \<open>
  C8: deposit journals built with the adapter. The guest program returns a journal exactly when
  the claim passes the builder's own checks and the proof is a deposit proof whose finality part
  the finality verifier accepts for exactly this transition, whose account branch proves the
  manifest's vault account, with its code hash, under the finalized state root, and whose
  storage branches prove, deposit by deposit, the non-zero deposit id at the storage key of its
  nonce under that account's storage root. Every other check of the adapter repeats one of the
  builder.
\<close>

theorem inbound_journal_exact:
  "build_deposit_journal H (inbound_deposits H L F) m c p = Inr j \<longleftrightarrow>
     pm_validate H m = Inr () \<and> manifest_id H m = Inr (dc_manifest_id c)
     \<and> mc_configuration_hash (dc_prior_state c) = pm_controller_configuration_hash m
     \<and> list_all (targets_vault m) (dc_deposits c)
     \<and> (\<exists>fp w. p = DepositProof fp w
         \<and> batch_evidence H L F m (dc_prior_state c) (dc_finality c) (dc_deposits c) fp w)
     \<and> (\<exists>b n. mb_from_deposits H (dc_deposits c) = Inr b
         \<and> apply_mint_batch (dc_prior_state c) b (dc_finality c) = Inr n
         \<and> commits H j (pm_ethereum_guest_program_id m)
             (TypedDeposit (deposit_output_of H c b n)))"
  by (rule inbound_deposit_journal)

text \<open>
  Heartbeat journals built with the adapter: the same for a transition without deposits. Here
  the finality verifier is all that is left to ask.
\<close>

theorem inbound_heartbeat_exact:
  "build_heartbeat_journal H (inbound_heartbeat H F) m c p = Inr j \<longleftrightarrow>
     pm_validate H m = Inr () \<and> manifest_id H m = Inr (hc_manifest_id c)
     \<and> mc_configuration_hash (hc_prior_state c) = pm_controller_configuration_hash m
     \<and> (\<exists>fp. p = HeartbeatProof fp \<and> F \<lparr>eft_manifest = m, eft_prior_state = hc_prior_state c,
          eft_next = hc_finality c\<rparr> fp = Inr ())
     \<and> (\<exists>n. apply_heartbeat (hc_prior_state c) (hc_finality c) = Inr n
         \<and> commits H j (pm_ethereum_guest_program_id m)
             (TypedHeartbeat (heartbeat_output_of H c n)))"
  by (rule inbound_heartbeat_journal)

text \<open>
  The errors of the deposit loop. The amount total never overflows, and the verification
  reports a rejected storage proof exactly for the first deposit that is not proven, after
  every check before the loop has passed.
\<close>

theorem inbound_failures:
  "verify_finalized_deposit_batch H L F m prior finality vs fp w \<noteq> Inl AmountOverflow
   \<and> (verify_finalized_deposit_batch H L F m prior finality vs fp w = Inl (StorageProofRejected i)
     \<longleftrightarrow> batch_accepted H m prior finality vs
     \<and> length (vsw_deposits w) = length vs \<and> witness_ok w
     \<and> F \<lparr>eft_manifest = m, eft_prior_state = prior, eft_next = finality\<rparr> fp = Inr ()
     \<and> account_proven L (fw_finalized_execution_state_root finality) m (vsw_account w)
     \<and> i < length vs
     \<and> list_all (deposit_proven H L (vaw_storage_root (vsw_account w)))
         (take i (zip vs (vsw_deposits w)))
     \<and> deposit_id H (vs ! i) \<noteq> 0
     \<and> \<not> deposit_proven H L (vaw_storage_root (vsw_account w)) (vs ! i, vsw_deposits w ! i))"
  by (simp_all only: verify_batch_loop_error loop_error.simps inbound_error.simps) blast+

text \<open>
  C9: one deposit per nonce. Two accepted batches for one manifest under one finalized state
  root that contain deposits with the same nonce contain the same deposit, absent a collision
  of the hash on the two commitments and the two scripts, when a root and a path determine the
  value that an inclusion proof can show.
\<close>

theorem one_deposit_per_nonce:
  assumes "trie_binding L"
    and "verify_finalized_deposit_batch H L F m prior finality vs fp w = Inr r"
    and "verify_finalized_deposit_batch H L F' m prior' finality' vs' fp' w' = Inr r'"
    and "vb_execution_state_root r = vb_execution_state_root r'"
    and "v \<in> set vs" "v' \<in> set vs'" "vd_nonce v = vd_nonce v'"
    and "inj_on H {deposit_id_preimage H v, deposit_id_preimage H v'}"
    and "inj_on H {vd_elements_script v, vd_elements_script v'}"
  shows "v = v'"
proof -
  note runs = assms(2,3) [unfolded verify_batch_ok]
  have "vaw_storage_root (vsw_account w) = vaw_storage_root (vsw_account w')"
    using account_proven_binds [OF assms(1)] runs assms(4)
    unfolding batch_evidence_def batch_result_def by metis
  moreover obtain s where "deposit_proven H L (vaw_storage_root (vsw_account w)) (v, s)"
    using runs assms(5) by (blast elim: deposit_in_batch)
  moreover obtain s' where "deposit_proven H L (vaw_storage_root (vsw_account w')) (v', s')"
    using runs assms(6) by (blast elim: deposit_in_batch)
  ultimately have "deposit_id H v = deposit_id H v'"
    using deposit_proven_binds [OF assms(1)] assms(7) by metis
  then show ?thesis using assms(8,9) by (rule deposit_id_binds)
qed

definition toy_trie :: "(bytes, unit) trie_library" where
  "toy_trie =
     \<lparr>keccak256 = toy_hash,
      rlp_account = (\<lambda>n b s c. to_be_bytes 8 n @ enc_hash32 b @ enc_hash32 s @ enc_hash32 c),
      rlp_u256 = enc_hash32,
      nibbles_unpack = id,
      verify_proof = (\<lambda>root path v nodes.
        if v = Some (if root = 1
             then to_be_bytes 8 (0 :: u64) @ enc_hash32 0 @ enc_hash32 2 @ enc_hash32 1
             else enc_hash32 1)
        then Inr () else Inl ())\<rparr>"

definition example_vault_witness :: vault_storage_witness where
  "example_vault_witness =
     \<lparr>vsw_account = \<lparr>vaw_nonce = 0, vaw_balance_be = 0, vaw_storage_root = 2, vaw_code_hash = 1,
        vaw_proof_nodes = [[0]]\<rparr>,
      vsw_deposits = [\<lparr>dsp_proof_nodes = [[0]]\<rparr>]\<rparr>"

lemma toy_trie_binding: "trie_binding toy_trie"
  by (auto simp: trie_binding_def toy_trie_def inj_def split: if_splits)

lemma example_verified_batch:
  "verify_finalized_deposit_batch toy_hash toy_trie (\<lambda>_ _. Inr ()) example_manifest
     (example_controller 0 0 0) example_finality [example_deposit] p example_vault_witness =
   Inr \<lparr>vb_execution_state_root = 1, vb_first_nonce = 0, vb_next_nonce = 1,
        vb_total_usdt_micro = 5, vb_deposit_ids = [1], vb_storage_keys = [1]\<rparr>"
  unfolding verify_batch_ok batch_accepted_def batch_evidence_def batch_result_def
    example_manifest_valid
  by (simp add: mc_validate_ok fw_validate_ok finality_advances_def
      deposits_ok_def vd_validate_ok same_vault_def numbered_def targets_vault_def witness_ok_def
      witness_bytes_def nodes_ok_def node_ok_def account_proven_def account_value_def
      deposit_proven_def deposit_id_def deposit_commitment_storage_key_def toy_trie_def
      example_controller_def example_finality_def example_deposit_def example_manifest_def
      example_vault_witness_def PROTOCOL_VERSION_def)

theorem one_deposit_per_nonce_witness:
  "example_deposit =
     \<lparr>vd_ethereum_chain_id = 1, vd_vault = 1, vd_usdt = 2, vd_nonce = 0, vd_depositor = 3,
      vd_usdt_amount_micro = 5, vd_elements_script = [0x51], vd_user_salt = 0\<rparr>"
  by (rule one_deposit_per_nonce [OF toy_trie_binding example_verified_batch
        example_verified_batch]) (simp_all add: example_deposit_def)

end
