(* ===== verification/Helios_Finality.thy ===== *)
theory Helios_Finality
  imports Ethereum_Inbound
begin

section \<open>Sepolia finality (usdd-ethereum-inbound/src/helios.rs)\<close>

text \<open>
  The finality verifier for the Sepolia beacon chain: what the code checks around the light
  client of \<open>helios_consensus_core\<close>. The types of that crate (light client headers, sync
  committees, updates) are type variables and what the code calls of it, of \<open>tree_hash\<close> and of
  \<open>serde_cbor\<close> are the fields of the record \<open>helios_library\<close>: accessors of a header and its
  execution payload, tree-hash roots, participant counts, the verification and application of
  an update. \<open>LightClientStore\<close>, \<open>Fork\<close> and \<open>Forks\<close> are built field by field in the code and
  are records here. Nothing is assumed of the library.
\<close>

definition SEPOLIA_CHAIN_ID :: u64 where
  "SEPOLIA_CHAIN_ID = 11155111"

definition SEPOLIA_EXECUTION_GENESIS_HASH :: hash32 where
  "SEPOLIA_EXECUTION_GENESIS_HASH =
     0x25a5cc106eea7138acab33231d7160d69cb777ee0c2c553fcddf5138993e6dd9"

definition SEPOLIA_GENESIS_VALIDATORS_ROOT :: hash32 where
  "SEPOLIA_GENESIS_VALIDATORS_ROOT =
     0xd8ea171f3c94aea21ebc42a1ed61052acf3f9209c00e4efbaaddac09ed9b8078"

definition MAX_COMMITTEE_UPDATES :: nat where
  "MAX_COMMITTEE_UPDATES = 2"

definition MAX_FINALITY_WITNESS_BYTES :: nat where
  "MAX_FINALITY_WITNESS_BYTES = 512 * 1024"

definition LIGHT_CLIENT_STATE_DOMAIN :: bytes where
  "LIGHT_CLIENT_STATE_DOMAIN = ascii ''USDD_SEPOLIA_LIGHT_CLIENT_STATE_V1''"

definition SEPOLIA_FORKS :: "(u64 \<times> bytes) list" where
  "SEPOLIA_FORKS =
     [(0, [0x90, 0x00, 0x00, 0x69]),
      (50, [0x90, 0x00, 0x00, 0x70]),
      (100, [0x90, 0x00, 0x00, 0x71]),
      (56832, [0x90, 0x00, 0x00, 0x72]),
      (132608, [0x90, 0x00, 0x00, 0x73]),
      (222464, [0x90, 0x00, 0x00, 0x74]),
      (272640, [0x90, 0x00, 0x00, 0x75])]"

datatype sepolia_error =
    InvalidManifest
  | InvalidPriorState
  | WrongNetwork
  | PriorHeaderMismatch
  | PriorExecutionPayloadRejected
  | PriorStateDigestMismatch
  | TooManyCommitteeUpdates
  | UpdateWithoutSupermajority nat
  | UpdateRejected nat
  | FinalityWithoutSupermajority
  | FinalityRejected
  | FinalizedStateDidNotAdvance
  | FinalizedHeaderNotCheckpoint
  | MissingExecutionPayload
  | OutputMismatch
  | WitnessTooLarge
  | WitnessCodecRejected
  | NonCanonicalWitness

subsection \<open>The library and the types built from it\<close>

record fork =
  fk_epoch :: u64
  fk_fork_version :: bytes

record forks =
  fks_genesis :: fork
  fks_altair :: fork
  fks_bellatrix :: fork
  fks_capella :: fork
  fks_deneb :: fork
  fks_electra :: fork
  fks_fulu :: fork

record ('h, 'c, 'v) light_client_store =
  lcs_finalized_header :: 'h
  lcs_current_sync_committee :: 'c
  lcs_next_sync_committee :: "'c option"
  lcs_optimistic_header :: 'h
  lcs_previous_max_active_participants :: u64
  lcs_current_max_active_participants :: u64
  lcs_best_valid_update :: "'v option"

record execution_payload =
  xp_tree_hash_root :: hash32
  xp_state_root :: hash32
  xp_block_hash :: hash32
  xp_block_number :: u64
  xp_timestamp :: u64

record ('h, 'c, 'u, 'f) sepolia_proof =
  sfp_prior_finalized_header :: 'h
  sfp_prior_current_sync_committee :: 'c
  sfp_prior_next_sync_committee :: "'c option"
  sfp_updates :: "'u list"
  sfp_finality_update :: 'f

record ('h, 'c, 'u, 'f, 'v, 'e) helios_library =
  hl_beacon_slot :: "'h \<Rightarrow> u64"
  hl_beacon_body_root :: "'h \<Rightarrow> hash32"
  hl_beacon_root :: "'h \<Rightarrow> hash32"
  hl_execution :: "'h \<Rightarrow> 'e + execution_payload"
  hl_execution_branch :: "'h \<Rightarrow> 'e + hash32 list"
  hl_committee_root :: "'c \<Rightarrow> hash32"
  hl_sync_committee_size :: u64
  hl_slots_per_epoch :: u64
  hl_update_participants :: "'u \<Rightarrow> u64"
  hl_finality_participants :: "'f \<Rightarrow> u64"
  hl_signature_slot :: "'f \<Rightarrow> u64"
  hl_verify_update ::
    "'u \<Rightarrow> u64 \<Rightarrow> ('h, 'c, 'v) light_client_store \<Rightarrow> hash32 \<Rightarrow> forks \<Rightarrow> 'e + unit"
  hl_apply_update :: "('h, 'c, 'v) light_client_store \<Rightarrow> 'u \<Rightarrow> ('h, 'c, 'v) light_client_store"
  hl_verify_finality_update ::
    "'f \<Rightarrow> u64 \<Rightarrow> ('h, 'c, 'v) light_client_store \<Rightarrow> hash32 \<Rightarrow> forks \<Rightarrow> 'e + unit"
  hl_apply_finality_update ::
    "('h, 'c, 'v) light_client_store \<Rightarrow> 'f \<Rightarrow> ('h, 'c, 'v) light_client_store"
  hl_cbor_to_vec :: "('h, 'c, 'u, 'f) sepolia_proof \<Rightarrow> 'e + bytes"
  hl_custom_error :: "string \<Rightarrow> 'e"
  hl_cbor_deserialize :: "(nat option \<Rightarrow> ('e + 'u) list \<Rightarrow> 'e + 'u list) \<Rightarrow> bytes
    \<Rightarrow> 'e + ('h, 'c, 'u, 'f) sepolia_proof \<times> ('e + unit)"

definition sepolia_fork :: "u64 \<times> bytes \<Rightarrow> fork" where
  "sepolia_fork f = (case f of (epoch, version) \<Rightarrow> \<lparr>fk_epoch = epoch, fk_fork_version = version\<rparr>)"

definition sepolia_forks :: forks where
  "sepolia_forks =
     \<lparr>fks_genesis = sepolia_fork (SEPOLIA_FORKS ! 0),
      fks_altair = sepolia_fork (SEPOLIA_FORKS ! 1),
      fks_bellatrix = sepolia_fork (SEPOLIA_FORKS ! 2),
      fks_capella = sepolia_fork (SEPOLIA_FORKS ! 3),
      fks_deneb = sepolia_fork (SEPOLIA_FORKS ! 4),
      fks_electra = sepolia_fork (SEPOLIA_FORKS ! 5),
      fks_fulu = sepolia_fork (SEPOLIA_FORKS ! 6)\<rparr>"

subsection \<open>The witness codec\<close>

definition encode_canonical ::
  "('h, 'c, 'u, 'f, 'v, 'e) helios_library \<Rightarrow> ('h, 'c, 'u, 'f) sepolia_proof
     \<Rightarrow> sepolia_error + bytes" where
  "encode_canonical L p =
     (if MAX_COMMITTEE_UPDATES < length (sfp_updates p) then Inl TooManyCommitteeUpdates
      else and_then (map_err (\<lambda>_. WitnessCodecRejected) (hl_cbor_to_vec L p)) (\<lambda>bs.
           if MAX_FINALITY_WITNESS_BYTES < length bs then Inl WitnessTooLarge else Inr bs))"

text \<open>
  The visitor for the list of updates, called by the deserializer with its size hint and the
  results of the successive element reads; the first error ends the reads.
\<close>

fun visit_loop ::
  "('h, 'c, 'u, 'f, 'v, 'e) helios_library \<Rightarrow> 'u list \<Rightarrow> ('e + 'u) list \<Rightarrow> 'e + 'u list" where
  "visit_loop L updates [] = Inr updates"
| "visit_loop L updates (element # elements) =
     and_then element (\<lambda>update.
     if length updates = MAX_COMMITTEE_UPDATES
     then Inl (hl_custom_error L ''too many committee updates'')
     else visit_loop L (updates @ [update]) elements)"

definition visit_seq ::
  "('h, 'c, 'u, 'f, 'v, 'e) helios_library \<Rightarrow> nat option \<Rightarrow> ('e + 'u) list \<Rightarrow> 'e + 'u list" where
  "visit_seq L size_hint elements =
     (if MAX_COMMITTEE_UPDATES < (case size_hint of None \<Rightarrow> 0 | Some n \<Rightarrow> n)
      then Inl (hl_custom_error L ''too many committee updates'')
      else visit_loop L [] elements)"

definition decode_canonical ::
  "('h, 'c, 'u, 'f, 'v, 'e) helios_library \<Rightarrow> bytes
     \<Rightarrow> sepolia_error + ('h, 'c, 'u, 'f) sepolia_proof" where
  "decode_canonical L bs =
     (if bs = [] \<or> MAX_FINALITY_WITNESS_BYTES < length bs then Inl WitnessTooLarge
      else and_then (map_err (\<lambda>_. WitnessCodecRejected)
             (hl_cbor_deserialize L (visit_seq L) bs)) (\<lambda>(p, end_of_input).
           and_then (map_err (\<lambda>_. WitnessCodecRejected) end_of_input) (\<lambda>_.
           and_then (encode_canonical L p) (\<lambda>canonical.
           if canonical \<noteq> bs then Inl NonCanonicalWitness else Inr p))))"

subsection \<open>The light-client digest\<close>

definition sepolia_config :: bytes where
  "sepolia_config = concat
     [enc_u64 SEPOLIA_CHAIN_ID,
      enc_hash32 SEPOLIA_EXECUTION_GENESIS_HASH,
      enc_hash32 SEPOLIA_GENESIS_VALIDATORS_ROOT,
      concat (map (\<lambda>(epoch, version). enc_u64 epoch @ version) SEPOLIA_FORKS)]"

definition light_client_preimage ::
  "('h, 'c, 'u, 'f, 'v, 'e) helios_library \<Rightarrow> u64 \<Rightarrow> hash32 \<Rightarrow> 'c \<Rightarrow> 'c option \<Rightarrow> bytes" where
  "light_client_preimage L finalized_slot finalized_beacon_root current next_committee = concat
     [LIGHT_CLIENT_STATE_DOMAIN,
      enc_u16 ENCODING_SCHEMA,
      sepolia_config,
      enc_u64 finalized_slot,
      enc_hash32 finalized_beacon_root,
      enc_hash32 (hl_committee_root L current),
      (case next_committee of
         Some committee \<Rightarrow> enc_u8 1 @ enc_hash32 (hl_committee_root L committee)
       | None \<Rightarrow> enc_u8 0)]"

definition light_client_state_digest ::
  "(bytes \<Rightarrow> hash32) \<Rightarrow> ('h, 'c, 'u, 'f, 'v, 'e) helios_library \<Rightarrow> u64 \<Rightarrow> hash32 \<Rightarrow> 'c
     \<Rightarrow> 'c option \<Rightarrow> hash32" where
  "light_client_state_digest H L finalized_slot finalized_beacon_root current next_committee =
     hash_bytes H
       (light_client_preimage L finalized_slot finalized_beacon_root current next_committee)"

subsection \<open>The execution payload branch\<close>

fun branch_fold :: "(bytes \<Rightarrow> hash32) \<Rightarrow> nat \<Rightarrow> hash32 \<Rightarrow> hash32 list \<Rightarrow> hash32" where
  "branch_fold H depth derived [] = derived"
| "branch_fold H depth derived (node # branch) =
     branch_fold H (depth + 1)
       (hash_bytes H (if drop_bit depth (9 :: nat) mod 2 = 1
          then enc_hash32 node @ enc_hash32 derived
          else enc_hash32 derived @ enc_hash32 node)) branch"

definition execution_payload_is_bound ::
  "(bytes \<Rightarrow> hash32) \<Rightarrow> ('h, 'c, 'u, 'f, 'v, 'e) helios_library \<Rightarrow> 'h \<Rightarrow> bool" where
  "execution_payload_is_bound H L header =
     (case hl_execution L header of
        Inl _ \<Rightarrow> False
      | Inr execution \<Rightarrow>
          (case hl_execution_branch L header of
             Inl _ \<Rightarrow> False
           | Inr branch \<Rightarrow>
               if length branch \<noteq> 4 then False
               else branch_fold H 0 (xp_tree_hash_root execution) branch
                    = hl_beacon_body_root L header))"

subsection \<open>Deriving a transition\<close>

definition finalized_slot_advances :: "u64 \<Rightarrow> u64 \<Rightarrow> bool" where
  "finalized_slot_advances prior next_slot =
     (case checked_sub next_slot prior of
        Some gap \<Rightarrow> gap \<noteq> 0 \<and> gap \<le> MAX_ETHEREUM_FINALITY_SLOT_GAP
      | None \<Rightarrow> False)"

definition require_supermajority ::
  "('h, 'c, 'u, 'f, 'v, 'e) helios_library \<Rightarrow> 'u \<Rightarrow> nat \<Rightarrow> sepolia_error + unit" where
  "require_supermajority L update index =
     (if hl_update_participants L update * 3 < hl_sync_committee_size L * 2
      then Inl (UpdateWithoutSupermajority index) else Inr ())"

definition check_prior ::
  "(bytes \<Rightarrow> hash32) \<Rightarrow> ('h, 'c, 'u, 'f, 'v, 'e) helios_library \<Rightarrow> manifest \<Rightarrow> controller
     \<Rightarrow> ('h, 'c, 'u, 'f) sepolia_proof \<Rightarrow> sepolia_error + unit" where
  "check_prior H L m prior p =
     and_then (map_err (\<lambda>_. InvalidManifest) (pm_validate H m)) (\<lambda>_.
     and_then (map_err (\<lambda>_. InvalidPriorState) (mc_validate prior)) (\<lambda>_.
     if mc_configuration_hash prior \<noteq> pm_controller_configuration_hash m
     then Inl InvalidPriorState
     else if pm_ethereum_chain_id m \<noteq> SEPOLIA_CHAIN_ID
       \<or> pm_ethereum_genesis m \<noteq> SEPOLIA_EXECUTION_GENESIS_HASH
     then Inl WrongNetwork
     else let header = sfp_prior_finalized_header p
     in if hl_beacon_slot L header \<noteq> mc_finalized_beacon_slot prior
          \<or> hl_beacon_root L header \<noteq> mc_finalized_beacon_root prior
        then Inl PriorHeaderMismatch
     else and_then (map_err (\<lambda>_. PriorExecutionPayloadRejected) (hl_execution L header)) (\<lambda>execution.
     if xp_state_root execution \<noteq> mc_finalized_execution_state_root prior
       \<or> \<not> execution_payload_is_bound H L header
     then Inl PriorExecutionPayloadRejected
     else if light_client_state_digest H L (hl_beacon_slot L header) (hl_beacon_root L header)
         (sfp_prior_current_sync_committee p) (sfp_prior_next_sync_committee p)
       \<noteq> mc_ethereum_light_client_digest prior
     then Inl PriorStateDigestMismatch
     else if MAX_COMMITTEE_UPDATES < length (sfp_updates p) then Inl TooManyCommitteeUpdates
     else Inr ())))"

definition prior_store ::
  "('h, 'c, 'u, 'f) sepolia_proof \<Rightarrow> ('h, 'c, 'v) light_client_store" where
  "prior_store p =
     \<lparr>lcs_finalized_header = sfp_prior_finalized_header p,
      lcs_current_sync_committee = sfp_prior_current_sync_committee p,
      lcs_next_sync_committee = sfp_prior_next_sync_committee p,
      lcs_optimistic_header = sfp_prior_finalized_header p,
      lcs_previous_max_active_participants = 0,
      lcs_current_max_active_participants = 0,
      lcs_best_valid_update = None\<rparr>"

definition update_step ::
  "('h, 'c, 'u, 'f, 'v, 'e) helios_library \<Rightarrow> u64 \<Rightarrow> ('h, 'c, 'v) light_client_store
     \<Rightarrow> nat \<times> 'u \<Rightarrow> sepolia_error + ('h, 'c, 'v) light_client_store" where
  "update_step L expected_current_slot store item =
     (case item of (index, update) \<Rightarrow>
      and_then (require_supermajority L update index) (\<lambda>_.
      and_then (map_err (\<lambda>_. UpdateRejected index)
        (hl_verify_update L update expected_current_slot store SEPOLIA_GENESIS_VALIDATORS_ROOT
          sepolia_forks)) (\<lambda>_.
      Inr (hl_apply_update L store update))))"

definition finish_transition ::
  "(bytes \<Rightarrow> hash32) \<Rightarrow> ('h, 'c, 'u, 'f, 'v, 'e) helios_library \<Rightarrow> u64
     \<Rightarrow> ('h, 'c, 'v) light_client_store \<Rightarrow> sepolia_error + finality_witness" where
  "finish_transition H L prior_slot store =
     (let finalized = lcs_finalized_header store
      in if \<not> finalized_slot_advances prior_slot (hl_beacon_slot L finalized)
         then Inl FinalizedStateDidNotAdvance
         else if hl_beacon_slot L finalized mod hl_slots_per_epoch L \<noteq> 0
         then Inl FinalizedHeaderNotCheckpoint
         else and_then (map_err (\<lambda>_. MissingExecutionPayload) (hl_execution L finalized)) (\<lambda>execution.
         Inr \<lparr>fw_ethereum_light_client_digest = light_client_state_digest H L
                (hl_beacon_slot L finalized) (hl_beacon_root L finalized)
                (lcs_current_sync_committee store) (lcs_next_sync_committee store),
              fw_finalized_beacon_slot = hl_beacon_slot L finalized,
              fw_finalized_beacon_root = hl_beacon_root L finalized,
              fw_finalized_execution_block = xp_block_hash execution,
              fw_finalized_execution_state_root = xp_state_root execution,
              fw_execution_block_number = xp_block_number execution,
              fw_execution_block_timestamp = xp_timestamp execution\<rparr>))"

definition derive_transition ::
  "(bytes \<Rightarrow> hash32) \<Rightarrow> ('h, 'c, 'u, 'f, 'v, 'e) helios_library \<Rightarrow> manifest \<Rightarrow> controller
     \<Rightarrow> ('h, 'c, 'u, 'f) sepolia_proof \<Rightarrow> sepolia_error + finality_witness" where
  "derive_transition H L m prior p =
     and_then (check_prior H L m prior p) (\<lambda>_.
     let expected_current_slot = hl_signature_slot L (sfp_finality_update p)
     in and_then (try_fold (update_step L expected_current_slot) (prior_store p)
          (List.enumerate 0 (sfp_updates p))) (\<lambda>store.
        if hl_finality_participants L (sfp_finality_update p) * 3 < hl_sync_committee_size L * 2
        then Inl FinalityWithoutSupermajority
        else and_then (map_err (\<lambda>_. FinalityRejected)
          (hl_verify_finality_update L (sfp_finality_update p) expected_current_slot store
            SEPOLIA_GENESIS_VALIDATORS_ROOT sepolia_forks)) (\<lambda>_.
        finish_transition H L (hl_beacon_slot L (sfp_prior_finalized_header p))
          (hl_apply_finality_update L store (sfp_finality_update p)))))"

definition verify_transition ::
  "(bytes \<Rightarrow> hash32) \<Rightarrow> ('h, 'c, 'u, 'f, 'v, 'e) helios_library \<Rightarrow> finality_transition
     \<Rightarrow> ('h, 'c, 'u, 'f) sepolia_proof \<Rightarrow> sepolia_error + unit" where
  "verify_transition H L t p =
     and_then (derive_transition H L (eft_manifest t) (eft_prior_state t) p) (\<lambda>derived.
     if derived \<noteq> eft_next t then Inl OutputMismatch else Inr ())"

definition sepolia_finality ::
  "(bytes \<Rightarrow> hash32) \<Rightarrow> ('h, 'c, 'u, 'f, 'v, 'e) helios_library
     \<Rightarrow> ('h, 'c, 'u, 'f) sepolia_proof finality_verifier" where
  "sepolia_finality H L t p = map_err (\<lambda>_. Rejected) (verify_transition H L t p)"

subsection \<open>The execution payload branch is a path of depth 4\<close>

definition beacon_pair :: "hash32 \<times> hash32 \<Rightarrow> bytes" where
  "beacon_pair p = enc_hash32 (fst p) @ enc_hash32 (snd p)"

definition beacon_node :: "(bytes \<Rightarrow> hash32) \<Rightarrow> hash32 \<Rightarrow> hash32 \<Rightarrow> hash32" where
  "beacon_node H l r = hash_bytes H (beacon_pair (l, r))"

interpretation beacon: node_hash H "beacon_node H" beacon_pair for H
  by unfold_locales (auto simp: beacon_node_def hash_bytes_def beacon_pair_def prod_eq_iff)

lemma branch_fold_path: "branch_fold H k x branch = path_root (beacon_node H) x (9 div 2 ^ k) branch"
proof (induction branch arbitrary: k x)
  case (Cons s branch)
  have "9 div 2 ^ k div 2 = (9 :: nat) div 2 ^ (k + 1)"
    by (simp add: div_mult2_eq [symmetric] mult.commute)
  moreover have "drop_bit k (9 :: nat) mod 2 = 1 \<longleftrightarrow> odd ((9 :: nat) div 2 ^ k)"
    by (simp add: drop_bit_eq_div odd_iff_mod_2_eq_one)
  ultimately show ?case
    by (simp add: Cons.IH beacon_node_def beacon_pair_def)
qed simp

lemma execution_payload_is_bound_iff:
  "execution_payload_is_bound H L h \<longleftrightarrow> (\<exists>x branch. hl_execution L h = Inr x
     \<and> hl_execution_branch L h = Inr branch \<and> length branch = 4
     \<and> path_root (beacon_node H) (xp_tree_hash_root x) 9 branch = hl_beacon_body_root L h)"
  unfolding execution_payload_is_bound_def branch_fold_path by (auto split: sum.splits)

subsection \<open>What the digest commits to\<close>

lemma light_client_preimage_inject:
  "light_client_preimage L s r c n = light_client_preimage L s' r' c' n' \<longleftrightarrow>
     s = s' \<and> r = r' \<and> hl_committee_root L c = hl_committee_root L c'
     \<and> map_option (hl_committee_root L) n = map_option (hl_committee_root L) n'"
  by (cases n; cases n') (auto simp: light_client_preimage_def enc_u8_def)

subsection \<open>Runs of committee updates\<close>

text \<open>
  \<open>light_client_run L slot st us st'\<close>: from the store \<open>st\<close> every update of \<open>us\<close> has a two-thirds
  quorum and is verified against the store that the updates before it made.
\<close>

inductive light_client_run ::
  "('h, 'c, 'u, 'f, 'v, 'e) helios_library \<Rightarrow> u64 \<Rightarrow> ('h, 'c, 'v) light_client_store
     \<Rightarrow> 'u list \<Rightarrow> ('h, 'c, 'v) light_client_store \<Rightarrow> bool"
  for L slot where
  done_run: "light_client_run L slot st [] st"
| step_run: "hl_sync_committee_size L * 2 \<le> hl_update_participants L u * 3 \<Longrightarrow>
     hl_verify_update L u slot st SEPOLIA_GENESIS_VALIDATORS_ROOT sepolia_forks = Inr () \<Longrightarrow>
     light_client_run L slot (hl_apply_update L st u) us st' \<Longrightarrow>
     light_client_run L slot st (u # us) st'"

inductive_simps light_client_run_simps:
  "light_client_run L slot st [] st'"
  "light_client_run L slot st (u # us) st'"

lemma update_step_ok:
  "update_step L slot st (i, u) = Inr st' \<longleftrightarrow>
     hl_sync_committee_size L * 2 \<le> hl_update_participants L u * 3
     \<and> hl_verify_update L u slot st SEPOLIA_GENESIS_VALIDATORS_ROOT sepolia_forks = Inr ()
     \<and> st' = hl_apply_update L st u"
  by (auto simp: update_step_def require_supermajority_def and_then_Inr map_err_Inr if_Inl_Inr not_less)

lemma update_fold:
  "try_fold (update_step L slot) st (List.enumerate k us) = Inr st' \<longleftrightarrow>
     light_client_run L slot st us st'"
proof (induction us arbitrary: st k)
  case Nil
  then show ?case by (auto simp: light_client_run_simps)
next
  case (Cons u us)
  show ?case
    unfolding light_client_run_simps enumerate_simps try_fold.simps and_then_Inr update_step_ok
      Cons.IH by blast
qed

lemma light_client_run_unique:
  "light_client_run L slot st us a \<Longrightarrow> light_client_run L slot st us b \<Longrightarrow> a = b"
  using update_fold [of L slot st 0 us] by (metis sum.inject(2))

subsection \<open>When a transition is derived\<close>

definition prior_bound ::
  "(bytes \<Rightarrow> hash32) \<Rightarrow> ('h, 'c, 'u, 'f, 'v, 'e) helios_library \<Rightarrow> manifest \<Rightarrow> controller
     \<Rightarrow> ('h, 'c, 'u, 'f) sepolia_proof \<Rightarrow> bool" where
  "prior_bound H L m prior p \<longleftrightarrow>
     pm_validate H m = Inr () \<and> mc_validate prior = Inr ()
     \<and> mc_configuration_hash prior = pm_controller_configuration_hash m
     \<and> pm_ethereum_chain_id m = SEPOLIA_CHAIN_ID
     \<and> pm_ethereum_genesis m = SEPOLIA_EXECUTION_GENESIS_HASH
     \<and> hl_beacon_slot L (sfp_prior_finalized_header p) = mc_finalized_beacon_slot prior
     \<and> hl_beacon_root L (sfp_prior_finalized_header p) = mc_finalized_beacon_root prior
     \<and> execution_payload_is_bound H L (sfp_prior_finalized_header p)
     \<and> (\<exists>x. hl_execution L (sfp_prior_finalized_header p) = Inr x
          \<and> xp_state_root x = mc_finalized_execution_state_root prior)
     \<and> hash_bytes H (light_client_preimage L (mc_finalized_beacon_slot prior)
          (mc_finalized_beacon_root prior) (sfp_prior_current_sync_committee p)
          (sfp_prior_next_sync_committee p)) = mc_ethereum_light_client_digest prior
     \<and> length (sfp_updates p) \<le> 2"

lemma check_prior_ok [ok_iff]: "check_prior H L m prior p = Inr u \<longleftrightarrow> prior_bound H L m prior p"
  unfolding check_prior_def Let_def and_then_Inr map_err_Inr if_Inl_Inr ex_unit
    light_client_state_digest_def MAX_COMMITTEE_UPDATES_def not_less prior_bound_def
  by auto

definition final_store ::
  "('h, 'c, 'u, 'f, 'v, 'e) helios_library \<Rightarrow> ('h, 'c, 'u, 'f) sepolia_proof
     \<Rightarrow> ('h, 'c, 'v) light_client_store \<Rightarrow> bool" where
  "final_store L p st' \<longleftrightarrow>
     (\<exists>st. light_client_run L (hl_signature_slot L (sfp_finality_update p)) (prior_store p)
             (sfp_updates p) st
        \<and> hl_sync_committee_size L * 2 \<le> hl_finality_participants L (sfp_finality_update p) * 3
        \<and> hl_verify_finality_update L (sfp_finality_update p)
            (hl_signature_slot L (sfp_finality_update p)) st SEPOLIA_GENESIS_VALIDATORS_ROOT
            sepolia_forks = Inr ()
        \<and> st' = hl_apply_finality_update L st (sfp_finality_update p))"

lemma final_store_unique: "final_store L p a \<Longrightarrow> final_store L p b \<Longrightarrow> a = b"
  unfolding final_store_def using light_client_run_unique by blast

definition witness_of_store ::
  "(bytes \<Rightarrow> hash32) \<Rightarrow> ('h, 'c, 'u, 'f, 'v, 'e) helios_library \<Rightarrow> ('h, 'c, 'v) light_client_store
     \<Rightarrow> execution_payload \<Rightarrow> finality_witness" where
  "witness_of_store H L st x =
     \<lparr>fw_ethereum_light_client_digest = hash_bytes H (light_client_preimage L
        (hl_beacon_slot L (lcs_finalized_header st)) (hl_beacon_root L (lcs_finalized_header st))
        (lcs_current_sync_committee st) (lcs_next_sync_committee st)),
      fw_finalized_beacon_slot = hl_beacon_slot L (lcs_finalized_header st),
      fw_finalized_beacon_root = hl_beacon_root L (lcs_finalized_header st),
      fw_finalized_execution_block = xp_block_hash x,
      fw_finalized_execution_state_root = xp_state_root x,
      fw_execution_block_number = xp_block_number x,
      fw_execution_block_timestamp = xp_timestamp x\<rparr>"

lemma finalized_slot_advances_iff:
  "finalized_slot_advances a b \<longleftrightarrow> unat a < unat b \<and> unat b \<le> unat a + 4096"
proof (cases "checked_sub b a")
  case None
  then show ?thesis by (simp add: finalized_slot_advances_def checked_sub_def split: if_splits)
next
  case (Some gap)
  then have "unat b = unat a + unat gap" by (simp add: checked_sub_Some)
  then show ?thesis
    using Some by (auto simp: finalized_slot_advances_def word_le_nat_alt unat_gt_0)
qed

lemma derive_transition_ok [ok_iff]:
  "derive_transition H L m prior p = Inr w \<longleftrightarrow>
     prior_bound H L m prior p
     \<and> (\<exists>st x. final_store L p st
          \<and> unat (mc_finalized_beacon_slot prior) < unat (hl_beacon_slot L (lcs_finalized_header st))
          \<and> unat (hl_beacon_slot L (lcs_finalized_header st))
              \<le> unat (mc_finalized_beacon_slot prior) + 4096
          \<and> hl_beacon_slot L (lcs_finalized_header st) mod hl_slots_per_epoch L = 0
          \<and> hl_execution L (lcs_finalized_header st) = Inr x
          \<and> w = witness_of_store H L st x)"
proof -
  have slot: "hl_beacon_slot L (sfp_prior_finalized_header p) = mc_finalized_beacon_slot prior"
    if "prior_bound H L m prior p" using that by (simp add: prior_bound_def)
  have finish: "finish_transition H L s st = Inr w \<longleftrightarrow>
      unat s < unat (hl_beacon_slot L (lcs_finalized_header st))
      \<and> unat (hl_beacon_slot L (lcs_finalized_header st)) \<le> unat s + 4096
      \<and> hl_beacon_slot L (lcs_finalized_header st) mod hl_slots_per_epoch L = 0
      \<and> (\<exists>x. hl_execution L (lcs_finalized_header st) = Inr x \<and> w = witness_of_store H L st x)"
    for s st
    unfolding finish_transition_def Let_def and_then_Inr map_err_Inr if_Inl_Inr
      finalized_slot_advances_iff light_client_state_digest_def witness_of_store_def sum.inject not_not
    by blast
  have derive: "derive_transition H L m prior p = Inr w \<longleftrightarrow>
      prior_bound H L m prior p
      \<and> (\<exists>st. final_store L p st
           \<and> finish_transition H L (hl_beacon_slot L (sfp_prior_finalized_header p)) st = Inr w)"
    unfolding derive_transition_def Let_def and_then_Inr map_err_Inr if_Inl_Inr ex_unit check_prior_ok
      update_fold not_less final_store_def
    by blast
  show ?thesis
  proof (cases "prior_bound H L m prior p")
    case True
    then show ?thesis unfolding derive finish slot [OF True] by (simp only: ex_simps)
  qed (simp add: derive)
qed

lemma verify_transition_ok [ok_iff]:
  "verify_transition H L t p = Inr u \<longleftrightarrow>
     derive_transition H L (eft_manifest t) (eft_prior_state t) p = Inr (eft_next t)"
  by (auto simp: verify_transition_def and_then_Inr if_Inl_Inr)

lemma sepolia_finality_ok [ok_iff]:
  "sepolia_finality H L t p = Inr u \<longleftrightarrow>
     derive_transition H L (eft_manifest t) (eft_prior_state t) p = Inr (eft_next t)"
  by (simp add: sepolia_finality_def map_err_Inr verify_transition_ok)

subsection \<open>Properties\<close>

text \<open>
  C10: what the finality verifier accepts. It accepts a transition exactly when the prior header,
  payload and committees are those of the prior controller state, at most two updates lead by a
  run of verified updates with two-thirds quorums to a store against which the finality update
  has a quorum and verifies, the finalized slot advances by at most 4096 to a checkpoint, and
  every field of the next finality witness is the one derived from the finalized header.
\<close>

theorem sepolia_transition_exact:
  "sepolia_finality H L \<lparr>eft_manifest = m, eft_prior_state = prior, eft_next = w\<rparr> p = Inr ()
     \<longleftrightarrow> prior_bound H L m prior p
     \<and> (\<exists>st x. final_store L p st
          \<and> unat (mc_finalized_beacon_slot prior) < unat (hl_beacon_slot L (lcs_finalized_header st))
          \<and> unat (hl_beacon_slot L (lcs_finalized_header st))
              \<le> unat (mc_finalized_beacon_slot prior) + 4096
          \<and> hl_beacon_slot L (lcs_finalized_header st) mod hl_slots_per_epoch L = 0
          \<and> hl_execution L (lcs_finalized_header st) = Inr x
          \<and> w = witness_of_store H L st x)"
  by (simp only: sepolia_finality_ok derive_transition_ok finality_transition.select_convs)

text \<open>The preimages of the prior digest and of the digest of a store.\<close>

definition prior_preimage ::
  "('h, 'c, 'u, 'f, 'v, 'e) helios_library \<Rightarrow> controller \<Rightarrow> ('h, 'c, 'u, 'f) sepolia_proof \<Rightarrow> bytes"
  where
  "prior_preimage L c p =
     light_client_preimage L (mc_finalized_beacon_slot c) (mc_finalized_beacon_root c)
       (sfp_prior_current_sync_committee p) (sfp_prior_next_sync_committee p)"

definition store_preimage ::
  "('h, 'c, 'u, 'f, 'v, 'e) helios_library \<Rightarrow> ('h, 'c, 'v) light_client_store \<Rightarrow> bytes" where
  "store_preimage L st =
     light_client_preimage L (hl_beacon_slot L (lcs_finalized_header st))
       (hl_beacon_root L (lcs_finalized_header st))
       (lcs_current_sync_committee st) (lcs_next_sync_committee st)"

text \<open>
  C11: continuity. When a controller state has installed the witness of one accepted transition,
  any transition accepted from it starts from the finalized header of the first one and from the
  same committees, present and next, up to their tree-hash roots, absent a collision on the two
  digest preimages: a prover can substitute none of them.
\<close>

theorem sepolia_continuity:
  assumes "derive_transition H L m prior p = Inr w" "finality_installed c w"
    and "derive_transition H L m' c p' = Inr w'" "final_store L p st"
    and "inj_on H {store_preimage L st, prior_preimage L c p'}"
  shows "hl_beacon_slot L (sfp_prior_finalized_header p')
      = hl_beacon_slot L (lcs_finalized_header st)
    \<and> hl_beacon_root L (sfp_prior_finalized_header p')
      = hl_beacon_root L (lcs_finalized_header st)
    \<and> hl_committee_root L (sfp_prior_current_sync_committee p')
      = hl_committee_root L (lcs_current_sync_committee st)
    \<and> map_option (hl_committee_root L) (sfp_prior_next_sync_committee p')
      = map_option (hl_committee_root L) (lcs_next_sync_committee st)"
proof -
  obtain x where w: "w = witness_of_store H L st x"
    using assms(1,4) final_store_unique unfolding derive_transition_ok by blast
  have c: "mc_finalized_beacon_slot c = hl_beacon_slot L (lcs_finalized_header st)"
    "mc_finalized_beacon_root c = hl_beacon_root L (lcs_finalized_header st)"
    using assms(2) by (simp_all add: finality_installed_def w witness_of_store_def)
  have bound: "prior_bound H L m' c p'" using assms(3) unfolding derive_transition_ok by blast
  have "H (store_preimage L st) = H (prior_preimage L c p')"
    using assms(2) bound
    by (simp add: store_preimage_def prior_preimage_def finality_installed_def w
        witness_of_store_def prior_bound_def hash_bytes_def c)
  from inj_onD [OF assms(5) this] show ?thesis
    using bound c
    by (simp add: store_preimage_def prior_preimage_def light_client_preimage_inject
        prior_bound_def)
qed

text \<open>
  A toy instance: a header is its slot, every update verifies with all 512 participants, the
  finality update is the new slot.
\<close>

definition toy_helios ::
  "(u64, hash32, unit, u64, unit, unit) helios_library" where
  "toy_helios =
     \<lparr>hl_beacon_slot = id, hl_beacon_body_root = (\<lambda>_. 1), hl_beacon_root = ucast,
      hl_execution = (\<lambda>_. Inr \<lparr>xp_tree_hash_root = 1, xp_state_root = 1, xp_block_hash = 1,
        xp_block_number = 1, xp_timestamp = 1\<rparr>),
      hl_execution_branch = (\<lambda>_. Inr [1, 1, 1, 1]), hl_committee_root = id,
      hl_sync_committee_size = 512, hl_slots_per_epoch = 32,
      hl_update_participants = (\<lambda>_. 512), hl_finality_participants = (\<lambda>_. 512),
      hl_signature_slot = (\<lambda>slot. slot + 1),
      hl_verify_update = (\<lambda>_ _ _ _ _. Inr ()), hl_apply_update = (\<lambda>st _. st),
      hl_verify_finality_update = (\<lambda>_ _ _ _ _. Inr ()),
      hl_apply_finality_update = (\<lambda>st slot. st\<lparr>lcs_finalized_header := slot\<rparr>),
      hl_cbor_to_vec = (\<lambda>_. Inr []), hl_custom_error = (\<lambda>_. ()),
      hl_cbor_deserialize = (\<lambda>_ _. Inl ())\<rparr>"

definition sepolia_manifest :: manifest where
  "sepolia_manifest = example_manifest
     \<lparr>pm_ethereum_chain_id := SEPOLIA_CHAIN_ID,
      pm_ethereum_genesis := SEPOLIA_EXECUTION_GENESIS_HASH\<rparr>"

definition sepolia_controller :: "u64 \<Rightarrow> controller" where
  "sepolia_controller slot =
     \<lparr>mc_version = 1, mc_sequence = 1, mc_next_mint_nonce = 0,
      mc_ethereum_light_client_digest = 1, mc_finalized_beacon_slot = slot,
      mc_finalized_beacon_root = ucast slot, mc_finalized_execution_state_root = 1,
      mc_total_minted_usdd_base = 0, mc_configuration_hash = 1\<rparr>"

definition sepolia_example :: "u64 \<Rightarrow> u64 \<Rightarrow> (u64, hash32, unit, u64) sepolia_proof" where
  "sepolia_example slot slot' =
     \<lparr>sfp_prior_finalized_header = slot, sfp_prior_current_sync_committee = 7,
      sfp_prior_next_sync_committee = Some 8, sfp_updates = [], sfp_finality_update = slot'\<rparr>"

definition sepolia_store :: "u64 \<Rightarrow> u64 \<Rightarrow> (u64, hash32, unit) light_client_store" where
  "sepolia_store slot slot' = (prior_store (sepolia_example slot slot'))\<lparr>lcs_finalized_header := slot'\<rparr>"

lemma sepolia_manifest_valid: "pm_validate toy_hash sepolia_manifest = Inr ()"
  unfolding pm_validate_ok
  by (simp add: manifest_nonzero_def manifest_frozen_def manifest_bound_def named_hashes_def
      domain_separator_table_hash_def compute_controller_configuration_hash_def
      compute_outbound_verifier_config_hash_def compute_vault_id_def
      compute_initial_controller_state_hash_def example_manifest_def sepolia_manifest_def
      SEPOLIA_CHAIN_ID_def SEPOLIA_EXECUTION_GENESIS_HASH_def)

lemma sepolia_example_store: "final_store toy_helios (sepolia_example a b) (sepolia_store a b)"
  by (simp add: final_store_def toy_helios_def sepolia_example_def sepolia_store_def
      light_client_run_simps)

lemma sepolia_example_bound:
  "slot = 32 \<or> slot = 64 \<Longrightarrow> prior_bound toy_hash toy_helios sepolia_manifest (sepolia_controller slot)
     (sepolia_example slot slot')"
  unfolding prior_bound_def execution_payload_is_bound_iff sepolia_manifest_valid
  by (auto simp: mc_validate_ok beacon_node_def sepolia_controller_def sepolia_manifest_def
      sepolia_example_def toy_helios_def example_manifest_def PROTOCOL_VERSION_def)

lemma sepolia_example_derived:
  "derive_transition toy_hash toy_helios sepolia_manifest (sepolia_controller 32)
     (sepolia_example 32 64) =
   Inr (witness_of_store toy_hash toy_helios (sepolia_store 32 64)
     \<lparr>xp_tree_hash_root = 1, xp_state_root = 1, xp_block_hash = 1, xp_block_number = 1,
      xp_timestamp = 1\<rparr>)"
  "derive_transition toy_hash toy_helios sepolia_manifest (sepolia_controller 64)
     (sepolia_example 64 96) =
   Inr (witness_of_store toy_hash toy_helios (sepolia_store 64 96)
     \<lparr>xp_tree_hash_root = 1, xp_state_root = 1, xp_block_hash = 1, xp_block_number = 1,
      xp_timestamp = 1\<rparr>)"
  unfolding derive_transition_ok
  using sepolia_example_bound [of 32 64] sepolia_example_bound [of 64 96]
    sepolia_example_store [of 32 64] sepolia_example_store [of 64 96]
  by (auto simp: toy_helios_def sepolia_controller_def sepolia_store_def)

lemma sepolia_installed:
  "finality_installed (sepolia_controller 64) (witness_of_store toy_hash toy_helios
     (sepolia_store 32 64) \<lparr>xp_tree_hash_root = 1, xp_state_root = 1, xp_block_hash = 1,
       xp_block_number = 1, xp_timestamp = 1\<rparr>)"
  by (simp add: finality_installed_def witness_of_store_def sepolia_controller_def
      sepolia_store_def toy_helios_def)

theorem sepolia_continuity_witness:
  "hl_committee_root toy_helios (sfp_prior_current_sync_committee (sepolia_example 64 96))
     = hl_committee_root toy_helios (lcs_current_sync_committee (sepolia_store 32 64))"
  using sepolia_continuity [OF sepolia_example_derived(1) sepolia_installed
      sepolia_example_derived(2) sepolia_example_store]
  by (simp add: sepolia_example_def sepolia_store_def prior_store_def store_preimage_def
      prior_preimage_def)

text \<open>
  C12: an accepted transition is one the controller can install. The slot strictly advances,
  within the gap, and the controller's own finality check then passes unless the light-client
  digest is unchanged, in which case the digests before and after are a collision of SHA-256 on
  two different preimages.
\<close>

theorem sepolia_advances:
  assumes "derive_transition H L m prior p = Inr w" "final_store L p st"
  shows "mc_finalized_beacon_slot prior < fw_finalized_beacon_slot w
    \<and> (if fw_ethereum_light_client_digest w = mc_ethereum_light_client_digest prior
       then H (prior_preimage L prior p) = H (store_preimage L st)
         \<and> prior_preimage L prior p \<noteq> store_preimage L st
       else finality_advances prior w)"
proof -
  obtain x where w: "w = witness_of_store H L st x"
    and slot: "unat (mc_finalized_beacon_slot prior) < unat (fw_finalized_beacon_slot w)"
      "unat (fw_finalized_beacon_slot w) \<le> unat (mc_finalized_beacon_slot prior) + 4096"
    and bound: "prior_bound H L m prior p"
    using assms final_store_unique unfolding derive_transition_ok
    by (fastforce simp: witness_of_store_def)
  have "fw_finalized_beacon_slot w \<noteq> mc_finalized_beacon_slot prior" using slot(1) by auto
  with slot bound show ?thesis
    unfolding prior_preimage_def store_preimage_def light_client_preimage_inject
    by (auto simp: word_less_nat_alt finality_advances_def prior_bound_def hash_bytes_def w
        witness_of_store_def)
qed

theorem sepolia_advances_witness:
  "mc_finalized_beacon_slot (sepolia_controller 32) < fw_finalized_beacon_slot
     (witness_of_store toy_hash toy_helios (sepolia_store 32 64)
       \<lparr>xp_tree_hash_root = 1, xp_state_root = 1, xp_block_hash = 1, xp_block_number = 1,
        xp_timestamp = 1\<rparr>)"
  using sepolia_advances [OF sepolia_example_derived(1) sepolia_example_store] by blast

text \<open>
  Canonical finality witnesses. Whatever the CBOR library does, bytes that decode are
  non-empty, within 512 KiB and exactly the encoding of the decoded proof, which has at most two
  updates; so no proof decodes from two byte strings.
\<close>

theorem sepolia_codec_canonical:
  assumes "decode_canonical L bs = Inr p"
  shows "encode_canonical L p = Inr bs" and "bs \<noteq> []" and "length bs \<le> 524288"
    and "length (sfp_updates p) \<le> 2"
proof -
  show enc: "encode_canonical L p = Inr bs" and "bs \<noteq> []" "length bs \<le> 524288"
    using assms unfolding decode_canonical_def if_Inl_Inr and_then_Inr map_err_Inr
    by (auto simp: MAX_FINALITY_WITNESS_BYTES_def and_then_Inr map_err_Inr split: if_splits)
  show "length (sfp_updates p) \<le> 2"
    using enc unfolding encode_canonical_def if_Inl_Inr by (auto simp: MAX_COMMITTEE_UPDATES_def)
qed

definition toy_cbor :: "(u64, hash32, unit, u64, unit, unit) helios_library" where
  "toy_cbor = toy_helios\<lparr>hl_cbor_to_vec := (\<lambda>_. Inr [1]),
     hl_cbor_deserialize := (\<lambda>_ _. Inr (sepolia_example 32 64, Inr ()))\<rparr>"

theorem sepolia_codec_canonical_witness: "encode_canonical toy_cbor (sepolia_example 32 64) = Inr [1]"
  by (rule sepolia_codec_canonical(1))
    (simp add: decode_canonical_def encode_canonical_def toy_cbor_def sepolia_example_def
      MAX_FINALITY_WITNESS_BYTES_def MAX_COMMITTEE_UPDATES_def)

text \<open>
  The visitor bounds the updates while they are read: it accepts exactly sequences without
  errors, of at most two elements, whose size hint is at most two.
\<close>

theorem visit_seq_exact:
  "visit_seq L hint elements = Inr us \<longleftrightarrow>
     (case hint of None \<Rightarrow> True | Some n \<Rightarrow> n \<le> 2) \<and> elements = map Inr us \<and> length us \<le> 2"
proof -
  have "visit_loop L acc elements = Inr us \<longleftrightarrow>
      (\<exists>vs. us = acc @ vs \<and> elements = map Inr vs \<and> length us \<le> 2)"
    if "length acc \<le> 2" for acc
    using that
  proof (induction elements arbitrary: acc)
    case (Cons e elements)
    show ?case
    proof (cases e)
      case (Inr u)
      show ?thesis
        using Cons.IH [of "acc @ [u]"] Cons.prems
        by (cases "length acc = 2")
          (auto simp: Inr MAX_COMMITTEE_UPDATES_def Cons_eq_map_conv)
    qed (auto simp: Cons_eq_map_conv)
  qed auto
  from this [of "[]"] show ?thesis
    by (auto simp: visit_seq_def MAX_COMMITTEE_UPDATES_def split: option.splits)
qed

end
