(* ===== verification/SP1_Verifier.thy ===== *)
theory SP1_Verifier
  imports Annex
begin

section \<open>Raw compressed SP1 proofs (usdd-sp1-verifier/src/lib.rs)\<close>

text \<open>
  The fail-closed adapter around the SP1 verifier: size checks, the program id against the raw
  verification key, the strict journal, the proof mode, the canonical encoding of the proof, the
  committed SHA-256 digest, and last the call of the verifier. What the code calls of the crates
  \<open>bincode\<close>, \<open>sp1_verifier\<close>, \<open>sp1_recursion_executor\<close> and \<open>slop_algebra\<close> is the record
  \<open>sp1_library\<close>. Each of those calls may panic, which is \<open>None\<close>; \<open>catch_unwind\<close> turns a panic
  into an error. Nothing is assumed of the library.
\<close>

definition MAX_RAW_COMPRESSED_PROOF_SIZE :: nat where
  "MAX_RAW_COMPRESSED_PROOF_SIZE = SP1_ANNEX_MAX_SIZE"

definition RAW_VKEY_HASH_SIZE :: nat where
  "RAW_VKEY_HASH_SIZE = 32"

definition KOALA_BEAR_MODULUS :: u32 where
  "KOALA_BEAR_MODULUS = 0x7f000001"

datatype rejected_proof_mode = Core | Plonk | Groth16

datatype 'v sp1_error =
    EmptyProof
  | ProofTooLarge nat nat
  | PublicValuesTooLarge nat nat
  | AnnexSizeOverflow
  | AnnexTooLarge nat nat
  | MalformedProof
  | NonCanonicalProof
  | UnsupportedProofMode rejected_proof_mode
  | WrongVkeyHashLength nat
  | NonCanonicalVkeyWord nat u32
  | NonCanonicalProgramIdWord nat u32
  | ZeroProgramId
  | VkeyProgramIdMismatch
  | Journal journal_error
  | InvalidRecursionPublicValuesLength nat nat
  | NonByteCommittedDigestLimb nat u32
  | PublicValuesDigestMismatch
  | ProofRejected 'v
  | VerifierPanicked

text \<open>
  \<open>'p\<close> is \<open>SP1Proof\<close>, \<open>'k\<close> the proof inside its \<open>Compressed\<close> variant, \<open>'l\<close> a field element,
  \<open>'d\<close> and \<open>'v\<close> the errors of \<open>bincode\<close> and of the verifier.
\<close>

record ('p, 'k, 'l, 'd, 'v) sp1_library =
  sp1_deserialize :: "bytes \<Rightarrow> ('d + 'p) option"
  sp1_serialize :: "'p \<Rightarrow> ('d + bytes) option"
  sp1_compressed :: "'p \<Rightarrow> 'k option"
  sp1_proof_public_values :: "'k \<Rightarrow> 'l list"
  sp1_proof_max_num_pvs :: nat
  sp1_committed_value_digest :: "'l list \<Rightarrow> 'l list list option"
  sp1_as_canonical_u32 :: "'l \<Rightarrow> u32"
  sp1_verify_raw :: "bytes \<Rightarrow> bytes \<Rightarrow> ('v + unit) option"

subsection \<open>Program ids and verification keys\<close>

definition chunks_exact :: "nat \<Rightarrow> bytes \<Rightarrow> bytes list" where
  "chunks_exact n bs = map (\<lambda>i. take n (drop (i * n) bs)) [0..<length bs div n]"

definition copy_from_slice :: "bytes \<Rightarrow> nat \<Rightarrow> bytes \<Rightarrow> bytes" where
  "copy_from_slice bs start part = take start bs @ part @ drop (start + length part) bs"

definition u32_le :: "bytes \<Rightarrow> u32" where
  "u32_le bs = of_nat (nat_le bs)"

definition u32_le_bytes :: "u32 \<Rightarrow> bytes" where
  "u32_le_bytes w = le_nat 4 (unat w)"

definition vkey_step :: "bytes \<Rightarrow> nat \<times> bytes \<Rightarrow> 'v sp1_error + bytes" where
  "vkey_step program_id item =
     (case item of (index, raw_word) \<Rightarrow>
      let v = u32_le raw_word
      in if KOALA_BEAR_MODULUS \<le> v then Inl (NonCanonicalVkeyWord index v)
         else Inr (copy_from_slice program_id (index * 4) (to_be_bytes 4 v)))"

definition program_id_from_raw_vkey_hash :: "bytes \<Rightarrow> 'v sp1_error + hash32" where
  "program_id_from_raw_vkey_hash raw_vkey_hash =
     (if length raw_vkey_hash \<noteq> RAW_VKEY_HASH_SIZE
      then Inl (WrongVkeyHashLength (length raw_vkey_hash))
      else and_then (try_fold vkey_step (replicate 32 0)
             (List.enumerate 0 (chunks_exact 4 raw_vkey_hash))) (\<lambda>program_id.
           let program_id = from_be_bytes program_id
           in if program_id = 0 then Inl ZeroProgramId else Inr program_id))"

definition program_id_step :: "bytes \<Rightarrow> nat \<times> bytes \<Rightarrow> 'v sp1_error + bytes" where
  "program_id_step raw_vkey_hash item =
     (case item of (index, program_word) \<Rightarrow>
      let v = from_be_bytes program_word
      in if KOALA_BEAR_MODULUS \<le> v then Inl (NonCanonicalProgramIdWord index v)
         else Inr (copy_from_slice raw_vkey_hash (index * 4) (u32_le_bytes v)))"

definition raw_vkey_hash_from_program_id :: "hash32 \<Rightarrow> 'v sp1_error + bytes" where
  "raw_vkey_hash_from_program_id program_id =
     (if program_id = 0 then Inl ZeroProgramId
      else try_fold program_id_step (replicate RAW_VKEY_HASH_SIZE 0)
        (List.enumerate 0 (chunks_exact 4 (enc_hash32 program_id))))"

definition require_sha256_public_values_digest ::
  "(bytes \<Rightarrow> hash32) \<Rightarrow> bytes \<Rightarrow> bytes \<Rightarrow> 'v sp1_error + unit" where
  "require_sha256_public_values_digest H committed_digest public_values =
     (if committed_digest \<noteq> enc_hash32 (hash_bytes H public_values)
      then Inl PublicValuesDigestMismatch else Inr ())"

subsection \<open>The proof\<close>

text \<open>\<open>?\<close> on a call that may panic.\<close>

definition outcome_then ::
  "('e + 'a) option \<Rightarrow> ('a \<Rightarrow> ('e + 'b) option) \<Rightarrow> ('e + 'b) option" where
  "outcome_then m f =
     (case m of None \<Rightarrow> None | Some (Inl e) \<Rightarrow> Some (Inl e) | Some (Inr x) \<Rightarrow> f x)"

definition reject_noncompressed_tag :: "bytes \<Rightarrow> 'v sp1_error + unit" where
  "reject_noncompressed_tag raw_proof =
     (if length raw_proof < 4 then Inl MalformedProof
      else let tag = u32_le (take 4 raw_proof)
        in if tag = 1 then Inr ()
           else if tag = 0 then Inl (UnsupportedProofMode Core)
           else if tag = 2 then Inl (UnsupportedProofMode Plonk)
           else if tag = 3 then Inl (UnsupportedProofMode Groth16)
           else Inl MalformedProof)"

definition deserialize_canonical_proof ::
  "('p, 'k, 'l, 'd, 'v) sp1_library \<Rightarrow> bytes \<Rightarrow> ('v sp1_error + 'p) option" where
  "deserialize_canonical_proof L raw_proof =
     outcome_then (map_option (map_err (\<lambda>_. MalformedProof)) (sp1_deserialize L raw_proof)) (\<lambda>proof.
     outcome_then (map_option (map_err (\<lambda>_. MalformedProof)) (sp1_serialize L proof)) (\<lambda>canonical.
     Some (if canonical \<noteq> raw_proof then Inl NonCanonicalProof else Inr proof)))"

text \<open>
  The two loops over the words and limbs of the committed digest, as one over the limbs. The
  assignment to \<open>committed_digest[digest_index]\<close> panics beyond the 32 bytes of the array.
\<close>

fun limb_loop ::
  "('p, 'k, 'l, 'd, 'v) sp1_library \<Rightarrow> bytes \<Rightarrow> nat \<Rightarrow> 'l list \<Rightarrow> ('v sp1_error + bytes) option" where
  "limb_loop L committed_digest digest_index [] = Some (Inr committed_digest)"
| "limb_loop L committed_digest digest_index (limb # limbs) =
     (let v = sp1_as_canonical_u32 L limb
      in if 255 < v then Some (Inl (NonByteCommittedDigestLimb digest_index v))
         else if length committed_digest \<le> digest_index then None
         else limb_loop L (committed_digest[digest_index := ucast v]) (digest_index + 1) limbs)"

definition committed_digest_bytes ::
  "('p, 'k, 'l, 'd, 'v) sp1_library \<Rightarrow> 'l list list \<Rightarrow> ('v sp1_error + bytes) option" where
  "committed_digest_bytes L digest_words =
     limb_loop L (replicate 32 0) 0 (concat digest_words)"

definition check_submission ::
  "(bytes \<Rightarrow> hash32) \<Rightarrow> bytes \<Rightarrow> bytes \<Rightarrow> bytes \<Rightarrow> hash32 \<Rightarrow> statement_kind
     \<Rightarrow> 'v sp1_error + strict_journal" where
  "check_submission H raw_proof public_values raw_vkey_hash expected_program_id expected_kind =
     (if raw_proof = [] then Inl EmptyProof
      else if MAX_RAW_COMPRESSED_PROOF_SIZE < length raw_proof
      then Inl (ProofTooLarge (length raw_proof) MAX_RAW_COMPRESSED_PROOF_SIZE)
      else if SP1_PUBLIC_VALUES_MAX_SIZE < length public_values
      then Inl (PublicValuesTooLarge (length public_values) SP1_PUBLIC_VALUES_MAX_SIZE)
      else and_then (ok_or (usize_checked_add SP1_ANNEX_HEADER_SIZE (length public_values))
             AnnexSizeOverflow) (\<lambda>annex_size.
           and_then (ok_or (usize_checked_add annex_size (length raw_proof)) AnnexSizeOverflow)
             (\<lambda>annex_size.
      if SP1_ANNEX_MAX_SIZE < annex_size then Inl (AnnexTooLarge annex_size SP1_ANNEX_MAX_SIZE)
      else and_then (program_id_from_raw_vkey_hash raw_vkey_hash) (\<lambda>actual_program_id.
      if actual_program_id \<noteq> expected_program_id then Inl VkeyProgramIdMismatch
      else and_then (map_err Journal
             (verify_expected H public_values expected_program_id expected_kind)) (\<lambda>journal.
           and_then (reject_noncompressed_tag raw_proof) (\<lambda>_. Inr journal))))))"

definition check_digest ::
  "(bytes \<Rightarrow> hash32) \<Rightarrow> ('p, 'k, 'l, 'd, 'v) sp1_library \<Rightarrow> bytes \<Rightarrow> 'p
     \<Rightarrow> ('v sp1_error + unit) option" where
  "check_digest H L public_values proof =
     (case sp1_compressed L proof of
        None \<Rightarrow> Some (Inl MalformedProof)
      | Some compressed \<Rightarrow>
          let recursion_values = sp1_proof_public_values L compressed
          in if length recursion_values \<noteq> sp1_proof_max_num_pvs L
             then Some (Inl (InvalidRecursionPublicValuesLength (length recursion_values)
               (sp1_proof_max_num_pvs L)))
             else outcome_then (map_option Inr (sp1_committed_value_digest L recursion_values))
               (\<lambda>digest_words.
               outcome_then (committed_digest_bytes L digest_words) (\<lambda>committed_digest.
               Some (require_sha256_public_values_digest H committed_digest public_values))))"

definition verify_inner ::
  "(bytes \<Rightarrow> hash32) \<Rightarrow> ('p, 'k, 'l, 'd, 'v) sp1_library \<Rightarrow> bytes \<Rightarrow> bytes \<Rightarrow> bytes \<Rightarrow> hash32
     \<Rightarrow> statement_kind \<Rightarrow> ('v sp1_error + strict_journal) option" where
  "verify_inner H L raw_proof public_values raw_vkey_hash expected_program_id expected_kind =
     outcome_then (Some (check_submission H raw_proof public_values raw_vkey_hash expected_program_id
       expected_kind)) (\<lambda>journal.
     outcome_then (deserialize_canonical_proof L raw_proof) (\<lambda>proof.
     outcome_then (check_digest H L public_values proof) (\<lambda>_.
     outcome_then (map_option (map_err ProofRejected) (sp1_verify_raw L raw_proof raw_vkey_hash))
       (\<lambda>_. Some (Inr journal)))))"

definition verify_raw_compressed_sha256 ::
  "(bytes \<Rightarrow> hash32) \<Rightarrow> ('p, 'k, 'l, 'd, 'v) sp1_library \<Rightarrow> bytes \<Rightarrow> bytes \<Rightarrow> bytes \<Rightarrow> hash32
     \<Rightarrow> statement_kind \<Rightarrow> 'v sp1_error + strict_journal" where
  "verify_raw_compressed_sha256 H L raw_proof public_values raw_vkey_hash expected_program_id
     expected_kind =
     (case verify_inner H L raw_proof public_values raw_vkey_hash expected_program_id
        expected_kind of
        Some result \<Rightarrow> result
      | None \<Rightarrow> Inl VerifierPanicked)"

subsection \<open>Words and chunks\<close>

lemma chunks_exact_concat:
  assumes "0 < n" "list_all (\<lambda>c. length c = n) cs"
  shows "chunks_exact n (concat cs) = cs"
  using assms(2)
proof (induction cs)
  case Nil
  then show ?case by (simp add: chunks_exact_def)
next
  case (Cons c cs)
  then have c: "length c = n" and IH: "chunks_exact n (concat cs) = cs" by simp_all
  have "length (concat (c # cs)) div n = Suc (length (concat cs) div n)"
    using assms(1) c by (simp add: div_add_self1)
  then have "chunks_exact n (concat (c # cs)) = c # chunks_exact n (concat cs)"
    using c unfolding chunks_exact_def
    by (simp del: upt_Suc add: upt_conv_Cons map_Suc_upt [symmetric])
  with IH show ?case by simp
qed

lemma chunks_exact_split:
  "length bs = n * k \<Longrightarrow> 0 < n \<Longrightarrow>
     concat (chunks_exact n bs) = bs \<and> list_all (\<lambda>c. length c = n) (chunks_exact n bs)
     \<and> length (chunks_exact n bs) = k"
proof (induction k arbitrary: bs)
  case 0
  then show ?case by (simp add: chunks_exact_def)
next
  case (Suc k)
  have len: "length (drop n bs) = n * k" "length (take n bs) = n" using Suc.prems by simp_all
  from Suc.IH [OF len(1) Suc.prems(2)] have IH:
    "concat (chunks_exact n (drop n bs)) = drop n bs"
    "list_all (\<lambda>c. length c = n) (chunks_exact n (drop n bs))"
    "length (chunks_exact n (drop n bs)) = k" by blast+
  have "concat (take n bs # chunks_exact n (drop n bs)) = bs" by (simp add: IH(1))
  with chunks_exact_concat [OF Suc.prems(2), of "take n bs # chunks_exact n (drop n bs)"]
  have "chunks_exact n bs = take n bs # chunks_exact n (drop n bs)"
    using IH(2) len(2) by simp
  with IH len(2) show ?case by simp
qed

text \<open>Reversing the bytes of every four-byte word, and what a canonical program id is.\<close>

definition swap_words :: "bytes \<Rightarrow> bytes" where
  "swap_words bs = concat (map rev (chunks_exact 4 bs))"

definition words_canonical :: "bytes \<Rightarrow> bool" where
  "words_canonical bs \<longleftrightarrow>
     list_all (\<lambda>c. (from_be_bytes c :: u32) < KOALA_BEAR_MODULUS) (chunks_exact 4 bs)"

lemma swap_words_chunks:
  assumes "length bs = 4 * k"
  shows "chunks_exact 4 (swap_words bs) = map rev (chunks_exact 4 bs)"
  using chunks_exact_split [OF assms]
  by (auto simp: swap_words_def list_all_iff intro!: chunks_exact_concat)

lemma swap_words_swap: "length bs = 4 * k \<Longrightarrow> swap_words (swap_words bs) = bs"
  unfolding swap_words_def [of "swap_words bs"] using chunks_exact_split [of bs 4 k]
  by (simp add: swap_words_chunks)

lemma length_concat_const: "list_all (\<lambda>c. length c = n) cs \<Longrightarrow> length (concat cs) = n * length cs"
  by (induction cs) simp_all

lemma length_swap_words: "length bs = 4 * k \<Longrightarrow> length (swap_words bs) = 4 * k"
  using chunks_exact_split [of bs 4 k] length_concat_const [of 4 "map rev (chunks_exact 4 bs)"]
  by (simp add: swap_words_def list_all_iff)

text \<open>Both loops write the reversed words one after the other.\<close>

lemma write_words:
  assumes "\<And>acc i c. length c = 4 \<Longrightarrow>
      f acc (i, c) = (if bad c then Inl (e i c) else Inr (copy_from_slice acc (i * 4) (rev c)))"
    and "list_all (\<lambda>c. length c = 4) cs" and "length pre = k * 4"
  shows "try_fold f (pre @ replicate (4 * length cs) 0) (List.enumerate k cs) = Inr bs \<longleftrightarrow>
      list_all (\<lambda>c. \<not> bad c) cs \<and> bs = pre @ concat (map rev cs)"
  using assms(2,3)
proof (induction cs arbitrary: k pre)
  case Nil
  then show ?case by auto
next
  case (Cons c cs)
  then have c: "length c = 4" by simp
  have "copy_from_slice (pre @ replicate (4 * length (c # cs)) 0) (k * 4) (rev c) =
      (pre @ rev c) @ replicate (4 * length cs) 0"
    using Cons.prems(2) c by (simp add: copy_from_slice_def)
  then show ?case
    using Cons.IH [of "pre @ rev c" "Suc k"] Cons.prems c by (simp add: assms(1))
qed

lemma u32_le_rev: "u32_le bs = from_be_bytes (rev bs)"
  by (simp add: u32_le_def from_be_bytes_def)

lemma u32_le_bytes_rev: "u32_le_bytes w = rev (to_be_bytes 4 w)"
  by (simp add: u32_le_bytes_def to_be_bytes_def)

lemma vkey_step_word:
  assumes "length c = 4"
  shows "vkey_step acc (i, c) =
     (if KOALA_BEAR_MODULUS \<le> (from_be_bytes (rev c) :: u32)
      then Inl (NonCanonicalVkeyWord i (from_be_bytes (rev c)))
      else Inr (copy_from_slice acc (i * 4) (rev c)))"
  using assms to_from_be_bytes [of 4 "rev c", where 'a = 32]
  by (simp add: vkey_step_def Let_def u32_le_rev)

lemma program_id_step_word:
  assumes "length c = 4"
  shows "program_id_step acc (i, c) =
     (if KOALA_BEAR_MODULUS \<le> (from_be_bytes c :: u32)
      then Inl (NonCanonicalProgramIdWord i (from_be_bytes c))
      else Inr (copy_from_slice acc (i * 4) (rev c)))"
  using assms to_from_be_bytes [of 4 c, where 'a = 32]
  by (simp add: program_id_step_def Let_def u32_le_bytes_rev)

lemma vkey_words:
  assumes "length raw = 32"
  shows "try_fold vkey_step (replicate 32 0) (List.enumerate 0 (chunks_exact 4 raw)) =
      (Inr bs :: 'v sp1_error + bytes) \<longleftrightarrow> words_canonical (swap_words raw) \<and> bs = swap_words raw"
proof -
  have cs: "list_all (\<lambda>c. length c = 4) (chunks_exact 4 raw)" "length (chunks_exact 4 raw) = 8"
    using chunks_exact_split [of raw 4 8] assms by simp_all
  have buffer: "[] @ replicate (4 * length (chunks_exact 4 raw)) 0 = replicate 32 (0 :: u8)"
    by (simp only: cs(2) append_Nil) simp
  have chunks: "chunks_exact 4 (swap_words raw) = map rev (chunks_exact 4 raw)"
    using assms by (intro swap_words_chunks [where k = 8]) simp
  have "try_fold vkey_step ([] @ replicate (4 * length (chunks_exact 4 raw)) 0)
      (List.enumerate 0 (chunks_exact 4 raw)) = (Inr bs :: 'v sp1_error + bytes) \<longleftrightarrow>
    list_all (\<lambda>c. \<not> KOALA_BEAR_MODULUS \<le> (from_be_bytes (rev c) :: u32)) (chunks_exact 4 raw)
    \<and> bs = [] @ concat (map rev (chunks_exact 4 raw))"
    by (rule write_words) (erule vkey_step_word, rule cs(1), simp)
  then show ?thesis
    unfolding buffer words_canonical_def chunks list.pred_map o_def not_le
    by (simp only: swap_words_def append_Nil)
qed

lemma program_id_words:
  assumes "length pid = 32"
  shows "try_fold program_id_step (replicate 32 0) (List.enumerate 0 (chunks_exact 4 pid)) =
      (Inr bs :: 'v sp1_error + bytes) \<longleftrightarrow> words_canonical pid \<and> bs = swap_words pid"
proof -
  have cs: "list_all (\<lambda>c. length c = 4) (chunks_exact 4 pid)" "length (chunks_exact 4 pid) = 8"
    using chunks_exact_split [of pid 4 8] assms by simp_all
  have buffer: "[] @ replicate (4 * length (chunks_exact 4 pid)) 0 = replicate 32 (0 :: u8)"
    by (simp only: cs(2) append_Nil) simp
  have "try_fold program_id_step ([] @ replicate (4 * length (chunks_exact 4 pid)) 0)
      (List.enumerate 0 (chunks_exact 4 pid)) = (Inr bs :: 'v sp1_error + bytes) \<longleftrightarrow>
    list_all (\<lambda>c. \<not> KOALA_BEAR_MODULUS \<le> (from_be_bytes c :: u32)) (chunks_exact 4 pid)
    \<and> bs = [] @ concat (map rev (chunks_exact 4 pid))"
    by (rule write_words) (erule program_id_step_word, rule cs(1), simp)
  then show ?thesis
    unfolding buffer words_canonical_def not_le by (simp only: swap_words_def append_Nil)
qed

lemma raw_vkey_hash_ok:
  "raw_vkey_hash_from_program_id pid = Inr raw \<longleftrightarrow>
     pid \<noteq> 0 \<and> words_canonical (enc_hash32 pid) \<and> raw = swap_words (enc_hash32 pid)"
  unfolding raw_vkey_hash_from_program_id_def if_Inl_Inr RAW_VKEY_HASH_SIZE_def
  by (simp only: program_id_words length_enc_hash32)

lemma program_id_ok:
  "program_id_from_raw_vkey_hash raw = Inr pid \<longleftrightarrow>
     pid \<noteq> 0 \<and> words_canonical (enc_hash32 pid) \<and> raw = swap_words (enc_hash32 pid)"
proof -
  have "program_id_from_raw_vkey_hash raw = Inr pid \<longleftrightarrow>
      length raw = 32 \<and> words_canonical (swap_words raw) \<and> pid = from_be_bytes (swap_words raw)
      \<and> pid \<noteq> 0"
  proof (cases "length raw = 32")
    case True
    show ?thesis
      unfolding program_id_from_raw_vkey_hash_def RAW_VKEY_HASH_SIZE_def if_Inl_Inr and_then_Inr
        vkey_words [OF True] Let_def
      by (auto simp: True)
  next
    case False
    then show ?thesis
      by (simp only: program_id_from_raw_vkey_hash_def RAW_VKEY_HASH_SIZE_def if_Inl_Inr) simp
  qed
  also have "\<dots> \<longleftrightarrow> pid \<noteq> 0 \<and> words_canonical (enc_hash32 pid) \<and> raw = swap_words (enc_hash32 pid)"
    (is "?l \<longleftrightarrow> ?r")
  proof
    assume l: ?l
    then have "enc_hash32 pid = swap_words raw"
      using to_from_be_bytes [of 32 "swap_words raw", where 'a = 256] length_swap_words [of raw 8]
      by (simp add: enc_hash32_def)
    with l show ?r using swap_words_swap [of raw 8] by auto
  next
    assume r: ?r
    then have "swap_words raw = enc_hash32 pid" using swap_words_swap [of _ 8] by simp
    with r show ?l
      using length_swap_words [of "enc_hash32 pid" 8] from_to_be_bytes [of 32 pid]
      by (simp add: enc_hash32_def)
  qed
  finally show ?thesis .
qed

subsection \<open>What the verifier accepts\<close>

lemma outcome_then_Inr:
  "outcome_then m f = Some (Inr y) \<longleftrightarrow> (\<exists>x. m = Some (Inr x) \<and> f x = Some (Inr y))"
  by (auto simp: outcome_then_def split: option.splits sum.splits)

lemma outcome_then_None:
  "outcome_then m f = None \<longleftrightarrow> m = None \<or> (\<exists>x. m = Some (Inr x) \<and> f x = None)"
  by (auto simp: outcome_then_def split: option.splits sum.splits)

lemma outcome_map_err_Inr: "map_option (map_err g) m = Some (Inr y) \<longleftrightarrow> m = Some (Inr y)"
  by (auto simp: map_err_Inr)

lemma outcome_map_Inr: "map_option Inr m = Some (Inr y) \<longleftrightarrow> m = Some y"
  by auto

lemma limb_loop_ok:
  assumes "i \<le> length acc"
  shows "limb_loop L acc i ls = Some (Inr bs) \<longleftrightarrow>
     i + length ls \<le> length acc \<and> list_all (\<lambda>l. sp1_as_canonical_u32 L l \<le> 255) ls
     \<and> bs = take i acc @ map (\<lambda>l. ucast (sp1_as_canonical_u32 L l)) ls
         @ drop (i + length ls) acc"
  using assms
proof (induction ls arbitrary: acc i)
  case Nil
  then show ?case by auto
next
  case (Cons l ls)
  show ?case
  proof (cases "i < length acc \<and> sp1_as_canonical_u32 L l \<le> 255")
    case True
    then have "(255 < sp1_as_canonical_u32 L l) = False" "\<not> length acc \<le> i" by auto
    with True show ?thesis
      using Cons.IH [of "Suc i" "acc[i := ucast (sp1_as_canonical_u32 L l)]"]
      by (simp only: limb_loop.simps Let_def if_False Suc_eq_plus1 [symmetric])
        (simp add: take_Suc_conv_app_nth)
  next
    case False
    then show ?thesis by (auto simp: Let_def not_less)
  qed
qed

text \<open>The limbs of a committed digest, padded to the 32 bytes of the array.\<close>

definition limbs_are ::
  "('p, 'k, 'l, 'd, 'v) sp1_library \<Rightarrow> 'l list list \<Rightarrow> bytes \<Rightarrow> bool" where
  "limbs_are L ws bs \<longleftrightarrow>
     length (concat ws) \<le> 32
     \<and> list_all (\<lambda>l. sp1_as_canonical_u32 L l \<le> 255) (concat ws)
     \<and> bs = map (\<lambda>l. ucast (sp1_as_canonical_u32 L l)) (concat ws)
         @ replicate (32 - length (concat ws)) 0"

lemma committed_digest_bytes_ok:
  "committed_digest_bytes L ws = Some (Inr bs) \<longleftrightarrow> limbs_are L ws bs"
  by (simp add: committed_digest_bytes_def limbs_are_def limb_loop_ok)

lemma u32_le_iff:
  assumes "length bs = 4"
  shows "u32_le bs = v \<longleftrightarrow> bs = u32_le_bytes v"
proof -
  have "to_be_bytes 4 (u32_le bs) = rev bs"
    unfolding u32_le_rev by (rule to_from_be_bytes) (simp_all add: assms)
  moreover have "to_be_bytes 4 (u32_le bs) = to_be_bytes 4 v \<longleftrightarrow> u32_le bs = v"
    by (rule to_be_bytes_inject) simp
  ultimately show ?thesis unfolding u32_le_bytes_rev by (metis rev_rev_ident)
qed

lemma reject_noncompressed_tag_ok:
  "reject_noncompressed_tag bs = Inr () \<longleftrightarrow> take 4 bs = [1, 0, 0, 0]"
proof (cases "length bs < 4")
  case True
  then have "length (take 4 bs) \<noteq> length [1 :: u8, 0, 0, 0]" by simp
  then have "take 4 bs \<noteq> [1, 0, 0, 0]" by metis
  with True show ?thesis by (simp add: reject_noncompressed_tag_def)
next
  case False
  have four: "(4 :: nat) = Suc (Suc (Suc (Suc 0)))" by simp
  have "u32_le_bytes 1 = [1, 0, 0, 0]"
    unfolding u32_le_bytes_def four by simp
  then have "u32_le (take 4 bs) = 1 \<longleftrightarrow> take 4 bs = [1, 0, 0, 0]"
    using False u32_le_iff [of "take 4 bs" 1] by simp
  with False show ?thesis by (simp add: reject_noncompressed_tag_def Let_def)
qed

definition sizes_ok :: "bytes \<Rightarrow> bytes \<Rightarrow> bool" where
  "sizes_ok raw_proof public_values \<longleftrightarrow>
     0 < length raw_proof \<and> length public_values \<le> 16384
     \<and> 55 + length public_values + length raw_proof \<le> 524288"

lemma check_submission_ok:
  "check_submission H p v vk pid kind = Inr j \<longleftrightarrow>
     sizes_ok p v \<and> raw_vkey_hash_from_program_id pid = (Inr vk :: unit sp1_error + bytes)
     \<and> journal_ok H j \<and> enc_journal j = Some v \<and> sj_program_id j = pid
     \<and> sj_statement_kind j = kind \<and> take 4 p = [1, 0, 0, 0]"
  unfolding check_submission_def if_Inl_Inr and_then_Inr ok_or_Inr map_err_Inr verify_expected_ok
    program_id_ok raw_vkey_hash_ok ex_unit reject_noncompressed_tag_ok sizes_ok_def
    SP1_ANNEX_HEADER_SIZE_def SP1_ANNEX_MAX_SIZE_def SP1_PUBLIC_VALUES_MAX_SIZE_def
    MAX_RAW_COMPRESSED_PROOF_SIZE_def usize_checked_add_def
  by auto

text \<open>
  The third-party part of an acceptance: the proof is the canonical encoding of a compressed
  proof whose recursion values commit to the SHA-256 digest of the public values, and the raw
  verifier accepts it for the key.
\<close>

definition proof_verified ::
  "(bytes \<Rightarrow> hash32) \<Rightarrow> ('p, 'k, 'l, 'd, 'v) sp1_library \<Rightarrow> bytes \<Rightarrow> bytes \<Rightarrow> bytes \<Rightarrow> bool" where
  "proof_verified H L raw_proof public_values raw_vkey_hash \<longleftrightarrow>
     (\<exists>p k ws. sp1_deserialize L raw_proof = Some (Inr p)
        \<and> sp1_serialize L p = Some (Inr raw_proof)
        \<and> sp1_compressed L p = Some k
        \<and> length (sp1_proof_public_values L k) = sp1_proof_max_num_pvs L
        \<and> sp1_committed_value_digest L (sp1_proof_public_values L k) = Some ws
        \<and> limbs_are L ws (enc_hash32 (hash_bytes H public_values)))
     \<and> sp1_verify_raw L raw_proof raw_vkey_hash = Some (Inr ())"

lemma deserialize_canonical_proof_ok:
  "deserialize_canonical_proof L bs = Some (Inr p) \<longleftrightarrow>
     sp1_deserialize L bs = Some (Inr p) \<and> sp1_serialize L p = Some (Inr bs)"
  unfolding deserialize_canonical_proof_def outcome_then_Inr outcome_map_err_Inr by auto

lemma check_digest_ok:
  "check_digest H L v p = Some (Inr ()) \<longleftrightarrow>
     (\<exists>k ws. sp1_compressed L p = Some k
        \<and> length (sp1_proof_public_values L k) = sp1_proof_max_num_pvs L
        \<and> sp1_committed_value_digest L (sp1_proof_public_values L k) = Some ws
        \<and> limbs_are L ws (enc_hash32 (hash_bytes H v)))"
proof (cases "sp1_compressed L p")
  case None
  then show ?thesis by (simp add: check_digest_def)
next
  case (Some k)
  show ?thesis
    unfolding check_digest_def Some option.case Let_def outcome_then_Inr outcome_map_Inr
      committed_digest_bytes_ok require_sha256_public_values_digest_def
    by (auto simp: outcome_then_Inr committed_digest_bytes_ok split: if_splits)
qed

lemma verify_inner_ok:
  "verify_inner H L p v vk pid kind = Some (Inr j) \<longleftrightarrow>
     check_submission H p v vk pid kind = (Inr j :: 'v sp1_error + strict_journal)
     \<and> proof_verified H (L :: ('p, 'k, 'l, 'd, 'v) sp1_library) p v vk"
  unfolding verify_inner_def outcome_then_Inr outcome_map_err_Inr deserialize_canonical_proof_ok
    ex_unit check_digest_ok proof_verified_def
  by auto

lemma verify_raw_ok:
  "verify_raw_compressed_sha256 H L p v vk pid kind = Inr j \<longleftrightarrow>
     sizes_ok p v \<and> raw_vkey_hash_from_program_id pid = (Inr vk :: unit sp1_error + bytes)
     \<and> journal_ok H j \<and> enc_journal j = Some v \<and> sj_program_id j = pid
     \<and> sj_statement_kind j = kind \<and> take 4 p = [1, 0, 0, 0]
     \<and> proof_verified H L p v vk"
proof -
  have "verify_raw_compressed_sha256 H L p v vk pid kind = Inr j \<longleftrightarrow>
      verify_inner H L p v vk pid kind = Some (Inr j)"
    by (simp add: verify_raw_compressed_sha256_def split: option.splits)
  then show ?thesis unfolding verify_inner_ok check_submission_ok by simp
qed

subsection \<open>Errors that only the library can cause\<close>

text \<open>
  The size overflow cannot happen, and a panic is reported only for a panic of the library or
  more limbs than the digest array holds; \<open>internal\<close> names these two errors.
\<close>

fun internal :: "'v sp1_error \<Rightarrow> bool" where
  "internal AnnexSizeOverflow = True"
| "internal VerifierPanicked = True"
| "internal _ = False"

lemma outcome_then_Inl:
  "outcome_then m f = Some (Inl e) \<longleftrightarrow>
     m = Some (Inl e) \<or> (\<exists>x. m = Some (Inr x) \<and> f x = Some (Inl e))"
  by (auto simp: outcome_then_def split: option.splits sum.splits)

lemma program_id_Inl: "program_id_from_raw_vkey_hash vk = Inl e \<Longrightarrow> \<not> internal e"
proof -
  have "vkey_step acc x = Inl e \<Longrightarrow> \<not> internal e" for acc x
    by (cases x) (auto simp: vkey_step_def Let_def split: if_splits)
  then show "program_id_from_raw_vkey_hash vk = Inl e \<Longrightarrow> \<not> internal e"
    unfolding program_id_from_raw_vkey_hash_def if_Inl_Inl and_then_Inl Let_def
    by (auto dest!: try_fold_Inl split: if_splits)
qed

lemma reject_tag_Inl: "reject_noncompressed_tag bs = Inl e \<Longrightarrow> \<not> internal e"
  by (auto simp: reject_noncompressed_tag_def Let_def split: if_splits)

lemma check_submission_Inl: "check_submission H p v vk pid kind = Inl e \<Longrightarrow> \<not> internal e"
proof -
  assume e: "check_submission H p v vk pid kind = Inl e"
  have sizes: "usize_checked_add SP1_ANNEX_HEADER_SIZE (length v) = Some (55 + length v)"
    "usize_checked_add (55 + length v) (length p) = Some (55 + length v + length p)"
    if "\<not> MAX_RAW_COMPRESSED_PROOF_SIZE < length p" "\<not> SP1_PUBLIC_VALUES_MAX_SIZE < length v"
    using that by (simp_all add: usize_checked_add_def SP1_ANNEX_HEADER_SIZE_def
        MAX_RAW_COMPRESSED_PROOF_SIZE_def SP1_ANNEX_MAX_SIZE_def SP1_PUBLIC_VALUES_MAX_SIZE_def)
  from e show ?thesis
    unfolding check_submission_def if_Inl_Inl and_then_Inl ok_or_Inl map_err_Inl
    using sizes program_id_Inl reject_tag_Inl
    by (auto simp: and_then_Inl ok_or_Inl map_err_Inl if_Inl_Inl ok_or_Inr)
qed

lemma limb_loop_Inl: "limb_loop L acc i ls = Some (Inl e) \<Longrightarrow> \<not> internal e"
  by (induction ls arbitrary: acc i) (auto simp: Let_def split: if_splits)

lemma check_digest_Inl: "check_digest H L v p = Some (Inl e) \<Longrightarrow> \<not> internal e"
  using limb_loop_Inl
  by (fastforce simp: check_digest_def Let_def outcome_then_Inl committed_digest_bytes_def
      require_sha256_public_values_digest_def split: option.splits if_splits)

lemma deserialize_Inl: "deserialize_canonical_proof L bs = Some (Inl e) \<Longrightarrow> \<not> internal e"
  by (auto simp: deserialize_canonical_proof_def outcome_then_Inl map_err_Inl split: if_splits)

lemma verify_inner_Inl: "verify_inner H L p v vk pid kind = Some (Inl e) \<Longrightarrow> \<not> internal e"
  unfolding verify_inner_def outcome_then_Inl
  by (auto simp: map_err_Inl dest: check_submission_Inl deserialize_Inl check_digest_Inl)

text \<open>Where an attempt panics: the calls of the library in their order.\<close>

definition digest_panics ::
  "('p, 'k, 'l, 'd, 'v) sp1_library \<Rightarrow> 'p \<Rightarrow> bool" where
  "digest_panics L p \<longleftrightarrow>
     (\<exists>k. sp1_compressed L p = Some k
        \<and> length (sp1_proof_public_values L k) = sp1_proof_max_num_pvs L
        \<and> (case sp1_committed_value_digest L (sp1_proof_public_values L k) of
             None \<Rightarrow> True
           | Some ws \<Rightarrow> 32 < length (concat ws)
               \<and> list_all (\<lambda>l. sp1_as_canonical_u32 L l \<le> 255) (take 33 (concat ws))))"

lemma limb_loop_None:
  "i \<le> length acc \<Longrightarrow> limb_loop L acc i ls = None \<longleftrightarrow>
     length acc < i + length ls
     \<and> list_all (\<lambda>l. sp1_as_canonical_u32 L l \<le> 255) (take (Suc (length acc - i)) ls)"
proof (induction ls arbitrary: acc i)
  case (Cons l ls)
  show ?case
  proof (cases "i < length acc")
    case True
    then have "Suc (length acc - Suc i) = length acc - i" by simp
    with True show ?thesis
      using Cons.IH [of "Suc i" "acc[i := ucast (sp1_as_canonical_u32 L l)]"]
      by (auto simp: Let_def not_less)
  next
    case False
    with Cons.prems show ?thesis by (auto simp: Let_def not_less)
  qed
qed simp

lemma check_digest_None: "check_digest H L v p = None \<longleftrightarrow> digest_panics L p"
proof (cases "sp1_compressed L p")
  case None
  then show ?thesis by (simp add: check_digest_def digest_panics_def)
next
  case (Some k)
  have loop: "committed_digest_bytes L ws = None \<longleftrightarrow>
      32 < length (concat ws) \<and> list_all (\<lambda>l. sp1_as_canonical_u32 L l \<le> 255) (take 33 (concat ws))"
    for ws by (simp add: committed_digest_bytes_def limb_loop_None)
  show ?thesis
    unfolding check_digest_def digest_panics_def Some option.case Let_def
    by (auto simp: outcome_then_None loop split: option.splits)
qed

lemma verify_inner_None:
  "verify_inner H L p v vk pid kind = None \<longleftrightarrow>
     (\<exists>j. check_submission H p v vk pid kind = (Inr j :: 'v sp1_error + strict_journal))
     \<and> (sp1_deserialize (L :: ('p, 'k, 'l, 'd, 'v) sp1_library) p = None
        \<or> (\<exists>q. sp1_deserialize L p = Some (Inr q)
             \<and> (sp1_serialize L q = None
                \<or> sp1_serialize L q = Some (Inr p)
                  \<and> (digest_panics L q
                     \<or> check_digest H L v q = Some (Inr ()) \<and> sp1_verify_raw L p vk = None))))"
proof -
  have "deserialize_canonical_proof L p = None \<longleftrightarrow> sp1_deserialize L p = None
      \<or> (\<exists>q. sp1_deserialize L p = Some (Inr q) \<and> sp1_serialize L q = None)"
    unfolding deserialize_canonical_proof_def outcome_then_None outcome_map_err_Inr by simp
  then show ?thesis
    unfolding verify_inner_def outcome_then_None deserialize_canonical_proof_ok check_digest_None
    by (auto simp: ex_unit)
qed

lemma verify_raw_cases:
  "verify_raw_compressed_sha256 H L p v vk pid kind = Inl VerifierPanicked \<longleftrightarrow>
     verify_inner H L p v vk pid kind = None"
  "verify_raw_compressed_sha256 H L p v vk pid kind \<noteq> Inl AnnexSizeOverflow"
  by (auto simp: verify_raw_compressed_sha256_def split: option.splits dest: verify_inner_Inl)

subsection \<open>Properties\<close>

text \<open>
  Program ids and raw keys. The two conversions are inverse to each other, failures
  included: each id has one key and each key one id, and they exist exactly for the non-zero ids
  whose eight big-endian words are below the field modulus. The key is the id with the bytes of
  every word reversed.
\<close>

theorem sp1_key_roundtrip:
  "(raw_vkey_hash_from_program_id pid = Inr raw \<longleftrightarrow> program_id_from_raw_vkey_hash raw = Inr pid)
   \<and> (raw_vkey_hash_from_program_id pid = Inr raw \<longleftrightarrow>
      pid \<noteq> 0 \<and> words_canonical (enc_hash32 pid) \<and> raw = swap_words (enc_hash32 pid))"
  by (simp only: raw_vkey_hash_ok program_id_ok)

text \<open>
  C15: what an accepted proof is. The adapter returns a journal exactly when the sizes fit the
  annex, the key is the one derived from the expected program id, the public values are the
  encoding of that well-formed journal of the expected program and kind, and the proof has the
  compressed tag, is canonically encoded, commits to the SHA-256 digest of the public values and
  is accepted by the raw verifier for that key.
\<close>

theorem sp1_verification_exact:
  "verify_raw_compressed_sha256 H L p v vk pid kind = Inr j \<longleftrightarrow>
     sizes_ok p v \<and> raw_vkey_hash_from_program_id pid = (Inr vk :: unit sp1_error + bytes)
     \<and> journal_ok H j \<and> enc_journal j = Some v \<and> sj_program_id j = pid
     \<and> sj_statement_kind j = kind \<and> take 4 p = [1, 0, 0, 0]
     \<and> proof_verified H L p v vk"
  by (rule verify_raw_ok)

text \<open>
  C16: annex and proof together. For an annex accepted for a program and kind, its proof and
  public values are accepted by the adapter exactly when the program id has a raw key and the
  proof itself verifies for it: no check of the adapter contradicts one of the annex, and both
  return the same journal.
\<close>

theorem annexed_proof_exact:
  "verify_strict_journal H bs pid kind = Inr (a, j)
     \<and> verify_raw_compressed_sha256 H L (sa_proof a) (sa_public_values a) vk pid kind = Inr j'
   \<longleftrightarrow> verify_strict_journal H bs pid kind = Inr (a, j) \<and> j' = j
     \<and> raw_vkey_hash_from_program_id pid = (Inr vk :: unit sp1_error + bytes)
     \<and> take 4 (sa_proof a) = [1, 0, 0, 0]
     \<and> proof_verified H L (sa_proof a) (sa_public_values a) vk"
proof -
  have "sizes_ok (sa_proof a) (sa_public_values a)" if "annex_ok a"
    using that by (simp add: annex_ok_def sizes_ok_def)
  moreover have "j' = j" if "journal_ok H j" "enc_journal j = Some v" "journal_ok H j'"
    "enc_journal j' = Some v" for v
    using that decode_strict_iff [of H v j] decode_strict_iff [of H v j'] by simp
  ultimately show ?thesis
    unfolding verify_strict_journal_ok verify_raw_ok by blast
qed

text \<open>
  Fail-closed panics. The size of the annex never overflows, and the adapter reports a panic
  exactly when a call of the library panics in the order of the calls (or the library hands
  more limbs than the digest array holds); in every other case the error is its own.
\<close>

theorem sp1_panics:
  "verify_raw_compressed_sha256 H L p v vk pid kind \<noteq> Inl AnnexSizeOverflow
   \<and> (verify_raw_compressed_sha256 H L p v vk pid kind = Inl VerifierPanicked \<longleftrightarrow>
      (\<exists>j. check_submission H p v vk pid kind = (Inr j :: 'v sp1_error + strict_journal))
      \<and> (sp1_deserialize (L :: ('p, 'k, 'l, 'd, 'v) sp1_library) p = None
         \<or> (\<exists>q. sp1_deserialize L p = Some (Inr q)
              \<and> (sp1_serialize L q = None
                 \<or> sp1_serialize L q = Some (Inr p)
                   \<and> (digest_panics L q
                      \<or> check_digest H L v q = Some (Inr ()) \<and> sp1_verify_raw L p vk = None)))))"
  unfolding verify_raw_cases(1) verify_inner_None using verify_raw_cases(2) by blast

end
