(* ===== verification/Plain_Text.thy ===== *)
theory Plain_Text
  imports Hashing
begin

section \<open>Text: lines, columns and numbers of the standard library\<close>

text \<open>
  What the gate file and the command line use of \<open>str\<close>. A \<open>&str\<close> is the list of its UTF-8
  bytes; the separators are ASCII, so that splitting bytes is splitting characters. A decimal
  number parses as \<open>u64\<close> with an optional plus sign, any number of leading zeros, and an error
  on overflow.
\<close>

fun split_on :: "u8 \<Rightarrow> bytes \<Rightarrow> bytes list" where
  "split_on c [] = [[]]"
| "split_on c (b # bs) =
     (if b = c then [] # split_on c bs
      else (b # hd (split_on c bs)) # tl (split_on c bs))"

definition LF :: u8 where
  "LF = 10"

definition CR :: u8 where
  "CR = 13"

definition TAB :: u8 where
  "TAB = 9"

definition strip_cr :: "bytes \<Rightarrow> bytes" where
  "strip_cr line = (if line \<noteq> [] \<and> last line = CR then butlast line else line)"

text \<open>\<open>str::lines\<close>: a final line without a line feed counts when it is not empty.\<close>

definition text_lines :: "bytes \<Rightarrow> bytes list" where
  "text_lines s =
     (let pieces = split_on LF s
      in map strip_cr (butlast pieces) @ (if last pieces = [] then [] else [last pieces]))"

definition strip_prefix :: "bytes \<Rightarrow> bytes \<Rightarrow> bytes option" where
  "strip_prefix p s = (if take (length p) s = p then Some (drop (length p) s) else None)"

fun split_once :: "u8 \<Rightarrow> bytes \<Rightarrow> (bytes \<times> bytes) option" where
  "split_once c [] = None"
| "split_once c (b # bs) =
     (if b = c then Some ([], bs)
      else map_option (\<lambda>(before, after). (b # before, after)) (split_once c bs))"

text \<open>\<open>trim().is_empty()\<close>: only characters of the Unicode property \<open>White_Space\<close>.\<close>

definition WHITE_SPACE :: "bytes list" where
  "WHITE_SPACE =
     [[0x09], [0x0A], [0x0B], [0x0C], [0x0D], [0x20], [0xC2, 0x85], [0xC2, 0xA0],
      [0xE1, 0x9A, 0x80], [0xE2, 0x80, 0x80], [0xE2, 0x80, 0x81], [0xE2, 0x80, 0x82],
      [0xE2, 0x80, 0x83], [0xE2, 0x80, 0x84], [0xE2, 0x80, 0x85], [0xE2, 0x80, 0x86],
      [0xE2, 0x80, 0x87], [0xE2, 0x80, 0x88], [0xE2, 0x80, 0x89], [0xE2, 0x80, 0x8A],
      [0xE2, 0x80, 0xA8], [0xE2, 0x80, 0xA9], [0xE2, 0x80, 0xAF], [0xE2, 0x81, 0x9F],
      [0xE3, 0x80, 0x80]]"

function blank :: "bytes \<Rightarrow> bool" where
  "blank s =
     (if s = [] then True
      else case List.find (\<lambda>w. prefix w s \<and> w \<noteq> []) WHITE_SPACE of
             None \<Rightarrow> False
           | Some w \<Rightarrow> blank (drop (length w) s))"
  by pat_completeness auto
termination
  by (relation "measure length") (auto simp: find_Some_iff)

definition ascii_lower :: "u8 \<Rightarrow> u8" where
  "ascii_lower b = (if 65 \<le> b \<and> b \<le> 90 then b + 32 else b)"

definition eq_ignore_ascii_case :: "bytes \<Rightarrow> bytes \<Rightarrow> bool" where
  "eq_ignore_ascii_case s t \<longleftrightarrow> map ascii_lower s = map ascii_lower t"

subsection \<open>Numbers\<close>

definition is_digit :: "u8 \<Rightarrow> bool" where
  "is_digit b \<longleftrightarrow> 48 \<le> b \<and> b \<le> 57"

fun parse_digits :: "u64 \<Rightarrow> bytes \<Rightarrow> u64 option" where
  "parse_digits n [] = Some n"
| "parse_digits n (b # bs) =
     (if is_digit b
      then case checked_mul n 10 of
             None \<Rightarrow> None
           | Some n \<Rightarrow> (case checked_add n (ucast (b - 48)) of
               None \<Rightarrow> None
             | Some n \<Rightarrow> parse_digits n bs)
      else None)"

definition parse_u64_str :: "bytes \<Rightarrow> u64 option" where
  "parse_u64_str s =
     (if s = [] then None
      else if s = ascii ''+'' \<or> s = ascii ''-'' then None
      else if hd s = 43 then parse_digits 0 (tl s)
      else parse_digits 0 s)"

text \<open>\<open>to_string\<close> of an integer.\<close>

fun decimal :: "nat \<Rightarrow> bytes" where
  "decimal n =
     (if n < 10 then [48 + of_nat n] else decimal (n div 10) @ [48 + of_nat (n mod 10)])"

declare blank.simps [simp del] decimal.simps [simp del]

subsection \<open>What splitting and parsing return\<close>

lemma split_on_not_Nil [simp]: "split_on c s \<noteq> []"
  by (cases s) auto

lemma split_on_pieces: "p \<in> set (split_on c s) \<Longrightarrow> c \<notin> set p"
proof (induction s arbitrary: p)
  case (Cons b s)
  obtain q qs where "split_on c s = q # qs" by (meson list.exhaust split_on_not_Nil)
  with Cons show ?case by (auto split: if_splits)
qed simp

lemma split_on_no_separator: "c \<notin> set s \<Longrightarrow> split_on c s = [s]"
  by (induction s) auto

lemma split_on_append: "c \<notin> set p \<Longrightarrow> split_on c (p @ c # s) = p # split_on c s"
  by (induction p) auto

text \<open>The columns joined by a separator, the inverse of splitting.\<close>

fun join_with :: "u8 \<Rightarrow> bytes list \<Rightarrow> bytes" where
  "join_with c [] = []"
| "join_with c [p] = p"
| "join_with c (p # q # ps) = p @ c # join_with c (q # ps)"

lemma split_on_join:
  "ps \<noteq> [] \<Longrightarrow> list_all (\<lambda>p. c \<notin> set p) ps \<Longrightarrow> split_on c (join_with c ps) = ps"
  by (induction c ps rule: join_with.induct) (simp_all add: split_on_no_separator split_on_append)

lemma join_split_on: "join_with c (split_on c s) = s"
proof (induction s)
  case (Cons b s)
  obtain p ps where "split_on c s = p # ps" by (meson list.exhaust split_on_not_Nil)
  with Cons show ?case by (cases ps) auto
qed simp

lemma split_on_iff:
  "split_on c s = ps \<longleftrightarrow> ps \<noteq> [] \<and> list_all (\<lambda>p. c \<notin> set p) ps \<and> s = join_with c ps"
  using split_on_join [of ps c] join_split_on [of c s] split_on_pieces [of _ c s]
  by (auto simp: list_all_iff)

lemma split_once_Some:
  "split_once c s = Some (p, q) \<longleftrightarrow> c \<notin> set p \<and> s = p @ c # q"
proof (induction s arbitrary: p)
  case (Cons b s)
  show ?case
  proof (cases p)
    case Nil
    then show ?thesis by auto
  next
    case (Cons b' p')
    then show ?thesis using Cons.IH [of p'] by auto
  qed
qed simp

lemma split_once_None: "split_once c s = None \<longleftrightarrow> c \<notin> set s"
  by (induction s) auto

text \<open>Lines that end in a line feed, without a carriage return before it.\<close>

lemma text_lines_join:
  "list_all (\<lambda>l. LF \<notin> set l \<and> (l = [] \<or> last l \<noteq> CR)) ls \<Longrightarrow>
     text_lines (concat (map (\<lambda>l. l @ [LF]) ls)) = ls"
proof -
  assume ok: "list_all (\<lambda>l. LF \<notin> set l \<and> (l = [] \<or> last l \<noteq> CR)) ls"
  then have "split_on LF (concat (map (\<lambda>l. l @ [LF]) ls)) = ls @ [[]]"
    by (induction ls) (simp_all add: split_on_append)
  moreover have "map strip_cr ls = ls"
    using ok by (induction ls) (auto simp: strip_cr_def)
  ultimately show ?thesis by (simp add: text_lines_def Let_def)
qed

definition digits_value :: "nat \<Rightarrow> bytes \<Rightarrow> nat" where
  "digits_value n ds = fold (\<lambda>b n. 10 * n + (unat b - 48)) ds n"

lemma digits_value_simps [simp]:
  "digits_value n [] = n"
  "digits_value n (b # bs) = digits_value (10 * n + (unat b - 48)) bs"
  "digits_value n (bs @ cs) = digits_value (digits_value n bs) cs"
  by (simp_all add: digits_value_def)

lemma digits_value_ge: "n \<le> digits_value n ds"
proof (induction ds arbitrary: n)
  case (Cons b ds)
  from Cons [of "10 * n + (unat b - 48)"] show ?case by simp
qed simp

lemma digit_step:
  assumes "is_digit b"
  shows "(case checked_mul (n :: u64) 10 of None \<Rightarrow> None
          | Some m \<Rightarrow> checked_add m (ucast (b - 48))) = Some k \<longleftrightarrow>
    unat k = 10 * unat n + (unat b - 48)"
proof -
  have "unat (b - 48) = unat b - 48"
    using assms by (simp add: is_digit_def unat_sub)
  then have c: "unat (ucast (b - 48) :: u64) = unat b - 48" 
    using unat_bound [of "b - 48"] by (simp add: unsigned_ucast_eq take_bit_nat_eq_self)
  show ?thesis
  proof (cases "checked_mul n 10")
    case None
    then have "2 ^ 64 \<le> unat n * 10" by (auto simp: checked_mul_def split: if_splits)
    then show ?thesis using unat_bound [of k] None by simp
  next
    case (Some m)
    then have m: "unat m = unat n * 10" by (simp only: checked_mul_Some) simp
    show ?thesis using Some by (simp add: checked_add_Some c m mult.commute)
  qed
qed

lemma parse_digits_Some:
  "parse_digits n ds = Some k \<longleftrightarrow> list_all is_digit ds \<and> digits_value (unat n) ds = unat k"
proof (induction ds arbitrary: n)
  case (Cons b ds)
  show ?case
  proof (cases "is_digit b")
    case True
    let ?m = "case checked_mul n 10 of None \<Rightarrow> None | Some m \<Rightarrow> checked_add m (ucast (b - 48))"
    have step: "parse_digits n (b # ds) = (case ?m of None \<Rightarrow> None | Some m \<Rightarrow> parse_digits m ds)"
      using True by (simp split: option.splits)
    show ?thesis
    proof (cases ?m)
      case None
      have "10 * unat n + (unat b - 48) < 2 ^ 64 \<Longrightarrow> False"
        using digit_step [OF True, of n "of_nat (10 * unat n + (unat b - 48))"] None
          unat_of_nat [of "10 * unat n + (unat b - 48)", where 'a = 64]
        by (simp del: of_nat_add of_nat_mult)
      then have "2 ^ 64 \<le> digits_value (10 * unat n + (unat b - 48)) ds"
        using digits_value_ge [of "10 * unat n + (unat b - 48)" ds] by (meson le_trans not_le)
      then show ?thesis using None unat_bound [of k] step by simp
    next
      case (Some m)
      then have "unat m = 10 * unat n + (unat b - 48)" using digit_step [OF True] by blast
      then show ?thesis using Cons.IH [of m] Some True step by simp
    qed
  qed simp
qed (simp add: unat_eq_iff eq_commute)

text \<open>What parses: at least one digit, after at most one plus sign, with a value below 2 ^ 64.\<close>

lemma parse_u64_Some:
  "parse_u64_str s = Some n \<longleftrightarrow>
     (\<exists>ds. (s = ds \<or> s = 43 # ds) \<and> ds \<noteq> [] \<and> list_all is_digit ds
        \<and> digits_value 0 ds = unat n)"
proof -
  have sign: "\<not> is_digit 43" "\<not> is_digit 45" by (simp_all add: is_digit_def)
  have chars: "ascii ''+'' = [43]" "ascii ''-'' = [45]" by simp_all
  show ?thesis
    unfolding parse_u64_str_def chars
    by (cases s) (auto simp: parse_digits_Some sign simp del: parse_digits.simps)
qed

lemma decimal_digits: "list_all is_digit (decimal n) \<and> decimal n \<noteq> [] \<and> digits_value 0 (decimal n) = n"
proof (induction n rule: decimal.induct)
  case (1 n)
  have digit: "is_digit (48 + of_nat k)" "unat (48 + of_nat k :: u8) = 48 + k" if "k < 10" for k
  proof -
    have k: "unat (of_nat k :: u8) = k" using that by (simp add: unat_of_nat)
    then show u: "unat (48 + of_nat k :: u8) = 48 + k" using that by (simp add: unat_word_ariths)
    show "is_digit (48 + of_nat k)" using u that by (simp add: is_digit_def word_le_nat_alt)
  qed
  show ?case
  proof (cases "n < 10")
    case True
    then show ?thesis using digit [of n] by (simp add: decimal.simps [of n])
  next
    case False
    then show ?thesis using 1 digit [of "n mod 10"] by (simp add: decimal.simps [of n])
  qed
qed

lemma parse_decimal: "parse_u64_str (decimal (unat w)) = Some w"
  unfolding parse_u64_Some using decimal_digits by blast

end
