(* ===== verification/Gates.thy ===== *)
theory Gates
  imports Plain_Text
begin

section \<open>Launch gates (usdd-core/src/gates.rs)\<close>

text \<open>
  The evidence gates of a release: the parser of the gate file, the verification of the
  evidence files by their SHA-256 digests, the criterion of each gate and the report. A
  \<open>BTreeMap\<close> is a map from ids to entries. Reading \<open>evidence_root.join(path)\<close> is the argument
  \<open>R\<close>, from the relative path to the bytes or the message of an I/O error. Paths are Unix paths.
\<close>

definition REQUIRED_LAUNCH_GATES :: "bytes list" where
  "REQUIRED_LAUNCH_GATES = map ascii
     [''proof-size'', ''x86-latency'', ''arm-latency'', ''peak-memory'', ''block-weight'',
      ''evm-gas'', ''full-validity-invalid-block-rejection'', ''volume-100k'', ''soak-90-day'',
      ''sp1-soundness-independent-confirmation'', ''solidity-independent-audit'',
      ''sp1-guests-independent-audit'', ''elements-simplicity-independent-audit'',
      ''ethereum-client-differential'', ''elements-bitcoin-enforcer-differential'',
      ''cross-domain-replay-fuzz'']"

datatype gate_status = Blocked | Pass | Fail

datatype gate_error =
    InvalidHeader
  | WrongColumnCount nat nat
  | InvalidStatus bytes
  | UnknownGate bytes
  | DuplicateGate bytes
  | InvalidEvidenceSpec bytes
  | UnsafeEvidencePath bytes
  | EvidenceRead bytes bytes
  | EvidenceDigestMismatch bytes

fun gate_status_str :: "gate_status \<Rightarrow> bytes" where
  "gate_status_str Blocked = ascii ''BLOCKED''"
| "gate_status_str Pass = ascii ''PASS''"
| "gate_status_str Fail = ascii ''FAIL''"

definition gate_status_parse :: "bytes \<Rightarrow> gate_error + gate_status" where
  "gate_status_parse v =
     (if v = ascii ''BLOCKED'' then Inr Blocked
      else if v = ascii ''PASS'' then Inr Pass
      else if v = ascii ''FAIL'' then Inr Fail
      else Inl (InvalidStatus v))"

record gate_entry =
  ge_id :: bytes
  ge_status :: gate_status
  ge_measured_value :: bytes
  ge_evidence :: bytes
  ge_evidence_verified :: bool

record gate_report =
  gr_entries :: "gate_entry list"

subsection \<open>The criteria\<close>

definition numeric_gate :: "(nat \<Rightarrow> bool) \<Rightarrow> bytes \<Rightarrow> bool" where
  "numeric_gate criterion v =
     (case parse_u64_str v of None \<Rightarrow> False | Some number \<Rightarrow> criterion (unat number))"

definition rejection_gate :: "bytes \<Rightarrow> bool" where
  "rejection_gate v =
     (case split_once 47 v of
        None \<Rightarrow> False
      | Some (rejected, all_blocks) \<Rightarrow>
          (case (parse_u64_str rejected, parse_u64_str all_blocks) of
             (Some rejected, Some all_blocks) \<Rightarrow> 0 < all_blocks \<and> rejected = all_blocks
           | _ \<Rightarrow> False))"

definition meets_gate_criterion :: "bytes \<Rightarrow> bytes \<Rightarrow> bool" where
  "meets_gate_criterion gate v =
     (if gate = ascii ''proof-size'' then numeric_gate (\<lambda>n. n \<le> 512 * 1024) v
      else if gate = ascii ''x86-latency'' then numeric_gate (\<lambda>n. n \<le> 500) v
      else if gate = ascii ''arm-latency'' then numeric_gate (\<lambda>n. n \<le> 2000) v
      else if gate = ascii ''peak-memory'' then numeric_gate (\<lambda>n. n \<le> 256 * 1024 * 1024) v
      else if gate = ascii ''block-weight'' then numeric_gate (\<lambda>n. n \<le> 2500) v
      else if gate = ascii ''evm-gas'' then numeric_gate (\<lambda>n. n \<le> 5000) v
      else if gate = ascii ''full-validity-invalid-block-rejection'' then rejection_gate v
      else if gate = ascii ''volume-100k'' then numeric_gate (\<lambda>n. 100000 \<le> n) v
      else if gate = ascii ''soak-90-day'' then numeric_gate (\<lambda>n. 90 \<le> n) v
      else if gate = ascii ''sp1-soundness-independent-confirmation''
        \<or> gate = ascii ''solidity-independent-audit''
        \<or> gate = ascii ''sp1-guests-independent-audit''
        \<or> gate = ascii ''elements-simplicity-independent-audit''
        \<or> gate = ascii ''ethereum-client-differential''
        \<or> gate = ascii ''elements-bitcoin-enforcer-differential''
        \<or> gate = ascii ''cross-domain-replay-fuzz'' then v = ascii ''complete''
      else False)"

definition is_measured_pass :: "gate_entry \<Rightarrow> bool" where
  "is_measured_pass e \<longleftrightarrow>
     ge_status e = Pass \<and> ge_evidence_verified e
     \<and> meets_gate_criterion (ge_id e) (ge_measured_value e)"

subsection \<open>Parsing the gate file\<close>

definition TSV_HEADER :: bytes where
  "TSV_HEADER = join_with TAB (map ascii [''gate'', ''status'', ''measured_value'', ''evidence''])"

definition tsv_line ::
  "(bytes \<rightharpoonup> gate_entry) \<Rightarrow> nat \<times> bytes \<Rightarrow> gate_error + (bytes \<rightharpoonup> gate_entry)" where
  "tsv_line provided item =
     (case item of (line_index, line) \<Rightarrow>
      if blank line \<or> take 1 line = ascii ''#'' then Inr provided
      else let columns = split_on TAB line
      in if length columns \<noteq> 4 then Inl (WrongColumnCount (line_index + 2) (length columns))
      else let gate = columns ! 0
      in if gate \<notin> set REQUIRED_LAUNCH_GATES then Inl (UnknownGate gate)
      else and_then (gate_status_parse (columns ! 1)) (\<lambda>status.
        let entry = \<lparr>ge_id = gate, ge_status = status, ge_measured_value = columns ! 2,
                      ge_evidence = columns ! 3, ge_evidence_verified = False\<rparr>
        in if provided gate \<noteq> None then Inl (DuplicateGate gate)
           else Inr (provided(gate \<mapsto> entry))))"

definition unmeasured :: "bytes \<Rightarrow> gate_entry" where
  "unmeasured gate =
     \<lparr>ge_id = gate, ge_status = Blocked, ge_measured_value = ascii ''UNMEASURED'',
      ge_evidence = ascii ''NONE'', ge_evidence_verified = False\<rparr>"

text \<open>The closure over the required ids, which removes the entry it returns.\<close>

fun collect_entries :: "(bytes \<rightharpoonup> gate_entry) \<Rightarrow> bytes list \<Rightarrow> gate_entry list" where
  "collect_entries provided [] = []"
| "collect_entries provided (gate # gates) =
     (case provided gate of Some entry \<Rightarrow> entry | None \<Rightarrow> unmeasured gate)
     # collect_entries (provided(gate := None)) gates"

definition parse_tsv :: "bytes \<Rightarrow> gate_error + gate_report" where
  "parse_tsv input =
     (case text_lines input of
        [] \<Rightarrow> Inl InvalidHeader
      | header # lines \<Rightarrow>
          if header \<noteq> TSV_HEADER then Inl InvalidHeader
          else and_then (try_fold tsv_line Map.empty (List.enumerate 0 lines)) (\<lambda>provided.
            Inr \<lparr>gr_entries = collect_entries provided REQUIRED_LAUNCH_GATES\<rparr>))"

subsection \<open>Verifying the evidence\<close>

definition is_hexdigit :: "u8 \<Rightarrow> bool" where
  "is_hexdigit b \<longleftrightarrow> is_digit b \<or> 97 \<le> b \<and> b \<le> 102 \<or> 65 \<le> b \<and> b \<le> 70"

definition parse_evidence_spec :: "bytes \<Rightarrow> (bytes \<times> bytes) option" where
  "parse_evidence_spec v =
     (case strip_prefix (ascii ''sha256:'') v of
        None \<Rightarrow> None
      | Some spec \<Rightarrow>
          (case split_once 64 spec of
             None \<Rightarrow> None
           | Some (hex, path) \<Rightarrow>
               if length hex \<noteq> 64 \<or> \<not> list_all is_hexdigit hex \<or> \<not> list_ex (\<lambda>b. b \<noteq> 48) hex
                 \<or> path = []
               then None else Some (hex, path)))"

datatype path_component = RootDir | CurDir | ParentDir | Normal bytes

text \<open>\<open>Path::components\<close>: a dot counts only in front, empty parts never.\<close>

definition path_part :: "bytes \<Rightarrow> path_component" where
  "path_part p = (if p = ascii ''..'' then ParentDir else Normal p)"

definition path_components :: "bytes \<Rightarrow> path_component list" where
  "path_components path =
     (let parts = split_on 47 path
      in (if take 1 path = ascii ''/'' then [RootDir]
          else if hd parts = ascii ''.'' then [CurDir] else [])
         @ map path_part (filter (\<lambda>p. p \<noteq> [] \<and> p \<noteq> ascii ''.'') parts))"

definition is_absolute :: "bytes \<Rightarrow> bool" where
  "is_absolute path \<longleftrightarrow> take 1 path = ascii ''/''"

fun is_normal :: "path_component \<Rightarrow> bool" where
  "is_normal (Normal _) = True"
| "is_normal _ = False"

definition verify_evidence ::
  "(bytes \<Rightarrow> hash32) \<Rightarrow> (bytes \<Rightarrow> bytes + bytes) \<Rightarrow> gate_entry \<Rightarrow> gate_error + gate_entry" where
  "verify_evidence H R entry =
     (if ge_status entry \<noteq> Pass then Inr entry
      else and_then (ok_or (parse_evidence_spec (ge_evidence entry))
             (InvalidEvidenceSpec (ge_id entry))) (\<lambda>(declared_digest, path).
      if path = [] \<or> is_absolute path \<or> list_ex (\<lambda>c. \<not> is_normal c) (path_components path)
      then Inl (UnsafeEvidencePath (ge_id entry))
      else and_then (map_err (EvidenceRead (ge_id entry)) (R path)) (\<lambda>bs.
        if \<not> eq_ignore_ascii_case (hash32_to_hex (hash_bytes H bs)) declared_digest
        then Inl (EvidenceDigestMismatch (ge_id entry))
        else Inr (entry\<lparr>ge_evidence_verified := True\<rparr>))))"

fun verify_entries ::
  "(bytes \<Rightarrow> hash32) \<Rightarrow> (bytes \<Rightarrow> bytes + bytes) \<Rightarrow> gate_entry list \<Rightarrow> gate_error + gate_entry list"
  where
  "verify_entries H R [] = Inr []"
| "verify_entries H R (entry # entries) =
     and_then (verify_evidence H R entry) (\<lambda>entry.
     and_then (verify_entries H R entries) (\<lambda>entries. Inr (entry # entries)))"

definition verify_evidence_files ::
  "(bytes \<Rightarrow> hash32) \<Rightarrow> (bytes \<Rightarrow> bytes + bytes) \<Rightarrow> gate_report \<Rightarrow> gate_error + gate_report" where
  "verify_evidence_files H R report =
     and_then (verify_entries H R (gr_entries report)) (\<lambda>entries.
       Inr (report\<lparr>gr_entries := entries\<rparr>))"

subsection \<open>The report\<close>

definition launch_ready :: "gate_report \<Rightarrow> bool" where
  "launch_ready report \<longleftrightarrow>
     length (gr_entries report) = length REQUIRED_LAUNCH_GATES
     \<and> list_all is_measured_pass (gr_entries report)"

definition blocked_count :: "gate_report \<Rightarrow> nat" where
  "blocked_count report = length (filter (\<lambda>e. \<not> is_measured_pass e) (gr_entries report))"

definition render_entry :: "gate_entry \<Rightarrow> bytes" where
  "render_entry entry =
     (let effective =
        (if is_measured_pass entry then ascii ''PASS''
         else if ge_status entry = Fail then ascii ''FAIL'' else ascii ''BLOCKED'')
      in concat [ge_id entry, ascii '': '', effective, ascii '' (value='', ge_measured_value entry,
           ascii '', evidence='', ge_evidence entry, ascii '')'', [LF]])"

definition render_text :: "gate_report \<Rightarrow> bytes" where
  "render_text report =
     concat (map render_entry (gr_entries report))
     @ (if launch_ready report then ascii ''launch: PASS'' else ascii ''launch: BLOCKED'') @ [LF]"

subsection \<open>What the parser accepts\<close>

text \<open>The rows of the file, and when a row is one of the table.\<close>

definition gate_rows :: "bytes list \<Rightarrow> bytes list list" where
  "gate_rows lines =
     map (split_on TAB) (filter (\<lambda>l. \<not> (blank l \<or> take 1 l = ascii ''#'')) lines)"

definition row_ok :: "bytes list \<Rightarrow> bool" where
  "row_ok r \<longleftrightarrow> length r = 4 \<and> r ! 0 \<in> set REQUIRED_LAUNCH_GATES
     \<and> r ! 1 \<in> gate_status_str ` {Blocked, Pass, Fail}"

definition row_status :: "bytes list \<Rightarrow> gate_status" where
  "row_status r =
     (if r ! 1 = ascii ''PASS'' then Pass else if r ! 1 = ascii ''FAIL'' then Fail else Blocked)"

definition row_entry :: "bytes list \<Rightarrow> gate_entry" where
  "row_entry r = \<lparr>ge_id = r ! 0, ge_status = row_status r, ge_measured_value = r ! 2,
     ge_evidence = r ! 3, ge_evidence_verified = False\<rparr>"

definition row_table :: "bytes list list \<Rightarrow> bytes \<rightharpoonup> gate_entry" where
  "row_table rows = map_of (map (\<lambda>r. (r ! 0, row_entry r)) rows)"

definition entry_of :: "bytes list list \<Rightarrow> bytes \<Rightarrow> gate_entry" where
  "entry_of rows gate =
     (case row_table rows gate of Some entry \<Rightarrow> entry | None \<Rightarrow> unmeasured gate)"

lemma gate_status_parse_ok:
  "gate_status_parse v = Inr st \<longleftrightarrow>
     v \<in> gate_status_str ` {Blocked, Pass, Fail}
     \<and> st = (if v = ascii ''PASS'' then Pass else if v = ascii ''FAIL'' then Fail else Blocked)"
  by (auto simp: gate_status_parse_def)

lemma tsv_line_ok:
  "tsv_line provided (i, l) = Inr provided' \<longleftrightarrow>
     (if blank l \<or> take 1 l = ascii ''#'' then provided' = provided
      else row_ok (split_on TAB l) \<and> provided (split_on TAB l ! 0) = None
        \<and> provided' = provided(split_on TAB l ! 0 \<mapsto> row_entry (split_on TAB l)))"
proof (cases "blank l \<or> take 1 l = ascii ''#''")
  case True
  then show ?thesis by (auto simp: tsv_line_def)
next
  case False
  then show ?thesis
    unfolding tsv_line_def prod.case if_not_P [OF False] Let_def if_Inl_Inr and_then_Inr
      gate_status_parse_ok row_ok_def row_entry_def row_status_def
    by auto
qed

lemma tsv_lines_ok:
  "try_fold tsv_line provided (List.enumerate k lines) = Inr provided' \<longleftrightarrow>
     list_all row_ok (gate_rows lines) \<and> distinct (map (\<lambda>r. r ! 0) (gate_rows lines))
     \<and> list_all (\<lambda>r. provided (r ! 0) = None) (gate_rows lines)
     \<and> provided' = provided ++ row_table (gate_rows lines)"
proof (induction lines arbitrary: k provided)
  case Nil
  then show ?case by (auto simp: gate_rows_def row_table_def)
next
  case (Cons l lines)
  show ?case
  proof (cases "blank l \<or> take 1 l = ascii ''#''")
    case True
    then have "gate_rows (l # lines) = gate_rows lines" by (simp add: gate_rows_def)
    with True Cons show ?thesis by (simp add: and_then_Inr tsv_line_ok)
  next
    case False
    let ?r = "split_on TAB l" let ?rows = "gate_rows lines"
    have rows: "gate_rows (l # lines) = ?r # ?rows" using False by (simp add: gate_rows_def)
    have "try_fold tsv_line provided (List.enumerate k (l # lines)) = Inr provided' \<longleftrightarrow>
        row_ok ?r \<and> provided (?r ! 0) = None
        \<and> try_fold tsv_line (provided(?r ! 0 \<mapsto> row_entry ?r)) (List.enumerate (Suc k) lines)
          = Inr provided'"
      using False by (auto simp: and_then_Inr tsv_line_ok)
    moreover have "list_all (\<lambda>r. (provided(?r ! 0 \<mapsto> row_entry ?r)) (r ! 0) = None) ?rows \<longleftrightarrow>
        ?r ! 0 \<notin> (\<lambda>r. r ! 0) ` set ?rows \<and> list_all (\<lambda>r. provided (r ! 0) = None) ?rows"
      by (auto simp: list_all_iff image_iff split: if_splits)
    moreover have "provided(?r ! 0 \<mapsto> row_entry ?r) ++ row_table ?rows =
        provided ++ row_table (?r # ?rows)" if "?r ! 0 \<notin> (\<lambda>r. r ! 0) ` set ?rows"
    proof -
      have "row_table ?rows (?r ! 0) = None"
        using that by (auto simp: row_table_def map_of_eq_None_iff)
      then show ?thesis by (auto simp: row_table_def map_add_def fun_eq_iff split: option.splits)
    qed
    ultimately show ?thesis unfolding Cons.IH rows by auto
  qed
qed

lemma collect_entries_map:
  "distinct gates \<Longrightarrow> collect_entries provided gates =
     map (\<lambda>g. case provided g of Some e \<Rightarrow> e | None \<Rightarrow> unmeasured g) gates"
  by (induction gates arbitrary: provided) auto

lemma distinct_gates: "distinct REQUIRED_LAUNCH_GATES"
  by (simp add: REQUIRED_LAUNCH_GATES_def)

definition gate_file_ok :: "bytes \<Rightarrow> bytes list list \<Rightarrow> bool" where
  "gate_file_ok s rows \<longleftrightarrow>
     (\<exists>lines. text_lines s = TSV_HEADER # lines \<and> rows = gate_rows lines)
     \<and> list_all row_ok rows \<and> distinct (map (\<lambda>r. r ! 0) rows)"

lemma parse_tsv_ok:
  "parse_tsv s = Inr r \<longleftrightarrow>
     (\<exists>rows. gate_file_ok s rows \<and> r = \<lparr>gr_entries = map (entry_of rows) REQUIRED_LAUNCH_GATES\<rparr>)"
proof (cases "text_lines s")
  case Nil
  then show ?thesis by (simp add: parse_tsv_def gate_file_ok_def)
next
  case (Cons header lines)
  show ?thesis
    unfolding parse_tsv_def Cons list.case if_Inl_Inr and_then_Inr tsv_lines_ok
      collect_entries_map [OF distinct_gates] gate_file_ok_def entry_of_def
    by (auto simp: list_all_iff)
qed

subsection \<open>What the verification accepts\<close>

definition safe_path :: "bytes \<Rightarrow> bool" where
  "safe_path path \<longleftrightarrow>
     path \<noteq> [] \<and> take 1 path \<noteq> ascii ''/'' \<and> hd (split_on 47 path) \<noteq> ascii ''.''
     \<and> ascii ''..'' \<notin> set (split_on 47 path)"

lemma safe_path_iff:
  "\<not> (path = [] \<or> is_absolute path \<or> list_ex (\<lambda>c. \<not> is_normal c) (path_components path))
     \<longleftrightarrow> safe_path path"
proof -
  have part: "is_normal (path_part p) \<longleftrightarrow> p \<noteq> ascii ''..''" for p
    by (simp add: path_part_def)
  have dots: "ascii ''..'' \<noteq> []" "ascii ''..'' \<noteq> ascii ''.''" by simp_all
  have "list_ex (\<lambda>c. \<not> is_normal c)
      (map path_part (filter (\<lambda>p. p \<noteq> [] \<and> p \<noteq> ascii ''.'') (split_on 47 path)))
    \<longleftrightarrow> ascii ''..'' \<in> set (split_on 47 path)"
    unfolding list_ex_iff set_map set_filter using part dots by blast
  then show ?thesis
    unfolding path_components_def Let_def is_absolute_def safe_path_def by auto
qed

definition evidence_proves ::
  "(bytes \<Rightarrow> hash32) \<Rightarrow> (bytes \<Rightarrow> bytes + bytes) \<Rightarrow> bytes \<Rightarrow> bool" where
  "evidence_proves H R evidence \<longleftrightarrow>
     (\<exists>hex path bs. parse_evidence_spec evidence = Some (hex, path) \<and> safe_path path
        \<and> R path = Inr bs \<and> eq_ignore_ascii_case (hash32_to_hex (hash_bytes H bs)) hex)"

lemma verify_evidence_ok:
  "verify_evidence H R e = Inr e' \<longleftrightarrow>
     (if ge_status e = Pass
      then evidence_proves H R (ge_evidence e) \<and> e' = e\<lparr>ge_evidence_verified := True\<rparr>
      else e' = e)"
proof (cases "ge_status e = Pass")
  case True
  show ?thesis
  proof (cases "parse_evidence_spec (ge_evidence e)")
    case None
    with True show ?thesis by (simp add: verify_evidence_def evidence_proves_def)
  next
    case (Some spec)
    obtain hex path where spec: "spec = (hex, path)" by (cases spec)
    have "verify_evidence H R e =
      (if \<not> safe_path path then Inl (UnsafeEvidencePath (ge_id e))
       else and_then (map_err (EvidenceRead (ge_id e)) (R path)) (\<lambda>bs.
         if \<not> eq_ignore_ascii_case (hash32_to_hex (hash_bytes H bs)) hex
         then Inl (EvidenceDigestMismatch (ge_id e))
         else Inr (e\<lparr>ge_evidence_verified := True\<rparr>)))"
      unfolding verify_evidence_def safe_path_iff [symmetric] Some spec by (simp add: True)
    moreover have "evidence_proves H R (ge_evidence e) \<longleftrightarrow> safe_path path
        \<and> (\<exists>bs. R path = Inr bs \<and> eq_ignore_ascii_case (hash32_to_hex (hash_bytes H bs)) hex)"
      by (simp add: evidence_proves_def Some spec)
    ultimately show ?thesis by (cases "R path") (auto simp: True)
  qed
next
  case False
  then show ?thesis by (auto simp: verify_evidence_def)
qed

definition checked_entry :: "gate_entry \<Rightarrow> gate_entry" where
  "checked_entry e = (if ge_status e = Pass then e\<lparr>ge_evidence_verified := True\<rparr> else e)"

lemma verify_entries_ok:
  "verify_entries H R es = Inr es' \<longleftrightarrow>
     list_all (\<lambda>e. ge_status e = Pass \<longrightarrow> evidence_proves H R (ge_evidence e)) es
     \<and> es' = map checked_entry es"
proof (induction es arbitrary: es')
  case (Cons e es)
  show ?case
    using Cons by (auto simp: and_then_Inr verify_evidence_ok checked_entry_def split: if_splits)
qed auto

lemma verify_evidence_files_ok:
  "verify_evidence_files H R r = Inr r' \<longleftrightarrow>
     list_all (\<lambda>e. ge_status e = Pass \<longrightarrow> evidence_proves H R (ge_evidence e)) (gr_entries r)
     \<and> r' = r\<lparr>gr_entries := map checked_entry (gr_entries r)\<rparr>"
  by (auto simp: verify_evidence_files_def and_then_Inr verify_entries_ok)

lemma row_table_iff:
  "distinct (map (\<lambda>r. r ! 0) rows) \<Longrightarrow>
     row_table rows g = Some e \<longleftrightarrow> (\<exists>r \<in> set rows. r ! 0 = g \<and> e = row_entry r)"
  unfolding row_table_def
  by (subst map_of_eq_Some_iff) (auto simp: o_def)

text \<open>A required gate is proved by a row that says PASS, meets the criterion and has evidence.\<close>

definition gate_proved ::
  "(bytes \<Rightarrow> hash32) \<Rightarrow> (bytes \<Rightarrow> bytes + bytes) \<Rightarrow> bytes list list \<Rightarrow> bytes \<Rightarrow> bool" where
  "gate_proved H R rows gate \<longleftrightarrow>
     (\<exists>v evidence. [gate, ascii ''PASS'', v, evidence] \<in> set rows
        \<and> meets_gate_criterion gate v \<and> evidence_proves H R evidence)"

lemma row_ok_shape: "row_ok r \<Longrightarrow> r = [r ! 0, r ! 1, r ! 2, r ! 3]"
  by (auto simp: row_ok_def eval_nat_numeral length_Suc_conv)

lemma row_pass:
  "is_measured_pass (checked_entry (row_entry r)) \<longleftrightarrow>
     r ! 1 = ascii ''PASS'' \<and> meets_gate_criterion (r ! 0) (r ! 2)"
  by (simp add: is_measured_pass_def checked_entry_def row_entry_def row_status_def)

lemma gate_proved_iff:
  assumes "list_all row_ok rows" "distinct (map (\<lambda>r. r ! 0) rows)"
  shows "gate_proved H R rows g \<longleftrightarrow>
     is_measured_pass (checked_entry (entry_of rows g))
     \<and> (ge_status (entry_of rows g) = Pass \<longrightarrow>
          evidence_proves H R (ge_evidence (entry_of rows g)))"
proof (cases "row_table rows g")
  case None
  then have "r ! 0 \<noteq> g" if "r \<in> set rows" for r
    using row_table_iff [OF assms(2), of g] that by (metis option.distinct(1))
  then have "\<not> gate_proved H R rows g" by (force simp: gate_proved_def)
  then show ?thesis
    using None
    by (simp add: entry_of_def is_measured_pass_def checked_entry_def unmeasured_def)
next
  case (Some e)
  then obtain r where r: "r \<in> set rows" "r ! 0 = g" "e = row_entry r"
    using row_table_iff [OF assms(2)] by blast
  have unique: "r' = r" if "r' \<in> set rows" "r' ! 0 = g" for r'
    using assms(2) r that by (metis distinct_map inj_onD)
  have shape: "r = [g, r ! 1, r ! 2, r ! 3]"
    using row_ok_shape assms(1) r by (metis list_all_iff)
  have "gate_proved H R rows g \<longleftrightarrow>
      r ! 1 = ascii ''PASS'' \<and> meets_gate_criterion g (r ! 2) \<and> evidence_proves H R (r ! 3)"
  proof
    assume "gate_proved H R rows g"
    then obtain v ev where *: "[g, ascii ''PASS'', v, ev] \<in> set rows"
      "meets_gate_criterion g v" "evidence_proves H R ev" by (auto simp: gate_proved_def)
    then have "[g, ascii ''PASS'', v, ev] = r" by (intro unique) simp_all
    with * show "r ! 1 = ascii ''PASS'' \<and> meets_gate_criterion g (r ! 2)
        \<and> evidence_proves H R (r ! 3)" by (auto simp del: ascii_simps)
  next
    assume "r ! 1 = ascii ''PASS'' \<and> meets_gate_criterion g (r ! 2) \<and> evidence_proves H R (r ! 3)"
    with shape r(1) show "gate_proved H R rows g" unfolding gate_proved_def by metis
  qed
  moreover have "entry_of rows g = row_entry r" using Some r by (simp add: entry_of_def)
  moreover have "ge_status (row_entry r) = Pass \<longleftrightarrow> r ! 1 = ascii ''PASS''"
    by (simp add: row_entry_def row_status_def)
  moreover have "ge_evidence (row_entry r) = r ! 3" by (simp add: row_entry_def)
  ultimately show ?thesis using row_pass [of r] r(2) by metis
qed

definition gate_outcome ::
  "(bytes \<Rightarrow> hash32) \<Rightarrow> (bytes \<Rightarrow> bytes + bytes) \<Rightarrow> bytes \<Rightarrow> gate_error + gate_report" where
  "gate_outcome H R s = and_then (parse_tsv s) (verify_evidence_files H R)"

lemma gate_outcome_ok:
  "gate_outcome H R s = Inr r \<longleftrightarrow>
     (\<exists>rows. gate_file_ok s rows
        \<and> list_all (\<lambda>g. ge_status (entry_of rows g) = Pass \<longrightarrow>
            evidence_proves H R (ge_evidence (entry_of rows g))) REQUIRED_LAUNCH_GATES
        \<and> r = \<lparr>gr_entries = map (\<lambda>g. checked_entry (entry_of rows g)) REQUIRED_LAUNCH_GATES\<rparr>)"
proof -
  have one_point: "(\<exists>x. (\<exists>y. P y \<and> x = f y) \<and> Q x) \<longleftrightarrow> (\<exists>y. P y \<and> Q (f y))"
    for P :: "bytes list list \<Rightarrow> bool" and f and Q :: "gate_report \<Rightarrow> bool" by blast
  show ?thesis
    unfolding gate_outcome_def and_then_Inr parse_tsv_ok verify_evidence_files_ok one_point
    by (simp add: list.pred_map o_def)
qed

lemma launch_ready_iff:
  "(\<exists>r. gate_outcome H R s = Inr r \<and> launch_ready r) \<longleftrightarrow>
     (\<exists>rows. gate_file_ok s rows \<and> list_all (gate_proved H R rows) REQUIRED_LAUNCH_GATES)"
proof -
  have "(\<exists>r. gate_outcome H R s = Inr r \<and> launch_ready r) \<longleftrightarrow>
      (\<exists>rows. gate_file_ok s rows
        \<and> list_all (\<lambda>g. ge_status (entry_of rows g) = Pass \<longrightarrow>
            evidence_proves H R (ge_evidence (entry_of rows g))) REQUIRED_LAUNCH_GATES
        \<and> list_all (\<lambda>g. is_measured_pass (checked_entry (entry_of rows g)))
            REQUIRED_LAUNCH_GATES)"
    unfolding gate_outcome_ok launch_ready_def
    by (auto simp: list.pred_map o_def)
  also have "\<dots> \<longleftrightarrow> (\<exists>rows. gate_file_ok s rows
      \<and> list_all (gate_proved H R rows) REQUIRED_LAUNCH_GATES)"
    using gate_proved_iff by (auto simp: gate_file_ok_def list_all_iff)
  finally show ?thesis .
qed

subsection \<open>The digest of the evidence\<close>

text \<open>Comparing the texts up to case is comparing the digest with the decoded text.\<close>

lemma is_hexdigit_iff: "is_hexdigit b \<longleftrightarrow> hex_digit b \<noteq> None"
  by (auto simp: is_hexdigit_def is_digit_def hex_digit_def)

lemma hex_digit_lower: "hex_digit (ascii_lower b) = hex_digit b"
proof (cases "65 \<le> b \<and> b \<le> 90")
  case True
  then have "unat (b + 32) = unat b + 32" by (simp add: word_le_nat_alt unat_word_ariths)
  with True show ?thesis
    by (auto simp: hex_digit_def ascii_lower_def word_le_nat_alt)
next
  case False
  then have "ascii_lower b = b" by (simp add: ascii_lower_def)
  then show ?thesis by simp
qed

lemma HEX_char: "k < 16 \<Longrightarrow> HEX ! k = (if k < 10 then 48 + of_nat k else 87 + of_nat k)"
proof -
  have "\<forall>k \<in> set [0..<16]. HEX ! k = (if k < 10 then 48 + of_nat k else 87 + of_nat k)"
    by code_simp
  then show "k < 16 \<Longrightarrow> HEX ! k = (if k < 10 then 48 + of_nat k else 87 + of_nat k)" by simp
qed

lemma hex_digit_text:
  assumes "hex_digit b = Some n"
  shows "unat n < 16" "HEX ! unat n = ascii_lower b"
proof -
  consider "48 \<le> b" "b \<le> 57" "n = b - 48" | "97 \<le> b" "b \<le> 102" "n = b - 97 + 10"
    | "65 \<le> b" "b \<le> 70" "n = b - 65 + 10"
    using assms by (auto simp: hex_digit_def split: if_splits)
  then have "unat n < 16 \<and> HEX ! unat n = ascii_lower b"
  proof cases
    case 1
    then have "unat n < 10" by (simp add: word_le_nat_alt unat_sub)
    moreover have "\<not> 65 \<le> b" using 1 by (simp add: word_le_nat_alt)
    ultimately show ?thesis
      using 1(3) by (simp_all add: HEX_char ascii_lower_def)
  next
    case 2
    then have "87 \<le> b" "n = b - 87" by (simp_all add: word_le_nat_alt)
    then have "unat n = unat b - 87" by (simp add: unat_sub)
    moreover have "\<not> b \<le> 90" "97 \<le> unat b" "unat b \<le> 102"
      using 2 by (auto simp: word_le_nat_alt)
    ultimately have "10 \<le> unat n" "unat n < 16" by linarith+
    then show ?thesis
      using 2 HEX_char [of "unat n"] \<open>\<not> b \<le> 90\<close> by (simp add: ascii_lower_def)
  next
    case 3
    then have "55 \<le> b" "n = b - 55" by (simp_all add: word_le_nat_alt)
    then have "unat n = unat b - 55" by (simp add: unat_sub)
    moreover have "b \<le> 90" "65 \<le> unat b" "unat b \<le> 70"
      using 3 by (auto simp: word_le_nat_alt)
    ultimately have "10 \<le> unat n" "unat n < 16" by linarith+
    then show ?thesis
      using 3 HEX_char [of "unat n"] \<open>b \<le> 90\<close> by (simp add: ascii_lower_def)
  qed
  then show "unat n < 16" "HEX ! unat n = ascii_lower b" by blast+
qed

lemma decode_pairs_lower: "decode_hex_pairs i (map ascii_lower s) = decode_hex_pairs i s"
proof (induction i s rule: decode_hex_pairs.induct)
  case (1 i a b s)
  then show ?case
    by (cases "hex_digit a"; cases "hex_digit b") (simp_all add: hex_digit_lower)
qed simp_all

lemma nibbles_of:
  assumes "unat (a :: u8) < 16" "unat (b :: u8) < 16"
  shows "drop_bit 4 (push_bit 4 a OR b) = a" "(push_bit 4 a OR b) AND 15 = b"
proof -
  have "\<forall>i \<in> set [0..<16]. \<forall>j \<in> set [0..<16].
      drop_bit 4 (push_bit 4 (of_nat i) OR (of_nat j :: u8)) = of_nat i
      \<and> (push_bit 4 (of_nat i) OR (of_nat j :: u8)) AND 15 = of_nat j"
    by code_simp
  moreover have "unat a \<in> set [0..<16]" "unat b \<in> set [0..<16]"
    unfolding set_upt using assms by simp_all
  ultimately show "drop_bit 4 (push_bit 4 a OR b) = a" "(push_bit 4 a OR b) AND 15 = b"
    by (metis of_nat_unat ucast_id)+
qed

lemma encode_decoded_pairs:
  "decode_hex_pairs i s = Inr bs \<Longrightarrow> even (length s) \<Longrightarrow> encode_hex bs = map ascii_lower s"
proof (induction i s arbitrary: bs rule: decode_hex_pairs.induct)
  case (1 i a b s)
  then obtain h l cs where *: "hex_digit a = Some h" "hex_digit b = Some l"
    "decode_hex_pairs (i + 1) s = Inr cs" "bs = (push_bit 4 h OR l) # cs"
    by (auto simp: and_then_Inr ok_or_Inr)
  with 1 have "encode_hex cs = map ascii_lower s" by simp
  moreover have "unat h < 16" "HEX ! unat h = ascii_lower a" "unat l < 16"
    "HEX ! unat l = ascii_lower b"
    using hex_digit_text [OF *(1)] hex_digit_text [OF *(2)] by blast+
  ultimately show ?case
    unfolding *(4) encode_hex.simps nibbles_of [OF \<open>unat h < 16\<close> \<open>unat l < 16\<close>] by simp
qed auto

lemma digest_text:
  assumes "length hex = 64" "list_all is_hexdigit hex"
  shows "eq_ignore_ascii_case (hash32_to_hex h) hex \<longleftrightarrow> hash32_from_str hex = Inr h"
proof -
  have "hex ! 1 \<noteq> 120"
    using assms by (auto simp: list_all_length is_hexdigit_def is_digit_def dest!: spec [of _ 1])
  moreover have "ascii ''0x'' ! 1 = 120" by simp
  ultimately have "take 2 hex \<noteq> ascii ''0x''"
    using nth_take [of 1 2 hex] by force
  then have strip: "strip_0x hex = hex"
    by (simp add: strip_0x_def)
  have decode: "decode_hex s = decode_hex_pairs 0 s" if "strip_0x s = s" "even (length s)" for s
    using that by (simp add: decode_hex_def Let_def even_iff_mod_2_eq_zero)
  have lower: "map ascii_lower (hash32_to_hex h) = hash32_to_hex h"
    using encode_decoded_pairs [OF decode_hex_pairs_encode, of "enc_hash32 h"]
    by (simp add: hash32_to_hex_def even_encode_hex)
  show ?thesis
  proof
    assume "eq_ignore_ascii_case (hash32_to_hex h) hex"
    then have "decode_hex_pairs 0 hex = decode_hex_pairs 0 (encode_hex (enc_hash32 h))"
      using decode_pairs_lower [of 0 hex] lower
      by (simp add: eq_ignore_ascii_case_def hash32_to_hex_def)
    then have "decode_hex hex = Inr (enc_hash32 h)"
      using decode [OF strip] assms(1) by (simp add: decode_hex_pairs_encode)
    then show "hash32_from_str hex = Inr h"
      by (simp add: hash32_from_str_def enc_hash32_def from_to_be_bytes)
  next
    assume "hash32_from_str hex = Inr h"
    then obtain bs where "decode_hex_pairs 0 hex = Inr bs" "length bs = 32" "h = from_be_bytes bs"
      using decode [OF strip] assms(1) by (auto simp: hash32_from_str_def and_then_Inr split: if_splits)
    then have "map ascii_lower hex = hash32_to_hex h"
      using encode_decoded_pairs [of 0 hex bs] assms(1)
      by (simp add: hash32_to_hex_def enc_hash32_def to_from_be_bytes)
    then show "eq_ignore_ascii_case (hash32_to_hex h) hex"
      using lower by (simp add: eq_ignore_ascii_case_def)
  qed
qed

lemma evidence_proves_iff:
  "evidence_proves H R evidence \<longleftrightarrow>
     (\<exists>hex path bs. parse_evidence_spec evidence = Some (hex, path) \<and> safe_path path
        \<and> R path = Inr bs \<and> hash32_from_str hex = Inr (hash_bytes H bs))"
proof -
  have "length hex = 64 \<and> list_all is_hexdigit hex"
    if "parse_evidence_spec evidence = Some (hex, path)" for hex path
    using that by (auto simp: parse_evidence_spec_def split: option.splits if_splits)
  then show ?thesis unfolding evidence_proves_def using digest_text by blast
qed

lemma launch_ready_blocked:
  "launch_ready r \<longleftrightarrow> length (gr_entries r) = 16 \<and> blocked_count r = 0"
  by (auto simp: launch_ready_def blocked_count_def REQUIRED_LAUNCH_GATES_def filter_empty_conv
      list_all_iff)

lemma render_text_launch:
  "suffix (ascii ''launch: PASS'' @ [LF]) (render_text r) \<longleftrightarrow> launch_ready r"
  by (auto simp: render_text_def suffix_def dest: append_eq_append_conv [THEN iffD1, rotated])

subsection \<open>Properties\<close>

text \<open>
  C36: reading the gate file. It parses exactly when its first line is the header and every other
  line is blank, a comment or a row of four columns with a required gate that no other row names
  and one of the three statuses; the report has one entry per required gate, in their order,
  BLOCKED where the file has no row. A parsed report is never ready for launch.
\<close>

theorem gate_file_exact:
  "(parse_tsv s = Inr r \<longleftrightarrow>
      (\<exists>rows. gate_file_ok s rows
         \<and> r = \<lparr>gr_entries = map (entry_of rows) REQUIRED_LAUNCH_GATES\<rparr>))
   \<and> \<not> (parse_tsv s = Inr r \<and> launch_ready r)"
proof -
  have "\<not> is_measured_pass (entry_of rows g)" for rows g
    by (auto simp: entry_of_def row_table_def unmeasured_def row_entry_def is_measured_pass_def
        split: option.split dest!: map_of_SomeD)
  moreover have "ascii ''evm-gas'' \<in> set REQUIRED_LAUNCH_GATES"
    by (simp add: REQUIRED_LAUNCH_GATES_def)
  ultimately have "\<not> (parse_tsv s = Inr r \<and> launch_ready r)"
    unfolding parse_tsv_ok launch_ready_def list_all_iff by force
  then show ?thesis using parse_tsv_ok by blast
qed

text \<open>
  When a launch is allowed. The report after verification is ready exactly when the file is
  well formed and every required gate has a row that says PASS, whose value meets the gate's
  criterion, and whose evidence names a SHA-256 digest and a relative path without parent
  components at which there is a file with that digest.
\<close>

theorem launch_exact:
  "((\<exists>r. and_then (parse_tsv s) (verify_evidence_files H R) = Inr r \<and> launch_ready r) \<longleftrightarrow>
      (\<exists>rows. gate_file_ok s rows \<and> list_all (gate_proved H R rows) REQUIRED_LAUNCH_GATES))
   \<and> (evidence_proves H R evidence \<longleftrightarrow>
      (\<exists>hex path bs. parse_evidence_spec evidence = Some (hex, path) \<and> safe_path path
         \<and> R path = Inr bs \<and> hash32_from_str hex = Inr (hash_bytes H bs)))"
  by (simp only: launch_ready_iff [unfolded gate_outcome_def] evidence_proves_iff)

end
