(* ===== verification/Command_Line.thy ===== *)
theory Command_Line
  imports Gates Supply_Audit Burn_Accumulator Journal
begin

section \<open>The command line (usdd-cli/src/lib.rs)\<close>

text \<open>
  The protocol utility: its commands over the modelled functions, the parsers of numbers,
  records and audit events, and the report of the launch gates. Arguments, files and results
  are UTF-8 bytes. An error is a constructor with the arguments of its message, which theory
  Messages writes out; a panic, which ends the process, is the error \<open>Panicked\<close>. The text that
  the compiler derives for \<open>{:#?}\<close> and
  \<open>{:?}\<close> is a field of \<open>derived_debug\<close>; the file system is the record \<open>file_system\<close>, whose
  second field reads an evidence path below the parent directory of the gate file.
\<close>

datatype cli_error =
    UnknownCommand
  | InvalidNumber string
  | InvalidHex string hex_error
  | InvalidCanonical string decode_error
  | InvalidText string hex_error
  | BareHex hex_error
  | BareDecode decode_error
  | UsdtOverflow
  | UsddNotDivisible
  | DepositGuestUnavailable
  | ElementsGuestUnavailable
  | InvalidMintBatch decode_error
  | ClaimRejected decode_error
  | AccumulatorFailed burn_accumulator_error
  | MerkleFailed merkle_error
  | ManifestFailed manifest_error
  | AuditFailed audit_error
  | JournalFailed journal_error
  | GatesFailed gate_error
  | Unreadable string bytes bytes
  | InvalidAuditHeader
  | WrongAuditColumns nat
  | InvalidAuditId nat hex_error
  | RecipientNotDash nat string
  | InvalidRecipient nat hex_error
  | IndexNotDash nat
  | UnknownAuditKind nat bytes
  | Panicked

record derived_debug =
  dd_deposit :: "vault_deposit \<Rightarrow> bytes"
  dd_mint :: "mint_output \<Rightarrow> bytes"
  dd_mint_batch :: "mint_batch \<Rightarrow> bytes"
  dd_burn :: "burn \<Rightarrow> bytes"
  dd_manifest :: "manifest \<Rightarrow> bytes"
  dd_statement_kind :: "statement_kind \<Rightarrow> bytes"

record file_system =
  fs_read_to_string :: "bytes \<Rightarrow> bytes + bytes"
  fs_read_evidence :: "bytes \<Rightarrow> bytes \<Rightarrow> bytes + bytes"

definition HELP :: bytes where
  "HELP = concat (map (\<lambda>line. ascii line @ [LF])
     [''USDD V1 protocol utility'',
      '''',
      ''amount usdt-to-usdd <micro-usdt>'',
      ''amount usdd-to-usdt <usdd-base>'',
      ''deposit id <canonical-deposit-hex>'',
      ''deposit inspect <canonical-deposit-hex>'',
      ''prove-deposit ...                         (fails closed: proof guest unavailable)'',
      ''mint batch <canonical-deposit-hex>...'',
      ''mint inspect <canonical-mint-batch-hex>'',
      ''burn payload <canonical-burn-hex>'',
      ''burn id <elements-genesis-hash> <canonical-burn-hex>'',
      ''prove-elements ...                        (fails closed: proof guest unavailable)'',
      ''redeem claim <elements-genesis> <burn-hex> <burn-index>'',
      ''burn-tree root <burn-leaf-hash>...'',
      ''burn-tree prove <index> <burn-leaf-hash>...'',
      ''burn-tree verify <root> <leaf> <index> <64-sibling-proof-hex>'',
      ''id deposit <canonical-deposit-hex>'',
      ''id redemption <elements-genesis-hash> <canonical-burn-hex>'',
      ''decode <deposit|mint|burn|manifest> <canonical-hex>'',
      ''manifest hash <canonical-manifest-hex>'',
      ''merkle root <leaf-data-hex>...'',
      ''merkle prove <index> <leaf-data-hex>...'',
      ''merkle verify <root-hash> <leaf-data-hex> <proof-hex>'',
      ''audit check <actual> <recorded> <deposited> <paid> <minted> <burned> <unminted> <unpaid>'',
      ''audit replay <actual> <recorded> <chain-events.tsv>'',
      ''journal inspect <journal-hex>'',
      ''gates report [launch-gates.tsv]''])"

subsection \<open>Arguments\<close>

definition cli_u64 :: "bytes \<Rightarrow> string \<Rightarrow> cli_error + u64" where
  "cli_u64 v name = ok_or (parse_u64_str v) (InvalidNumber name)"

definition decode_record :: "'a decode_fn \<Rightarrow> bytes \<Rightarrow> string \<Rightarrow> cli_error + 'a" where
  "decode_record decode_from encoded name =
     and_then (map_err (InvalidHex name) (decode_hex encoded)) (\<lambda>bs.
     map_err (InvalidCanonical name) (decode_exact decode_from bs))"

text \<open>\<open>map(\<dots>).collect()\<close> into a result: the first error ends it.\<close>

fun collect_results :: "('a \<Rightarrow> 'e + 'b) \<Rightarrow> 'a list \<Rightarrow> 'e + 'b list" where
  "collect_results f [] = Inr []"
| "collect_results f (x # xs) =
     and_then (f x) (\<lambda>y. and_then (collect_results f xs) (\<lambda>ys. Inr (y # ys)))"

definition parse_leaf :: "(bytes \<Rightarrow> hash32) \<Rightarrow> bytes \<Rightarrow> cli_error + hash32" where
  "parse_leaf H v =
     and_then (map_err BareHex (decode_hex v)) (\<lambda>bs. ok_or (merkle_leaf H bs) Panicked)"

definition parse_leaves :: "(bytes \<Rightarrow> hash32) \<Rightarrow> bytes list \<Rightarrow> cli_error + hash32 list" where
  "parse_leaves H vs = collect_results (parse_leaf H) vs"

definition parse_hashes :: "bytes list \<Rightarrow> string \<Rightarrow> cli_error + hash32 list" where
  "parse_hashes vs name = collect_results (\<lambda>v. map_err (InvalidText name) (hash32_from_str v)) vs"

subsection \<open>Audit events\<close>

record audit_events =
  ae_deposits :: "audited_deposit list"
  ae_mints :: "audited_mint list"
  ae_burns :: "audited_burn list"
  ae_payouts :: "audited_payout list"

definition no_events :: audit_events where
  "no_events = \<lparr>ae_deposits = [], ae_mints = [], ae_burns = [], ae_payouts = []\<rparr>"

definition DASH :: bytes where
  "DASH = ascii ''-''"

definition audit_event ::
  "audit_events \<Rightarrow> nat \<Rightarrow> bytes list \<Rightarrow> hash32 \<Rightarrow> u64 \<Rightarrow> cli_error + audit_events" where
  "audit_event events line_number columns event_id amount =
     (if columns ! 0 = ascii ''deposit'' then
        if columns ! 4 \<noteq> DASH then Inl (RecipientNotDash line_number ''deposit'')
        else and_then (cli_u64 (columns ! 1) ''deposit nonce'') (\<lambda>nonce.
          Inr (events\<lparr>ae_deposits := ae_deposits events @
            [\<lparr>ad_nonce = nonce, ad_deposit_id = event_id, ad_amount_usdt_micro = amount\<rparr>]\<rparr>))
      else if columns ! 0 = ascii ''mint'' then
        if columns ! 4 \<noteq> DASH then Inl (RecipientNotDash line_number ''mint'')
        else and_then (cli_u64 (columns ! 1) ''mint nonce'') (\<lambda>nonce.
          Inr (events\<lparr>ae_mints := ae_mints events @
            [\<lparr>am_nonce = nonce, am_deposit_id = event_id, am_amount_usdd_base = amount\<rparr>]\<rparr>))
      else if columns ! 0 = ascii ''burn'' then
        and_then (cli_u64 (columns ! 1) ''burn index'') (\<lambda>burn_index.
        and_then (map_err (InvalidRecipient line_number) (address_from_str (columns ! 4)))
          (\<lambda>recipient.
          Inr (events\<lparr>ae_burns := ae_burns events @
            [\<lparr>ab_burn_index = burn_index, ab_burn_id = event_id, ab_amount_usdd_base = amount,
              ab_recipient = recipient\<rparr>]\<rparr>)))
      else if columns ! 0 = ascii ''payout'' then
        if columns ! 1 \<noteq> DASH then Inl (IndexNotDash line_number)
        else and_then (map_err (InvalidRecipient line_number) (address_from_str (columns ! 4)))
          (\<lambda>recipient.
          Inr (events\<lparr>ae_payouts := ae_payouts events @
            [\<lparr>ap_burn_id = event_id, ap_amount_usdt_micro = amount, ap_recipient = recipient\<rparr>]\<rparr>))
      else Inl (UnknownAuditKind line_number (columns ! 0)))"

definition audit_line :: "audit_events \<Rightarrow> nat \<times> bytes \<Rightarrow> cli_error + audit_events" where
  "audit_line events item =
     (case item of (offset, line) \<Rightarrow>
      let line_number = offset + 2
      in if line = [] \<or> take 1 line = ascii ''#'' then Inr events
      else let columns = split_on TAB line
      in if length columns \<noteq> 5 then Inl (WrongAuditColumns line_number)
      else and_then (map_err (InvalidAuditId line_number) (hash32_from_str (columns ! 2)))
             (\<lambda>event_id.
           and_then (cli_u64 (columns ! 3) ''audit amount'') (\<lambda>amount.
           audit_event events line_number columns event_id amount)))"

definition AUDIT_HEADER :: bytes where
  "AUDIT_HEADER =
     join_with TAB (map ascii [''kind'', ''index'', ''id'', ''amount'', ''recipient''])"

definition parse_audit_events :: "bytes \<Rightarrow> cli_error + audit_events" where
  "parse_audit_events input =
     (case text_lines input of
        [] \<Rightarrow> Inl InvalidAuditHeader
      | header # lines \<Rightarrow>
          if header \<noteq> AUDIT_HEADER then Inl InvalidAuditHeader
          else try_fold audit_line no_events (List.enumerate 0 lines))"

subsection \<open>The commands\<close>

definition line_of :: "string \<Rightarrow> bytes \<Rightarrow> bytes" where
  "line_of name v = ascii name @ ascii ''='' @ v"

definition amount_command :: "bytes list \<Rightarrow> cli_error + bytes" where
  "amount_command args =
     (case args of
        [direction, amount] \<Rightarrow>
          if direction = ascii ''usdt-to-usdd'' then
            and_then (cli_u64 amount ''micro-USDT amount'') (\<lambda>amount.
            and_then (ok_or (usdt_micro_to_usdd_base amount) UsdtOverflow) (\<lambda>converted.
            Inr (decimal (unat converted))))
          else if direction = ascii ''usdd-to-usdt'' then
            and_then (cli_u64 amount ''USDD base amount'') (\<lambda>amount.
            and_then (ok_or (usdd_base_to_usdt_micro amount) UsddNotDivisible) (\<lambda>converted.
            Inr (decimal (unat converted))))
          else Inl UnknownCommand
      | _ \<Rightarrow> Inl UnknownCommand)"

definition deposit_id_command :: "(bytes \<Rightarrow> hash32) \<Rightarrow> bytes \<Rightarrow> cli_error + bytes" where
  "deposit_id_command H encoded =
     and_then (decode_record dec_vault_deposit encoded ''deposit'') (\<lambda>deposit.
     Inr (hash32_to_hex (deposit_id H deposit)))"

definition redemption_id_command ::
  "(bytes \<Rightarrow> hash32) \<Rightarrow> bytes \<Rightarrow> bytes \<Rightarrow> cli_error + bytes" where
  "redemption_id_command H elements_genesis encoded =
     and_then (map_err (InvalidText ''Elements genesis'') (hash32_from_str elements_genesis))
       (\<lambda>elements_genesis.
     and_then (decode_record dec_burn encoded ''burn'') (\<lambda>burn.
     Inr (hash32_to_hex (redemption_id H burn elements_genesis))))"

definition id_command :: "(bytes \<Rightarrow> hash32) \<Rightarrow> bytes list \<Rightarrow> cli_error + bytes" where
  "id_command H args =
     (case args of
        [kind, encoded] \<Rightarrow>
          if kind = ascii ''deposit'' then deposit_id_command H encoded else Inl UnknownCommand
      | [kind, elements_genesis, encoded] \<Rightarrow>
          if kind = ascii ''redemption'' then redemption_id_command H elements_genesis encoded
          else Inl UnknownCommand
      | _ \<Rightarrow> Inl UnknownCommand)"

definition deposit_command ::
  "(bytes \<Rightarrow> hash32) \<Rightarrow> derived_debug \<Rightarrow> bytes list \<Rightarrow> cli_error + bytes" where
  "deposit_command H D args =
     (case args of
        [action, encoded] \<Rightarrow>
          if action = ascii ''id'' then deposit_id_command H encoded
          else if action = ascii ''inspect'' then
            and_then (decode_record dec_vault_deposit encoded ''deposit'') (\<lambda>deposit.
            Inr (join_with LF
              [dd_deposit D deposit,
               line_of ''deposit_id'' (hash32_to_hex (deposit_id H deposit)),
               line_of ''elements_script_hash''
                 (hash32_to_hex (vd_elements_script_hash H deposit))]))
          else Inl UnknownCommand
      | _ \<Rightarrow> Inl UnknownCommand)"

definition mint_batch_command :: "(bytes \<Rightarrow> hash32) \<Rightarrow> bytes list \<Rightarrow> cli_error + bytes" where
  "mint_batch_command H deposits =
     and_then (collect_results (\<lambda>encoded. decode_record dec_vault_deposit encoded ''deposit'')
       deposits) (\<lambda>deposits.
     and_then (map_err InvalidMintBatch (mb_from_deposits H deposits)) (\<lambda>batch.
     and_then (ok_or (enc_mint_batch batch) Panicked) (\<lambda>bs. Inr (encode_hex bs))))"

definition mint_command ::
  "(bytes \<Rightarrow> hash32) \<Rightarrow> derived_debug \<Rightarrow> bytes list \<Rightarrow> cli_error + bytes" where
  "mint_command H D args =
     (case args of
        [] \<Rightarrow> Inl UnknownCommand
      | action # args \<Rightarrow>
          if action = ascii ''batch'' \<and> args \<noteq> [] then mint_batch_command H args
          else if action = ascii ''inspect'' \<and> length args = 1 then
            and_then (decode_record dec_mint_batch (hd args) ''mint batch'') (\<lambda>batch.
            Inr (dd_mint_batch D batch))
          else Inl UnknownCommand)"

definition burn_command :: "(bytes \<Rightarrow> hash32) \<Rightarrow> bytes list \<Rightarrow> cli_error + bytes" where
  "burn_command H args =
     (case args of
        [action, encoded] \<Rightarrow>
          if action = ascii ''payload'' then
            and_then (decode_record dec_burn encoded ''burn'') (\<lambda>burn.
            Inr (encode_hex (enc_burn_payload (to_burn_payload burn))))
          else Inl UnknownCommand
      | [action, elements_genesis, encoded] \<Rightarrow>
          if action = ascii ''id'' then redemption_id_command H elements_genesis encoded
          else Inl UnknownCommand
      | _ \<Rightarrow> Inl UnknownCommand)"

definition redeem_command :: "(bytes \<Rightarrow> hash32) \<Rightarrow> bytes list \<Rightarrow> cli_error + bytes" where
  "redeem_command H args =
     (case args of
        [action, elements_genesis, encoded, burn_index] \<Rightarrow>
          if action \<noteq> ascii ''claim'' then Inl UnknownCommand
          else and_then (map_err (InvalidText ''Elements genesis'')
              (hash32_from_str elements_genesis)) (\<lambda>elements_genesis.
            and_then (decode_record dec_burn encoded ''burn'') (\<lambda>burn.
            and_then (cli_u64 burn_index ''burn index'') (\<lambda>burn_index.
            let claim = solidity_claim H burn elements_genesis
            in and_then (map_err ClaimRejected (burn_leaf H claim burn_index)) (\<lambda>leaf.
               Inr (join_with LF
                 [line_of ''claim'' (encode_hex (enc_burn_claim claim)),
                  line_of ''burn_id'' (hash32_to_hex (bc_burn_id claim)),
                  line_of ''burn_leaf'' (hash32_to_hex leaf)])))))
      | _ \<Rightarrow> Inl UnknownCommand)"

definition verdict :: "bool \<Rightarrow> bytes" where
  "verdict valid = (if valid then ascii ''VALID'' else ascii ''INVALID'')"

definition burn_tree_root_command :: "(bytes \<Rightarrow> hash32) \<Rightarrow> bytes list \<Rightarrow> cli_error + bytes" where
  "burn_tree_root_command H leaves =
     and_then (parse_hashes leaves ''burn leaf'') (\<lambda>leaves.
     and_then (map_err AccumulatorFailed (from_leaves leaves)) (\<lambda>tree.
     Inr (hash32_to_hex (burn_root H tree))))"

definition burn_tree_prove_command ::
  "(bytes \<Rightarrow> hash32) \<Rightarrow> bytes \<Rightarrow> bytes list \<Rightarrow> cli_error + bytes" where
  "burn_tree_prove_command H index leaves =
     and_then (cli_u64 index ''burn index'') (\<lambda>index.
     and_then (parse_hashes leaves ''burn leaf'') (\<lambda>leaves.
     and_then (map_err AccumulatorFailed (from_leaves leaves)) (\<lambda>tree.
     and_then (map_err AccumulatorFailed (burn_accumulator_proof H tree index)) (\<lambda>p.
     Inr (join_with LF
       [line_of ''root'' (hash32_to_hex (burn_root H tree)),
        line_of ''proof'' (encode_hex (enc_burn_proof p))])))))"

definition burn_tree_verify_command ::
  "(bytes \<Rightarrow> hash32) \<Rightarrow> bytes \<Rightarrow> bytes \<Rightarrow> bytes \<Rightarrow> bytes \<Rightarrow> cli_error + bytes" where
  "burn_tree_verify_command H root leaf index p =
     and_then (map_err BareHex (hash32_from_str root)) (\<lambda>root.
     and_then (map_err BareHex (hash32_from_str leaf)) (\<lambda>leaf.
     and_then (cli_u64 index ''burn index'') (\<lambda>index.
     and_then (decode_record dec_burn_proof p ''64-sibling burn proof'') (\<lambda>p.
     Inr (verdict (burn_proof_verify H p root leaf index))))))"

definition burn_tree_command :: "(bytes \<Rightarrow> hash32) \<Rightarrow> bytes list \<Rightarrow> cli_error + bytes" where
  "burn_tree_command H args =
     (case args of
        [] \<Rightarrow> Inl UnknownCommand
      | action # args \<Rightarrow>
          if action = ascii ''root'' then burn_tree_root_command H args
          else if action = ascii ''prove'' \<and> 2 \<le> length args
          then burn_tree_prove_command H (hd args) (tl args)
          else if action = ascii ''verify'' \<and> length args = 4
          then burn_tree_verify_command H (args ! 0) (args ! 1) (args ! 2) (args ! 3)
          else Inl UnknownCommand)"

definition decode_command ::
  "(bytes \<Rightarrow> hash32) \<Rightarrow> derived_debug \<Rightarrow> bytes list \<Rightarrow> cli_error + bytes" where
  "decode_command H D args =
     (case args of
        [kind, encoded] \<Rightarrow>
          if kind = ascii ''deposit'' then
            and_then (decode_record dec_vault_deposit encoded ''deposit'') (\<lambda>v. Inr (dd_deposit D v))
          else if kind = ascii ''mint'' then
            and_then (decode_record dec_mint_output encoded ''mint'') (\<lambda>v. Inr (dd_mint D v))
          else if kind = ascii ''mint-batch'' then
            and_then (decode_record dec_mint_batch encoded ''mint batch'')
              (\<lambda>v. Inr (dd_mint_batch D v))
          else if kind = ascii ''burn'' then
            and_then (decode_record dec_burn encoded ''burn'') (\<lambda>v. Inr (dd_burn D v))
          else if kind = ascii ''manifest'' then
            and_then (decode_record (dec_manifest H) encoded ''manifest'')
              (\<lambda>v. Inr (dd_manifest D v))
          else Inl UnknownCommand
      | _ \<Rightarrow> Inl UnknownCommand)"

definition manifest_command :: "(bytes \<Rightarrow> hash32) \<Rightarrow> bytes list \<Rightarrow> cli_error + bytes" where
  "manifest_command H args =
     (case args of
        [action, encoded] \<Rightarrow>
          if action \<noteq> ascii ''hash'' then Inl UnknownCommand
          else and_then (decode_record (dec_manifest H) encoded ''manifest'') (\<lambda>m.
            and_then (map_err ManifestFailed (manifest_id H m)) (\<lambda>mid. Inr (hash32_to_hex mid)))
      | _ \<Rightarrow> Inl UnknownCommand)"

definition merkle_root_command :: "(bytes \<Rightarrow> hash32) \<Rightarrow> bytes list \<Rightarrow> cli_error + bytes" where
  "merkle_root_command H leaves =
     and_then (parse_leaves H leaves) (\<lambda>leaves. Inr (hash32_to_hex (merkle_root H leaves)))"

definition merkle_prove_command ::
  "(bytes \<Rightarrow> hash32) \<Rightarrow> bytes \<Rightarrow> bytes list \<Rightarrow> cli_error + bytes" where
  "merkle_prove_command H index leaves =
     and_then (cli_u64 index ''Merkle index'') (\<lambda>index.
     and_then (parse_leaves H leaves) (\<lambda>leaves.
     let root = merkle_root H leaves
     in and_then (map_err MerkleFailed (merkle_proof H leaves (unat index))) (\<lambda>p.
        and_then (ok_or (enc_merkle_proof p) Panicked) (\<lambda>bs.
        Inr (join_with LF
          [line_of ''root'' (hash32_to_hex root), line_of ''proof'' (encode_hex bs)])))))"

definition merkle_verify_command ::
  "(bytes \<Rightarrow> hash32) \<Rightarrow> bytes \<Rightarrow> bytes \<Rightarrow> bytes \<Rightarrow> cli_error + bytes" where
  "merkle_verify_command H root leaf_data p =
     and_then (map_err BareHex (hash32_from_str root)) (\<lambda>root.
     and_then (map_err BareHex (decode_hex leaf_data)) (\<lambda>leaf_data.
     and_then (map_err BareHex (decode_hex p)) (\<lambda>proof_bytes.
     and_then (map_err BareDecode (decode_exact dec_merkle_proof proof_bytes)) (\<lambda>p.
     and_then (ok_or (merkle_leaf H leaf_data) Panicked) (\<lambda>leaf.
     and_then (map_err MerkleFailed (merkle_verify H p leaf root)) (\<lambda>valid.
     Inr (verdict valid)))))))"

definition merkle_command :: "(bytes \<Rightarrow> hash32) \<Rightarrow> bytes list \<Rightarrow> cli_error + bytes" where
  "merkle_command H args =
     (case args of
        [] \<Rightarrow> Inl UnknownCommand
      | action # args \<Rightarrow>
          if action = ascii ''root'' \<and> args \<noteq> [] then merkle_root_command H args
          else if action = ascii ''prove'' \<and> 2 \<le> length args
          then merkle_prove_command H (hd args) (tl args)
          else if action = ascii ''verify'' \<and> length args = 3
          then merkle_verify_command H (args ! 0) (args ! 1) (args ! 2)
          else Inl UnknownCommand)"

definition audit_check_command :: "bytes list \<Rightarrow> cli_error + bytes" where
  "audit_check_command args =
     and_then (cli_u64 (args ! 0) ''actual vault balance'') (\<lambda>actual.
     and_then (cli_u64 (args ! 1) ''recorded backing'') (\<lambda>recorded.
     and_then (cli_u64 (args ! 2) ''total deposits'') (\<lambda>deposited.
     and_then (cli_u64 (args ! 3) ''total paid'') (\<lambda>paid.
     and_then (cli_u64 (args ! 4) ''total minted'') (\<lambda>minted.
     and_then (cli_u64 (args ! 5) ''total burned'') (\<lambda>burned.
     and_then (cli_u64 (args ! 6) ''unminted deposits'') (\<lambda>unminted_total.
     and_then (cli_u64 (args ! 7) ''unpaid burns'') (\<lambda>unpaid_total.
     let snapshot = \<lparr>sn_actual_vault_usdt_micro = actual,
           sn_recorded_backing_usdt_micro = recorded,
           sn_total_deposited_usdt_micro = deposited,
           sn_total_paid_usdt_micro = paid,
           sn_total_minted_usdd_base = minted,
           sn_total_burned_usdd_base = burned,
           sn_deposits_unminted_usdt_micro = unminted_total,
           sn_burns_unpaid_usdt_micro = unpaid_total\<rparr>
     in and_then (map_err AuditFailed (snapshot_verify snapshot)) (\<lambda>report.
        Inr (join_with LF
          [ascii ''PASS'',
           line_of ''expected_backing_usdt_micro''
             (decimal (unat (ar_expected_backing_usdt_micro report))),
           line_of ''physical_surplus_usdt_micro''
             (decimal (unat (ar_physical_surplus_usdt_micro report))),
           line_of ''circulating_usdd_base''
             (decimal (unat (ar_circulating_usdd_base report)))]))))))))))"

definition replay_text :: "audit_events \<Rightarrow> audit_snapshot \<Rightarrow> audit_report \<Rightarrow> bytes" where
  "replay_text events snapshot report =
     join_with LF
       [ascii ''PASS (chain-event input must be independently authenticated)'',
        line_of ''deposits'' (decimal (length (ae_deposits events))),
        line_of ''mints'' (decimal (length (ae_mints events))),
        line_of ''burns'' (decimal (length (ae_burns events))),
        line_of ''payouts'' (decimal (length (ae_payouts events))),
        line_of ''expected_backing_usdt_micro''
          (decimal (unat (ar_expected_backing_usdt_micro report))),
        line_of ''physical_surplus_usdt_micro''
          (decimal (unat (ar_physical_surplus_usdt_micro report))),
        line_of ''circulating_usdd_base'' (decimal (unat (ar_circulating_usdd_base report))),
        line_of ''unminted_usdt_micro''
          (decimal (unat (sn_deposits_unminted_usdt_micro snapshot))),
        line_of ''unpaid_burns_usdt_micro''
          (decimal (unat (sn_burns_unpaid_usdt_micro snapshot)))]"

definition audit_replay_command ::
  "file_system \<Rightarrow> bytes \<Rightarrow> bytes \<Rightarrow> bytes \<Rightarrow> cli_error + bytes" where
  "audit_replay_command F actual recorded path =
     and_then (cli_u64 actual ''actual vault balance'') (\<lambda>actual.
     and_then (cli_u64 recorded ''recorded backing'') (\<lambda>recorded.
     and_then (map_err (Unreadable ''audit events'' path) (fs_read_to_string F path)) (\<lambda>contents.
     and_then (parse_audit_events contents) (\<lambda>events.
     and_then (map_err AuditFailed (reconstruct_audit_snapshot actual recorded
         (ae_deposits events) (ae_mints events) (ae_burns events) (ae_payouts events)))
       (\<lambda>(snapshot, report).
     Inr (replay_text events snapshot report))))))"

definition audit_command :: "file_system \<Rightarrow> bytes list \<Rightarrow> cli_error + bytes" where
  "audit_command F args =
     (case args of
        [] \<Rightarrow> Inl UnknownCommand
      | action # args \<Rightarrow>
          if action = ascii ''check'' \<and> length args = 8 then audit_check_command args
          else if action = ascii ''replay'' \<and> length args = 3
          then audit_replay_command F (args ! 0) (args ! 1) (args ! 2)
          else Inl UnknownCommand)"

definition journal_command ::
  "(bytes \<Rightarrow> hash32) \<Rightarrow> derived_debug \<Rightarrow> bytes list \<Rightarrow> cli_error + bytes" where
  "journal_command H D args =
     (case args of
        [action, encoded] \<Rightarrow>
          if action \<noteq> ascii ''inspect'' then Inl UnknownCommand
          else and_then (map_err BareHex (decode_hex encoded)) (\<lambda>bs.
            and_then (map_err JournalFailed (decode_strict H bs)) (\<lambda>j.
            Inr (join_with LF
              [line_of ''statement'' (dd_statement_kind D (sj_statement_kind j)),
               line_of ''program_id'' (hash32_to_hex (sj_program_id j)),
               line_of ''payload_sha256'' (hash32_to_hex (sj_payload_sha256 j)),
               line_of ''payload'' (encode_hex (sj_payload j))])))
      | _ \<Rightarrow> Inl UnknownCommand)"

definition gate_report_command ::
  "(bytes \<Rightarrow> hash32) \<Rightarrow> file_system \<Rightarrow> bytes \<Rightarrow> cli_error + bytes" where
  "gate_report_command H F path =
     and_then (map_err (Unreadable ''launch gates'' path) (fs_read_to_string F path)) (\<lambda>contents.
     and_then (map_err GatesFailed (parse_tsv contents)) (\<lambda>report.
     and_then (map_err GatesFailed (verify_evidence_files H (fs_read_evidence F path) report))
       (\<lambda>report. Inr (render_text report))))"

definition gates_command ::
  "(bytes \<Rightarrow> hash32) \<Rightarrow> file_system \<Rightarrow> bytes list \<Rightarrow> cli_error + bytes" where
  "gates_command H F args =
     (case args of
        [action] \<Rightarrow>
          if action = ascii ''report'' then gate_report_command H F (ascii ''specs/launch-gates.tsv'')
          else Inl UnknownCommand
      | [action, path] \<Rightarrow>
          if action = ascii ''report'' then gate_report_command H F path
          else Inl UnknownCommand
      | _ \<Rightarrow> Inl UnknownCommand)"

text \<open>The match over the arguments, grouped by the first word; the patterns are disjoint.\<close>

definition run_str ::
  "(bytes \<Rightarrow> hash32) \<Rightarrow> derived_debug \<Rightarrow> file_system \<Rightarrow> bytes list \<Rightarrow> cli_error + bytes" where
  "run_str H D F args =
     (case args of
        [] \<Rightarrow> Inr HELP
      | command # args \<Rightarrow>
          if args = [] \<and> command \<in> {ascii ''help'', ascii ''--help'', ascii ''-h''} then Inr HELP
          else if command = ascii ''amount'' then amount_command args
          else if command = ascii ''id'' then id_command H args
          else if command = ascii ''deposit'' then deposit_command H D args
          else if command = ascii ''prove-deposit'' then Inl DepositGuestUnavailable
          else if command = ascii ''mint'' then mint_command H D args
          else if command = ascii ''burn'' then burn_command H args
          else if command = ascii ''prove-elements'' then Inl ElementsGuestUnavailable
          else if command = ascii ''redeem'' then redeem_command H args
          else if command = ascii ''burn-tree'' then burn_tree_command H args
          else if command = ascii ''decode'' then decode_command H D args
          else if command = ascii ''manifest'' then manifest_command H args
          else if command = ascii ''merkle'' then merkle_command H args
          else if command = ascii ''audit'' then audit_command F args
          else if command = ascii ''journal'' then journal_command H D args
          else if command = ascii ''gates'' then gates_command H F args
          else Inl UnknownCommand)"

subsection \<open>Texts that parse back\<close>

lemma cli_u64_ok [ok_iff]: "cli_u64 v name = Inr n \<longleftrightarrow> parse_u64_str v = Some n"
  by (simp add: cli_u64_def ok_or_Inr)

lemma collect_results_ok:
  "collect_results f xs = Inr ys \<longleftrightarrow> list_all2 (\<lambda>x y. f x = Inr y) xs ys"
proof (induction xs arbitrary: ys)
  case (Cons x xs)
  show ?case using Cons by (cases ys) (auto simp: and_then_Inr)
qed auto

lemma collect_results_map:
  "list_all (\<lambda>x. f (g x) = Inr (h x)) xs \<Longrightarrow> collect_results f (map g xs) = Inr (map h xs)"
  unfolding collect_results_ok by (induction xs) simp_all

lemma hash32_text: "hash32_from_str (hash32_to_hex h) = Inr h"
  by (simp add: hash32_from_str_def hash32_to_hex_def decode_encode_hex enc_hash32_def
      from_to_be_bytes)

lemma address_text: "address_from_str (ascii ''0x'' @ encode_hex (enc_address a)) = Inr a"
  unfolding address_from_str_def decode_encode_hex
  by (simp add: enc_address_def from_to_be_bytes)

text \<open>Characters of a column: no separator and no line end.\<close>

definition plain :: "bytes \<Rightarrow> bool" where
  "plain s \<longleftrightarrow> TAB \<notin> set s \<and> LF \<notin> set s \<and> CR \<notin> set s"

lemma plain_append [simp]: "plain (s @ t) \<longleftrightarrow> plain s \<and> plain t"
  by (auto simp: plain_def)

lemma plain_decimal [simp]: "plain (decimal n)"
  using decimal_digits [of n]
  by (auto simp: plain_def list_all_iff is_digit_def TAB_def LF_def CR_def)

lemma plain_hex [simp]: "plain (encode_hex bs)"
proof -
  have "HEX ! k \<noteq> TAB \<and> HEX ! k \<noteq> LF \<and> HEX ! k \<noteq> CR" if "k < 16" for k
    using HEX_nth [OF that] by (auto simp: TAB_def LF_def CR_def hex_digit_def)
  then show ?thesis
    by (induction bs) (auto simp: plain_def nibbles eq_commute [of TAB] eq_commute [of LF]
        eq_commute [of CR])
qed

lemma plain_hash [simp]: "plain (hash32_to_hex h)"
  by (simp add: hash32_to_hex_def)

lemma set_join_with: "set (join_with c ps) \<subseteq> insert c (\<Union> (set ` set ps))"
  by (induction c ps rule: join_with.induct) auto

lemma split_row: "ps \<noteq> [] \<Longrightarrow> list_all plain ps \<Longrightarrow> split_on TAB (join_with TAB ps) = ps"
  by (rule split_on_join) (auto simp: plain_def list_all_iff)

lemma row_line:
  "list_all plain ps \<Longrightarrow> LF \<notin> set (join_with TAB ps) \<and> CR \<notin> set (join_with TAB ps)"
  using set_join_with [of TAB ps] by (auto simp: plain_def list_all_iff TAB_def LF_def CR_def)

subsection \<open>Audit files\<close>

text \<open>The records of an audit file, one per line, and their text.\<close>

datatype audit_record =
    DepositRecord audited_deposit
  | MintRecord audited_mint
  | BurnRecord audited_burn
  | PayoutRecord audited_payout

fun record_columns :: "audit_record \<Rightarrow> bytes list" where
  "record_columns (DepositRecord d) =
     [ascii ''deposit'', decimal (unat (ad_nonce d)), hash32_to_hex (ad_deposit_id d),
      decimal (unat (ad_amount_usdt_micro d)), DASH]"
| "record_columns (MintRecord m) =
     [ascii ''mint'', decimal (unat (am_nonce m)), hash32_to_hex (am_deposit_id m),
      decimal (unat (am_amount_usdd_base m)), DASH]"
| "record_columns (BurnRecord b) =
     [ascii ''burn'', decimal (unat (ab_burn_index b)), hash32_to_hex (ab_burn_id b),
      decimal (unat (ab_amount_usdd_base b)), ascii ''0x'' @ encode_hex (enc_address (ab_recipient b))]"
| "record_columns (PayoutRecord p) =
     [ascii ''payout'', DASH, hash32_to_hex (ap_burn_id p),
      decimal (unat (ap_amount_usdt_micro p)),
      ascii ''0x'' @ encode_hex (enc_address (ap_recipient p))]"

fun add_record :: "audit_record \<Rightarrow> audit_events \<Rightarrow> audit_events" where
  "add_record (DepositRecord d) ev = ev\<lparr>ae_deposits := ae_deposits ev @ [d]\<rparr>"
| "add_record (MintRecord m) ev = ev\<lparr>ae_mints := ae_mints ev @ [m]\<rparr>"
| "add_record (BurnRecord b) ev = ev\<lparr>ae_burns := ae_burns ev @ [b]\<rparr>"
| "add_record (PayoutRecord p) ev = ev\<lparr>ae_payouts := ae_payouts ev @ [p]\<rparr>"

definition audit_file :: "audit_record list \<Rightarrow> bytes" where
  "audit_file rs =
     concat (map (\<lambda>l. l @ [LF]) (AUDIT_HEADER # map (join_with TAB \<circ> record_columns) rs))"

lemma plain_ascii:
  "plain (ascii ''deposit'')" "plain (ascii ''mint'')" "plain (ascii ''burn'')"
  "plain (ascii ''payout'')" "plain (ascii ''0x'')" "plain DASH" "plain (ascii ''kind'')"
  "plain (ascii ''index'')" "plain (ascii ''id'')" "plain (ascii ''amount'')"
  "plain (ascii ''recipient'')"
  by (simp_all add: plain_def DASH_def TAB_def LF_def CR_def)

lemma plain_columns: "list_all plain (record_columns r)"
  by (cases r) (simp_all add: plain_ascii del: ascii_simps)

lemma audit_line_record: "audit_line ev (k, join_with TAB (record_columns r)) = Inr (add_record r ev)"
proof -
  have split: "split_on TAB (join_with TAB (record_columns r)) = record_columns r"
    by (rule split_row [OF _ plain_columns]) (cases r; simp)
  have start: "join_with TAB (record_columns r) \<noteq> [] \<and>
      take 1 (join_with TAB (record_columns r)) \<noteq> ascii ''#''"
    by (cases r) simp_all
  have five: "length (record_columns r) = 5" by (cases r) simp_all
  show ?thesis
    unfolding audit_line_def prod.case Let_def split using start five
    by (cases r) (simp_all add: hash32_text address_text cli_u64_def parse_decimal
        audit_event_def del: ascii_simps)
qed

lemma audit_lines_records:
  "try_fold audit_line ev (List.enumerate k (map (join_with TAB \<circ> record_columns) rs)) =
     Inr (fold add_record rs ev)"
  by (induction rs arbitrary: ev k) (simp_all add: audit_line_record)

lemma parse_audit_file: "parse_audit_events (audit_file rs) = Inr (fold add_record rs no_events)"
proof -
  have "list_all plain (map ascii [''kind'', ''index'', ''id'', ''amount'', ''recipient''])"
    by (simp add: plain_ascii del: ascii_simps)
  from row_line [OF this] have header: "LF \<notin> set AUDIT_HEADER" "CR \<notin> set AUDIT_HEADER"
    unfolding AUDIT_HEADER_def by blast+
  have "list_all (\<lambda>l. LF \<notin> set l \<and> (l = [] \<or> last l \<noteq> CR))
      (AUDIT_HEADER # map (join_with TAB \<circ> record_columns) rs)"
    using header row_line [OF plain_columns] by (auto simp: list_all_iff) (metis last_in_set)+
  from text_lines_join [OF this] show ?thesis
    unfolding parse_audit_events_def audit_file_def by (simp add: audit_lines_records)
qed

lemma reconstruct_iff:
  "reconstruct_audit_snapshot actual recorded ds ms bs ps = Inr (sn, rep) \<longleftrightarrow>
     audit_accepts actual recorded ds ms bs ps
     \<and> sn = snapshot_of actual recorded ds ms bs ps \<and> rep = report_of sn"
  using reconstruct_sound reconstruct_complete by blast

subsection \<open>Dispatch\<close>

lemma run_str_dispatch:
  "run_str H D F (ascii ''merkle'' # args) = merkle_command H args"
  "run_str H D F (ascii ''burn-tree'' # args) = burn_tree_command H args"
  "run_str H D F (ascii ''audit'' # args) = audit_command F args"
  "run_str H D F (ascii ''gates'' # args) = gates_command H F args"
  "run_str H D F (ascii ''amount'' # args) = amount_command args"
  by (simp_all add: run_str_def)

lemma merkle_leaf_digest:
  "length bs < 2 ^ 32 \<Longrightarrow> merkle_leaf H bs = Some (domain_digest H MerkleLeaf bs)"
  by (simp add: merkle_leaf_def domain_hash_def)

lemma parse_leaves_hex:
  "list_all (\<lambda>d. length d < 2 ^ 32) ds \<Longrightarrow>
     parse_leaves H (map encode_hex ds) = Inr (map (domain_digest H MerkleLeaf) ds)"
  unfolding parse_leaves_def
  by (rule collect_results_map)
    (auto simp: list_all_iff parse_leaf_def decode_encode_hex merkle_leaf_digest)

lemma parse_hashes_hex: "parse_hashes (map hash32_to_hex hs) name = Inr hs"
  unfolding parse_hashes_def
  using collect_results_map [of "\<lambda>v. map_err (InvalidText name) (hash32_from_str v)" hash32_to_hex id hs]
  by (simp add: hash32_text list_all_iff)

lemma strip_decimal_nat: "n < 2 ^ 64 \<Longrightarrow> parse_u64_str (decimal n) = Some (of_nat n)"
  using parse_decimal [of "of_nat n"] by (simp add: unat_of_nat_u64)

subsection \<open>Properties\<close>

text \<open>
  Audit files. Every sequence of audit records, written one per line with hexadecimal ids
  and decimal numbers, is read back as the records of each kind in their order.
\<close>

theorem audit_file_roundtrip:
  "parse_audit_events (audit_file rs) = Inr (fold add_record rs no_events)"
  by (rule parse_audit_file)

text \<open>
  C17: the audit command. It prints PASS and the report exactly when its two numbers parse, the
  file can be read and parses, and its records are consistent and balance with the recorded
  backing, which the actual balance covers; the numbers printed are those of the snapshot.
\<close>

theorem audit_replay_exact:
  "run_str H D F [ascii ''audit'', ascii ''replay'', actual, recorded, path] = Inr out \<longleftrightarrow>
     (\<exists>a r contents ev sn. parse_u64_str actual = Some a \<and> parse_u64_str recorded = Some r
        \<and> fs_read_to_string F path = Inr contents \<and> parse_audit_events contents = Inr ev
        \<and> audit_accepts a r (ae_deposits ev) (ae_mints ev) (ae_burns ev) (ae_payouts ev)
        \<and> sn = snapshot_of a r (ae_deposits ev) (ae_mints ev) (ae_burns ev) (ae_payouts ev)
        \<and> out = replay_text ev sn (report_of sn))"
proof -
  have "run_str H D F [ascii ''audit'', ascii ''replay'', actual, recorded, path] =
      audit_replay_command F actual recorded path"
    unfolding run_str_dispatch by (simp add: audit_command_def)
  then show ?thesis
    unfolding audit_replay_command_def
    by (simp only: and_then_Inr cli_u64_ok map_err_Inr split_paired_Ex prod.case reconstruct_iff
        sum.inject) blast
qed

text \<open>
  C18: the gate report. Its last line is \<open>launch: PASS\<close> exactly when the gate file can be read, is
  well formed, and has for every required gate a row that says PASS, meets the criterion and
  names evidence whose digest is that of the file it points to.
\<close>

theorem gate_report_exact:
  "(\<exists>out. run_str H D F [ascii ''gates'', ascii ''report'', path] = Inr out
       \<and> suffix (ascii ''launch: PASS'' @ [LF]) out) \<longleftrightarrow>
   (\<exists>contents rows. fs_read_to_string F path = Inr contents \<and> gate_file_ok contents rows
      \<and> list_all (gate_proved H (fs_read_evidence F path) rows) REQUIRED_LAUNCH_GATES)"
proof -
  have run: "run_str H D F [ascii ''gates'', ascii ''report'', path] = gate_report_command H F path"
    unfolding run_str_dispatch by (simp add: gates_command_def)
  have "(\<exists>out. gate_report_command H F path = Inr out
       \<and> suffix (ascii ''launch: PASS'' @ [LF]) out) \<longleftrightarrow>
     (\<exists>contents. fs_read_to_string F path = Inr contents
       \<and> (\<exists>r. gate_outcome H (fs_read_evidence F path) contents = Inr r \<and> launch_ready r))"
    unfolding gate_report_command_def gate_outcome_def and_then_Inr map_err_Inr
      render_text_launch [symmetric]
    by blast
  then show ?thesis unfolding run launch_ready_iff by blast
qed

text \<open>
  C38: the Merkle commands agree. For leaf data given in hexadecimal, the proof command prints
  the root that the root command prints and a proof, and the verify command accepts that proof
  for that root and that leaf.
\<close>

theorem merkle_commands_agree:
  assumes "list_all (\<lambda>d. length d < 2 ^ 32) ds" "length ds < 2 ^ 64" "i < length ds"
  shows "\<exists>root p.
     run_str H D F ([ascii ''merkle'', ascii ''root''] @ map encode_hex ds) = Inr root
     \<and> run_str H D F ([ascii ''merkle'', ascii ''prove'', decimal i] @ map encode_hex ds) =
         Inr (join_with LF [line_of ''root'' root, line_of ''proof'' p])
     \<and> run_str H D F [ascii ''merkle'', ascii ''verify'', root, encode_hex (ds ! i), p] =
         Inr (ascii ''VALID'')"
proof -
  let ?leaves = "map (domain_digest H MerkleLeaf) ds"
  let ?root = "merkle_root H ?leaves"
  have index: "parse_u64_str (decimal i) = Some (of_nat i)" "unat (of_nat i :: u64) = i"
    using assms(2,3) by (simp_all add: strip_decimal_nat unat_of_nat_u64)
  obtain p where p: "merkle_proof H ?leaves i = Inr p"
    "merkle_verify H p (?leaves ! i) ?root = Inr True"
    using merkle_verify_complete [of ?leaves i H ?root] assms by auto
  then have "length (mp_siblings p) \<le> 64"
    by (auto simp: merkle_verify_def merkle_expected_depth_def split: if_splits)
  then obtain bs where bs: "enc_merkle_proof p = Some bs" "decode_exact dec_merkle_proof bs = Inr p"
    using codec_merkle_proof.round_trip [of p] by blast
  have leaf: "merkle_leaf H (ds ! i) = Some (?leaves ! i)"
    using assms by (simp add: merkle_leaf_digest list_all_length)
  have "map encode_hex ds \<noteq> []" using assms(3) by auto
  then have
    "run_str H D F ([ascii ''merkle'', ascii ''root''] @ map encode_hex ds) =
       merkle_root_command H (map encode_hex ds)"
    "run_str H D F ([ascii ''merkle'', ascii ''prove'', decimal i] @ map encode_hex ds) =
       merkle_prove_command H (decimal i) (map encode_hex ds)"
    using assms(3) by (simp_all add: run_str_dispatch merkle_command_def Suc_le_eq del: ascii_simps)
  moreover have
    "run_str H D F [ascii ''merkle'', ascii ''verify'', hash32_to_hex ?root, encode_hex (ds ! i),
       encode_hex bs] = merkle_verify_command H (hash32_to_hex ?root) (encode_hex (ds ! i)) (encode_hex bs)"
    by (simp add: run_str_dispatch merkle_command_def del: ascii_simps)
  moreover have "merkle_root_command H (map encode_hex ds) = Inr (hash32_to_hex ?root)"
    using assms(1) by (simp add: merkle_root_command_def parse_leaves_hex)
  moreover have "merkle_prove_command H (decimal i) (map encode_hex ds) =
      Inr (join_with LF [line_of ''root'' (hash32_to_hex ?root), line_of ''proof'' (encode_hex bs)])"
    using assms(1) index p(1) bs(1)
    by (simp add: merkle_prove_command_def parse_leaves_hex cli_u64_def)
  moreover have "merkle_verify_command H (hash32_to_hex ?root) (encode_hex (ds ! i)) (encode_hex bs)
      = Inr (ascii ''VALID'')"
    using leaf bs(2) p(2)
    by (simp add: merkle_verify_command_def hash32_text decode_encode_hex verdict_def
        del: ascii_simps)
  ultimately show ?thesis by metis
qed

definition no_debug :: derived_debug where
  "no_debug = \<lparr>dd_deposit = (\<lambda>_. []), dd_mint = (\<lambda>_. []), dd_mint_batch = (\<lambda>_. []),
     dd_burn = (\<lambda>_. []), dd_manifest = (\<lambda>_. []), dd_statement_kind = (\<lambda>_. [])\<rparr>"

definition no_files :: file_system where
  "no_files = \<lparr>fs_read_to_string = (\<lambda>_. Inl []), fs_read_evidence = (\<lambda>_ _. Inl [])\<rparr>"

theorem merkle_commands_agree_witness:
  "\<exists>root p.
     run_str from_be_bytes no_debug no_files ([ascii ''merkle'', ascii ''root''] @ map encode_hex [[7], [8], [9]])
       = Inr root
     \<and> run_str from_be_bytes no_debug no_files
         ([ascii ''merkle'', ascii ''prove'', decimal 2] @ map encode_hex [[7], [8], [9]]) =
         Inr (join_with LF [line_of ''root'' root, line_of ''proof'' p])
     \<and> run_str from_be_bytes no_debug no_files
         [ascii ''merkle'', ascii ''verify'', root, encode_hex ([[7], [8], [9]] ! 2), p] =
         Inr (ascii ''VALID'')"
  by (rule merkle_commands_agree) simp_all

text \<open>
  The burn-tree commands agree in the same way: the proof command prints the root that the root
  command prints and a branch that the verify command accepts for the leaf at the index.
\<close>

theorem burn_tree_commands_agree:
  assumes "length hs < 2 ^ 64" "i < length hs"
  shows "\<exists>root p.
     run_str H D F ([ascii ''burn-tree'', ascii ''root''] @ map hash32_to_hex hs) = Inr root
     \<and> run_str H D F ([ascii ''burn-tree'', ascii ''prove'', decimal i] @ map hash32_to_hex hs) =
         Inr (join_with LF [line_of ''root'' root, line_of ''proof'' p])
     \<and> run_str H D F [ascii ''burn-tree'', ascii ''verify'', root, hash32_to_hex (hs ! i),
         decimal i, p] = Inr (ascii ''VALID'')"
proof -
  let ?tree = "\<lparr>ba_leaves = hs\<rparr>"
  let ?root = "hash32_to_hex (burn_root H ?tree)"
  have index: "parse_u64_str (decimal i) = Some (of_nat i)" "unat (of_nat i :: u64) = i"
    using assms by (simp_all add: strip_decimal_nat unat_of_nat_u64)
  have tree: "from_leaves hs = Inr ?tree" using assms(1) by (simp add: from_leaves_def)
  obtain p where p: "burn_accumulator_proof H ?tree (of_nat i) = Inr p" "burn_proof_ok p"
    "compute_root H p (hs ! i) (of_nat i) = burn_root H ?tree"
    using burn_proof_complete [of "of_nat i" ?tree H] assms(2) index(2) by auto
  have decode: "decode_exact dec_burn_proof (enc_burn_proof p) = Inr p"
    using p(2) by (simp add: codec_burn_proof.decode_exact_iff)
  have "hs \<noteq> []" using assms(2) by auto
  then have
    "run_str H D F ([ascii ''burn-tree'', ascii ''root''] @ map hash32_to_hex hs) =
       burn_tree_root_command H (map hash32_to_hex hs)"
    "run_str H D F ([ascii ''burn-tree'', ascii ''prove'', decimal i] @ map hash32_to_hex hs) =
       burn_tree_prove_command H (decimal i) (map hash32_to_hex hs)"
    "run_str H D F [ascii ''burn-tree'', ascii ''verify'', ?root, hash32_to_hex (hs ! i), decimal i,
       encode_hex (enc_burn_proof p)] =
     burn_tree_verify_command H ?root (hash32_to_hex (hs ! i)) (decimal i)
       (encode_hex (enc_burn_proof p))"
    using \<open>hs \<noteq> []\<close>
    by (simp_all add: run_str_dispatch burn_tree_command_def Suc_le_eq del: ascii_simps)
  moreover have "burn_tree_root_command H (map hash32_to_hex hs) = Inr ?root"
    by (simp add: burn_tree_root_command_def parse_hashes_hex tree)
  moreover have "burn_tree_prove_command H (decimal i) (map hash32_to_hex hs) =
      Inr (join_with LF [line_of ''root'' ?root, line_of ''proof'' (encode_hex (enc_burn_proof p))])"
    using index p(1)
    by (simp add: burn_tree_prove_command_def parse_hashes_hex tree cli_u64_def)
  moreover have "burn_tree_verify_command H ?root (hash32_to_hex (hs ! i)) (decimal i)
      (encode_hex (enc_burn_proof p)) = Inr (ascii ''VALID'')"
    using index p(3) decode
    by (simp add: burn_tree_verify_command_def hash32_text decode_encode_hex verdict_def
        cli_u64_def decode_record_def burn_proof_verify_def del: ascii_simps)
  ultimately show ?thesis by metis
qed

text \<open>
  The amount commands: micro-USDT convert to a hundred times as many USDD units as long as they
  fit 64 bits, USDD units convert back exactly when they are a multiple of a hundred.
\<close>

theorem amount_commands_exact:
  fixes n :: u64
  shows "run_str H D F [ascii ''amount'', ascii ''usdt-to-usdd'', decimal (unat n)] = Inr out \<longleftrightarrow>
     100 * unat n < 2 ^ 64 \<and> out = decimal (100 * unat n)"
    and "run_str H D F [ascii ''amount'', ascii ''usdd-to-usdt'', decimal (unat n)] = Inr out \<longleftrightarrow>
     100 dvd unat n \<and> out = decimal (unat n div 100)"
proof -
  have run: "run_str H D F [ascii ''amount'', ascii ''usdt-to-usdd'', decimal (unat n)] =
      and_then (ok_or (usdt_micro_to_usdd_base n) UsdtOverflow) (\<lambda>c. Inr (decimal (unat c)))"
    "run_str H D F [ascii ''amount'', ascii ''usdd-to-usdt'', decimal (unat n)] =
      and_then (ok_or (usdd_base_to_usdt_micro n) UsddNotDivisible) (\<lambda>c. Inr (decimal (unat c)))"
    by (simp_all add: run_str_dispatch amount_command_def cli_u64_def parse_decimal del: ascii_simps)
  show "run_str H D F [ascii ''amount'', ascii ''usdt-to-usdd'', decimal (unat n)] = Inr out \<longleftrightarrow>
     100 * unat n < 2 ^ 64 \<and> out = decimal (100 * unat n)"
  proof (cases "usdt_micro_to_usdd_base n")
    case None
    then show ?thesis unfolding run using to_base_None [of n] by simp
  next
    case (Some c)
    then have c: "unat c = 100 * unat n" by (simp only: to_base_iff)
    then have "100 * unat n < 2 ^ 64" using unat_bound [of c] by simp
    then show ?thesis unfolding run Some using c by auto
  qed
  show "run_str H D F [ascii ''amount'', ascii ''usdd-to-usdt'', decimal (unat n)] = Inr out \<longleftrightarrow>
     100 dvd unat n \<and> out = decimal (unat n div 100)"
  proof (cases "usdd_base_to_usdt_micro n")
    case None
    then show ?thesis unfolding run using to_micro_None [of n] by simp
  next
    case (Some c)
    then have c: "unat n = 100 * unat c" by (simp only: to_micro_iff)
    then show ?thesis unfolding run Some by auto
  qed
qed

end
