(* ===== verification/Messages.thy ===== *)
theory Messages
  imports Command_Line
begin

section \<open>Error messages and the exit of the command line\<close>

text \<open>
  The \<open>Display\<close> implementations of the errors that reach the command line, its messages, and
  \<open>main\<close>: the result on the standard output with exit code 0, or the message on the standard
  error with exit code 2. A panic is \<open>None\<close>. It has three sources: an argument that is not valid
  UTF-8, a failed write to a standard stream, and a command on arguments of \<open>2 ^ 33\<close> bytes or more.
\<close>

fun show_hex_error :: "hex_error \<Rightarrow> bytes" where
  "show_hex_error OddLength = ascii ''hex input has odd length''"
| "show_hex_error (InvalidDigit index) = ascii ''invalid hex digit at byte '' @ decimal index"
| "show_hex_error (WrongLength expected actual) =
     concat [ascii ''expected '', decimal expected, ascii '' bytes, got '', decimal actual]"

fun show_decode_error :: "decode_error \<Rightarrow> bytes" where
  "show_decode_error (UnexpectedEof needed remaining_bytes) =
     concat [ascii ''need '', decimal needed, ascii '' bytes but only '',
       decimal remaining_bytes, ascii '' remain'']"
| "show_decode_error (TrailingBytes count) = decimal count @ ascii '' trailing bytes''"
| "show_decode_error (InvalidTag type_name tag) =
     concat [ascii ''invalid '', ascii type_name, ascii '' tag '', decimal (unat tag)]"
| "show_decode_error (InvalidLength expected actual) =
     concat [ascii ''expected length '', decimal expected, ascii '', got '', decimal actual]"
| "show_decode_error LengthOverflow = ascii ''length exceeds u32''"
| "show_decode_error (InvalidValue message) = ascii message"

fun show_accumulator_error :: "burn_accumulator_error \<Rightarrow> bytes" where
  "show_accumulator_error (WrongDepth depth) =
     concat [ascii ''burn tree depth '', decimal depth, ascii '' exceeds 64'']"
| "show_accumulator_error TooManyLeaves = ascii ''burn accumulator exceeds uint64 indices''"
| "show_accumulator_error BurnIndexOutOfRange = ascii ''burn index is outside finalized prefix''"

fun show_merkle_error :: "merkle_error \<Rightarrow> bytes" where
  "show_merkle_error EmptyTree = ascii ''cannot prove an empty tree''"
| "show_merkle_error IndexOutOfRange = ascii ''Merkle leaf index out of range''"
| "show_merkle_error MalformedProof = ascii ''malformed Merkle proof''"

fun show_manifest_error :: "manifest_error \<Rightarrow> bytes" where
  "show_manifest_error (ZeroField name) =
     concat [ascii ''manifest field '', ascii name, ascii '' is zero'']"
| "show_manifest_error (WrongDrivechainSlot expected actual) =
     concat [ascii ''Drivechain slot must be '', decimal (unat expected), ascii '', got '',
       decimal (unat actual)]"
| "show_manifest_error WrongAmountScale =
     concat [ascii ''manifest must encode six-decimal USDT, eight-decimal USDD, and '',
       [0xC3, 0x97], ascii ''100 conversion'']"
| "show_manifest_error WrongSp1Identity =
     ascii ''manifest must pin SP1 6.3.1 commit 8252c2905ce32964df68248117015c61ebb854db and SHA-256-only compressed-proof v1''"
| "show_manifest_error WrongDomainSeparatorTable =
     ascii ''manifest domain-separator table hash is wrong''"
| "show_manifest_error WrongControllerConfiguration =
     ascii ''controller configuration hash does not match the non-circular V1 projection''"
| "show_manifest_error WrongOutboundVerifierConfiguration =
     ascii ''outbound verifier configuration hash does not match the non-circular V1 projection''"
| "show_manifest_error WrongFinalityThresholds =
     ascii ''V1 requires max 4096 Ethereum slots, max 6h finalized-state age, and at least 100 Bitcoin confirmations''"
| "show_manifest_error WrongVaultId =
     ascii ''manifest vault ID does not match Solidity constructor inputs''"
| "show_manifest_error WrongLiabilityCap =
     ascii ''manifest liability cap does not equal frozen V1 cap''"
| "show_manifest_error WrongFirstDepositNonce =
     ascii ''V1 controller must begin at vault deposit nonce zero''"
| "show_manifest_error WrongInitialControllerState =
     ascii ''manifest initial controller state hash is wrong''"
| "show_manifest_error (ManifestEncoding e) = show_decode_error e"

fun show_audit_error :: "audit_error \<Rightarrow> bytes" where
  "show_audit_error (NonConvertibleSupply name) =
     concat [ascii name, ascii '' is not divisible by '', decimal (unat USDD_UNITS_PER_USDT_MICRO)]"
| "show_audit_error BurnExceedsMint = ascii ''burned USDD exceeds minted USDD''"
| "show_audit_error PaidExceedsDeposited = ascii ''paid USDT exceeds deposited USDT''"
| "show_audit_error (DepositMintPartitionMismatch deposited accounted) =
     concat [ascii ''deposited USDT '', decimal (unat deposited),
       ascii '' does not equal minted plus unminted '', decimal (unat accounted)]"
| "show_audit_error (BurnPayoutPartitionMismatch burned accounted) =
     concat [ascii ''burned USDD in micro-USDT '', decimal (unat burned),
       ascii '' does not equal paid plus unpaid '', decimal (unat accounted)]"
| "show_audit_error (PhysicalReserveShortfall required actual) =
     concat [ascii ''physical reserve '', decimal (unat actual), ascii '' is below required '',
       decimal (unat required)]"
| "show_audit_error (RecordedBackingMismatch expected actual) =
     concat [ascii ''recorded backing '', decimal (unat actual),
       ascii '' does not equal expected '', decimal (unat expected)]"
| "show_audit_error ConservationUnderflow = ascii ''conservation equation underflow''"
| "show_audit_error (ZeroAuditIdentifier name) = ascii name @ ascii '' identifier is zero''"
| "show_audit_error (NonSequentialDepositNonce expected actual) =
     concat [ascii ''deposit nonce '', decimal (unat actual),
       ascii '' is not the expected consecutive nonce '', decimal (unat expected)]"
| "show_audit_error (NonSequentialMintNonce expected actual) =
     concat [ascii ''mint nonce '', decimal (unat actual),
       ascii '' is not the expected consecutive nonce '', decimal (unat expected)]"
| "show_audit_error (NonSequentialBurnIndex expected actual) =
     concat [ascii ''burn index '', decimal (unat actual),
       ascii '' is not the expected consecutive index '', decimal (unat expected)]"
| "show_audit_error DuplicateDepositId = ascii ''duplicate deposit ID''"
| "show_audit_error DuplicateBurnId = ascii ''duplicate burn ID''"
| "show_audit_error MintDoesNotMatchDeposit = ascii ''mint does not exactly consume its deposit''"
| "show_audit_error PayoutWithoutBurn = ascii ''payout has no finalized burn''"
| "show_audit_error PayoutDoesNotMatchBurn =
     ascii ''payout amount or recipient does not match its burn''"
| "show_audit_error DuplicatePayout = ascii ''burn was paid more than once''"
| "show_audit_error AuditTotalOverflow = ascii ''audit total overflow''"

fun show_journal_error :: "journal_error \<Rightarrow> bytes" where
  "show_journal_error (JournalDecode e) = show_decode_error e"
| "show_journal_error WrongMagic = ascii ''wrong journal magic''"
| "show_journal_error (UnsupportedSchema v) =
     ascii ''unsupported journal schema '' @ decimal (unat v)"
| "show_journal_error (UnsupportedDigest v) =
     concat [ascii ''unsupported journal digest tag '', decimal (unat v),
       ascii ''; SHA-256 is required'']"
| "show_journal_error GuestNotSuccessful = ascii ''guest success marker is absent''"
| "show_journal_error (UnsupportedStatementKind v) =
     ascii ''unsupported statement kind '' @ decimal (unat v)"
| "show_journal_error ZeroProgramId = ascii ''journal program ID is zero''"
| "show_journal_error EmptyPayload = ascii ''journal payload is empty''"
| "show_journal_error PayloadDigestMismatch = ascii ''journal payload SHA-256 mismatch''"
| "show_journal_error (JournalTrailingBytes v) =
     concat [ascii ''journal has '', decimal v, ascii '' trailing bytes'']"
| "show_journal_error NonCanonicalEncoding = ascii ''journal encoding is noncanonical''"
| "show_journal_error WrongProgramId = ascii ''journal program ID does not match manifest''"
| "show_journal_error WrongStatementKind = ascii ''journal statement kind is wrong''"
| "show_journal_error InvalidPayloadForStatement =
     ascii ''journal payload is not a canonical record for its statement kind''"

fun show_gate_error :: "gate_error \<Rightarrow> bytes" where
  "show_gate_error InvalidHeader =
     ascii ''expected TSV header: gate'' @ [92] @ ascii ''tstatus'' @ [92] @ ascii ''tmeasured_value''
       @ [92] @ ascii ''tevidence''"
| "show_gate_error (WrongColumnCount line actual) =
     concat [ascii ''line '', decimal line, ascii '' has '', decimal actual,
       ascii '' columns; expected 4'']"
| "show_gate_error (InvalidStatus v) = ascii ''invalid gate status '' @ v"
| "show_gate_error (UnknownGate v) = ascii ''unknown launch gate '' @ v"
| "show_gate_error (DuplicateGate v) = ascii ''duplicate launch gate '' @ v"
| "show_gate_error (InvalidEvidenceSpec gate) =
     concat [ascii ''gate '', gate, ascii '' evidence must be sha256:<64-hex>@<relative-path>'']"
| "show_gate_error (UnsafeEvidencePath gate) =
     concat [ascii ''gate '', gate, ascii '' evidence path is not a safe relative path'']"
| "show_gate_error (EvidenceRead gate message) =
     concat [ascii ''cannot read evidence for gate '', gate, ascii '': '', message]"
| "show_gate_error (EvidenceDigestMismatch gate) =
     ascii ''evidence SHA-256 mismatch for gate '' @ gate"

definition audit_line_message :: "nat \<Rightarrow> bytes \<Rightarrow> bytes" where
  "audit_line_message line_number message =
     concat [ascii ''audit TSV line '', decimal line_number, ascii '' '', message]"

text \<open>The message of an error; a panic has none.\<close>

fun cli_message :: "cli_error \<Rightarrow> bytes option" where
  "cli_message UnknownCommand = Some (ascii ''unknown or incomplete command'' @ [LF, LF] @ HELP)"
| "cli_message (InvalidNumber name) = Some (ascii ''invalid '' @ ascii name)"
| "cli_message (InvalidHex name e) =
     Some (concat [ascii ''invalid '', ascii name, ascii '' hex: '', show_hex_error e])"
| "cli_message (InvalidCanonical name e) =
     Some (concat [ascii ''invalid canonical '', ascii name, ascii '': '', show_decode_error e])"
| "cli_message (InvalidText name e) =
     Some (concat [ascii ''invalid '', ascii name, ascii '': '', show_hex_error e])"
| "cli_message (BareHex e) = Some (show_hex_error e)"
| "cli_message (BareDecode e) = Some (show_decode_error e)"
| "cli_message UsdtOverflow = Some (ascii ''USDT amount overflows USDD base units'')"
| "cli_message UsddNotDivisible =
     Some (ascii ''USDD amount is not exactly divisible by 100 base units'')"
| "cli_message DepositGuestUnavailable =
     Some (ascii ''BLOCKED: no production Ethereum finality/execution SP1 guest or ELF is available'')"
| "cli_message ElementsGuestUnavailable =
     Some (ascii ''BLOCKED: no production full-validity Elements/Bitcoin/BMM SP1 guest or ELF is available'')"
| "cli_message (InvalidMintBatch e) = Some (ascii ''invalid mint batch: '' @ show_decode_error e)"
| "cli_message (ClaimRejected e) = Some (show_decode_error e)"
| "cli_message (AccumulatorFailed e) = Some (show_accumulator_error e)"
| "cli_message (MerkleFailed e) = Some (show_merkle_error e)"
| "cli_message (ManifestFailed e) = Some (show_manifest_error e)"
| "cli_message (AuditFailed e) = Some (show_audit_error e)"
| "cli_message (JournalFailed e) = Some (show_journal_error e)"
| "cli_message (GatesFailed e) = Some (show_gate_error e)"
| "cli_message (Unreadable what path message) =
     Some (concat [ascii ''cannot read '', ascii what, ascii '' at '', path, ascii '': '', message])"
| "cli_message InvalidAuditHeader = Some (ascii ''invalid audit TSV header'')"
| "cli_message (WrongAuditColumns n) = Some (audit_line_message n (ascii ''must have 5 columns''))"
| "cli_message (InvalidAuditId n e) =
     Some (audit_line_message n (ascii ''has invalid ID: '' @ show_hex_error e))"
| "cli_message (RecipientNotDash n kind) =
     Some (audit_line_message n (ascii kind @ ascii '' recipient must be -''))"
| "cli_message (InvalidRecipient n e) =
     Some (audit_line_message n (ascii ''has invalid recipient: '' @ show_hex_error e))"
| "cli_message (IndexNotDash n) =
     Some (audit_line_message n (ascii ''payout index must be -''))"
| "cli_message (UnknownAuditKind n kind) =
     Some (audit_line_message n (ascii ''has unknown kind '' @ kind))"
| "cli_message Panicked = None"

subsection \<open>The process\<close>

text \<open>
  \<open>std::env::args()\<close> panics on an argument that is not Unicode, which on Unix means bytes that
  are not well-formed UTF-8; the skipped program name is converted too. \<open>println!\<close> and
  \<open>eprintln!\<close> panic when the write fails: \<open>standard_streams\<close> says which writes succeed.
\<close>

definition in_range :: "u8 \<Rightarrow> u8 \<Rightarrow> u8 \<Rightarrow> bool" where
  "in_range low high b \<longleftrightarrow> low \<le> b \<and> b \<le> high"

text \<open>The range of the second byte of a sequence, which depends on the first.\<close>

definition second_byte :: "u8 \<Rightarrow> u8 \<Rightarrow> bool" where
  "second_byte b c =
     (if b = 0xE0 then in_range 0xA0 0xBF c
      else if b = 0xED then in_range 0x80 0x9F c
      else if b = 0xF0 then in_range 0x90 0xBF c
      else if b = 0xF4 then in_range 0x80 0x8F c
      else in_range 0x80 0xBF c)"

text \<open>The number of bytes that follow the first one.\<close>

definition trailing_bytes :: "u8 \<Rightarrow> nat option" where
  "trailing_bytes b =
     (if b < 0x80 then Some 0
      else if in_range 0xC2 0xDF b then Some 1
      else if in_range 0xE0 0xEF b then Some 2
      else if in_range 0xF0 0xF4 b then Some 3
      else None)"

function utf8_valid :: "bytes \<Rightarrow> bool" where
  "utf8_valid s =
     (case s of
        [] \<Rightarrow> True
      | b # bs \<Rightarrow>
          (case trailing_bytes b of
             None \<Rightarrow> False
           | Some n \<Rightarrow>
               n \<le> length bs \<and> (n \<noteq> 0 \<longrightarrow> second_byte b (hd bs))
               \<and> list_all (in_range 0x80 0xBF) (take n bs) \<and> utf8_valid (drop n bs)))"
  by pat_completeness auto
termination
  by (relation "measure length") auto

declare utf8_valid.simps [simp del]

record standard_streams =
  stdout_accepts :: "bytes \<Rightarrow> bool"
  stderr_accepts :: "bytes \<Rightarrow> bool"

record process_exit =
  px_code :: nat
  px_stdout :: bytes
  px_stderr :: bytes

definition result_exit :: "standard_streams \<Rightarrow> bytes \<Rightarrow> process_exit option" where
  "result_exit io result =
     (let line = result @ [LF]
      in if stdout_accepts io line
      then Some \<lparr>px_code = 0, px_stdout = line, px_stderr = []\<rparr> else None)"

definition error_exit :: "standard_streams \<Rightarrow> bytes \<Rightarrow> process_exit option" where
  "error_exit io message =
     (let line = concat [ascii ''error: '', message, [LF]]
      in if stderr_accepts io line
      then Some \<lparr>px_code = 2, px_stdout = [], px_stderr = line\<rparr> else None)"

text \<open>\<open>argv\<close> is the whole argument vector, program name included.\<close>

definition cli_main ::
  "(bytes \<Rightarrow> hash32) \<Rightarrow> derived_debug \<Rightarrow> file_system \<Rightarrow> standard_streams \<Rightarrow> bytes list
     \<Rightarrow> process_exit option" where
  "cli_main H D F io argv =
     (if \<not> list_all utf8_valid argv then None
      else case run_str H D F (drop 1 argv) of
        Inr result \<Rightarrow> result_exit io result
      | Inl e \<Rightarrow> (case cli_message e of None \<Rightarrow> None | Some message \<Rightarrow> error_exit io message))"

subsection \<open>Absence of panics\<close>

definition panic_free :: "cli_error + 'a \<Rightarrow> bool" where
  "panic_free r \<longleftrightarrow> r \<noteq> Inl Panicked"

named_theorems quiet

lemma panic_free_Inr [quiet]: "panic_free (Inr x)"
  by (simp add: panic_free_def)

lemma panic_free_Inl [quiet]: "e \<noteq> Panicked \<Longrightarrow> panic_free (Inl e)"
  by (simp add: panic_free_def)

lemma panic_free_and_then [quiet]:
  "\<lbrakk>panic_free m; \<And>x. m = Inr x \<Longrightarrow> panic_free (f x)\<rbrakk> \<Longrightarrow> panic_free (and_then m f)"
  by (auto simp: panic_free_def and_then_Inl)

lemma panic_free_map_err [quiet]: "(\<And>e. g e \<noteq> Panicked) \<Longrightarrow> panic_free (map_err g m)"
  by (auto simp: panic_free_def map_err_Inl dest: sym)

lemma panic_free_ok_or [quiet]: "(m = None \<Longrightarrow> e \<noteq> Panicked) \<Longrightarrow> panic_free (ok_or m e)"
  by (auto simp: panic_free_def ok_or_Inl)

lemma panic_free_if [quiet]:
  "\<lbrakk>c \<Longrightarrow> panic_free m; \<not> c \<Longrightarrow> panic_free m'\<rbrakk> \<Longrightarrow> panic_free (if c then m else m')"
  by simp

lemma panic_free_collect:
  "(\<And>x. x \<in> set xs \<Longrightarrow> panic_free (f x)) \<Longrightarrow> panic_free (collect_results f xs)"
  by (induction xs) (auto intro!: quiet)

lemma panic_free_try_fold: "(\<And>a x. panic_free (f a x)) \<Longrightarrow> panic_free (try_fold f acc xs)"
  by (induction xs arbitrary: acc) (auto intro!: quiet)

lemma panic_free_cli_u64 [quiet]: "panic_free (cli_u64 v name)"
  unfolding cli_u64_def by (intro quiet) simp

lemma panic_free_decode_record [quiet]: "panic_free (decode_record dec encoded name)"
  unfolding decode_record_def by (intro quiet) simp_all

lemma panic_free_parse_hashes [quiet]: "panic_free (parse_hashes vs name)"
  unfolding parse_hashes_def by (intro panic_free_collect quiet) simp

lemma decode_hex_shorter: "decode_hex s = Inr bs \<Longrightarrow> 2 * length bs \<le> length s"
proof -
  assume "decode_hex s = Inr bs"
  then have "decode_hex_pairs 0 (strip_0x s) = Inr bs" "even (length (strip_0x s))"
    by (simp_all add: decode_hex_def Let_def even_iff_mod_2_eq_zero split: if_splits)
  from decode_hex_pairs_length [OF this] show ?thesis
    by (simp add: strip_0x_def del: ascii_simps split: if_splits)
qed

lemma panic_free_parse_leaf: "length v < 2 ^ 33 \<Longrightarrow> panic_free (parse_leaf H v)"
  unfolding parse_leaf_def by (intro quiet) (auto dest!: decode_hex_shorter simp: merkle_leaf_digest ok_iff)

lemma panic_free_parse_leaves:
  "list_all (\<lambda>v. length v < 2 ^ 33) vs \<Longrightarrow> panic_free (parse_leaves H vs)"
  unfolding parse_leaves_def by (rule panic_free_collect) (simp add: list_all_iff panic_free_parse_leaf)

lemma panic_free_audit_event [quiet]: "panic_free (audit_event events n columns event_id amount)"
  unfolding audit_event_def by (intro quiet) simp_all

lemma panic_free_audit_line: "panic_free (audit_line events item)"
  unfolding audit_line_def Let_def by (cases item) (simp only: prod.case, intro quiet, simp_all)

lemma panic_free_audit_events [quiet]: "panic_free (parse_audit_events input)"
  unfolding parse_audit_events_def
  by (auto split: list.split intro!: panic_free_try_fold panic_free_audit_line quiet)

text \<open>A batch built from deposits has at most 64 outputs with scripts of at most 128 bytes.\<close>

lemma from_deposits_encodes: "mb_from_deposits H vs = Inr b \<Longrightarrow> enc_mint_batch b \<noteq> None"
proof -
  assume "mb_from_deposits H vs = Inr b"
  then have ok: "deposits_ok vs" and out: "list_all2 (\<lambda>v m. mo_from_deposit H v = Inr m) vs (mb_outputs b)"
    by (simp_all add: mb_from_deposits_ok)
  have "enc_mint_output m \<noteq> None" if m: "m \<in> set (mb_outputs b)" for m
  proof -
    obtain v where "mo_from_deposit H v = Inr m"
      using out m by (auto simp: list_all2_conv_all_nth in_set_conv_nth)
    then have "length (mo_elements_script m) \<le> 128" by (auto simp: ok_iff)
    then show ?thesis by (simp add: enc_mint_output_def enc_seq_not_None enc_vec_def
        del: not_None_eq)
  qed
  moreover have "length (mb_outputs b) \<le> 64"
    using ok list_all2_lengthD [OF out] by (simp add: deposits_ok_def)
  ultimately show ?thesis by (simp add: enc_mint_batch_def enc_seq_not_None del: not_None_eq)
qed

lemma merkle_proof_encodes:
  "merkle_proof H leaves i = Inr p \<Longrightarrow> length leaves < 2 ^ 64 \<Longrightarrow> enc_merkle_proof p \<noteq> None"
  using merkle_siblings_length [of leaves H i] bit_length_le [of "length leaves - 1" 64]
  by (auto simp: merkle_proof_def enc_merkle_proof_def split: if_splits) linarith

lemma panic_free_amount: "panic_free (amount_command args)"
  unfolding amount_command_def by (auto split: list.split intro!: quiet simp del: ascii_simps)

lemma panic_free_ids [quiet]:
  "panic_free (deposit_id_command H encoded)"
  "panic_free (redemption_id_command H elements_genesis encoded)"
  unfolding deposit_id_command_def redemption_id_command_def by (auto intro!: quiet)

lemma panic_free_id: "panic_free (id_command H args)"
  unfolding id_command_def by (auto split: list.split intro!: quiet simp del: ascii_simps)

lemma panic_free_deposit: "panic_free (deposit_command H D args)"
  unfolding deposit_command_def by (auto split: list.split intro!: quiet simp del: ascii_simps)

lemma panic_free_mint_batch [quiet]: "panic_free (mint_batch_command H deposits)"
  unfolding mint_batch_command_def
  by (auto intro!: panic_free_collect quiet simp: ok_iff dest: from_deposits_encodes)

lemma panic_free_mint: "panic_free (mint_command H D args)"
  unfolding mint_command_def by (auto split: list.split intro!: quiet simp del: ascii_simps)

lemma panic_free_burn: "panic_free (burn_command H args)"
  unfolding burn_command_def by (auto split: list.split intro!: quiet simp del: ascii_simps)

lemma panic_free_redeem: "panic_free (redeem_command H args)"
  unfolding redeem_command_def Let_def by (auto split: list.split intro!: quiet simp del: ascii_simps)

lemma panic_free_burn_tree: "panic_free (burn_tree_command H args)"
  unfolding burn_tree_command_def burn_tree_root_command_def burn_tree_prove_command_def
    burn_tree_verify_command_def
  by (auto split: list.split intro!: quiet simp del: ascii_simps)

lemma panic_free_decode: "panic_free (decode_command H D args)"
  unfolding decode_command_def by (auto split: list.split intro!: quiet simp del: ascii_simps)

lemma panic_free_manifest: "panic_free (manifest_command H args)"
  unfolding manifest_command_def by (auto split: list.split intro!: quiet simp del: ascii_simps)

lemma panic_free_audit: "panic_free (audit_command F args)"
  unfolding audit_command_def audit_check_command_def audit_replay_command_def Let_def
  by (auto split: list.split intro!: quiet simp del: ascii_simps)

lemma panic_free_journal: "panic_free (journal_command H D args)"
  unfolding journal_command_def by (auto split: list.split intro!: quiet simp del: ascii_simps)

lemma panic_free_gates: "panic_free (gates_command H F args)"
  unfolding gates_command_def gate_report_command_def by (auto split: list.split intro!: quiet simp del: ascii_simps)

lemma parse_leaves_length: "parse_leaves H vs = Inr ls \<Longrightarrow> length ls = length vs"
  unfolding parse_leaves_def collect_results_ok by (simp add: list_all2_lengthD)

lemma panic_free_merkle_prove:
  "list_all (\<lambda>v. length v < 2 ^ 33) vs \<Longrightarrow> length vs < 2 ^ 64 \<Longrightarrow>
     panic_free (merkle_prove_command H index vs)"
  unfolding merkle_prove_command_def Let_def
  by (intro quiet panic_free_parse_leaves)
    (auto simp: ok_iff dest!: merkle_proof_encodes parse_leaves_length)

lemma panic_free_merkle_verify:
  "length leaf_data < 2 ^ 33 \<Longrightarrow> panic_free (merkle_verify_command H root leaf_data p)"
  unfolding merkle_verify_command_def
  by (intro quiet) (auto simp: ok_iff merkle_leaf_digest dest!: decode_hex_shorter)

lemma panic_free_merkle:
  "list_all (\<lambda>v. length v < 2 ^ 33) args \<Longrightarrow> length args < 2 ^ 64 \<Longrightarrow>
     panic_free (merkle_command H args)"
proof (cases args)
  case (Cons action rest)
  assume "list_all (\<lambda>v. length v < 2 ^ 33) args" "length args < 2 ^ 64"
  with Cons have rest: "list_all (\<lambda>v. length v < 2 ^ 33) rest" "length rest < 2 ^ 64"
    "list_all (\<lambda>v. length v < 2 ^ 33) (tl rest)" "length (tl rest) < 2 ^ 64"
    by (cases rest; simp)+
  have "length (rest ! 1) < 2 ^ 33" if "length rest = 3"
    using rest(1) that by (simp add: list_all_length)
  with rest show ?thesis
    unfolding merkle_command_def merkle_root_command_def Cons list.case
    by (intro quiet panic_free_parse_leaves panic_free_merkle_prove panic_free_merkle_verify) simp_all
qed (simp add: merkle_command_def quiet)

lemma panic_free_run:
  "list_all (\<lambda>v. length v < 2 ^ 33) args \<Longrightarrow> length args < 2 ^ 64 \<Longrightarrow>
     panic_free (run_str H D F args)"
  unfolding run_str_def
  by (cases args)
    (auto intro!: quiet panic_free_amount panic_free_id panic_free_deposit panic_free_mint
      panic_free_burn panic_free_redeem panic_free_burn_tree panic_free_decode panic_free_manifest
      panic_free_merkle panic_free_audit panic_free_journal panic_free_gates simp del: ascii_simps)

lemma cli_message_None: "cli_message e = None \<longleftrightarrow> e = Panicked"
  by (cases e) simp_all

text \<open>Texts of the program are accepted: ASCII bytes stand for themselves.\<close>

lemma utf8_simps [simp]:
  "utf8_valid []"
  "b < 0x80 \<Longrightarrow> utf8_valid (b # bs) \<longleftrightarrow> utf8_valid bs"
  by (simp_all add: utf8_valid.simps [of "[]"] utf8_valid.simps [of "b # bs"] trailing_bytes_def)

lemma utf8_ascii: "list_all (\<lambda>b. b < 0x80) bs \<Longrightarrow> utf8_valid bs"
  by (induction bs) simp_all

text \<open>
  C37: the end of the process. When every argument is shorter than \<open>2 ^ 33\<close> bytes, the process
  panics exactly when an argument is not valid UTF-8 or the write of its one line fails. Otherwise
  the exit code is 0 with the line of the result on the standard output alone, or 2 with the
  message of the error, after the word error, on the standard error alone.
\<close>

theorem cli_main_exits:
  assumes "list_all (\<lambda>v. length v < 2 ^ 33) argv" "length argv < 2 ^ 64"
  shows "if \<not> list_all utf8_valid argv then cli_main H D F io argv = None
    else case run_str H D F (drop 1 argv) of
        Inr result \<Rightarrow> cli_main H D F io argv =
          (if stdout_accepts io (result @ [LF])
           then Some \<lparr>px_code = 0, px_stdout = result @ [LF], px_stderr = []\<rparr> else None)
      | Inl e \<Rightarrow> (\<exists>m. cli_message e = Some m \<and> cli_main H D F io argv =
          (if stderr_accepts io (ascii ''error: '' @ m @ [LF])
           then Some \<lparr>px_code = 2, px_stdout = [], px_stderr = ascii ''error: '' @ m @ [LF]\<rparr>
           else None))"
proof (cases "run_str H D F (drop 1 argv)")
  case (Inl e)
  have "list_all (\<lambda>v. length v < 2 ^ 33) (drop 1 argv)" "length (drop 1 argv) < 2 ^ 64"
    using assms by (auto simp: list_all_iff dest: in_set_dropD)
  from panic_free_run [OF this, of H D F] Inl have "e \<noteq> Panicked" by (simp add: panic_free_def)
  then obtain m where "cli_message e = Some m" using cli_message_None [of e] by auto
  with Inl show ?thesis by (simp add: cli_main_def error_exit_def Let_def del: ascii_simps)
qed (simp add: cli_main_def result_exit_def Let_def)

definition open_streams :: standard_streams where
  "open_streams = \<lparr>stdout_accepts = (\<lambda>_. True), stderr_accepts = (\<lambda>_. True)\<rparr>"

theorem cli_main_exits_witness:
  "if \<not> list_all utf8_valid [ascii ''usdd'', ascii ''amount'']
   then cli_main from_be_bytes no_debug no_files open_streams [ascii ''usdd'', ascii ''amount''] = None
   else case run_str from_be_bytes no_debug no_files (drop 1 [ascii ''usdd'', ascii ''amount'']) of
        Inr result \<Rightarrow>
          cli_main from_be_bytes no_debug no_files open_streams [ascii ''usdd'', ascii ''amount''] =
          (if stdout_accepts open_streams (result @ [LF])
           then Some \<lparr>px_code = 0, px_stdout = result @ [LF], px_stderr = []\<rparr> else None)
      | Inl e \<Rightarrow> (\<exists>m. cli_message e = Some m
          \<and> cli_main from_be_bytes no_debug no_files open_streams [ascii ''usdd'', ascii ''amount''] =
          (if stderr_accepts open_streams (ascii ''error: '' @ m @ [LF])
           then Some \<lparr>px_code = 2, px_stdout = [], px_stderr = ascii ''error: '' @ m @ [LF]\<rparr>
           else None))"
  by (rule cli_main_exits) simp_all

end
