(* ===== verification/Limbs.thy ===== *)
theory Limbs
  imports Merkle
begin

unbundle bit_operations_syntax

section \<open>Little-endian 64-bit limbs (usdd-bitcoin-bmm/src/lib.rs)\<close>

text \<open>
  The loops over limb arrays that \<open>Uint256\<close> and its 320-bit remainder share, as recursions
  over the list of limbs, least significant first. \<open>limbs_nat\<close> is the number an array stands
  for; every loop is shown to compute the corresponding operation on numbers, with its carry
  or borrow. \<open>limb_base\<close> is \<open>2 ^ 64\<close>, kept folded in the proofs.
\<close>

definition limb_base :: nat where
  "limb_base = 2 ^ 64"

fun limbs_nat :: "u64 list \<Rightarrow> nat" where
  "limbs_nat [] = 0"
| "limbs_nat (a # as) = unat a + limb_base * limbs_nat as"

subsection \<open>The loops\<close>

definition overflowing_add :: "u64 \<Rightarrow> u64 \<Rightarrow> u64 \<times> bool" where
  "overflowing_add a b = (a + b, 2 ^ 64 \<le> unat a + unat b)"

definition overflowing_sub :: "u64 \<Rightarrow> u64 \<Rightarrow> u64 \<times> bool" where
  "overflowing_sub a b = (a - b, unat a < unat b)"

text \<open>The body of the loop of \<open>Uint256::checked_add\<close>, over the limbs not yet added.\<close>

fun add_limbs :: "bool \<Rightarrow> u64 list \<Rightarrow> u64 list \<Rightarrow> u64 list \<times> bool" where
  "add_limbs carry (a # as) (b # bs) =
     (let (sum, first_carry) = overflowing_add a b;
          (sum, second_carry) = overflowing_add sum (of_bool carry);
          (out, carry) = add_limbs (first_carry \<or> second_carry) as bs
      in (sum # out, carry))"
| "add_limbs carry _ _ = ([], carry)"

text \<open>The loop of \<open>sub_320\<close>.\<close>

fun sub_limbs :: "bool \<Rightarrow> u64 list \<Rightarrow> u64 list \<Rightarrow> u64 list \<times> bool" where
  "sub_limbs borrow (a # as) (b # bs) =
     (let (difference, first_borrow) = overflowing_sub a b;
          (difference, second_borrow) = overflowing_sub difference (of_bool borrow);
          (out, borrow) = sub_limbs (first_borrow \<or> second_borrow) as bs
      in (difference # out, borrow))"
| "sub_limbs borrow _ _ = ([], borrow)"

datatype ordering = Less | Equal | Greater

definition cmp_word :: "u64 \<Rightarrow> u64 \<Rightarrow> ordering" where
  "cmp_word a b = (if a < b then Less else if a = b then Equal else Greater)"

text \<open>The comparison loop runs from the most significant limb down: over the reversed lists.\<close>

fun cmp_down :: "u64 list \<Rightarrow> u64 list \<Rightarrow> ordering" where
  "cmp_down (a # as) (b # bs) =
     (case cmp_word a b of Equal \<Rightarrow> cmp_down as bs | unequal \<Rightarrow> unequal)"
| "cmp_down _ _ = Equal"

definition cmp_limbs :: "u64 list \<Rightarrow> u64 list \<Rightarrow> ordering" where
  "cmp_limbs l r = cmp_down (rev l) (rev r)"

text \<open>The loop of \<open>checked_mul_u64\<close>, with its 128-bit carry.\<close>

fun mul_limbs :: "u128 \<Rightarrow> u64 list \<Rightarrow> u64 \<Rightarrow> u64 list \<times> u128" where
  "mul_limbs carry [] r = ([], carry)"
| "mul_limbs carry (a # as) r =
     (let product = ucast a * ucast r + carry;
          (out, carry) = mul_limbs (drop_bit 64 product) as r
      in (ucast product # out, carry))"

text \<open>The loop of \<open>div_u64\<close>, over the reversed limbs.\<close>

fun div_down :: "u128 \<Rightarrow> u64 list \<Rightarrow> u64 \<Rightarrow> u64 list" where
  "div_down remainder [] r = []"
| "div_down remainder (a # as) r =
     (let dividend = push_bit 64 remainder OR ucast a
      in ucast (dividend div ucast r) # div_down (dividend mod ucast r) as r)"

text \<open>The inner loop of \<open>div\<close>: shift left by one, a carry bit entering at the bottom.\<close>

fun shl1_limbs :: "u64 \<Rightarrow> u64 list \<Rightarrow> u64 list" where
  "shl1_limbs carry [] = []"
| "shl1_limbs carry (a # as) =
     (push_bit 1 a OR carry) # shl1_limbs (drop_bit 63 a) as"

subsection \<open>The number a limb array stands for\<close>

lemma limb_less: "unat (a :: u64) < limb_base"
  using unat_bound [of a] by (simp add: limb_base_def)

lemma limb_base_pos [simp]: "0 < limb_base" "limb_base \<noteq> 0"
  by (simp_all add: limb_base_def)

lemma limbs_bound: "limbs_nat l < limb_base ^ length l"
proof (induction l)
  case (Cons a l)
  then have "limbs_nat l + 1 \<le> limb_base ^ length l" by simp
  then have "limb_base * (limbs_nat l + 1) \<le> limb_base * limb_base ^ length l"
    by (rule mult_le_mono2)
  with limb_less [of a] show ?case by simp
qed simp

lemma limbs_append:
  "limbs_nat (xs @ ys) = limbs_nat xs + limb_base ^ length xs * limbs_nat ys"
  by (induction xs) (simp_all add: algebra_simps)

lemma limbs_zeros [simp]: "limbs_nat (replicate n 0) = 0"
  by (induction n) simp_all

lemma limbs_Cons_inject:
  assumes "unat (a :: u64) + limb_base * m = unat (b :: u64) + limb_base * n"
  shows "a = b \<and> m = n"
proof -
  have "(unat a + limb_base * m) mod limb_base = (unat b + limb_base * n) mod limb_base"
    "(unat a + limb_base * m) div limb_base = (unat b + limb_base * n) div limb_base"
    using assms by simp_all
  then show ?thesis using limb_less [of a] limb_less [of b] by (simp add: unat_eq_iff)
qed

lemma limbs_inject:
  "length xs = length ys \<Longrightarrow> limbs_nat xs = limbs_nat ys \<longleftrightarrow> xs = ys"
  by (induction xs ys rule: list_induct2) (auto dest!: limbs_Cons_inject)

lemma limbs_zero_iff: "limbs_nat l = 0 \<longleftrightarrow> (\<forall>a \<in> set l. a = 0)"
  by (induction l) (auto simp: unat_eq_0)

subsection \<open>Addition, subtraction, comparison\<close>

lemma overflowing_add_value:
  "overflowing_add a b = (s, c) \<Longrightarrow> unat s + limb_base * of_bool c = unat a + unat b"
  using unat_bound [of a] unat_bound [of b]
  by (auto simp: overflowing_add_def limb_base_def unat_word_ariths mod_if)

lemma overflowing_sub_value:
  "overflowing_sub a b = (d, w) \<Longrightarrow> unat d + unat b = unat a + limb_base * of_bool w"
  using unat_bound [of a] unat_bound [of b]
  by (auto simp: overflowing_sub_def limb_base_def unat_sub_if' not_le)

lemma carry_step:
  fixes R P C A B p q s a b t r L :: nat
  assumes "R + P * C = A + B + p + q" "s + L * p = a + b" "t + L * q = s + r"
  shows "t + L * R + L * P * C = a + L * A + (b + L * B) + r"
proof -
  have "L * (R + P * C) = L * (A + B + p + q)" using assms(1) by simp
  then have "L * R + L * P * C = L * A + L * B + L * p + L * q"
    by (simp only: distrib_left mult.assoc)
  with assms(2,3) show ?thesis by linarith
qed

lemma borrow_step:
  fixes R B p q A P C s b a t r L :: nat
  assumes "R + B + p + q = A + P * C" "s + b = a + L * p" "t + r = s + L * q"
  shows "t + L * R + (b + L * B) + r = a + L * A + L * P * C"
proof -
  have "L * (R + B + p + q) = L * (A + P * C)" using assms(1) by simp
  then have "L * R + L * B + L * p + L * q = L * A + L * P * C"
    by (simp only: distrib_left mult.assoc)
  with assms(2,3) show ?thesis by linarith
qed

lemma add_limbs_value:
  "add_limbs c as bs = (out, c') \<Longrightarrow> length as = length bs \<Longrightarrow>
     length out = length as
     \<and> limbs_nat out + limb_base ^ length as * of_bool c' = limbs_nat as + limbs_nat bs + of_bool c"
proof (induction c as bs arbitrary: out c' rule: add_limbs.induct)
  case (1 carry a as b bs)
  obtain s1 c1 where 2: "overflowing_add a b = (s1, c1)" by fastforce
  obtain s2 c2 where 3: "overflowing_add s1 (of_bool carry) = (s2, c2)" by fastforce
  obtain rest c3 where 4: "add_limbs (c1 \<or> c2) as bs = (rest, c3)" by fastforce
  have out: "out = s2 # rest" "c' = c3" using 1 2 3 4 by simp_all
  have e1: "unat s1 + limb_base * of_bool c1 = unat a + unat b"
    using 2 by (rule overflowing_add_value)
  have e2: "unat s2 + limb_base * of_bool c2 = unat s1 + of_bool carry"
    using overflowing_add_value [OF 3] by (cases carry) simp_all
  have "\<not> (c1 \<and> c2)"
    using e1 e2 limb_less [of a] limb_less [of b] by (cases carry) auto
  then have c: "of_bool (c1 \<or> c2) = (of_bool c1 + of_bool c2 :: nat)" by auto
  have IH: "length rest = length as
      \<and> limbs_nat rest + limb_base ^ length as * of_bool c3 =
          limbs_nat as + limbs_nat bs + of_bool (c1 \<or> c2)"
    using 1(1) [OF 2 [symmetric] refl 3 [symmetric] refl 4] 1(3) by simp
  then have "limbs_nat rest + limb_base ^ length as * of_bool c3 =
      limbs_nat as + limbs_nat bs + of_bool c1 + of_bool c2"
    by (simp only: c add.assoc)
  from carry_step [OF this e1 e2] IH show ?case
    by (simp only: out limbs_nat.simps list.size power_Suc simp_thms add_Suc_right add_0_right)
qed simp_all

lemma sub_limbs_value:
  "sub_limbs w as bs = (out, w') \<Longrightarrow> length as = length bs \<Longrightarrow>
     length out = length as
     \<and> limbs_nat out + limbs_nat bs + of_bool w = limbs_nat as + limb_base ^ length as * of_bool w'"
proof (induction w as bs arbitrary: out w' rule: sub_limbs.induct)
  case (1 borrow a as b bs)
  obtain s1 c1 where 2: "overflowing_sub a b = (s1, c1)" by fastforce
  obtain s2 c2 where 3: "overflowing_sub s1 (of_bool borrow) = (s2, c2)" by fastforce
  obtain rest c3 where 4: "sub_limbs (c1 \<or> c2) as bs = (rest, c3)" by fastforce
  have out: "out = s2 # rest" "w' = c3" using 1 2 3 4 by simp_all
  have e1: "unat s1 + unat b = unat a + limb_base * of_bool c1"
    using 2 by (rule overflowing_sub_value)
  have e2: "unat s2 + of_bool borrow = unat s1 + limb_base * of_bool c2"
    using overflowing_sub_value [OF 3] by (cases borrow) simp_all
  have "\<not> (c1 \<and> c2)"
    using e1 e2 limb_less [of s2] limb_less [of b] by (cases borrow) auto
  then have c: "of_bool (c1 \<or> c2) = (of_bool c1 + of_bool c2 :: nat)" by auto
  have IH: "length rest = length as
      \<and> limbs_nat rest + limbs_nat bs + of_bool (c1 \<or> c2) =
          limbs_nat as + limb_base ^ length as * of_bool c3"
    using 1(1) [OF 2 [symmetric] refl 3 [symmetric] refl 4] 1(3) by simp
  then have "limbs_nat rest + limbs_nat bs + of_bool c1 + of_bool c2 =
      limbs_nat as + limb_base ^ length as * of_bool c3"
    by (simp only: c add.assoc)
  from borrow_step [OF this e1 e2] IH show ?case
    by (simp only: out limbs_nat.simps list.size power_Suc simp_thms add_Suc_right add_0_right)
qed simp_all

lemma cmp_down_value:
  "length ls = length rs \<Longrightarrow>
     cmp_down ls rs =
       (if limbs_nat (rev ls) < limbs_nat (rev rs) then Less
        else if ls = rs then Equal else Greater)"
proof (induction ls rs rule: list_induct2)
  case (Cons a ls b rs)
  let ?P = "limb_base ^ length rs"
  have bounds: "limbs_nat (rev ls) < ?P" "limbs_nat (rev rs) < ?P"
    using limbs_bound [of "rev ls"] limbs_bound [of "rev rs"] Cons.hyps by simp_all
  have step: "x + ?P * i < y + ?P * j" if "x < ?P" "i < j" for x y i j :: nat
  proof -
    have "?P * (i + 1) \<le> ?P * j" using that(2) by (intro mult_le_mono2) simp
    with that(1) show ?thesis by simp
  qed
  consider "unat a < unat b" | "a = b" | "unat b < unat a"
    by (metis nat_neq_iff unat_eq_iff)
  then show ?case
  proof cases
    case 1
    then show ?thesis
      using step [OF bounds(1) 1] Cons.hyps
      by (simp add: cmp_word_def word_less_nat_alt limbs_append)
  next
    case 2
    then show ?thesis using Cons by (simp add: cmp_word_def limbs_append)
  next
    case 3
    then show ?thesis
      using step [OF bounds(2) 3, of "limbs_nat (rev ls)"] Cons.hyps
      by (auto simp: cmp_word_def word_less_nat_alt limbs_append)
  qed
qed simp

lemma cmp_limbs_value:
  assumes "length l = length r"
  shows "cmp_limbs l r =
    (if limbs_nat l < limbs_nat r then Less
     else if limbs_nat l = limbs_nat r then Equal else Greater)"
  using cmp_down_value [of "rev l" "rev r"] assms
  by (simp add: cmp_limbs_def limbs_inject)

subsection \<open>Multiplication and division by one limb, the one-bit shift\<close>

lemma limb_square: "limb_base * limb_base = 2 ^ 128"
  by (simp add: limb_base_def)

lemma unat_wide [simp]: "unat (ucast (a :: u64) :: u128) = unat a"
  using unat_bound [of a] by (simp add: unsigned_ucast_eq take_bit_nat_eq_self)

lemma product_bound:
  fixes x y c L :: nat
  assumes "x < L" "y < L" "c < L"
  shows "x * y + c < L * L"
proof -
  have "x * y \<le> x * L" using assms(2) by simp
  moreover have "x * L + L \<le> L * L"
    using mult_le_mono1 [of "x + 1" L L] assms(1) by (simp add: algebra_simps)
  ultimately show ?thesis using assms(3) by linarith
qed

lemma wide_split:
  fixes w :: u128
  shows "unat (ucast w :: u64) + limb_base * unat (drop_bit 64 w) = unat w"
    and "unat (drop_bit 64 w) < limb_base"
proof -
  have low: "unat (ucast w :: u64) = unat w mod limb_base"
    by (simp add: unsigned_ucast_eq take_bit_eq_mod limb_base_def)
  have high: "unat (drop_bit 64 w) = unat w div limb_base"
    by (subst unat_drop_bit_eq) (simp add: drop_bit_eq_div limb_base_def)
  show "unat (ucast w :: u64) + limb_base * unat (drop_bit 64 w) = unat w"
    unfolding low high by simp
  show "unat (drop_bit 64 w) < limb_base"
    using unat_bound [of w] unfolding high
    by (simp add: less_mult_imp_div_less limb_base_def)
qed

lemma mul_limbs_value:
  "mul_limbs carry as r = (out, c') \<Longrightarrow> unat carry < limb_base \<Longrightarrow>
     length out = length as
     \<and> limbs_nat out + limb_base ^ length as * unat c' = limbs_nat as * unat r + unat carry"
proof (induction carry as r arbitrary: out c' rule: mul_limbs.induct)
  case (2 carry a as r)
  define w where "w = ucast a * ucast r + carry"
  obtain rest c where rest: "mul_limbs (drop_bit 64 w) as r = (rest, c)" by fastforce
  have out: "out = ucast w # rest" "c' = c"
    using 2(2) rest by (simp_all add: w_def Let_def)
  have "unat a * unat r + unat carry < 2 ^ 128"
    using product_bound [OF limb_less limb_less 2(3)] by (simp add: limb_square)
  moreover from this have "unat a * unat r < 2 ^ 128" by linarith
  ultimately have w: "unat w = unat a * unat r + unat carry"
    by (simp add: w_def unat_word_ariths)
  have IH: "length rest = length as
      \<and> limbs_nat rest + limb_base ^ length as * unat c =
          limbs_nat as * unat r + unat (drop_bit 64 w)"
    using 2(1) [OF w_def rest wide_split(2)] by (simp add: w_def)
  then have "limb_base * (limbs_nat rest + limb_base ^ length as * unat c) =
      limb_base * (limbs_nat as * unat r + unat (drop_bit 64 w))"
    by simp
  then have "limb_base * limbs_nat rest + limb_base * limb_base ^ length as * unat c =
      limb_base * limbs_nat as * unat r + limb_base * unat (drop_bit 64 w)"
    by (simp only: distrib_left mult.assoc)
  moreover have "(unat a + limb_base * limbs_nat as) * unat r =
      unat a * unat r + limb_base * limbs_nat as * unat r"
    by (rule distrib_right)
  ultimately have "unat (ucast w :: u64) + limb_base * limbs_nat rest
      + limb_base * limb_base ^ length as * unat c =
      (unat a + limb_base * limbs_nat as) * unat r + unat carry"
    using wide_split(1) [of w] w by linarith
  with IH show ?case by (simp add: out)
qed simp


lemma or_disjoint_value:
  fixes x y :: "'a::len word"
  assumes "x AND y = 0" "unat x + unat y < 2 ^ LENGTH('a)"
  shows "unat (x OR y) = unat x + unat y"
  using assms by (simp flip: disjunctive_add_eq_or add: unat_word_ariths)

lemma wide_dividend:
  fixes r :: u128 and a :: u64
  assumes "unat r < limb_base"
  shows "unat (push_bit 64 r OR ucast a) = limb_base * unat r + unat a"
proof -
  have small: "limb_base * unat r + unat a < 2 ^ 128"
    using mult_le_mono2 [of "unat r + 1" limb_base limb_base] assms limb_less [of a]
    by (simp add: limb_square)
  then have "limb_base * unat r < 2 ^ 128" by linarith
  then have high: "unat (push_bit 64 r) = limb_base * unat r"
    by (subst unsigned_push_bit_eq)
      (simp add: push_bit_eq_mult take_bit_nat_eq_self limb_base_def mult.commute)
  have "push_bit 64 r AND ucast a = 0"
    by (rule bit_word_eqI) (auto simp: bit_simps dest: bit_imp_le_length)
  then show ?thesis using high small by (subst or_disjoint_value) simp_all
qed

lemma div_down_value:
  "unat rem < unat r \<Longrightarrow> length (div_down rem as r) = length as
     \<and> limbs_nat (rev (div_down rem as r)) =
         (unat rem * limb_base ^ length as + limbs_nat (rev as)) div unat r"
proof (induction rem as r rule: div_down.induct)
  case (2 rem a as r)
  define d where "d = push_bit 64 rem OR ucast a"
  define q where "q = (ucast (d div ucast r) :: u64)"
  define rem' where "rem' = d mod ucast r"
  have eq: "div_down rem (a # as) r = q # div_down rem' as r"
    by (simp add: d_def q_def rem'_def Let_def del: unat_wide)
  have "unat rem < limb_base" using 2(2) limb_less [of r] by linarith
  then have d: "unat d = limb_base * unat rem + unat a"
    unfolding d_def by (rule wide_dividend)
  have rem': "unat rem' = unat d mod unat r" and less: "unat rem' < unat r"
    using 2(2) by (simp_all add: rem'_def unat_mod)
  have "limb_base * (unat rem + 1) \<le> limb_base * unat r"
    using 2(2) by (intro mult_le_mono2) simp
  then have "unat d < limb_base * unat r" using limb_less [of a] by (simp add: d)
  then have "unat d div unat r < limb_base"
    by (simp add: less_mult_imp_div_less)
  then have q: "unat q = unat d div unat r"
    by (simp add: q_def unsigned_ucast_eq unat_div take_bit_eq_mod limb_base_def)
  have split: "unat d = unat q * unat r + unat rem'" by (simp add: q rem')
  let ?P = "limb_base ^ length as"
  have IH: "length (div_down rem' as r) = length as"
    "limbs_nat (rev (div_down rem' as r)) = (unat rem' * ?P + limbs_nat (rev as)) div unat r"
    using 2(1) [OF d_def [unfolded d_def]] less by (simp_all add: rem'_def d_def)
  have "unat rem * (limb_base * ?P) + (limbs_nat (rev as) + ?P * unat a) =
      ?P * unat d + limbs_nat (rev as)"
    by (simp add: d algebra_simps)
  also have "\<dots> = unat q * ?P * unat r + (unat rem' * ?P + limbs_nat (rev as))"
    by (simp add: split algebra_simps)
  finally have total: "unat rem * (limb_base * ?P) + (limbs_nat (rev as) + ?P * unat a) =
      unat q * ?P * unat r + (unat rem' * ?P + limbs_nat (rev as))" .
  have "(unat rem * (limb_base * ?P) + (limbs_nat (rev as) + ?P * unat a)) div unat r =
      unat q * ?P + (unat rem' * ?P + limbs_nat (rev as)) div unat r"
    unfolding total using 2(2) by (intro div_mult_self3) simp
  then show ?case
    unfolding eq by (simp add: IH limbs_append mult.commute)
qed simp

lemma even_below: "even (n :: nat) \<Longrightarrow> n < 2 ^ 64 \<Longrightarrow> n + 1 < 2 ^ 64"
  by (auto elim!: evenE)

lemma recombine:
  "x = t mod m + c \<Longrightarrow> y = t div m \<Longrightarrow> x + m * y = t + c" for t m c x y :: nat
  using mod_mult_div_eq [of t m] by simp

lemma shl1_limb:
  fixes a c :: u64
  assumes "unat c \<le> 1"
  shows "unat (push_bit 1 a OR c) + limb_base * unat (drop_bit 63 a) = 2 * unat a + unat c"
    and "unat (drop_bit 63 a) \<le> 1"
proof -
  have c: "c = 0 \<or> c = 1" using assms by (metis le_eq_less_or_eq less_one unat_0 unat_1 unat_eq_iff)
  have low: "unat (push_bit 1 a) = 2 * unat a mod 2 ^ 64"
    by (simp add: push_bit_eq_mult unat_word_ariths mult.commute)
  have even: "even (unat (push_bit 1 a))" unfolding low by (simp add: even_mod_exp_div_exp_iff dvd_mod)
  have "unat (push_bit 1 a) < 2 ^ 64" using unat_bound [of "push_bit 1 a"] by simp
  with even have "unat (push_bit 1 a) + 1 < 2 ^ 64"
    by (intro even_below) simp_all
  moreover have "push_bit 1 a AND c = 0"
    using c by (auto simp: and_one_eq mod_2_eq_odd)
  ultimately have "unat (push_bit 1 a OR c) = unat (push_bit 1 a) + unat c"
    using c by (subst or_disjoint_value) auto
  moreover have "unat (drop_bit 63 a) = 2 * unat a div 2 ^ 64"
    by (subst unat_drop_bit_eq) (simp add: drop_bit_eq_div)
  ultimately show "unat (push_bit 1 a OR c) + limb_base * unat (drop_bit 63 a) =
      2 * unat a + unat c"
    unfolding low limb_base_def by (rule recombine)
  show "unat (drop_bit 63 a) \<le> 1"
    using unat_bound [of a] by (subst unat_drop_bit_eq) (simp add: drop_bit_eq_div)
qed

lemma shl1_limbs_value:
  "unat c \<le> 1 \<Longrightarrow> length (shl1_limbs c as) = length as
     \<and> limbs_nat (shl1_limbs c as) = (2 * limbs_nat as + unat c) mod limb_base ^ length as"
proof (induction c as rule: shl1_limbs.induct)
  case (2 c a as)
  note limb = shl1_limb [OF 2(2), of a]
  let ?P = "limb_base ^ length as"
  have IH: "length (shl1_limbs (drop_bit 63 a) as) = length as"
    "limbs_nat (shl1_limbs (drop_bit 63 a) as) = (2 * limbs_nat as + unat (drop_bit 63 a)) mod ?P"
    using 2(1) limb(2) by simp_all
  have "2 * (unat a + limb_base * limbs_nat as) + unat c =
      unat (push_bit 1 a OR c) + limb_base * (2 * limbs_nat as + unat (drop_bit 63 a))"
    using limb(1) by (simp add: algebra_simps)
  moreover have "(x + limb_base * y) mod (limb_base * ?P) = x + limb_base * (y mod ?P)"
    if "x < limb_base" for x y
    using that by (simp add: mod_mult2_eq)
  ultimately show ?case using limb_less [of "push_bit 1 a OR c"] by (simp add: IH)
qed simp

end
