(* ===== verification/Uint256.thy ===== *)
theory Uint256
  imports Limbs Hashing
begin

section \<open>256-bit unsigned integers (usdd-bitcoin-bmm/src/lib.rs)\<close>

text \<open>
  \<open>Uint256\<close>: four little-endian 64-bit limbs with byte conversions, comparison, checked
  addition, shifts, multiplication and division by one limb, the 256-step
  shift-and-subtract division with its five-limb remainder, and Bitcoin's compact encoding.
  Each operation is related to the natural number \<open>uint_nat\<close> a value stands for. The shift
  amounts and bit positions (\<open>u32\<close>, \<open>usize\<close>, at most 256 where they are used) are naturals.
\<close>

datatype uint256 = Uint256 (limbs: "u64 list")

definition wf_uint256 :: "uint256 \<Rightarrow> bool" where
  "wf_uint256 u = (length (limbs u) = 4)"

definition uint_nat :: "uint256 \<Rightarrow> nat" where
  "uint_nat u = limbs_nat (limbs u)"

subsection \<open>The operations\<close>

definition uint_ZERO :: uint256 where
  "uint_ZERO = Uint256 (replicate 4 0)"

definition uint_MAX :: uint256 where
  "uint_MAX = Uint256 (replicate 4 (- 1))"

definition from_limbs_le :: "u64 list \<Rightarrow> uint256" where
  "from_limbs_le l = Uint256 l"

definition u64_from_le_bytes :: "bytes \<Rightarrow> u64" where
  "u64_from_le_bytes bs = of_nat (nat_le bs)"

definition u64_to_le_bytes :: "u64 \<Rightarrow> bytes" where
  "u64_to_le_bytes w = le_nat 8 (unat w)"

definition uint_from_le_bytes :: "bytes \<Rightarrow> uint256" where
  "uint_from_le_bytes bs =
     Uint256 (map (\<lambda>i. u64_from_le_bytes (take 8 (drop (i * 8) bs))) [0..<4])"

definition uint_from_be_bytes :: "bytes \<Rightarrow> uint256" where
  "uint_from_be_bytes bs = uint_from_le_bytes (rev bs)"

definition uint_to_le_bytes :: "uint256 \<Rightarrow> bytes" where
  "uint_to_le_bytes u = concat (map u64_to_le_bytes (limbs u))"

definition uint_to_be_bytes :: "uint256 \<Rightarrow> bytes" where
  "uint_to_be_bytes u = rev (uint_to_le_bytes u)"

definition uint_is_zero :: "uint256 \<Rightarrow> bool" where
  "uint_is_zero u =
     (limbs u ! 0 = 0 \<and> limbs u ! 1 = 0 \<and> limbs u ! 2 = 0 \<and> limbs u ! 3 = 0)"

definition uint_checked_add :: "uint256 \<Rightarrow> uint256 \<Rightarrow> uint256 option" where
  "uint_checked_add u rhs =
     (let (out, carry) = add_limbs False (limbs u) (limbs rhs)
      in if \<not> carry then Some (Uint256 out) else None)"

definition uint_checked_add_one :: "uint256 \<Rightarrow> uint256 option" where
  "uint_checked_add_one u = uint_checked_add u (from_limbs_le [1, 0, 0, 0])"

definition uint_bit :: "uint256 \<Rightarrow> nat \<Rightarrow> bool" where
  "uint_bit u n = (drop_bit (n mod 64) (limbs u ! (n div 64)) AND 1 \<noteq> 0)"

definition uint_set_bit :: "uint256 \<Rightarrow> nat \<Rightarrow> uint256" where
  "uint_set_bit u n =
     Uint256 ((limbs u)[n div 64 := (limbs u ! (n div 64)) OR push_bit (n mod 64) 1])"

text \<open>The loop of \<open>bit_len\<close>, over the limbs from the most significant one down.\<close>

fun bit_len_down :: "u64 list \<Rightarrow> nat" where
  "bit_len_down [] = 0"
| "bit_len_down (a # as) =
     (if a \<noteq> 0 then length as * 64 + (64 - leading_zeros a) else bit_len_down as)"

definition uint_bit_len :: "uint256 \<Rightarrow> nat" where
  "uint_bit_len u = bit_len_down (rev (limbs u))"

definition low_u64 :: "uint256 \<Rightarrow> u64" where
  "low_u64 u = limbs u ! 0"

definition shr_limb :: "u64 list \<Rightarrow> nat \<Rightarrow> nat \<Rightarrow> nat \<Rightarrow> u64" where
  "shr_limb l word_shift bit_shift dst =
     (let src = dst + word_shift
      in if 4 \<le> src then 0
         else if bit_shift \<noteq> 0 \<and> src + 1 < 4
         then drop_bit bit_shift (l ! src) OR push_bit (64 - bit_shift) (l ! (src + 1))
         else drop_bit bit_shift (l ! src))"

definition uint_shr :: "uint256 \<Rightarrow> nat \<Rightarrow> uint256" where
  "uint_shr u shift =
     (if 256 \<le> shift then uint_ZERO
      else Uint256 (map (shr_limb (limbs u) (shift div 64) (shift mod 64)) [0..<4]))"

text \<open>One source limb of the loop of \<open>checked_shl\<close>; a limb shifted out leaves the array alone.\<close>

definition shl_step :: "u64 list \<Rightarrow> nat \<Rightarrow> nat \<Rightarrow> nat \<Rightarrow> u64 list \<Rightarrow> u64 list" where
  "shl_step l word_shift bit_shift src out =
     (let dst = src + word_shift
      in if 4 \<le> dst then out
         else let out = out[dst := out ! dst OR push_bit bit_shift (l ! src)]
              in if bit_shift \<noteq> 0 \<and> dst + 1 < 4
                 then out[dst + 1 := out ! (dst + 1) OR drop_bit (64 - bit_shift) (l ! src)]
                 else out)"

definition uint_checked_shl :: "uint256 \<Rightarrow> nat \<Rightarrow> uint256 option" where
  "uint_checked_shl u shift =
     (if 256 \<le> shift then (if uint_is_zero u then Some uint_ZERO else None)
      else if shift \<noteq> 0 \<and> 256 - shift < uint_bit_len u then None
      else Some (Uint256
        (fold (shl_step (limbs u) (shift div 64) (shift mod 64)) [0..<4] (replicate 4 0))))"

definition uint_checked_mul_u64 :: "uint256 \<Rightarrow> u64 \<Rightarrow> uint256 option" where
  "uint_checked_mul_u64 u rhs =
     (let (out, carry) = mul_limbs 0 (limbs u) rhs
      in if carry = 0 then Some (Uint256 out) else None)"

definition uint_div_u64 :: "uint256 \<Rightarrow> u64 \<Rightarrow> uint256 option" where
  "uint_div_u64 u rhs =
     (if rhs = 0 then None else Some (Uint256 (rev (div_down 0 (rev (limbs u)) rhs))))"

definition uint_wrapping_not :: "uint256 \<Rightarrow> uint256" where
  "uint_wrapping_not u = Uint256 (map (\<lambda>a. NOT a) (limbs u))"

definition cmp_320 :: "u64 list \<Rightarrow> u64 list \<Rightarrow> ordering" where
  "cmp_320 lhs rhs = cmp_limbs lhs rhs"

definition sub_320 :: "u64 list \<Rightarrow> u64 list \<Rightarrow> u64 list" where
  "sub_320 lhs rhs = fst (sub_limbs False lhs rhs)"

definition uint_cmp :: "uint256 \<Rightarrow> uint256 \<Rightarrow> ordering" where
  "uint_cmp u v = cmp_limbs (limbs u) (limbs v)"

text \<open>One round of the division: the loop body for one bit of the numerator.\<close>

definition div_step ::
  "uint256 \<Rightarrow> u64 list \<Rightarrow> nat \<Rightarrow> u64 list \<times> uint256 \<Rightarrow> u64 list \<times> uint256" where
  "div_step u divisor n = (\<lambda>(remainder, quotient).
     let remainder = shl1_limbs (of_bool (uint_bit u n)) remainder
     in if cmp_320 remainder divisor \<noteq> Less
        then (sub_320 remainder divisor, uint_set_bit quotient n)
        else (remainder, quotient))"

definition uint_div :: "uint256 \<Rightarrow> uint256 \<Rightarrow> uint256 option" where
  "uint_div u denominator =
     (if uint_is_zero denominator then None
      else let divisor = limbs denominator @ [0]
           in Some (snd (fold (div_step u divisor) (rev [0..<256]) (replicate 5 0, uint_ZERO))))"

definition div_ceil :: "nat \<Rightarrow> nat \<Rightarrow> nat" where
  "div_ceil a b = (a + b - 1) div b"

definition to_compact :: "uint256 \<Rightarrow> u32" where
  "to_compact u =
     (let size = div_ceil (uint_bit_len u) 8;
          compact = (if size \<le> 3 then ucast (push_bit (8 * (3 - size)) (low_u64 u))
                     else ucast (low_u64 (uint_shr u (8 * (size - 3)))) :: u32);
          (compact, size) = (if compact AND 0x800000 \<noteq> 0
                             then (drop_bit 8 compact, size + 1) else (compact, size))
      in compact OR push_bit 24 (of_nat size))"

subsection \<open>Well-formedness and values\<close>

lemma limb_base_4: "limb_base ^ 4 = 2 ^ 256"
  by (simp add: limb_base_def)

lemma uint_bound: "wf_uint256 u \<Longrightarrow> uint_nat u < 2 ^ 256"
  using limbs_bound [of "limbs u"] by (simp add: wf_uint256_def uint_nat_def limb_base_4)

lemma uint_inject:
  "wf_uint256 u \<Longrightarrow> wf_uint256 v \<Longrightarrow> uint_nat u = uint_nat v \<longleftrightarrow> u = v"
  by (cases u; cases v) (simp add: wf_uint256_def uint_nat_def limbs_inject)

lemma wf_consts [simp]: "wf_uint256 uint_ZERO" "wf_uint256 uint_MAX"
  by (simp_all add: wf_uint256_def uint_ZERO_def uint_MAX_def)

lemma uint_nat_ZERO [simp]: "uint_nat uint_ZERO = 0"
  by (simp add: uint_nat_def uint_ZERO_def)

lemma limbs_all_ones: "limbs_nat (replicate n (- 1)) + 1 = limb_base ^ n"
proof (induction n)
  case (Suc n)
  have "unat (- 1 :: u64) + 1 = limb_base"
    by (simp add: unsigned_minus_1_eq_mask mask_eq_exp_minus_1 limb_base_def)
  then have "limbs_nat (replicate (Suc n) (- 1)) + 1 =
      limb_base * (limbs_nat (replicate n (- 1)) + 1)"
    by simp
  also have "\<dots> = limb_base ^ Suc n" by (simp only: Suc.IH power_Suc)
  finally show ?case .
qed simp

lemma uint_nat_MAX: "uint_nat uint_MAX = 2 ^ 256 - 1"
  using limbs_all_ones [of 4] unfolding limb_base_4 uint_nat_def uint_MAX_def uint256.sel
  by linarith

lemma wf_small [simp]: "wf_uint256 (from_limbs_le [a, b, c, d])"
  by (simp add: wf_uint256_def from_limbs_le_def)

lemma uint_nat_small [simp]: "uint_nat (from_limbs_le [a, 0, 0, 0]) = unat a"
  by (simp add: uint_nat_def from_limbs_le_def)

lemma wf_cases:
  assumes "wf_uint256 u"
  obtains a b c d where "u = Uint256 [a, b, c, d]"
  using assms by (cases u) (auto simp: wf_uint256_def eval_nat_numeral length_Suc_conv)

lemma uint_is_zero_iff: "wf_uint256 u \<Longrightarrow> uint_is_zero u \<longleftrightarrow> uint_nat u = 0"
  by (elim wf_cases) (auto simp: uint_is_zero_def uint_nat_def limbs_zero_iff simp del: limbs_nat.simps)

lemma uint_checked_add_Some [ok_iff]:
  assumes "wf_uint256 u" "wf_uint256 v"
  shows "uint_checked_add u v = Some w \<longleftrightarrow> wf_uint256 w \<and> uint_nat w = uint_nat u + uint_nat v"
proof -
  obtain out c where add: "add_limbs False (limbs u) (limbs v) = (out, c)" by fastforce
  have sum: "length out = 4 \<and> limbs_nat out + 2 ^ 256 * of_bool c = uint_nat u + uint_nat v"
    using add_limbs_value [OF add] assms
    by (simp add: wf_uint256_def uint_nat_def limb_base_4)
  have eq: "uint_checked_add u v = (if c then None else Some (Uint256 out))"
    by (simp add: uint_checked_add_def add)
  show ?thesis
  proof (cases c)
    case True
    with sum show ?thesis using uint_bound [of w] by (auto simp: eq)
  next
    case False
    with sum have "wf_uint256 (Uint256 out)" "uint_nat (Uint256 out) = uint_nat u + uint_nat v"
      by (simp_all add: wf_uint256_def uint_nat_def)
    with False show ?thesis using uint_inject [of "Uint256 out" w] by (auto simp: eq)
  qed
qed

lemma uint_checked_add_None:
  assumes "wf_uint256 u" "wf_uint256 v"
  shows "uint_checked_add u v = None \<longleftrightarrow> 2 ^ 256 \<le> uint_nat u + uint_nat v"
proof -
  obtain out c where add: "add_limbs False (limbs u) (limbs v) = (out, c)" by fastforce
  have "length out = 4 \<and> limbs_nat out + 2 ^ 256 * of_bool c = uint_nat u + uint_nat v"
    using add_limbs_value [OF add] assms
    by (simp add: wf_uint256_def uint_nat_def limb_base_4)
  moreover have "limbs_nat out < 2 ^ 256" if "length out = 4"
    using limbs_bound [of out] that by (simp add: limb_base_4)
  ultimately show ?thesis by (cases c) (auto simp: uint_checked_add_def add)
qed

lemma uint_cmp_value:
  assumes "wf_uint256 u" "wf_uint256 v"
  shows "uint_cmp u v = (if uint_nat u < uint_nat v then Less
    else if uint_nat u = uint_nat v then Equal else Greater)"
  using assms by (simp add: uint_cmp_def cmp_limbs_value wf_uint256_def uint_nat_def)

subsection \<open>Multiplication and division by a limb\<close>

lemma uint_checked_mul_u64_Some [ok_iff]:
  assumes "wf_uint256 u"
  shows "uint_checked_mul_u64 u r = Some w \<longleftrightarrow>
    wf_uint256 w \<and> uint_nat w = uint_nat u * unat r"
proof -
  obtain out c where mul: "mul_limbs 0 (limbs u) r = (out, c)" by fastforce
  have prod: "length out = 4 \<and> limbs_nat out + 2 ^ 256 * unat c = uint_nat u * unat r"
    using mul_limbs_value [OF mul] assms
    by (simp add: wf_uint256_def uint_nat_def limb_base_4)
  have eq: "uint_checked_mul_u64 u r = (if c = 0 then Some (Uint256 out) else None)"
    by (simp add: uint_checked_mul_u64_def mul)
  show ?thesis
  proof (cases "c = 0")
    case True
    with prod have "wf_uint256 (Uint256 out)" "uint_nat (Uint256 out) = uint_nat u * unat r"
      by (simp_all add: wf_uint256_def uint_nat_def)
    with True show ?thesis using uint_inject [of "Uint256 out" w] by (auto simp: eq)
  next
    case False
    then have "1 \<le> unat c" by (metis less_one not_less unat_eq_0)
    with prod have "2 ^ 256 \<le> uint_nat u * unat r"
      using mult_le_mono2 [of 1 "unat c" "2 ^ 256"] by linarith
    with False show ?thesis using uint_bound [of w] by (auto simp: eq)
  qed
qed

lemma uint_div_u64_Some [ok_iff]:
  assumes "wf_uint256 u"
  shows "uint_div_u64 u r = Some w \<longleftrightarrow>
    r \<noteq> 0 \<and> wf_uint256 w \<and> uint_nat w = uint_nat u div unat r"
proof (cases "r = 0")
  case False
  then have "unat (0 :: u128) < unat r" by (simp add: unat_gt_0)
  from div_down_value [OF this, of "rev (limbs u)"] assms
  have "wf_uint256 (Uint256 (rev (div_down 0 (rev (limbs u)) r)))"
    "uint_nat (Uint256 (rev (div_down 0 (rev (limbs u)) r))) = uint_nat u div unat r"
    by (simp_all add: wf_uint256_def uint_nat_def)
  with False show ?thesis
    using uint_inject [of "Uint256 (rev (div_down 0 (rev (limbs u)) r))" w]
    by (auto simp: uint_div_u64_def)
qed (simp add: uint_div_u64_def)

subsection \<open>Bits\<close>

lemma bit_add_high:
  "(x :: nat) < 2 ^ k \<Longrightarrow> bit (x + 2 ^ k * y) n = (if n < k then bit x n else bit y (n - k))"
proof -
  assume x: "x < 2 ^ k"
  have low: "take_bit k (x + 2 ^ k * y) = x" using x by (simp add: take_bit_eq_mod)
  have high: "drop_bit k (x + 2 ^ k * y) = y" using x by (simp add: drop_bit_eq_div)
  show ?thesis
  proof (cases "n < k")
    case True
    then have "bit (x + 2 ^ k * y) n = bit (take_bit k (x + 2 ^ k * y)) n"
      by (simp add: bit_take_bit_iff)
    with True show ?thesis by (simp only: low if_True)
  next
    case False
    then have "bit (x + 2 ^ k * y) n = bit (drop_bit k (x + 2 ^ k * y)) (n - k)"
      by (simp add: bit_drop_bit_eq)
    with False show ?thesis by (simp only: high if_False)
  qed
qed

lemma bit_limbs_nat:
  "bit (limbs_nat l) n \<longleftrightarrow> n div 64 < length l \<and> bit (l ! (n div 64)) (n mod 64)"
proof (induction l arbitrary: n)
  case (Cons a l)
  have "bit (unat a + 2 ^ 64 * limbs_nat l) n =
      (if n < 64 then bit (unat a) n else bit (limbs_nat l) (n - 64))"
    using unat_bound [of a] by (intro bit_add_high) simp
  moreover have "n = 64 + m \<Longrightarrow> n div 64 = Suc (m div 64) \<and> n mod 64 = m mod 64" for m
    by simp
  ultimately show ?case
    by (cases "n < 64") (auto simp: Cons.IH limb_base_def bit_unsigned_iff not_less le_iff_add)
qed simp

lemma bit_uint_nat:
  "wf_uint256 u \<Longrightarrow> bit (uint_nat u) n \<longleftrightarrow> n < 256 \<and> bit (limbs u ! (n div 64)) (n mod 64)"
  by (auto simp: uint_nat_def bit_limbs_nat wf_uint256_def)

lemma uint_bit_value:
  "wf_uint256 u \<Longrightarrow> n < 256 \<Longrightarrow> uint_bit u n \<longleftrightarrow> bit (uint_nat u) n"
  by (simp add: uint_bit_def bit_uint_nat and_one_eq mod_2_eq_odd flip: bit_iff_odd_drop_bit)

lemma uint_set_bit_value:
  assumes "wf_uint256 u" "n < 256" "\<not> bit (uint_nat u) n"
  shows "wf_uint256 (uint_set_bit u n) \<and> uint_nat (uint_set_bit u n) = uint_nat u + 2 ^ n"
proof -
  have wf: "wf_uint256 (uint_set_bit u n)"
    using assms(1) by (simp add: wf_uint256_def uint_set_bit_def)
  have len: "length (limbs u) = 4" using assms(1) by (simp add: wf_uint256_def)
  have "uint_nat (uint_set_bit u n) = uint_nat u OR 2 ^ n"
  proof (rule bit_eqI)
    fix k
    have "k = n" if "k div 64 = n div 64" "k mod 64 = n mod 64"
      using that by (metis div_mult_mod_eq)
    moreover have "n div 64 < 4" "n mod 64 < 64" using assms(2) by auto
    ultimately show "bit (uint_nat (uint_set_bit u n)) k = bit (uint_nat u OR 2 ^ n) k"
      using assms(1,2) wf len
      by (auto simp: bit_uint_nat bit_or_iff bit_exp_iff uint_set_bit_def nth_list_update
          bit_push_bit_iff bit_1_iff)
  qed
  also have "\<dots> = uint_nat u + 2 ^ n"
  proof (rule disjunctive_add_eq_or [symmetric])
    show "uint_nat u AND 2 ^ n = 0"
      using assms(3) by (intro bit_eqI) (auto simp: bit_and_iff bit_exp_iff)
  qed
  finally show ?thesis using wf by simp
qed

lemma bit_shr_limb:
  assumes "r < 64" "s < 64"
  shows "bit (shr_limb l w s i) r \<longleftrightarrow>
    (if r + s < 64 then i + w < 4 \<and> bit (l ! (i + w)) (r + s)
     else i + w + 1 < 4 \<and> bit (l ! (i + w + 1)) (r + s - 64))"
proof -
  have high: "\<not> bit (a :: u64) k" if "64 \<le> k" for a k
    using that bit_imp_le_length [of a k] by auto
  show ?thesis
  proof (cases "r + s < 64")
    case True
    then have "r < 64 - s" by simp
    with True assms show ?thesis
      by (auto simp: shr_limb_def Let_def bit_or_iff bit_drop_bit_eq bit_push_bit_iff ac_simps)
  next
    case False
    then have "s \<noteq> 0" "64 - s \<le> r" "r - (64 - s) = r + s - 64" using assms by auto
    with False assms show ?thesis
      by (auto simp: shr_limb_def Let_def bit_or_iff bit_drop_bit_eq bit_push_bit_iff high ac_simps)
  qed
qed

lemma div_mod_small:
  "x < 128 \<Longrightarrow> x div 64 = (if x < 64 then 0 else 1) \<and> x mod 64 = (if x < 64 then x else x - 64)"
  for x :: nat
  by (cases "x < 64") (auto simp: not_less le_iff_add)

lemma shift_split:
  "(k + n) div 64 = (if n mod 64 + k mod 64 < 64 then n div 64 + k div 64
     else n div 64 + k div 64 + 1)"
  "(k + n) mod 64 = (if n mod 64 + k mod 64 < 64 then n mod 64 + k mod 64
     else n mod 64 + k mod 64 - 64)" for k n :: nat
proof -
  have "n mod 64 < 64" "k mod 64 < 64" by simp_all
  then have "n mod 64 + k mod 64 < 128" by linarith
  note small = div_mod_small [OF this]
  have "(k + n) div 64 = k div 64 + n div 64 + (n mod 64 + k mod 64) div 64"
    using div_add1_eq [of k n 64] by (simp only: add.commute)
  then show "(k + n) div 64 = (if n mod 64 + k mod 64 < 64 then n div 64 + k div 64
     else n div 64 + k div 64 + 1)"
    using small by auto
  have "(k + n) mod 64 = (n mod 64 + k mod 64) mod 64"
    using mod_add_eq [of n 64 k] by (simp only: add.commute)
  then show "(k + n) mod 64 = (if n mod 64 + k mod 64 < 64 then n mod 64 + k mod 64
     else n mod 64 + k mod 64 - 64)"
    using small by auto
qed

lemma uint_shr_value:
  assumes "wf_uint256 u"
  shows "wf_uint256 (uint_shr u k) \<and> uint_nat (uint_shr u k) = uint_nat u div 2 ^ k"
proof (cases "256 \<le> k")
  case True
  have "uint_nat u < 2 ^ k"
    using uint_bound [OF assms] True by (meson less_le_trans one_le_numeral power_increasing)
  with True show ?thesis by (simp add: uint_shr_def)
next
  case False
  have wf: "wf_uint256 (uint_shr u k)" using False by (simp add: uint_shr_def wf_uint256_def)
  have "uint_nat (uint_shr u k) = drop_bit k (uint_nat u)"
  proof (rule bit_eqI)
    fix n
    have limit: "m < 256 \<longleftrightarrow> m div 64 < 4" for m :: nat by auto
    have "n div 64 < 4 \<Longrightarrow> limbs (uint_shr u k) ! (n div 64) =
        shr_limb (limbs u) (k div 64) (k mod 64) (n div 64)"
      using False by (simp add: uint_shr_def)
    then show "bit (uint_nat (uint_shr u k)) n = bit (drop_bit k (uint_nat u)) n"
      unfolding bit_drop_bit_eq comp_def bit_uint_nat [OF assms] bit_uint_nat [OF wf] limit
        shift_split [of k n]
      using bit_shr_limb [of "n mod 64" "k mod 64" "limbs u" "k div 64" "n div 64"]
      by auto
  qed
  with wf show ?thesis by (simp add: drop_bit_eq_div)
qed

subsection \<open>Bit length and the checked left shift\<close>

lemma bit_length_iff: "bit_length n \<le> k \<longleftrightarrow> n < 2 ^ k"
proof
  show "n < 2 ^ k \<Longrightarrow> bit_length n \<le> k" by (rule bit_length_le)
next
  assume "bit_length n \<le> k"
  then show "n < 2 ^ k"
  proof (induction n arbitrary: k rule: bit_length.induct)
    case (1 n)
    show ?case
    proof (cases "n = 0")
      case False
      with 1(2) obtain k' where k: "k = Suc k'" "bit_length (n div 2) \<le> k'"
        by (cases k) (simp_all add: bit_length.simps [of n])
      with 1(1) False have "n div 2 < 2 ^ k'" by blast
      then show ?thesis by (simp add: k(1))
    qed simp
  qed
qed

lemma bit_length_high:
  assumes "x < 2 ^ k" "y \<noteq> 0"
  shows "bit_length (x + 2 ^ k * y) = k + bit_length y"
proof -
  have "bit_length (x + 2 ^ k * y) \<le> m \<longleftrightarrow> k + bit_length y \<le> m" for m
  proof (cases "k \<le> m")
    case True
    then obtain j where m: "m = k + j" by (auto simp: le_iff_add)
    have "x + 2 ^ k * y < 2 ^ k * 2 ^ j \<longleftrightarrow> y < 2 ^ j"
    proof
      assume "x + 2 ^ k * y < 2 ^ k * 2 ^ j"
      then have "2 ^ k * y < 2 ^ k * 2 ^ j" by linarith
      then show "y < 2 ^ j" by simp
    next
      assume "y < 2 ^ j"
      then have "2 ^ k * (y + 1) \<le> 2 ^ k * 2 ^ j" by (intro mult_le_mono2) simp
      with assms(1) show "x + 2 ^ k * y < 2 ^ k * 2 ^ j" by simp
    qed
    then show ?thesis by (simp add: bit_length_iff m power_add)
  next
    case False
    then have "(2 :: nat) ^ m \<le> 2 ^ k" by (intro power_increasing) simp_all
    moreover have "2 ^ k * 1 \<le> 2 ^ k * y" using assms(2) by (intro mult_le_mono2) simp
    ultimately have "2 ^ m \<le> x + 2 ^ k * y" by linarith
    with False show ?thesis by (simp add: bit_length_iff)
  qed
  from this [of "bit_length (x + 2 ^ k * y)"] this [of "k + bit_length y"]
  show ?thesis by simp
qed

lemma limb_base_power: "limb_base ^ n = 2 ^ (n * 64)"
  by (simp only: limb_base_def power_mult [symmetric] mult.commute)

lemma bit_len_down_value: "bit_len_down (rev l) = bit_length (limbs_nat l)"
proof (induction l rule: rev_induct)
  case Nil
  show ?case by (simp add: bit_length.simps)
next
  case (snoc a l)
  have "bit_length (unat a) \<le> 64" using unat_bound [of a] by (intro bit_length_le) simp
  moreover have "limbs_nat l < 2 ^ (length l * 64)"
    using limbs_bound [of l] by (simp only: limb_base_power)
  then have "unat a \<noteq> 0 \<Longrightarrow>
      bit_length (limbs_nat l + 2 ^ (length l * 64) * unat a) = length l * 64 + bit_length (unat a)"
    by (rule bit_length_high)
  ultimately show ?case
    using snoc
    by (auto simp: limbs_append leading_zeros_def unat_eq_0 limb_base_power)
qed

lemma uint_bit_len_value: "uint_bit_len u = bit_length (uint_nat u)"
  by (simp add: uint_bit_len_def bit_len_down_value uint_nat_def)

definition shl_limb :: "u64 list \<Rightarrow> nat \<Rightarrow> nat \<Rightarrow> nat \<Rightarrow> u64" where
  "shl_limb l w s i =
     (if w \<le> i then push_bit s (l ! (i - w)) else 0)
       OR (if s \<noteq> 0 \<and> w + 1 \<le> i then drop_bit (64 - s) (l ! (i - w - 1)) else 0)"

lemma shl_loop:
  assumes "w < 4"
  shows "fold (shl_step l w s) [0..<4] (replicate 4 0) = map (shl_limb l w s) [0..<4]"
proof -
  have "w = 0 \<or> w = 1 \<or> w = 2 \<or> w = 3" using assms by auto
  moreover have "[0..<4] = [0, 1, 2, 3 :: nat]" by (simp add: upt_rec)
  ultimately show ?thesis
    by (auto simp: shl_step_def shl_limb_def Let_def numeral_eq_Suc or.commute)
qed

lemma bit_shl_limb:
  assumes "r < 64" "s < 64"
  shows "bit (shl_limb l w s i) r \<longleftrightarrow>
    (if s \<le> r then w \<le> i \<and> bit (l ! (i - w)) (r - s)
     else w + 1 \<le> i \<and> bit (l ! (i - w - 1)) (r + 64 - s))"
proof -
  have high: "\<not> bit (a :: u64) k" if "64 \<le> k" for a k
    using that bit_imp_le_length [of a k] by auto
  show ?thesis
  proof (cases "s \<le> r")
    case True
    then have "64 \<le> 64 - s + r" using assms by simp
    with True assms show ?thesis
      by (auto simp: shl_limb_def bit_or_iff bit_drop_bit_eq bit_push_bit_iff high)
  next
    case False
    then have "64 - s + r = r + 64 - s" using assms by simp
    with False assms show ?thesis
      by (auto simp: shl_limb_def bit_or_iff bit_drop_bit_eq bit_push_bit_iff)
  qed
qed

lemma uint_checked_shl_value:
  assumes "wf_uint256 u" "k < 256" "uint_nat u * 2 ^ k < 2 ^ 256"
  shows "\<exists>v. uint_checked_shl u k = Some v \<and> wf_uint256 v \<and> uint_nat v = uint_nat u * 2 ^ k"
proof -
  let ?v = "Uint256 (map (shl_limb (limbs u) (k div 64) (k mod 64)) [0..<4])"
  have "uint_nat u * 2 ^ k < 2 ^ (256 - k) * 2 ^ k" using assms(2,3) by (simp flip: power_add)
  then have "uint_nat u < 2 ^ (256 - k)" by simp
  then have "\<not> 256 - k < uint_bit_len u" by (simp add: uint_bit_len_value bit_length_iff not_less)
  then have eq: "uint_checked_shl u k = Some ?v"
    using assms(2) by (simp add: uint_checked_shl_def shl_loop del: upt_conv_Cons upt_rec_numeral)
  have wf: "wf_uint256 ?v" by (simp add: wf_uint256_def)
  have "uint_nat ?v = push_bit k (uint_nat u)"
  proof (rule bit_eqI)
    fix n
    show "bit (uint_nat ?v) n = bit (push_bit k (uint_nat u)) n"
    proof (cases "n < 256")
      case False
      then have "uint_nat u * 2 ^ k < 2 ^ n"
        using assms(3) by (meson less_le_trans not_less one_le_numeral power_increasing)
      then have "\<not> bit (push_bit k (uint_nat u)) n"
        by (simp add: bit_iff_odd push_bit_eq_mult)
      moreover have "\<not> bit (uint_nat ?v) n" using False by (simp only: bit_uint_nat [OF wf]) simp
      ultimately show ?thesis by simp
    next
      case True
      then have "n div 64 < 4" by auto
      then have nth: "limbs ?v ! (n div 64) =
          shl_limb (limbs u) (k div 64) (k mod 64) (n div 64)"
        by simp
      show ?thesis
      proof (cases "k \<le> n")
        case True
        then obtain m where n: "n = k + m" by (auto simp: le_iff_add)
        have "m mod 64 < 64" "k mod 64 < 64" by simp_all
        have "bit (shl_limb (limbs u) (k div 64) (k mod 64) (n div 64)) (n mod 64) \<longleftrightarrow>
            bit (limbs u ! (m div 64)) (m mod 64)"
        proof (cases "m mod 64 + k mod 64 < 64")
          case False
          then have "m mod 64 + k mod 64 - 64 < 64" "m mod 64 + k mod 64 - 64 < k mod 64"
            "m mod 64 + k mod 64 - 64 + 64 - k mod 64 = m mod 64"
            using \<open>m mod 64 < 64\<close> \<open>k mod 64 < 64\<close> by linarith+
          then show ?thesis using False shift_split [of k m] by (simp add: n bit_shl_limb)
        qed (use shift_split [of k m] in \<open>simp add: n bit_shl_limb\<close>)
        with n \<open>n < 256\<close> show ?thesis
          unfolding bit_uint_nat [OF wf] nth bit_push_bit_iff bit_uint_nat [OF assms(1)]
          by simp
      next
        case False
        then have "n div 64 \<le> k div 64" by (simp add: div_le_mono)
        moreover have "n mod 64 < k mod 64" if "n div 64 = k div 64"
          using False that by (metis div_mult_mod_eq nat_add_left_cancel_less not_le)
        ultimately show ?thesis
          using False unfolding bit_uint_nat [OF wf] nth bit_push_bit_iff
          by (auto simp: bit_shl_limb)
      qed
    qed
  qed
  with eq wf show ?thesis by (simp add: push_bit_eq_mult)
qed

lemma uint_checked_shl_None:
  assumes "wf_uint256 u" "0 < k" "2 ^ 256 \<le> uint_nat u * 2 ^ k"
  shows "uint_checked_shl u k = None"
proof (cases "256 \<le> k")
  case True
  moreover have "uint_nat u \<noteq> 0" using assms(3) by (cases "uint_nat u = 0") simp_all
  ultimately show ?thesis using assms(1) by (simp add: uint_checked_shl_def uint_is_zero_iff)
next
  case False
  have "2 ^ (256 - k) * 2 ^ k \<le> uint_nat u * 2 ^ k" using assms(3) False by (simp flip: power_add)
  then have "2 ^ (256 - k) \<le> uint_nat u" by simp
  then have "256 - k < uint_bit_len u"
    using bit_length_iff [of "uint_nat u" "256 - k"] by (simp add: uint_bit_len_value not_le [symmetric])
  with False assms(2) show ?thesis by (simp add: uint_checked_shl_def)
qed

subsection \<open>The shift-and-subtract division\<close>

definition div_invariant ::
  "nat \<Rightarrow> nat \<Rightarrow> nat \<Rightarrow> u64 list \<times> uint256 \<Rightarrow> bool" where
  "div_invariant N D n = (\<lambda>(remainder, quotient).
     length remainder = 5 \<and> wf_uint256 quotient
       \<and> limbs_nat remainder = N div 2 ^ n mod D
       \<and> uint_nat quotient = N div 2 ^ n div D * 2 ^ n)"

lemma low_bit_clear: "\<not> bit (x * 2 ^ Suc n) n" for x n :: nat
  by (simp add: bit_iff_odd)

lemma double_div_mod:
  fixes M D b t :: nat
  assumes "0 < D" "b \<le> 1" "t = 2 * (M mod D) + b"
  shows "D \<le> t \<Longrightarrow> (2 * M + b) div D = 2 * (M div D) + 1 \<and> (2 * M + b) mod D = t - D"
    and "t < D \<Longrightarrow> (2 * M + b) div D = 2 * (M div D) \<and> (2 * M + b) mod D = t"
    and "t < 2 * D"
proof -
  have "2 * M = 2 * (M div D * D + M mod D)" by simp
  then have split: "2 * M + b = t + 2 * (M div D) * D" using assms(3) by (simp only: distrib_left)
  have less: "M mod D < D" using assms(1) by simp
  with assms(2,3) show t: "t < 2 * D" by linarith
  show "(2 * M + b) div D = 2 * (M div D) + 1 \<and> (2 * M + b) mod D = t - D" if "D \<le> t"
  proof -
    have "2 * M + b = (t - D) + (2 * (M div D) + 1) * D" using split that by (simp add: algebra_simps)
    then show ?thesis using assms(1) t that by (simp only: div_mult_self1 mod_mult_self1) simp
  qed
  show "t < D \<Longrightarrow> (2 * M + b) div D = 2 * (M div D) \<and> (2 * M + b) mod D = t"
    using assms(1) by (simp add: split)
qed

lemma div_step_invariant:
  assumes wf: "wf_uint256 u" "length divisor = 5" "limbs_nat divisor = D"
    and D: "0 < D" "D < 2 ^ 256" and n: "n < 256"
    and inv: "div_invariant (uint_nat u) D (Suc n) st"
  shows "div_invariant (uint_nat u) D n (div_step u divisor n st)"
proof -
  obtain r q where st: "st = (r, q)" by fastforce
  define M where "M = uint_nat u div 2 ^ Suc n"
  define b :: nat where "b = of_bool (bit (uint_nat u) n)"
  define t where "t = 2 * (M mod D) + b"
  define r' where "r' = shl1_limbs (of_bool (uint_bit u n)) r"
  have r: "length r = 5" "limbs_nat r = M mod D"
    and q: "wf_uint256 q" "uint_nat q = M div D * 2 ^ Suc n"
    using inv by (simp_all add: st div_invariant_def M_def)
  have "M = uint_nat u div 2 ^ n div 2" unfolding M_def power_Suc2 by (rule div_mult2_eq)
  then have next_digit: "uint_nat u div 2 ^ n = 2 * M + b"
    by (simp add: b_def bit_iff_odd mod_2_eq_odd flip: odd_iff_mod_2_eq_one)
  have b: "b \<le> 1" by (simp add: b_def)
  then have t: "t < 2 ^ 257" using double_div_mod(3) [OF D(1) b t_def] D(2) by simp
  have "limb_base ^ 5 = 2 ^ 320" by (simp add: limb_base_def)
  then have "t mod limb_base ^ 5 = t" using t by simp
  moreover have carry: "unat (of_bool (uint_bit u n) :: u64) = b"
    by (simp add: b_def uint_bit_value [OF wf(1) n])
  ultimately have r': "length r' = 5" "limbs_nat r' = t"
    using shl1_limbs_value [of "of_bool (uint_bit u n)" r] r b
    by (simp_all add: r'_def carry flip: t_def)
  have cmp: "cmp_320 r' divisor = Less \<longleftrightarrow> t < D"
    using r' wf by (simp add: cmp_320_def cmp_limbs_value)
  show ?thesis
  proof (cases "t < D")
    case True
    then show ?thesis
      using double_div_mod(2) [OF D(1) b t_def] r' q cmp
      by (simp add: st div_step_def div_invariant_def Let_def next_digit flip: r'_def)
  next
    case False
    obtain d w where sub: "sub_limbs False r' divisor = (d, w)" by fastforce
    have "limbs_nat d < limb_base ^ 5" if "length d = 5" using limbs_bound [of d] that by simp
    with sub_limbs_value [OF sub] r' wf False have d: "length d = 5" "limbs_nat d = t - D"
      by (cases w; simp)+
    have "\<not> bit (uint_nat q) n" unfolding q(2) by (rule low_bit_clear)
    note set = uint_set_bit_value [OF q(1) n this]
    show ?thesis
      using double_div_mod(1) [OF D(1) b t_def] False d set cmp
      by (simp add: st div_step_def div_invariant_def Let_def next_digit sub_320_def sub
          q(2) algebra_simps flip: r'_def)
  qed
qed

lemma div_loop_invariant:
  assumes "wf_uint256 u" "length divisor = 5" "limbs_nat divisor = D" "0 < D" "D < 2 ^ 256"
  shows "k \<le> 256 \<Longrightarrow> div_invariant (uint_nat u) D k st \<Longrightarrow>
    div_invariant (uint_nat u) D 0 (fold (div_step u divisor) (rev [0..<k]) st)"
proof (induction k arbitrary: st)
  case (Suc k)
  then have "div_invariant (uint_nat u) D k (div_step u divisor k st)"
    using div_step_invariant [OF assms, of k st] by simp
  with Suc show ?case by simp
qed simp

lemma uint_div_Some [ok_iff]:
  assumes "wf_uint256 u" "wf_uint256 v"
  shows "uint_div u v = Some w \<longleftrightarrow>
    uint_nat v \<noteq> 0 \<and> wf_uint256 w \<and> uint_nat w = uint_nat u div uint_nat v"
proof (cases "uint_nat v = 0")
  case True
  with assms show ?thesis by (simp add: uint_div_def uint_is_zero_iff)
next
  case False
  let ?st = "fold (div_step u (limbs v @ [0])) (rev [0..<256]) (replicate 5 0, uint_ZERO)"
  have divisor: "length (limbs v @ [0]) = 5" "limbs_nat (limbs v @ [0]) = uint_nat v"
    using assms(2) by (simp_all add: wf_uint256_def limbs_append uint_nat_def)
  have "div_invariant (uint_nat u) (uint_nat v) 256 (replicate 5 0, uint_ZERO)"
    using uint_bound [OF assms(1)] by (simp add: div_invariant_def)
  then have "div_invariant (uint_nat u) (uint_nat v) 0 ?st"
    using div_loop_invariant [OF assms(1) divisor, of 256] False uint_bound [OF assms(2)] by simp
  then have "wf_uint256 (snd ?st)" "uint_nat (snd ?st) = uint_nat u div uint_nat v"
    by (simp_all add: div_invariant_def case_prod_beta)
  with False assms(2) show ?thesis
    using uint_inject [of "snd ?st" w]
    by (auto simp: uint_div_def uint_is_zero_iff)
qed

subsection \<open>Bytes\<close>

lemma nat_le_append: "nat_le (xs @ ys) = nat_le xs + 256 ^ length xs * nat_le ys"
  by (induction xs) (simp_all add: algebra_simps)

lemma limbs_nat_chunks:
  "length bs = n * 8 \<Longrightarrow>
     limbs_nat (map (\<lambda>i. u64_from_le_bytes (take 8 (drop (i * 8) bs))) [0..<n]) = nat_le bs"
proof (induction n arbitrary: bs)
  case (Suc n)
  let ?hd = "take 8 bs" and ?tl = "drop 8 bs"
  have "nat_le ?hd < 256 ^ 8" using nat_le_bound [of ?hd] Suc.prems by simp
  then have hd: "unat (u64_from_le_bytes ?hd) = nat_le ?hd"
    by (simp add: u64_from_le_bytes_def unat_of_nat)
  have "limbs_nat (map (\<lambda>i. u64_from_le_bytes (take 8 (drop (i * 8) ?tl))) [0..<n]) = nat_le ?tl"
    using Suc.prems by (intro Suc.IH) simp
  moreover have "[0..<Suc n] = 0 # map Suc [0..<n]" by (simp add: upt_conv_Cons map_Suc_upt)
  moreover have "nat_le bs = nat_le ?hd + limb_base * nat_le ?tl"
    using nat_le_append [of ?hd ?tl] Suc.prems by (simp add: limb_base_def)
  ultimately show ?case using hd by (simp add: comp_def add.commute)
qed simp

lemma uint_from_le_bytes_value:
  "length bs = 32 \<Longrightarrow> wf_uint256 (uint_from_le_bytes bs) \<and> uint_nat (uint_from_le_bytes bs) = nat_le bs"
  using limbs_nat_chunks [of bs 4]
  by (simp add: uint_from_le_bytes_def wf_uint256_def uint_nat_def del: upt_rec_numeral)

lemma nat_le_limb_bytes: "nat_le (concat (map u64_to_le_bytes l)) = limbs_nat l"
proof (induction l)
  case (Cons a l)
  have "nat_le (u64_to_le_bytes a) = unat a"
    using unat_bound [of a] by (simp add: u64_to_le_bytes_def nat_le_le_nat)
  with Cons show ?case by (simp add: nat_le_append limb_base_def u64_to_le_bytes_def)
qed simp

lemma length_limb_bytes: "length (concat (map u64_to_le_bytes l)) = 8 * length l"
  by (induction l) (simp_all add: u64_to_le_bytes_def)

lemma uint_to_le_bytes_value:
  "wf_uint256 u \<Longrightarrow> length (uint_to_le_bytes u) = 32 \<and> nat_le (uint_to_le_bytes u) = uint_nat u"
  by (simp add: uint_to_le_bytes_def nat_le_limb_bytes length_limb_bytes uint_nat_def wf_uint256_def)

lemma uint_wrapping_not_value:
  assumes "wf_uint256 u"
  shows "wf_uint256 (uint_wrapping_not u) \<and> uint_nat (uint_wrapping_not u) = 2 ^ 256 - 1 - uint_nat u"
proof -
  have "limbs_nat (map (\<lambda>a. NOT a) l) + limbs_nat l + 1 = limb_base ^ length l" for l :: "u64 list"
  proof (induction l)
    case (Cons a l)
    have "NOT a = - 1 - a" by (simp add: not_eq_complement)
    then have "unat (NOT a) = unat (- 1 :: u64) - unat a"
      by (simp only: unat_sub word_order.extremum)
    then have "unat (NOT a) + unat a + 1 = limb_base"
      using unat_bound [of a]
      by (simp add: unsigned_minus_1_eq_mask mask_eq_exp_minus_1 limb_base_def)
    then have "limbs_nat (map (\<lambda>a. NOT a) (a # l)) + limbs_nat (a # l) + 1 =
        limb_base * (limbs_nat (map (\<lambda>a. NOT a) l) + limbs_nat l + 1)"
      by (simp add: algebra_simps)
    also have "\<dots> = limb_base ^ length (a # l)" by (simp only: Cons.IH list.size power_Suc add_0_right add_Suc_right)
    finally show ?case .
  qed simp
  from this [of "limbs u"] assms show ?thesis
    by (simp add: uint_wrapping_not_def wf_uint256_def uint_nat_def limb_base_4)
qed

subsection \<open>The compact encoding\<close>

text \<open>Bitcoin's positive compact encoding of a number, written on naturals.\<close>

definition compact_parts :: "nat \<Rightarrow> nat \<times> nat" where
  "compact_parts n =
     (let size = div_ceil (bit_length n) 8;
          m = (if size \<le> 3 then n * 256 ^ (3 - size) else n div 256 ^ (size - 3))
      in if 2 ^ 23 \<le> m then (m div 256, size + 1) else (m, size))"

lemma low_u64_value: "wf_uint256 u \<Longrightarrow> unat (low_u64 u) = uint_nat u mod 2 ^ 64"
proof (elim wf_cases)
  fix a b c d
  assume u: "u = Uint256 [a, b, c, d]"
  have "uint_nat u mod limb_base = unat a"
    using limb_less [of a] by (simp add: u uint_nat_def)
  then show "unat (low_u64 u) = uint_nat u mod 2 ^ 64" by (simp add: u low_u64_def limb_base_def)
qed

lemma div_ceil_8: "m \<le> 8 * div_ceil m 8"
  by (simp add: div_ceil_def)

lemma compact_mantissa_bound:
  assumes "k = div_ceil (bit_length n) 8"
  shows "k \<le> 3 \<Longrightarrow> n * 256 ^ (3 - k) < 2 ^ 24"
    and "3 < k \<Longrightarrow> n div 256 ^ (k - 3) < 2 ^ 24"
proof -
  have n: "n < 256 ^ k"
    using div_ceil_8 [of "bit_length n"] bit_length_iff [of n "8 * k"]
    by (simp add: assms power_mult)
  show "k \<le> 3 \<Longrightarrow> n * 256 ^ (3 - k) < 2 ^ 24"
  proof -
    assume "k \<le> 3"
    then have "256 ^ k * 256 ^ (3 - k) = (2 :: nat) ^ 24" by (simp flip: power_add)
    moreover have "n * 256 ^ (3 - k) < 256 ^ k * 256 ^ (3 - k)" using n by simp
    ultimately show ?thesis by simp
  qed
  show "3 < k \<Longrightarrow> n div 256 ^ (k - 3) < 2 ^ 24"
  proof -
    assume "3 < k"
    then obtain j where "k = 3 + j" by (metis le_add_diff_inverse less_imp_le_nat)
    then have "256 ^ k = (2 :: nat) ^ 24 * 256 ^ (k - 3)" by (simp add: power_add)
    with n show ?thesis by (intro less_mult_imp_div_less) simp
  qed
qed

lemma unat_ucast_small: "unat (w :: u64) < 2 ^ 32 \<Longrightarrow> unat (ucast w :: u32) = unat w"
  by (simp add: unsigned_ucast_eq take_bit_nat_eq_self)

lemma unat_push_bit_small:
  "unat (w :: 'a::len word) * 2 ^ k < 2 ^ LENGTH('a) \<Longrightarrow> unat (push_bit k w) = unat w * 2 ^ k"
  by (subst unsigned_push_bit_eq) (simp add: push_bit_eq_mult take_bit_nat_eq_self)

lemma power_256: "256 ^ k = (2 :: nat) ^ (8 * k)"
  by (simp add: power_mult)

lemma sign_bit_iff:
  assumes "unat (w :: u32) < 2 ^ 24"
  shows "w AND 0x800000 \<noteq> 0 \<longleftrightarrow> 2 ^ 23 \<le> unat w"
proof -
  have "w AND 0x800000 \<noteq> 0 \<longleftrightarrow> bit w 23"
    using and_exp_eq_0_iff_not_bit [of w 23] by simp
  also have "\<dots> \<longleftrightarrow> bit (unat w) 23" by (simp add: bit_unsigned_iff)
  also have "\<dots> \<longleftrightarrow> odd (unat w div 2 ^ 23)" by (simp only: bit_iff_odd)
  also have "\<dots> \<longleftrightarrow> 2 ^ 23 \<le> unat w"
  proof (cases "2 ^ 23 \<le> unat w")
    case True
    then have "unat w div 2 ^ 23 = 1" using assms by (intro div_nat_eqI) simp_all
    with True show ?thesis by simp
  qed simp
  finally show ?thesis .
qed

lemma compact_size_bound: "n < 2 ^ 256 \<Longrightarrow> div_ceil (bit_length n) 8 \<le> 32"
  using bit_length_le [of n 256] by (simp add: div_ceil_def)

lemma to_compact_raw:
  assumes "wf_uint256 u" "k = div_ceil (bit_length (uint_nat u)) 8"
  shows "unat (if k \<le> 3 then ucast (push_bit (8 * (3 - k)) (low_u64 u))
       else ucast (low_u64 (uint_shr u (8 * (k - 3)))) :: u32) =
     (if k \<le> 3 then uint_nat u * 256 ^ (3 - k) else uint_nat u div 256 ^ (k - 3))"
proof (cases "k \<le> 3")
  case True
  let ?n = "uint_nat u"
  have m: "?n * 256 ^ (3 - k) < 2 ^ 24" using compact_mantissa_bound(1) [OF assms(2) True] .
  have "?n * 1 \<le> ?n * 256 ^ (3 - k)" by (intro mult_le_mono2) simp
  with m have "?n < 2 ^ 24" by linarith
  then have "unat (low_u64 u) = ?n" by (simp add: low_u64_value [OF assms(1)])
  with m have "unat (push_bit (8 * (3 - k)) (low_u64 u)) = ?n * 256 ^ (3 - k)"
    by (subst unat_push_bit_small) (simp_all add: power_256)
  with True m show ?thesis by (simp add: unat_ucast_small)
next
  case False
  note shr = uint_shr_value [OF assms(1), of "8 * (k - 3)"]
  have m: "uint_nat u div 256 ^ (k - 3) < 2 ^ 24"
    using compact_mantissa_bound(2) [OF assms(2)] False by simp
  with shr have "unat (low_u64 (uint_shr u (8 * (k - 3)))) = uint_nat u div 256 ^ (k - 3)"
    by (simp add: low_u64_value power_256)
  with False m show ?thesis by (simp add: unat_ucast_small)
qed

lemma compact_join:
  assumes "unat m < 2 ^ 24" "k < 256"
  shows "unat (m OR push_bit 24 (of_nat k :: u32)) = unat m + 2 ^ 24 * k"
proof -
  have high: "unat (push_bit 24 (of_nat k :: u32)) = 2 ^ 24 * k"
    using assms(2) by (subst unat_push_bit_small) (simp_all add: unat_of_nat)
  have "\<not> bit m n" if "24 \<le> n" for n
  proof -
    have "(2 :: nat) ^ 24 \<le> 2 ^ n" using that by (intro power_increasing) simp_all
    with assms(1) have "unat m div 2 ^ n = 0" by simp
    then have "\<not> bit (unat m) n" by (simp only: bit_iff_odd) simp
    then show ?thesis by (auto simp: bit_unsigned_iff dest: bit_imp_le_length)
  qed
  then have "m AND push_bit 24 (of_nat k) = 0"
    by (intro bit_word_eqI) (auto simp: bit_and_iff bit_push_bit_iff)
  then show ?thesis using high assms by (subst or_disjoint_value) simp_all
qed

lemma to_compact_value:
  assumes "wf_uint256 u" "compact_parts (uint_nat u) = (m, s)"
  shows "unat (to_compact u) = m + 2 ^ 24 * s" "m < 2 ^ 23" "s \<le> 33"
proof -
  define k where "k = div_ceil (bit_length (uint_nat u)) 8"
  define c where "c = (if k \<le> 3 then ucast (push_bit (8 * (3 - k)) (low_u64 u))
       else ucast (low_u64 (uint_shr u (8 * (k - 3)))) :: u32)"
  define n where "n = (if k \<le> 3 then uint_nat u * 256 ^ (3 - k) else uint_nat u div 256 ^ (k - 3))"
  have c: "unat c = n" unfolding c_def n_def by (rule to_compact_raw [OF assms(1) k_def])
  have n: "n < 2 ^ 24" using compact_mantissa_bound [OF k_def] by (simp add: n_def)
  have k: "k \<le> 32" unfolding k_def by (rule compact_size_bound [OF uint_bound [OF assms(1)]])
  have shifted: "unat (drop_bit 8 c) = n div 256"
    by (subst unat_drop_bit_eq) (simp add: c drop_bit_eq_div)
  have compact: "to_compact u =
      (if c AND 0x800000 \<noteq> 0 then drop_bit 8 c OR push_bit 24 (of_nat (k + 1))
       else c OR push_bit 24 (of_nat k))"
    by (simp add: to_compact_def uint_bit_len_value Let_def flip: k_def c_def)
  have parts: "(m, s) = (if 2 ^ 23 \<le> n then (n div 256, k + 1) else (n, k))"
    using assms(2) [symmetric] unfolding compact_parts_def Let_def n_def k_def .
  have sign: "c AND 0x800000 \<noteq> 0 \<longleftrightarrow> 2 ^ 23 \<le> n" using sign_bit_iff [of c] c n by simp
  show "m < 2 ^ 23" "s \<le> 33" using parts n k by (simp_all split: if_splits)
  show "unat (to_compact u) = m + 2 ^ 24 * s"
    using parts n k shifted c compact_join [of "drop_bit 8 c" "k + 1"] compact_join [of c k]
    by (simp add: compact sign split: if_splits)
qed

text \<open>The number a compact mantissa and exponent stand for, and how far below the source it is.\<close>

fun compact_value :: "nat \<times> nat \<Rightarrow> nat" where
  "compact_value (m, s) = (if s \<le> 3 then m div 256 ^ (3 - s) else m * 256 ^ (s - 3))"

definition rounds_down :: "nat \<Rightarrow> nat \<Rightarrow> bool" where
  "rounds_down n t = (0 < t \<and> t \<le> n \<and> (n - t) * 2 ^ 15 < t)"

lemma rounds_down_refl: "0 < n \<Longrightarrow> rounds_down n n"
  by (simp add: rounds_down_def)

lemma rounds_down_div:
  assumes "0 < p" "2 ^ 15 \<le> n div p"
  shows "rounds_down n (n div p * p)"
proof -
  have "n mod p * 2 ^ 15 < p * 2 ^ 15" using assms(1) by simp
  moreover have "p * 2 ^ 15 \<le> p * (n div p)" using assms(2) by (intro mult_le_mono2)
  ultimately have "n mod p * 2 ^ 15 < n div p * p" by (simp only: mult.commute)
  moreover have "n - n div p * p = n mod p" by (simp add: minus_div_mult_eq_mod)
  moreover have "0 < n div p * p" using assms by (intro mult_pos_pos) simp_all
  ultimately show ?thesis by (simp add: rounds_down_def)
qed

lemma compact_rounds_down:
  assumes "n \<noteq> 0"
  shows "rounds_down n (compact_value (compact_parts n))"
proof -
  define k where "k = div_ceil (bit_length n) 8"
  have bits: "\<not> bit_length n \<le> 0" using assms bit_length_iff [of n 0] by simp
  then have k: "0 < k" "8 * (k - 1) < bit_length n" by (auto simp: k_def div_ceil_def)
  then have low: "256 ^ (k - 1) \<le> n"
    using bit_length_iff [of n "8 * (k - 1)"] by (simp add: power_256)
  consider "k \<le> 2" | "k = 3" | "3 < k" by linarith
  then show ?thesis
  proof cases
    case 1
    define j where "j = 2 - k"
    with 1 have j: "3 - k = Suc j" "3 - Suc k = j" by simp_all
    show ?thesis
      using 1 j assms by (simp add: compact_parts_def Let_def rounds_down_refl flip: k_def)
  next
    case 2
    then show ?thesis
      using assms rounds_down_div [of 256 n]
      by (simp add: compact_parts_def Let_def rounds_down_refl flip: k_def)
  next
    case 3
    define e where "e = k - 3"
    with 3 have e: "k - 3 = e" "Suc k - 3 = Suc e" "k - 1 = e + 2" "\<not> k \<le> 3"
      "\<not> k \<le> 2" "k - 2 = Suc e" by simp_all
    have "2 ^ 16 * 256 ^ e \<le> n" using low unfolding e(3) by (simp add: power_add)
    then have big: "2 ^ 16 \<le> n div 256 ^ e" by (simp add: less_eq_div_iff_mult_less_eq)
    show ?thesis
    proof (cases "2 ^ 23 \<le> n div 256 ^ e")
      case True
      then have "2 ^ 15 \<le> n div 256 ^ e div 256" by simp
      moreover have digits: "n div 256 ^ e div 256 = n div 256 ^ Suc e"
        by (simp only: power_Suc2 div_mult2_eq)
      ultimately show ?thesis
        using rounds_down_div [of "256 ^ Suc e" n] True
        by (simp add: compact_parts_def Let_def e digits flip: k_def del: power_Suc)
    next
      case False
      with big rounds_down_div [of "256 ^ e" n] show ?thesis
        by (simp add: compact_parts_def Let_def e flip: k_def)
    qed
  qed
qed

end
