(* ===== verification/Bitcoin_Header.thy ===== *)
theory Bitcoin_Header
  imports Uint256 Transitions
begin

section \<open>Bitcoin headers, targets and cumulative work (usdd-bitcoin-bmm/src/lib.rs)\<close>

text \<open>
  Exact 80-byte headers, compact-target decoding with Bitcoin's range checks, block work,
  the LayerTwo Signet difficulty rule and the header-chain successor check. A \<open>BlockHash\<close> is
  the word whose big-endian bytes are the internal (wire) bytes of the array; \<open>H\<close> stands for
  SHA-256 of the third-party crate. The \<open>i32\<close> version, which the code only stores, is kept
  as a 32-bit word; the \<open>i64\<close> timespan of the retarget is an integer, whose operands
  (differences and quadruples of \<open>u32\<close> values) never leave the \<open>i64\<close> range.
\<close>

type_synonym block_hash = hash32

definition BITCOIN_HEADER_LEN :: nat where
  "BITCOIN_HEADER_LEN = 80"

definition from_display_bytes :: "bytes \<Rightarrow> block_hash" where
  "from_display_bytes bs = from_be_bytes (rev bs)"

definition to_display_bytes :: "block_hash \<Rightarrow> bytes" where
  "to_display_bytes h = rev (enc_hash32 h)"

definition as_number :: "block_hash \<Rightarrow> uint256" where
  "as_number h = uint_from_le_bytes (enc_hash32 h)"

record bitcoin_header =
  bh_version :: u32
  bh_previous_block :: block_hash
  bh_merkle_root :: block_hash
  bh_time :: u32
  bh_bits :: u32
  bh_nonce :: u32
  bh_raw :: bytes

datatype compact_target_error = Negative | Zero | Overflow | AbovePowLimit

datatype header_error =
    InvalidLength
  | InvalidTarget compact_target_error
  | UnexpectedDifficultyBits
  | InsufficientProofOfWork
  | BrokenParentLink
  | InvalidCheckpointChainwork
  | HeightOverflow
  | ChainworkOverflow
  | InvalidDifficultyParameters
  | UnsupportedMinDifficultyRule
  | RetargetArithmeticOverflow

definition u32_from_le_bytes :: "bytes \<Rightarrow> u32" where
  "u32_from_le_bytes bs = of_nat (nat_le bs)"

definition header_decode_exact :: "bytes \<Rightarrow> header_error + bitcoin_header" where
  "header_decode_exact raw =
     (if length raw \<noteq> BITCOIN_HEADER_LEN then Inl InvalidLength
      else Inr \<lparr> bh_version = u32_from_le_bytes (take 4 raw),
                 bh_previous_block = from_be_bytes (take 32 (drop 4 raw)),
                 bh_merkle_root = from_be_bytes (take 32 (drop 36 raw)),
                 bh_time = u32_from_le_bytes (take 4 (drop 68 raw)),
                 bh_bits = u32_from_le_bytes (take 4 (drop 72 raw)),
                 bh_nonce = u32_from_le_bytes (take 4 (drop 76 raw)),
                 bh_raw = raw \<rparr>)"

definition double_sha256 :: "(bytes \<Rightarrow> hash32) \<Rightarrow> bytes \<Rightarrow> hash32" where
  "double_sha256 H bs = H (enc_hash32 (H bs))"

definition block_hash_of :: "(bytes \<Rightarrow> hash32) \<Rightarrow> bitcoin_header \<Rightarrow> block_hash" where
  "block_hash_of H h = double_sha256 H (bh_raw h)"

subsection \<open>Targets and work\<close>

definition decode_and_validate_target ::
  "u32 \<Rightarrow> uint256 \<Rightarrow> compact_target_error + uint256" where
  "decode_and_validate_target bits pow_limit =
     (let size = unat (drop_bit 24 bits);
          word = bits AND 0x007fffff;
          word = (if size \<le> 3 then drop_bit (8 * (3 - size)) word else word);
          negative = (word \<noteq> 0 \<and> bits AND 0x00800000 \<noteq> 0);
          overflow = (word \<noteq> 0 \<and>
            (34 < size \<or> (0xff < word \<and> 33 < size) \<or> (0xffff < word \<and> 32 < size)))
      in if negative then Inl Negative
         else if overflow then Inl Overflow
         else and_then
           (if size \<le> 3 then Inr (from_limbs_le [ucast word, 0, 0, 0])
            else ok_or (uint_checked_shl (from_limbs_le [ucast word, 0, 0, 0]) (8 * (size - 3)))
                   Overflow)
           (\<lambda>target. if uint_is_zero target then Inl Zero
              else if uint_cmp target pow_limit = Greater then Inl AbovePowLimit
              else Inr target))"

definition block_work :: "uint256 \<Rightarrow> header_error + uint256" where
  "block_work target =
     and_then (ok_or (uint_checked_add_one target) RetargetArithmeticOverflow) (\<lambda>denominator.
       ok_or (Option.bind (uint_div (uint_wrapping_not target) denominator) uint_checked_add_one)
         RetargetArithmeticOverflow)"

record pow_parameters =
  pp_pow_limit :: uint256
  pp_target_timespan :: u32
  pp_target_spacing :: u32
  pp_allow_min_difficulty_blocks :: bool
  pp_no_retargeting :: bool

definition LAYER_TWO_SIGNET :: pow_parameters where
  "LAYER_TWO_SIGNET =
     \<lparr> pp_pow_limit = from_limbs_le [0, 0, 0, 0x00000377ae000000],
       pp_target_timespan = 14 * 24 * 60 * 60,
       pp_target_spacing = 10 * 60,
       pp_allow_min_difficulty_blocks = False,
       pp_no_retargeting = False \<rparr>"

definition pow_interval :: "pow_parameters \<Rightarrow> header_error + u32" where
  "pow_interval p =
     (if pp_target_spacing p = 0 \<or> pp_target_timespan p = 0
         \<or> pp_target_timespan p mod pp_target_spacing p \<noteq> 0
      then Inl InvalidDifficultyParameters
      else let interval = pp_target_timespan p div pp_target_spacing p
           in if interval = 0 then Inl InvalidDifficultyParameters else Inr interval)"

record pow_verified_header =
  pv_header :: bitcoin_header
  pv_hash :: block_hash
  pv_target :: uint256
  pv_work :: uint256

definition verify_header_pow ::
  "(bytes \<Rightarrow> hash32) \<Rightarrow> bytes \<Rightarrow> u32 \<Rightarrow> pow_parameters \<Rightarrow> header_error + pow_verified_header" where
  "verify_header_pow H bs caller_supplied_bits params =
     and_then (header_decode_exact bs) (\<lambda>header.
     if bh_bits header \<noteq> caller_supplied_bits then Inl UnexpectedDifficultyBits
     else and_then (map_err InvalidTarget
            (decode_and_validate_target (bh_bits header) (pp_pow_limit params))) (\<lambda>target.
     let hash = block_hash_of H header
     in if uint_cmp (as_number hash) target = Greater then Inl InsufficientProofOfWork
        else and_then (block_work target) (\<lambda>work.
          Inr \<lparr> pv_header = header, pv_hash = hash, pv_target = target, pv_work = work \<rparr>)))"

subsection \<open>The header chain\<close>

record header_chain_state =
  hc_height :: u32
  hc_tip :: pow_verified_header
  hc_cumulative_work :: uint256
  hc_interval_start_time :: u32

definition from_unverified_checkpoint ::
  "u32 \<Rightarrow> pow_verified_header \<Rightarrow> uint256 \<Rightarrow> u32 \<Rightarrow> header_error + header_chain_state" where
  "from_unverified_checkpoint height tip cumulative_work interval_start_time =
     (if uint_cmp cumulative_work (pv_work tip) = Less then Inl InvalidCheckpointChainwork
      else Inr \<lparr> hc_height = height, hc_tip = tip, hc_cumulative_work = cumulative_work,
                 hc_interval_start_time = interval_start_time \<rparr>)"

definition clamp :: "int \<Rightarrow> int \<Rightarrow> int \<Rightarrow> int" where
  "clamp lo hi x = (if x < lo then lo else if hi < x then hi else x)"

definition actual_timespan :: "header_chain_state \<Rightarrow> pow_parameters \<Rightarrow> int" where
  "actual_timespan s params =
     (let target_timespan = uint (pp_target_timespan params)
      in clamp (target_timespan div 4) (target_timespan * 4)
           (uint (bh_time (pv_header (hc_tip s))) - uint (hc_interval_start_time s)))"

definition uint_min :: "uint256 \<Rightarrow> uint256 \<Rightarrow> uint256" where
  "uint_min u v = (if uint_cmp u v = Greater then v else u)"

definition next_work_required :: "header_chain_state \<Rightarrow> pow_parameters \<Rightarrow> header_error + u32" where
  "next_work_required s params =
     and_then (ok_or (checked_add (hc_height s) 1) HeightOverflow) (\<lambda>next_height.
     and_then (pow_interval params) (\<lambda>interval.
     if next_height mod interval \<noteq> 0 then
       (if pp_allow_min_difficulty_blocks params then Inl UnsupportedMinDifficultyRule
        else Inr (bh_bits (pv_header (hc_tip s))))
     else if pp_no_retargeting params then Inr (bh_bits (pv_header (hc_tip s)))
     else and_then (map_err InvalidTarget
            (decode_and_validate_target (bh_bits (pv_header (hc_tip s))) (pp_pow_limit params)))
            (\<lambda>old_target.
          and_then (ok_or
            (Option.bind (uint_checked_mul_u64 old_target (of_int (actual_timespan s params)))
               (\<lambda>v. uint_div_u64 v (ucast (pp_target_timespan params))))
            RetargetArithmeticOverflow) (\<lambda>next_target.
          Inr (to_compact (uint_min next_target (pp_pow_limit params)))))))"

definition verify_successor_header ::
  "(bytes \<Rightarrow> hash32) \<Rightarrow> pow_parameters \<Rightarrow> header_chain_state \<Rightarrow> bytes
     \<Rightarrow> header_error + header_chain_state" where
  "verify_successor_header H params s bs =
     and_then (next_work_required s params) (\<lambda>expected_bits.
     and_then (verify_header_pow H bs expected_bits params) (\<lambda>successor.
     if bh_previous_block (pv_header successor) \<noteq> pv_hash (hc_tip s) then Inl BrokenParentLink
     else and_then (ok_or (checked_add (hc_height s) 1) HeightOverflow) (\<lambda>height.
     and_then (ok_or (uint_checked_add (hc_cumulative_work s) (pv_work successor))
       ChainworkOverflow) (\<lambda>cumulative_work.
     and_then (pow_interval params) (\<lambda>interval.
     Inr \<lparr> hc_height = height, hc_tip = successor, hc_cumulative_work = cumulative_work,
           hc_interval_start_time =
             (if height mod interval = 0 then bh_time (pv_header successor)
              else hc_interval_start_time s) \<rparr>)))))"

subsection \<open>Target decoding on numbers\<close>

definition target_of_bits :: "u32 \<Rightarrow> nat" where
  "target_of_bits bits = compact_value (unat bits mod 2 ^ 23, unat bits div 2 ^ 24)"

lemma unat_drop_bit: "unat (drop_bit k w) = unat w div 2 ^ k"
  by (subst unat_drop_bit_eq) (simp add: drop_bit_eq_div)

lemma unat_mantissa: "unat (bits AND 0x007fffff :: u32) = unat bits mod 2 ^ 23"
proof -
  have "bits AND 0x007fffff = take_bit 23 bits"
    by (simp add: take_bit_eq_mask mask_eq_exp_minus_1)
  then show ?thesis by (simp only: unsigned_take_bit_eq) (simp only: take_bit_eq_mod)
qed

lemma unat_ucast_32_64 [simp]: "unat (ucast (w :: u32) :: u64) = unat w"
  using unat_bound [of w] by (simp add: unsigned_ucast_eq take_bit_nat_eq_self)

lemma mantissa_overflow_iff:
  fixes size :: nat
  assumes "3 < size" "word < (2 :: nat) ^ 23"
  shows "(word \<noteq> 0 \<and> (34 < size \<or> (0xff < word \<and> 33 < size) \<or> (0xffff < word \<and> 32 < size)))
    \<longleftrightarrow> 2 ^ 256 \<le> word * 256 ^ (size - 3)"
proof -
  have mono: "256 ^ a \<le> (256 :: nat) ^ b" if "a \<le> b" for a b
    using that by (rule power_increasing) simp
  consider "34 < size" | "size = 34" | "size = 33" | "size \<le> 32" by linarith
  then show ?thesis
  proof cases
    case 1
    then have "(2 :: nat) ^ 256 \<le> 256 ^ (size - 3)" using mono [of 32 "size - 3"] by simp
    then have "word \<noteq> 0 \<Longrightarrow> 2 ^ 256 \<le> word * 256 ^ (size - 3)"
      using mult_le_mono [of 1 word "2 ^ 256" "256 ^ (size - 3)"] by simp
    with 1 show ?thesis by (cases "word = 0") auto
  next
    case 4
    then have "(256 :: nat) ^ (size - 3) \<le> 256 ^ 29" by (intro mono) simp
    then have "word * 256 ^ (size - 3) \<le> 2 ^ 23 * 256 ^ 29"
      using assms(2) by (intro mult_le_mono) simp_all
    also have "\<dots> < 2 ^ 256" by simp
    finally show ?thesis using 4 by simp
  qed auto
qed

lemma compact_value_small:
  fixes size :: nat
  assumes "size \<le> 3"
  shows "compact_value (word, size) = word div 2 ^ (8 * (3 - size))"
  using assms by (simp add: power_256)

lemma decode_target_step:
  assumes "wf_uint256 t" "wf_uint256 limit"
  shows
  "(if uint_is_zero t then Inl Zero else if uint_cmp t limit = Greater then Inl AbovePowLimit
    else Inr t) = Inr t' \<longleftrightarrow> t' = t \<and> 0 < uint_nat t \<and> uint_nat t \<le> uint_nat limit"
  using assms by (auto simp: uint_is_zero_iff uint_cmp_value)

lemma decode_target_iff:
  assumes "wf_uint256 limit"
  shows "decode_and_validate_target bits limit = Inr t \<longleftrightarrow>
    bits AND 0x00800000 = 0 \<and> wf_uint256 t \<and> uint_nat t = target_of_bits bits
      \<and> 0 < uint_nat t \<and> uint_nat t \<le> uint_nat limit"
proof -
  define n where "n = unat (drop_bit 24 bits)"
  define w where "w = bits AND 0x007fffff"
  have n: "n = unat bits div 2 ^ 24" by (simp add: n_def unat_drop_bit)
  have w: "unat w = unat bits mod 2 ^ 23" by (simp add: w_def unat_mantissa)
  then have w_bound: "unat w < 2 ^ 23" by simp
  have target: "target_of_bits bits = compact_value (unat w, n)" by (simp add: target_of_bits_def w n)
  have w0: "w \<noteq> 0 \<longleftrightarrow> unat w \<noteq> 0" by (simp add: unat_eq_0)
  show ?thesis
  proof (cases "n \<le> 3")
    case True
    define v where "v = drop_bit (8 * (3 - n)) w"
    have v: "unat v = target_of_bits bits"
      unfolding target v_def compact_value_small [OF True] by (rule unat_drop_bit)
    have v0: "v \<noteq> 0 \<longleftrightarrow> 0 < unat v" by (simp add: unat_gt_0)
    have "decode_and_validate_target bits limit =
        (if v \<noteq> 0 \<and> bits AND 0x00800000 \<noteq> 0 then Inl Negative
         else let t = from_limbs_le [ucast v, 0, 0, 0] in
           if uint_is_zero t then Inl Zero
           else if uint_cmp t limit = Greater then Inl AbovePowLimit else Inr t)"
      using True by (simp add: decode_and_validate_target_def Let_def v_def flip: n_def w_def)
    moreover have "t = from_limbs_le [ucast v, 0, 0, 0] \<longleftrightarrow> wf_uint256 t \<and> uint_nat t = unat v"
      using uint_inject [of t "from_limbs_le [ucast v, 0, 0, 0]"] by auto
    ultimately show ?thesis
      using v v0 by (auto simp: Let_def decode_target_step assms)
  next
    case False
    then have big: "3 < n" by simp
    have value_w: "target_of_bits bits = unat w * 2 ^ (8 * (n - 3))"
      using False by (simp add: target power_256)
    define overflow where "overflow \<longleftrightarrow> (w \<noteq> 0 \<and> (34 < n \<or> (0xff < w \<and> 33 < n) \<or> (0xffff < w \<and> 32 < n)))"
    have overflow: "overflow \<longleftrightarrow> 2 ^ 256 \<le> target_of_bits bits"
      using mantissa_overflow_iff [OF big w_bound]
      by (simp add: overflow_def w0 word_less_nat_alt value_w power_256)
    have eq: "decode_and_validate_target bits limit =
        (if w \<noteq> 0 \<and> bits AND 0x00800000 \<noteq> 0 then Inl Negative
         else if overflow then Inl Overflow
         else and_then (ok_or (uint_checked_shl (from_limbs_le [ucast w, 0, 0, 0]) (8 * (n - 3))) Overflow)
           (\<lambda>t. if uint_is_zero t then Inl Zero
             else if uint_cmp t limit = Greater then Inl AbovePowLimit else Inr t))"
      using False
      by (simp only: decode_and_validate_target_def Let_def overflow_def if_False flip: n_def w_def)
    show ?thesis
    proof (cases overflow)
      case True
      with overflow uint_bound [OF assms] show ?thesis by (auto simp: eq)
    next
      case False
      have "\<exists>t. uint_checked_shl (from_limbs_le [ucast w, 0, 0, 0]) (8 * (n - 3)) = Some t
          \<and> wf_uint256 t \<and> uint_nat t = target_of_bits bits"
      proof (cases "w = 0")
        case True
        then show ?thesis
          using uint_checked_shl_value [of "from_limbs_le [0, 0, 0, 0]" "8 * (n - 3)"]
          by (cases "256 \<le> 8 * (n - 3)")
            (auto simp: value_w uint_checked_shl_def uint_is_zero_iff)
      next
        case False
        with \<open>\<not> overflow\<close> have "n \<le> 34" by (auto simp: overflow_def)
        with \<open>\<not> overflow\<close> overflow show ?thesis
          using uint_checked_shl_value [of "from_limbs_le [ucast w, 0, 0, 0]" "8 * (n - 3)"]
          by (simp add: value_w not_le)
      qed
      then obtain t0 where t0: "uint_checked_shl (from_limbs_le [ucast w, 0, 0, 0]) (8 * (n - 3)) = Some t0"
        "wf_uint256 t0" "uint_nat t0 = target_of_bits bits" by blast
      have "t = t0 \<longleftrightarrow> wf_uint256 t \<and> uint_nat t = target_of_bits bits"
        using uint_inject [of t t0] t0 by auto
      moreover have "0 < target_of_bits bits \<Longrightarrow> w \<noteq> 0" by (auto simp: value_w)
      ultimately show ?thesis
        using False t0 by (auto simp: eq decode_target_step assms)
    qed
  qed
qed

subsection \<open>Work\<close>

lemma proof_arithmetic:
  fixes t m :: nat
  assumes "t < m"
  shows "(m - 1 - t) div (t + 1) + 1 = m div (t + 1)"
proof -
  have "m = (m - 1 - t) + (t + 1)" using assms by simp
  then show ?thesis by (metis One_nat_def add_gr_0 div_add_self2 less_numeral_extra(1) less_not_refl)
qed

lemma block_work_iff [ok_iff]:
  assumes "wf_uint256 t"
  shows "block_work t = Inr w \<longleftrightarrow>
    0 < uint_nat t \<and> uint_nat t + 1 < 2 ^ 256
      \<and> wf_uint256 w \<and> uint_nat w = 2 ^ 256 div (uint_nat t + 1)"
proof -
  let ?n = "uint_nat t"
  have one: "wf_uint256 (from_limbs_le [1, 0, 0, 0])" by simp
  note wnot = uint_wrapping_not_value [OF assms]
  have sum: "(2 ^ 256 - 1 - ?n) div (?n + 1) + 1 = 2 ^ 256 div (?n + 1)"
    using uint_bound [OF assms] by (rule proof_arithmetic)
  have "2 ^ 256 div (?n + 1) < 2 ^ 256 \<longleftrightarrow> 0 < ?n"
    by (cases "?n = 0") (simp_all add: div_less_dividend)
  then have fits: "wf_uint256 w \<and> uint_nat w = 2 ^ 256 div (?n + 1) \<Longrightarrow> 0 < ?n"
    using uint_bound [of w] by auto
  have quotient: "uint_div (uint_wrapping_not t) d = Some q \<longleftrightarrow>
      wf_uint256 q \<and> uint_nat q = (2 ^ 256 - 1 - ?n) div (?n + 1)"
    if "wf_uint256 d" "uint_nat d = ?n + 1" for d q
    using that wnot by (simp add: uint_div_Some)
  show ?thesis
  proof (cases "?n + 1 < 2 ^ 256")
    case False
    then have "uint_checked_add_one t = None"
      using uint_checked_add_None [OF assms one] by (simp add: uint_checked_add_one_def)
    with False show ?thesis by (simp add: block_work_def)
  next
    case True
    obtain d where d: "uint_checked_add_one t = Some d"
      using uint_checked_add_None [OF assms one] True
      by (cases "uint_checked_add_one t") (auto simp: uint_checked_add_one_def)
    then have d_wf: "wf_uint256 d" "uint_nat d = ?n + 1"
      using uint_checked_add_Some [OF assms one] by (simp_all add: uint_checked_add_one_def)
    obtain q where q: "uint_div (uint_wrapping_not t) d = Some q"
      using d_wf by (simp add: uint_div_def uint_is_zero_iff)
    then have q_wf: "wf_uint256 q" "uint_nat q + 1 = 2 ^ 256 div (?n + 1)"
      using quotient [OF d_wf] sum by simp_all
    have "block_work t = ok_or (uint_checked_add_one q) RetargetArithmeticOverflow"
      by (simp add: block_work_def d q)
    then have "block_work t = Inr w \<longleftrightarrow> wf_uint256 w \<and> uint_nat w = 2 ^ 256 div (?n + 1)"
      using uint_checked_add_Some [OF q_wf(1) one] q_wf(2)
      by (simp add: ok_iff uint_checked_add_one_def)
    with fits True show ?thesis by auto
  qed
qed

subsection \<open>Accepted headers and successors\<close>

definition hash_number :: "block_hash \<Rightarrow> nat" where
  "hash_number h = nat_le (enc_hash32 h)"

definition bits_work :: "u32 \<Rightarrow> nat" where
  "bits_work bits = 2 ^ 256 div (target_of_bits bits + 1)"

text \<open>The bits encode a positive target of at most the limit.\<close>

definition bits_ok :: "pow_parameters \<Rightarrow> u32 \<Rightarrow> bool" where
  "bits_ok p bits = (bits AND 0x00800000 = 0 \<and> 0 < target_of_bits bits
     \<and> target_of_bits bits \<le> uint_nat (pp_pow_limit p) \<and> target_of_bits bits + 1 < 2 ^ 256)"

definition verified_of :: "(bytes \<Rightarrow> hash32) \<Rightarrow> bitcoin_header \<Rightarrow> pow_verified_header \<Rightarrow> bool" where
  "verified_of H h v =
     (pv_header v = h \<and> pv_hash v = block_hash_of H h
       \<and> wf_uint256 (pv_target v) \<and> uint_nat (pv_target v) = target_of_bits (bh_bits h)
       \<and> wf_uint256 (pv_work v) \<and> uint_nat (pv_work v) = bits_work (bh_bits h))"

lemma as_number_value: "wf_uint256 (as_number h) \<and> uint_nat (as_number h) = hash_number h"
  by (simp add: as_number_def hash_number_def uint_from_le_bytes_value)

lemma verify_header_pow_iff:
  assumes "wf_uint256 (pp_pow_limit p)"
  shows "verify_header_pow H bs bits p = Inr v \<longleftrightarrow>
    (\<exists>h. header_decode_exact bs = Inr h \<and> bh_bits h = bits \<and> bits_ok p bits
      \<and> hash_number (block_hash_of H h) \<le> target_of_bits bits \<and> verified_of H h v)"
proof -
  have hash: "uint_cmp (as_number h) t = Greater \<longleftrightarrow> \<not> hash_number h \<le> uint_nat t"
    if "wf_uint256 t" for h t
    using that as_number_value [of h] by (auto simp: uint_cmp_value)
  have "verify_header_pow H bs bits p = Inr v \<longleftrightarrow>
    (\<exists>h t w. header_decode_exact bs = Inr h \<and> bh_bits h = bits
      \<and> decode_and_validate_target bits (pp_pow_limit p) = Inr t
      \<and> \<not> uint_cmp (as_number (block_hash_of H h)) t = Greater
      \<and> block_work t = Inr w
      \<and> v = \<lparr> pv_header = h, pv_hash = block_hash_of H h, pv_target = t, pv_work = w \<rparr>)"
    by (auto simp: verify_header_pow_def ok_iff Let_def)
  also have "\<dots> \<longleftrightarrow>
    (\<exists>h t w. header_decode_exact bs = Inr h \<and> bh_bits h = bits \<and> bits_ok p bits
      \<and> hash_number (block_hash_of H h) \<le> target_of_bits bits
      \<and> wf_uint256 t \<and> uint_nat t = target_of_bits bits \<and> wf_uint256 w
      \<and> uint_nat w = bits_work bits
      \<and> v = \<lparr> pv_header = h, pv_hash = block_hash_of H h, pv_target = t, pv_work = w \<rparr>)"
    by (intro arg_cong [where f = Ex] ext)
      (auto simp: decode_target_iff [OF assms] block_work_iff hash bits_ok_def bits_work_def)
  also have "\<dots> \<longleftrightarrow>
    (\<exists>h. header_decode_exact bs = Inr h \<and> bh_bits h = bits \<and> bits_ok p bits
      \<and> hash_number (block_hash_of H h) \<le> target_of_bits bits \<and> verified_of H h v)"
    by (cases v) (auto simp: verified_of_def)
  finally show ?thesis .
qed

lemma verify_successor_header_iff:
  assumes "wf_uint256 (pp_pow_limit p)" "wf_uint256 (hc_cumulative_work s)"
  shows "verify_successor_header H p s bs = Inr s' \<longleftrightarrow>
    (\<exists>bits interval. next_work_required s p = Inr bits \<and> pow_interval p = Inr interval
      \<and> verify_header_pow H bs bits p = Inr (hc_tip s')
      \<and> bh_previous_block (pv_header (hc_tip s')) = pv_hash (hc_tip s)
      \<and> unat (hc_height s') = unat (hc_height s) + 1
      \<and> wf_uint256 (hc_cumulative_work s')
      \<and> uint_nat (hc_cumulative_work s') =
          uint_nat (hc_cumulative_work s) + uint_nat (pv_work (hc_tip s'))
      \<and> hc_interval_start_time s' =
          (if hc_height s' mod interval = 0 then bh_time (pv_header (hc_tip s'))
           else hc_interval_start_time s))"
  (is "_ = ?rhs")
proof -
  have work: "wf_uint256 (pv_work v)" if "verify_header_pow H bs bits p = Inr v" for bits v
    using that by (auto simp: verify_header_pow_iff [OF assms(1)] verified_of_def)
  have "verify_successor_header H p s bs = Inr s' \<longleftrightarrow>
    (\<exists>bits v height cw interval. next_work_required s p = Inr bits
      \<and> verify_header_pow H bs bits p = Inr v
      \<and> bh_previous_block (pv_header v) = pv_hash (hc_tip s)
      \<and> checked_add (hc_height s) 1 = Some height
      \<and> uint_checked_add (hc_cumulative_work s) (pv_work v) = Some cw
      \<and> pow_interval p = Inr interval
      \<and> hc_height s' = height \<and> hc_tip s' = v \<and> hc_cumulative_work s' = cw
      \<and> hc_interval_start_time s' =
          (if height mod interval = 0 then bh_time (pv_header v) else hc_interval_start_time s))"
    by (cases s') (auto simp: verify_successor_header_def and_then_Inr ok_or_Inr if_Inl_Inr split del: if_split)
  also have "\<dots> \<longleftrightarrow> ?rhs"
    using uint_checked_add_Some [OF assms(2) work]
    by (auto simp: checked_add_Some split del: if_split)
  finally show ?thesis .
qed

subsection \<open>The difficulty rule\<close>

definition compact_word :: "nat \<Rightarrow> nat" where
  "compact_word n = fst (compact_parts n) + 2 ^ 24 * snd (compact_parts n)"

text \<open>The next target of a retarget before its compact rounding.\<close>

definition retarget_value :: "header_chain_state \<Rightarrow> pow_parameters \<Rightarrow> nat" where
  "retarget_value s p =
     min (target_of_bits (bh_bits (pv_header (hc_tip s))) * nat (actual_timespan s p)
            div unat (pp_target_timespan p))
       (uint_nat (pp_pow_limit p))"

lemma actual_timespan_bounds:
  "uint (pp_target_timespan p) div 4 \<le> actual_timespan s p"
  "actual_timespan s p \<le> uint (pp_target_timespan p) * 4"
  "0 \<le> actual_timespan s p"
proof -
  have "0 \<le> uint (pp_target_timespan p)" by simp
  then have "uint (pp_target_timespan p) div 4 \<le> uint (pp_target_timespan p) * 4"
    "0 \<le> uint (pp_target_timespan p) div 4"
    by linarith+
  then show "uint (pp_target_timespan p) div 4 \<le> actual_timespan s p"
    "actual_timespan s p \<le> uint (pp_target_timespan p) * 4"
    "0 \<le> actual_timespan s p"
    unfolding actual_timespan_def Let_def clamp_def by (simp_all split: if_split)
qed

lemma unat_timespan: "unat (of_int (actual_timespan s p) :: u64) = nat (actual_timespan s p)"
proof -
  have "uint (pp_target_timespan p) < 2 ^ 32" using uint_bounded [of "pp_target_timespan p"] by simp
  with actual_timespan_bounds [where s = s and p = p]
  have "0 \<le> actual_timespan s p" "actual_timespan s p < 2 ^ 64" by simp_all
  then show ?thesis
    by (simp add: unat_eq_nat_uint uint_word_of_int_eq take_bit_int_eq_self)
qed

lemma uint_min_value:
  "wf_uint256 u \<Longrightarrow> wf_uint256 v \<Longrightarrow>
     wf_uint256 (uint_min u v) \<and> uint_nat (uint_min u v) = min (uint_nat u) (uint_nat v)"
  by (auto simp: uint_min_def uint_cmp_value)

lemma unat_to_compact: "wf_uint256 u \<Longrightarrow> unat (to_compact u) = compact_word (uint_nat u)"
  by (cases "compact_parts (uint_nat u)") (simp add: to_compact_value(1) compact_word_def)

lemma unat_minus_one_max: "h \<noteq> - 1 \<Longrightarrow> unat h + 1 < 2 ^ LENGTH('a)" for h :: "'a::len word"
proof -
  assume "h \<noteq> - 1"
  then have "unat h \<noteq> unat (- 1 :: 'a word)" by (simp add: unat_eq_iff)
  then show ?thesis
    using unat_bound [of h] unfolding unsigned_minus_1_eq_mask mask_eq_exp_minus_1 by linarith
qed

lemma uint_exists: "k < 2 ^ 256 \<Longrightarrow> \<exists>v. wf_uint256 v \<and> uint_nat v = k"
  using uint_from_le_bytes_value [of "le_nat 32 k"]
  by (intro exI [of _ "uint_from_le_bytes (le_nat 32 k)"]) (simp add: nat_le_le_nat)

lemma scale_target:
  assumes "wf_uint256 u" "unat a = n" "d \<noteq> 0"
  shows "Option.bind (uint_checked_mul_u64 u a) (\<lambda>v. uint_div_u64 v d) = Some w \<longleftrightarrow>
    uint_nat u * n < 2 ^ 256 \<and> wf_uint256 w \<and> uint_nat w = uint_nat u * n div unat d"
proof (cases "uint_checked_mul_u64 u a")
  case None
  then have "\<not> uint_nat u * n < 2 ^ 256"
    using uint_checked_mul_u64_Some [OF assms(1), of a] assms(2)
      uint_exists [of "uint_nat u * n"] by auto
  with None show ?thesis by simp
next
  case (Some v)
  then have "wf_uint256 v" "uint_nat v = uint_nat u * n"
    using uint_checked_mul_u64_Some [OF assms(1), of a] assms(2) by simp_all
  with Some assms(3) show ?thesis
    using uint_bound [of v] by (simp add: uint_div_u64_Some)
qed

lemma next_work_required_retarget:
  assumes "wf_uint256 (pp_pow_limit p)" "pow_interval p = Inr interval"
    and "hc_height s \<noteq> - 1" "(hc_height s + 1) mod interval = 0" "\<not> pp_no_retargeting p"
  defines "bits \<equiv> bh_bits (pv_header (hc_tip s))"
  shows "next_work_required s p = Inr b \<longleftrightarrow>
    bits AND 0x00800000 = 0 \<and> 0 < target_of_bits bits
      \<and> target_of_bits bits \<le> uint_nat (pp_pow_limit p)
      \<and> target_of_bits bits * nat (actual_timespan s p) < 2 ^ 256
      \<and> unat b = compact_word (retarget_value s p)"
proof -
  let ?a = "nat (actual_timespan s p)" and ?T = "pp_target_timespan p"
  have "unat (hc_height s) + 1 < 2 ^ 32"
    using assms(3) unat_bound [of "hc_height s"] unat_minus_one_max [of "hc_height s"] by simp
  then have height: "checked_add (hc_height s) 1 = Some (hc_height s + 1)"
    by (simp add: checked_add_def)
  have T: "?T \<noteq> 0" using assms(2) by (auto simp: pow_interval_def split: if_splits)
  then have T64: "(ucast ?T :: u64) \<noteq> 0" by (metis unat_0 unat_eq_0 unat_ucast_32_64)
  have scaled: "Option.bind (uint_checked_mul_u64 u (of_int (actual_timespan s p)))
        (\<lambda>v. uint_div_u64 v (ucast ?T)) = Some w \<longleftrightarrow>
      uint_nat u * ?a < 2 ^ 256 \<and> wf_uint256 w \<and> uint_nat w = uint_nat u * ?a div unat ?T"
    if "wf_uint256 u" for u w
    using scale_target [OF that unat_timespan T64] by simp
  have result: "b = to_compact (uint_min w (pp_pow_limit p)) \<longleftrightarrow>
      unat b = compact_word (min (uint_nat w) (uint_nat (pp_pow_limit p)))"
    if "wf_uint256 w" for w
    using uint_min_value [OF that assms(1)] by (simp add: unat_to_compact flip: unat_eq_iff)
  have compact_min: "unat (to_compact (uint_min w (pp_pow_limit p))) =
      compact_word (min (uint_nat w) (uint_nat (pp_pow_limit p)))" if "wf_uint256 w" for w
    using uint_min_value [OF that assms(1)] by (simp add: unat_to_compact)
  have eq: "next_work_required s p = and_then (map_err InvalidTarget
            (decode_and_validate_target bits (pp_pow_limit p))) (\<lambda>old_target.
          and_then (ok_or
            (Option.bind (uint_checked_mul_u64 old_target (of_int (actual_timespan s p)))
               (\<lambda>v. uint_div_u64 v (ucast ?T)))
            RetargetArithmeticOverflow) (\<lambda>next_target.
          Inr (to_compact (uint_min next_target (pp_pow_limit p)))))"
    using assms(4,5) by (simp add: next_work_required_def height assms(2) bits_def)
  have "next_work_required s p = Inr b \<longleftrightarrow>
      (\<exists>u w. decode_and_validate_target bits (pp_pow_limit p) = Inr u
        \<and> uint_nat u * ?a < 2 ^ 256 \<and> wf_uint256 w \<and> uint_nat w = uint_nat u * ?a div unat ?T
        \<and> b = to_compact (uint_min w (pp_pow_limit p)))"
    unfolding eq and_then_Inr map_err_Inr ok_or_Inr
    using scaled by (auto simp: decode_target_iff [OF assms(1)])
  also have "\<dots> \<longleftrightarrow> (\<exists>u w. decode_and_validate_target bits (pp_pow_limit p) = Inr u
        \<and> uint_nat u * ?a < 2 ^ 256 \<and> wf_uint256 w \<and> uint_nat w = uint_nat u * ?a div unat ?T
        \<and> unat b = compact_word (retarget_value s p))"
    by (intro arg_cong [where f = Ex] ext)
      (auto simp: decode_target_iff [OF assms(1)] retarget_value_def bits_def result
        compact_min)
  also have "\<dots> \<longleftrightarrow> bits AND 0x00800000 = 0 \<and> 0 < target_of_bits bits
      \<and> target_of_bits bits \<le> uint_nat (pp_pow_limit p)
      \<and> target_of_bits bits * ?a < 2 ^ 256
      \<and> unat b = compact_word (retarget_value s p)" (is "_ \<longleftrightarrow> ?rhs")
  proof
    assume rhs: ?rhs
    then have "target_of_bits bits < 2 ^ 256"
      using uint_bound [OF assms(1)] by linarith
    moreover have "target_of_bits bits * ?a div unat ?T < 2 ^ 256"
      using rhs div_le_dividend le_less_trans by blast
    ultimately obtain u w where "wf_uint256 u" "uint_nat u = target_of_bits bits"
        "wf_uint256 w" "uint_nat w = target_of_bits bits * ?a div unat ?T"
      using uint_exists [of "target_of_bits bits"]
        uint_exists [of "target_of_bits bits * ?a div unat ?T"] by auto
    with rhs show "\<exists>u w. decode_and_validate_target bits (pp_pow_limit p) = Inr u
        \<and> uint_nat u * ?a < 2 ^ 256 \<and> wf_uint256 w \<and> uint_nat w = uint_nat u * ?a div unat ?T
        \<and> unat b = compact_word (retarget_value s p)"
      by (intro exI [of _ u] exI [of _ w]) (simp add: decode_target_iff [OF assms(1)])
  qed (auto simp: decode_target_iff [OF assms(1)])
  finally show ?thesis .
qed

lemma compact_word_decodes:
  assumes "n \<noteq> 0" "n < 2 ^ 256" "unat b = compact_word n"
  shows "b AND 0x00800000 = 0 \<and> rounds_down n (target_of_bits b)"
proof -
  obtain m k where parts: "compact_parts n = (m, k)" by fastforce
  have m: "m < 2 ^ 23"
    using parts compact_mantissa_bound [OF refl, of n]
    by (auto simp: compact_parts_def Let_def split: if_splits)
  have b: "unat b = m + 2 ^ 24 * k" using assms(3) by (simp add: compact_word_def parts)
  have "unat b mod 2 ^ 23 = m"
  proof -
    have "unat b = m + 2 ^ 23 * (2 * k)" by (simp add: b)
    then show ?thesis using m by (simp only: mod_mult_self2) simp
  qed
  moreover have "unat b div 2 ^ 24 = k" using m by (simp add: b)
  ultimately have "target_of_bits b = compact_value (compact_parts n)"
    by (simp add: target_of_bits_def parts)
  moreover have "b AND 0x00800000 = 0"
  proof -
    have "\<not> odd (unat b div 2 ^ 23)"
    proof -
      have "unat b = m + (2 * k) * 2 ^ 23" by (simp add: b)
      then have "unat b div 2 ^ 23 = 2 * k" using m by (simp only: div_mult_self1) simp
      then show ?thesis by simp
    qed
    then have "\<not> bit b 23" by (simp only: bit_unsigned_iff flip: bit_iff_odd) (simp add: bit_unsigned_iff)
    then show ?thesis using and_exp_eq_0_iff_not_bit [of b 23] by simp
  qed
  ultimately show ?thesis using compact_rounds_down [OF assms(1)] by simp
qed

subsection \<open>Runs of accepted successors\<close>

definition header_bits :: "bytes \<Rightarrow> u32" where
  "header_bits bs = u32_from_le_bytes (take 4 (drop 72 bs))"

definition header_previous :: "bytes \<Rightarrow> block_hash" where
  "header_previous bs = from_be_bytes (take 32 (drop 4 bs))"

text \<open>Each header names the hash of its predecessor, the first one that of \<open>previous\<close>.\<close>

fun linked :: "(bytes \<Rightarrow> hash32) \<Rightarrow> block_hash \<Rightarrow> bytes list \<Rightarrow> bool" where
  "linked H previous [] = True"
| "linked H previous (b # bs) =
     (header_previous b = previous \<and> linked H (double_sha256 H b) bs)"

definition tip_hash :: "(bytes \<Rightarrow> hash32) \<Rightarrow> block_hash \<Rightarrow> bytes list \<Rightarrow> block_hash" where
  "tip_hash H previous bs = (if bs = [] then previous else double_sha256 H (last bs))"

definition header_pow_ok :: "(bytes \<Rightarrow> hash32) \<Rightarrow> pow_parameters \<Rightarrow> bytes \<Rightarrow> bool" where
  "header_pow_ok H p bs =
     (length bs = 80 \<and> bits_ok p (header_bits bs)
       \<and> hash_number (double_sha256 H bs) \<le> target_of_bits (header_bits bs))"

lemma header_decode_exact_Inr [ok_iff]:
  "header_decode_exact bs = Inr h \<Longrightarrow>
     length bs = 80 \<and> bh_bits h = header_bits bs \<and> bh_previous_block h = header_previous bs
       \<and> bh_raw h = bs"
  by (auto simp: header_decode_exact_def BITCOIN_HEADER_LEN_def header_bits_def header_previous_def
      split: if_splits)

lemma successor_step:
  assumes "wf_uint256 (pp_pow_limit p)" "wf_uint256 (hc_cumulative_work s)"
    and "verify_successor_header H p s bs = Inr s'"
  shows "header_pow_ok H p bs" "header_previous bs = pv_hash (hc_tip s)"
    "pv_hash (hc_tip s') = double_sha256 H bs"
    "unat (hc_height s') = unat (hc_height s) + 1" "wf_uint256 (hc_cumulative_work s')"
    "uint_nat (hc_cumulative_work s') =
       uint_nat (hc_cumulative_work s) + bits_work (header_bits bs)"
  using assms(3)
  unfolding verify_successor_header_iff [OF assms(1,2)] verify_header_pow_iff [OF assms(1)]
  by (auto simp: verified_of_def header_pow_ok_def block_hash_of_def dest!: header_decode_exact_Inr)

interpretation headers: guarded_runs "verify_successor_header H p"
    "\<lambda>s. wf_uint256 (pp_pow_limit p) \<and> wf_uint256 (hc_cumulative_work s)"
    "\<lambda>s. unat (hc_height s)"
    "\<lambda>s t. uint_nat (hc_cumulative_work s) \<le> uint_nat (hc_cumulative_work t)" for H p
proof unfold_locales
  fix s bs s'
  assume "wf_uint256 (pp_pow_limit p) \<and> wf_uint256 (hc_cumulative_work s)"
    and "verify_successor_header H p s bs = Inr s'"
  note step = successor_step [OF conjunct1 [OF this(1)] conjunct2 [OF this(1)] this(2)]
  show "wf_uint256 (pp_pow_limit p) \<and> wf_uint256 (hc_cumulative_work s')"
    using step(5) \<open>wf_uint256 (pp_pow_limit p) \<and> _\<close> by simp
  show "unat (hc_height s') = Suc (unat (hc_height s))" using step(4) by simp
  show "uint_nat (hc_cumulative_work s) \<le> uint_nat (hc_cumulative_work s')" using step(6) by simp
qed simp_all

lemma successor_run:
  assumes "wf_uint256 (pp_pow_limit p)"
  shows "wf_uint256 (hc_cumulative_work s) \<Longrightarrow>
    try_fold (verify_successor_header H p) s bs = Inr t \<Longrightarrow>
      linked H (pv_hash (hc_tip s)) bs
      \<and> pv_hash (hc_tip t) = tip_hash H (pv_hash (hc_tip s)) bs
      \<and> uint_nat (hc_cumulative_work t) =
          uint_nat (hc_cumulative_work s) + (\<Sum>b \<leftarrow> bs. bits_work (header_bits b))
      \<and> list_all (header_pow_ok H p) bs"
proof (induction bs arbitrary: s)
  case (Cons b bs)
  then obtain u where u: "verify_successor_header H p s b = Inr u"
    "try_fold (verify_successor_header H p) u bs = Inr t"
    by (auto simp: and_then_Inr)
  note step = successor_step [OF assms Cons.prems(1) u(1)]
  from Cons.IH [OF step(5) u(2)] step show ?case by (auto simp: tip_hash_def)
qed (simp add: tip_hash_def)

lemma linked_snoc:
  "linked H previous (bs @ [b]) \<longleftrightarrow>
     linked H previous bs \<and> header_previous b = tip_hash H previous bs"
  by (induction bs arbitrary: previous) (auto simp: tip_hash_def)

lemma linked_inject:
  "length bs = length cs \<Longrightarrow> linked H previous bs \<Longrightarrow> linked H previous cs \<Longrightarrow>
     tip_hash H previous bs = tip_hash H previous cs \<Longrightarrow>
     inj_on (double_sha256 H) (set bs \<union> set cs) \<Longrightarrow> bs = cs"
proof (induction bs cs rule: rev_induct2)
  case (4 b bs c cs)
  have "double_sha256 H b = double_sha256 H c" using 4 by (simp add: tip_hash_def)
  then have "b = c" by (rule inj_onD [OF 4(6)]) simp_all
  moreover have "bs = cs"
  proof (rule 4(1))
    show "inj_on (double_sha256 H) (set bs \<union> set cs)" using 4(6) by (rule inj_on_subset) auto
  qed (use 4 \<open>b = c\<close> in \<open>simp_all add: linked_snoc\<close>)
  ultimately show ?case by simp
qed simp_all

subsection \<open>Properties\<close>

text \<open>
  Compact targets. The decoder accepts compact bits exactly when the sign bit is clear and
  the number the mantissa and exponent stand for, computed without any bound, is positive and
  at most the limit; it then returns that number. In particular the exponent thresholds 32, 33
  and 34 of the overflow test are exact: no representable target is refused, and no larger one
  wraps around.
\<close>

theorem compact_target_exact:
  assumes "wf_uint256 limit"
  shows "decode_and_validate_target bits limit = Inr t \<longleftrightarrow>
    bits AND 0x00800000 = 0 \<and> wf_uint256 t \<and> uint_nat t = target_of_bits bits
      \<and> 0 < target_of_bits bits \<and> target_of_bits bits \<le> uint_nat limit"
  using decode_target_iff [OF assms, of bits t] by auto

theorem compact_target_exact_witness:
  "decode_and_validate_target 0x1d00ffff uint_MAX = Inr (from_limbs_le [0, 0, 0, 0xffff0000])"
  by (subst compact_target_exact, simp, unfold uint_nat_MAX)
    (simp add: target_of_bits_def uint_nat_def from_limbs_le_def limb_base_def wf_uint256_def)

text \<open>
  The 256-step shift-and-subtract division with its five-limb remainder, the carry chain
  and the complement compute Bitcoin's block proof exactly: \<open>block_work\<close> returns
  \<open>2 ^ 256 div (target + 1)\<close>, and refuses only the two targets (zero and the largest number)
  for which that quotient or the divisor does not fit 256 bits.
\<close>

theorem block_work_exact:
  assumes "wf_uint256 t"
  shows "block_work t = Inr w \<longleftrightarrow>
    0 < uint_nat t \<and> uint_nat t + 1 < 2 ^ 256
      \<and> wf_uint256 w \<and> uint_nat w = 2 ^ 256 div (uint_nat t + 1)"
  using assms by (rule block_work_iff)

theorem block_work_exact_witness:
  "block_work (from_limbs_le [0, 0, 0, 0xffff0000]) = Inr (from_limbs_le [0x100010001, 0, 0, 0])"
  by (subst block_work_exact) (simp, simp add: uint_nat_def from_limbs_le_def limb_base_def wf_uint256_def)

text \<open>
  C32: the retarget. At the first block of an interval the required bits are the compact form
  of the previous target scaled by the clamped timespan and capped by the limit. When the scaled
  target is not zero these bits have no sign bit and stand for a target that rounds the scaled
  one down by less than one part in 2 ^ 15; so the next target is positive, within the limit
  and at most four times the previous one.
\<close>

theorem retarget_bounds:
  assumes "wf_uint256 (pp_pow_limit p)" "pow_interval p = Inr interval"
    and "hc_height s \<noteq> - 1" "(hc_height s + 1) mod interval = 0" "\<not> pp_no_retargeting p"
    and "next_work_required s p = Inr b" "retarget_value s p \<noteq> 0"
  shows "b AND 0x00800000 = 0 \<and> rounds_down (retarget_value s p) (target_of_bits b)
    \<and> target_of_bits b \<le> uint_nat (pp_pow_limit p)
    \<and> target_of_bits b \<le> 4 * target_of_bits (bh_bits (pv_header (hc_tip s)))"
proof -
  let ?old = "target_of_bits (bh_bits (pv_header (hc_tip s)))"
  let ?a = "nat (actual_timespan s p)" and ?T = "unat (pp_target_timespan p)"
  have b: "unat b = compact_word (retarget_value s p)"
    using next_work_required_retarget [OF assms(1-5)] assms(6) by blast
  have limit: "retarget_value s p \<le> uint_nat (pp_pow_limit p)" by (simp add: retarget_value_def)
  with uint_bound [OF assms(1)] have "retarget_value s p < 2 ^ 256" by linarith
  note decoded = compact_word_decodes [OF assms(7) this b]
  have "?T \<noteq> 0" using assms(2) by (auto simp: pow_interval_def unat_eq_0 split: if_splits)
  have "?a \<le> 4 * ?T"
    using actual_timespan_bounds(2) [of s p] by (simp only: nat_le_iff) simp
  then have "?old * ?a \<le> ?old * (4 * ?T)" by (rule mult_le_mono2)
  then have "?old * ?a div ?T \<le> (4 * ?old) * ?T div ?T" by (intro div_le_mono) (simp add: ac_simps)
  also have "\<dots> = 4 * ?old" using \<open>?T \<noteq> 0\<close> by simp
  finally have "retarget_value s p \<le> 4 * ?old" by (simp add: retarget_value_def min.coboundedI1)
  with limit decoded show ?thesis by (auto simp: rounds_down_def)
qed

definition example_tip :: "u32 \<Rightarrow> pow_verified_header" where
  "example_tip bits =
     \<lparr> pv_header = \<lparr> bh_version = 0, bh_previous_block = 0, bh_merkle_root = 0, bh_time = 2000,
                     bh_bits = bits, bh_nonce = 0, bh_raw = [] \<rparr>,
       pv_hash = 1, pv_target = uint_MAX, pv_work = from_limbs_le [1, 0, 0, 0] \<rparr>"

definition example_chain :: "u32 \<Rightarrow> u32 \<Rightarrow> header_chain_state" where
  "example_chain height bits = \<lparr> hc_height = height, hc_tip = example_tip bits,
     hc_cumulative_work = from_limbs_le [5, 0, 0, 0], hc_interval_start_time = 1000 \<rparr>"

definition example_pow :: pow_parameters where
  "example_pow = LAYER_TWO_SIGNET\<lparr> pp_pow_limit := uint_MAX \<rparr>"

lemma example_pow_simps [simp]:
  "pp_pow_limit example_pow = uint_MAX" "pow_interval example_pow = Inr 2016"
  "\<not> pp_no_retargeting example_pow" "pp_target_timespan example_pow = 1209600"
  "\<not> pp_allow_min_difficulty_blocks example_pow"
  by (simp_all add: example_pow_def LAYER_TWO_SIGNET_def pow_interval_def)

lemma example_mod: "(2016 :: u32) mod 2016 = 0" "(2015 :: u32) mod 2016 = 2015"
  by (simp_all flip: unat_eq_iff add: unat_mod_distrib)

lemma example_retarget_value:
  "retarget_value (example_chain 2015 0x1d00ffff) example_pow = 0x3fffc0 * 256 ^ 25"
  by (simp add: retarget_value_def example_chain_def example_tip_def actual_timespan_def clamp_def
      uint_nat_MAX target_of_bits_def)

lemma bit_length_eqI: "2 ^ k \<le> n \<Longrightarrow> n < 2 ^ Suc k \<Longrightarrow> bit_length n = Suc k"
  using bit_length_iff [of n k] bit_length_iff [of n "Suc k"] by simp

lemma example_retarget_bits:
  "next_work_required (example_chain 2015 0x1d00ffff) example_pow = Inr 0x1c3fffc0"
proof (subst next_work_required_retarget [where interval = 2016])
  show "(hc_height (example_chain 2015 0x1d00ffff) + 1) mod 2016 = 0"
    by (simp add: example_chain_def example_mod(1))
  have "bit_length (0x3fffc0 * 256 ^ 25) = Suc 221" by (rule bit_length_eqI) simp_all
  then have "compact_word (0x3fffc0 * 256 ^ 25) = 0x1c3fffc0"
    by (simp add: compact_word_def compact_parts_def div_ceil_def)
  then show "bh_bits (pv_header (hc_tip (example_chain 2015 0x1d00ffff))) AND 0x00800000 = 0
    \<and> 0 < target_of_bits (bh_bits (pv_header (hc_tip (example_chain 2015 0x1d00ffff))))
    \<and> target_of_bits (bh_bits (pv_header (hc_tip (example_chain 2015 0x1d00ffff))))
        \<le> uint_nat (pp_pow_limit example_pow)
    \<and> target_of_bits (bh_bits (pv_header (hc_tip (example_chain 2015 0x1d00ffff))))
        * nat (actual_timespan (example_chain 2015 0x1d00ffff) example_pow) < 2 ^ 256
    \<and> unat (0x1c3fffc0 :: u32)
        = compact_word (retarget_value (example_chain 2015 0x1d00ffff) example_pow)"
    unfolding example_retarget_value
    by (simp add: example_chain_def example_tip_def actual_timespan_def clamp_def uint_nat_MAX
        target_of_bits_def)
qed (simp_all add: example_chain_def)

theorem retarget_bounds_witness:
  "0x1c3fffc0 AND 0x00800000 = (0 :: u32)
   \<and> rounds_down (retarget_value (example_chain 2015 0x1d00ffff) example_pow)
       (target_of_bits 0x1c3fffc0)
   \<and> target_of_bits 0x1c3fffc0 \<le> uint_nat (pp_pow_limit example_pow)
   \<and> target_of_bits 0x1c3fffc0
       \<le> 4 * target_of_bits (bh_bits (pv_header (hc_tip (example_chain 2015 0x1d00ffff))))"
proof (rule retarget_bounds)
  show "next_work_required (example_chain 2015 0x1d00ffff) example_pow = Inr 0x1c3fffc0"
    by (rule example_retarget_bits)
  show "retarget_value (example_chain 2015 0x1d00ffff) example_pow \<noteq> 0"
    unfolding example_retarget_value by simp
  show "pow_interval example_pow = Inr 2016" by simp
qed (simp_all add: example_chain_def example_mod)

text \<open>
  C31: a run of accepted successors. From a state with a well-formed work counter, a list of
  headers accepted one after the other raises the height by one each, adds to the cumulative
  work exactly the sum of the block proofs of the claimed targets, consists of 80-byte headers
  each naming the hash of the one before it, and every header meets a target within the limit.
\<close>

theorem header_run:
  assumes "wf_uint256 (pp_pow_limit p)" "wf_uint256 (hc_cumulative_work s)"
    and "try_fold (verify_successor_header H p) s bs = Inr t"
  shows "unat (hc_height t) = unat (hc_height s) + length bs
    \<and> linked H (pv_hash (hc_tip s)) bs
    \<and> uint_nat (hc_cumulative_work t) =
        uint_nat (hc_cumulative_work s) + (\<Sum>b \<leftarrow> bs. bits_work (header_bits b))
    \<and> list_all (header_pow_ok H p) bs"
  using successor_run [OF assms] headers.guarded_seq [OF conjI [OF assms(1,2)] assms(3)] by simp

definition example_header :: bytes where
  "example_header =
     replicate 35 0 @ [1] @ replicate 36 0 @ [0xff, 0xff, 0x7f, 0x20] @ replicate 4 0"

definition example_successor :: "bytes \<Rightarrow> header_chain_state" where
  "example_successor header =
     \<lparr> hc_height = 2015,
       hc_tip = \<lparr> pv_header = projr (header_decode_exact header), pv_hash = 1,
                  pv_target = from_limbs_le [0, 0, 0, 0x7fffff0000000000],
                  pv_work = from_limbs_le [2, 0, 0, 0] \<rparr>,
       hc_cumulative_work = from_limbs_le [7, 0, 0, 0], hc_interval_start_time = 1000 \<rparr>"

definition example_next :: header_chain_state where
  "example_next = example_successor example_header"

lemma nat_le_replicate_0: "nat_le (replicate n 0) = 0"
  by (induction n) simp_all

lemma example_header_fields:
  "length example_header = 80" "header_bits example_header = 0x207fffff"
  "header_previous example_header = 1"
  by (simp_all add: example_header_def header_bits_def header_previous_def u32_from_le_bytes_def
      from_be_bytes_def nat_le_append nat_le_replicate_0)

lemma le_nat_0: "le_nat n 0 = replicate n 0"
  by (induction n) simp_all

lemma hash_number_1: "hash_number 1 = 2 ^ 248"
proof -
  have "le_nat (Suc 31) 1 = [1] @ replicate 31 0"
    by (simp only: le_nat.simps) (simp add: le_nat_0)
  then show ?thesis
    by (simp add: hash_number_def enc_hash32_def to_be_bytes_def nat_le_append nat_le_replicate_0)
qed

lemma example_successor_step:
  assumes "length header = 80" "header_bits header = 0x207fffff" "header_previous header = 1"
  shows "verify_successor_header toy_hash example_pow (example_chain 2014 0x207fffff) header
     = Inr (example_successor header)"
proof -
  obtain h where h: "header_decode_exact header = Inr h"
    by (simp add: header_decode_exact_def assms(1) BITCOIN_HEADER_LEN_def)
  note fields = header_decode_exact_Inr [OF h]
  have bits: "next_work_required (example_chain 2014 0x207fffff) example_pow = Inr 0x207fffff"
    by (simp add: next_work_required_def example_chain_def example_tip_def checked_add_def)
  have ok: "bits_ok example_pow 0x207fffff"
    by (simp add: bits_ok_def target_of_bits_def uint_nat_MAX)
  have "verify_header_pow toy_hash header 0x207fffff example_pow
      = Inr (hc_tip (example_successor header))"
    using fields h hash_number_1 ok
    by (subst verify_header_pow_iff)
      (auto simp: assms example_successor_def target_of_bits_def uint_MAX_def
        block_hash_of_def double_sha256_def verified_of_def bits_work_def
        uint_nat_def from_limbs_le_def limb_base_def wf_uint256_def)
  then show ?thesis
    using bits fields h
    by (subst verify_successor_header_iff)
      (simp_all add: example_chain_def example_tip_def example_successor_def assms
        uint_MAX_def
        uint_nat_def from_limbs_le_def limb_base_def wf_uint256_def)
qed

lemma example_step:
  "verify_successor_header toy_hash example_pow (example_chain 2014 0x207fffff) example_header
     = Inr example_next"
  unfolding example_next_def by (rule example_successor_step) (simp_all add: example_header_fields)

theorem header_run_witness:
  "unat (hc_height example_next) = unat (hc_height (example_chain 2014 0x207fffff)) + length [example_header]
   \<and> linked toy_hash (pv_hash (hc_tip (example_chain 2014 0x207fffff))) [example_header]
   \<and> uint_nat (hc_cumulative_work example_next) =
       uint_nat (hc_cumulative_work (example_chain 2014 0x207fffff))
         + (\<Sum>b \<leftarrow> [example_header]. bits_work (header_bits b))
   \<and> list_all (header_pow_ok toy_hash example_pow) [example_header]"
  by (rule header_run) (simp_all add: example_step, simp add: example_chain_def)

text \<open>
  The tip hash binds the history. Two runs of accepted successors from the same state that
  reach tips of the same height and the same hash consist of the same headers, unless two
  different headers among them have the same double SHA-256.
\<close>

theorem header_run_binds:
  assumes "wf_uint256 (pp_pow_limit p)" "wf_uint256 (hc_cumulative_work s)"
    and "try_fold (verify_successor_header H p) s bs = Inr t"
    and "try_fold (verify_successor_header H p) s cs = Inr u"
    and "hc_height t = hc_height u" "pv_hash (hc_tip t) = pv_hash (hc_tip u)"
    and "inj_on (double_sha256 H) (set bs \<union> set cs)"
  shows "bs = cs"
proof (rule linked_inject)
  note runs = successor_run [OF assms(1,2,3)] successor_run [OF assms(1,2,4)]
  show "length bs = length cs"
    using headers.guarded_seq [OF conjI [OF assms(1,2)] assms(3)]
      headers.guarded_seq [OF conjI [OF assms(1,2)] assms(4)] assms(5) by simp
  show "linked H (pv_hash (hc_tip s)) bs" "linked H (pv_hash (hc_tip s)) cs"
    "tip_hash H (pv_hash (hc_tip s)) bs = tip_hash H (pv_hash (hc_tip s)) cs"
    using runs assms(6) by simp_all
qed (rule assms(7))

theorem header_run_binds_witness: "[example_header] = [example_header]"
proof (rule header_run_binds [of example_pow "example_chain 2014 0x207fffff" toy_hash])
  show "wf_uint256 (hc_cumulative_work (example_chain 2014 0x207fffff))"
    by (simp add: example_chain_def)
qed (simp_all add: example_step)

end
