(* ===== verification/M7.thy ===== *)
theory M7
  imports Bitcoin_Header
begin

section \<open>The slot-24 M7 commitment (usdd-bitcoin-bmm/src/lib.rs)\<close>

text \<open>
  Parsing of the single \<open>OP_RETURN\<close> push of a script and the scan of the coinbase output
  scripts for the one canonical merged-mining commitment of slot 24. The scan keeps the five
  loop variables of the code in a record and stops at the first exceeded bound.
\<close>

definition ELEMENTS_DRIVECHAIN_SLOT :: u8 where "ELEMENTS_DRIVECHAIN_SLOT = 24"
definition BITCOIN_MAX_BLOCK_WEIGHT :: nat where "BITCOIN_MAX_BLOCK_WEIGHT = 4000000"
definition BITCOIN_WITNESS_SCALE_FACTOR :: nat where "BITCOIN_WITNESS_SCALE_FACTOR = 4"

definition BITCOIN_MAX_BLOCK_BASE_BYTES :: nat where
  "BITCOIN_MAX_BLOCK_BASE_BYTES = BITCOIN_MAX_BLOCK_WEIGHT div BITCOIN_WITNESS_SCALE_FACTOR"

definition BITCOIN_MIN_SERIALIZED_TXOUT_BASE_BYTES :: nat where
  "BITCOIN_MIN_SERIALIZED_TXOUT_BASE_BYTES = 9"

definition BITCOIN_MAX_COINBASE_OUTPUTS :: nat where
  "BITCOIN_MAX_COINBASE_OUTPUTS =
     BITCOIN_MAX_BLOCK_BASE_BYTES div BITCOIN_MIN_SERIALIZED_TXOUT_BASE_BYTES"

definition BITCOIN_MAX_COINBASE_OUTPUT_SCRIPT_BYTES :: nat where
  "BITCOIN_MAX_COINBASE_OUTPUT_SCRIPT_BYTES = BITCOIN_MAX_BLOCK_BASE_BYTES"

definition OP_RETURN :: u8 where "OP_RETURN = 0x6a"
definition OP_PUSHDATA1 :: u8 where "OP_PUSHDATA1 = 0x4c"
definition OP_PUSHDATA2 :: u8 where "OP_PUSHDATA2 = 0x4d"
definition OP_PUSHDATA4 :: u8 where "OP_PUSHDATA4 = 0x4e"
definition M7_TAG :: bytes where "M7_TAG = [0xd1, 0x61, 0x73, 0x68]"
definition M7_PAYLOAD_LEN :: nat where "M7_PAYLOAD_LEN = 4 + 1 + 32"
definition M7_CANONICAL_SCRIPT_LEN :: nat where "M7_CANONICAL_SCRIPT_LEN = 1 + 1 + M7_PAYLOAD_LEN"

lemmas m7_consts = ELEMENTS_DRIVECHAIN_SLOT_def BITCOIN_MAX_BLOCK_WEIGHT_def
  BITCOIN_WITNESS_SCALE_FACTOR_def BITCOIN_MAX_BLOCK_BASE_BYTES_def
  BITCOIN_MIN_SERIALIZED_TXOUT_BASE_BYTES_def BITCOIN_MAX_COINBASE_OUTPUTS_def
  BITCOIN_MAX_COINBASE_OUTPUT_SCRIPT_BYTES_def OP_RETURN_def M7_PAYLOAD_LEN_def
  M7_CANONICAL_SCRIPT_LEN_def

datatype m7_error =
    Missing
  | Duplicate
  | NonCanonical
  | TooManyOutputs
  | AggregateScriptBytesExceeded
  | OutputIndexOverflow
  | WrongChildHash

record unbound_canonical_m7 =
  m7_output_index :: u32
  m7_committed_child_hash :: block_hash

definition require_child_hash ::
  "unbound_canonical_m7 \<Rightarrow> block_hash \<Rightarrow> m7_error + unbound_canonical_m7" where
  "require_child_hash m expected =
     (if m7_committed_child_hash m \<noteq> expected then Inl WrongChildHash else Inr m)"

subsection \<open>The push of an OP_RETURN script\<close>

definition script_get :: "bytes \<Rightarrow> nat \<Rightarrow> u8 option" where
  "script_get s i = (if i < length s then Some (s ! i) else None)"

definition push_bounds :: "bytes \<Rightarrow> (nat \<times> nat) option" where
  "push_bounds s =
     (let opcode = s ! 1 in
      if opcode = 0 then Some (2, 0)
      else if 1 \<le> opcode \<and> opcode \<le> 75 then Some (2, unat opcode)
      else if opcode = OP_PUSHDATA1 then
        Option.bind (script_get s 2) (\<lambda>l. Some (3, unat l))
      else if opcode = OP_PUSHDATA2 then
        Option.bind (script_get s 2) (\<lambda>a. Option.bind (script_get s 3) (\<lambda>b.
          Some (4, nat_le [a, b])))
      else if opcode = OP_PUSHDATA4 then
        Option.bind (script_get s 2) (\<lambda>a. Option.bind (script_get s 3) (\<lambda>b.
          Option.bind (script_get s 4) (\<lambda>c. Option.bind (script_get s 5) (\<lambda>d.
            Some (6, nat_le [a, b, c, d])))))
      else None)"

definition extract_single_op_return_push :: "bytes \<Rightarrow> bytes option" where
  "extract_single_op_return_push s =
     (if length s < 2 \<or> s ! 0 \<noteq> OP_RETURN then None
      else Option.bind (push_bounds s) (\<lambda>(payload_start, payload_len).
        Option.bind (usize_checked_add payload_start payload_len) (\<lambda>payload_end.
        if payload_end \<noteq> length s then None
        else Some (drop payload_start s))))"

subsection \<open>The scan of the coinbase outputs\<close>

record m7_scan =
  ms_matches :: nat
  ms_noncanonical :: nat
  ms_matched_index :: u32
  ms_child_hash :: block_hash
  ms_aggregate_script_bytes :: nat

definition m7_step :: "m7_scan \<Rightarrow> nat \<times> bytes \<Rightarrow> m7_error + m7_scan" where
  "m7_step st = (\<lambda>(index, s).
     and_then (ok_or (usize_checked_add (ms_aggregate_script_bytes st) (length s))
       AggregateScriptBytesExceeded) (\<lambda>aggregate.
     if BITCOIN_MAX_COINBASE_OUTPUT_SCRIPT_BYTES < aggregate
     then Inl AggregateScriptBytesExceeded
     else let st = st\<lparr> ms_aggregate_script_bytes := aggregate \<rparr> in
       (case extract_single_op_return_push s of
          None \<Rightarrow> Inr st
        | Some payload \<Rightarrow>
            if length payload \<noteq> M7_PAYLOAD_LEN \<or> take 4 payload \<noteq> M7_TAG
              \<or> payload ! 4 \<noteq> ELEMENTS_DRIVECHAIN_SLOT
            then Inr st
            else if 2 ^ 32 \<le> index then Inl OutputIndexOverflow
            else Inr (st\<lparr>
              ms_matches := ms_matches st + 1,
              ms_noncanonical :=
                (if length s \<noteq> M7_CANONICAL_SCRIPT_LEN \<or> s ! 0 \<noteq> OP_RETURN
                   \<or> unat (s ! 1) \<noteq> M7_PAYLOAD_LEN
                 then ms_noncanonical st + 1 else ms_noncanonical st),
              ms_matched_index := of_nat index,
              ms_child_hash := from_be_bytes (take 32 (drop 5 payload)) \<rparr>))))"

definition m7_start :: m7_scan where
  "m7_start = \<lparr> ms_matches = 0, ms_noncanonical = 0, ms_matched_index = 0, ms_child_hash = 0,
                ms_aggregate_script_bytes = 0 \<rparr>"

definition m7_finish :: "m7_scan \<Rightarrow> m7_error + unbound_canonical_m7" where
  "m7_finish st =
     (if ms_noncanonical st \<noteq> 0 then Inl NonCanonical
      else if ms_matches st = 0 then Inl Missing
      else if ms_matches st = 1 then
        Inr \<lparr> m7_output_index = ms_matched_index st,
              m7_committed_child_hash = ms_child_hash st \<rparr>
      else Inl Duplicate)"

definition extract_elements_slot24_m7 :: "bytes list \<Rightarrow> m7_error + unbound_canonical_m7" where
  "extract_elements_slot24_m7 scripts =
     (if BITCOIN_MAX_COINBASE_OUTPUTS < length scripts then Inl TooManyOutputs
      else and_then (try_fold m7_step m7_start (enumerate 0 scripts)) m7_finish)"

subsection \<open>What the scan computes\<close>

definition m7_payload :: "bytes \<Rightarrow> bytes option" where
  "m7_payload s =
     (case extract_single_op_return_push s of
        None \<Rightarrow> None
      | Some payload \<Rightarrow>
          if length payload = 37 \<and> take 4 payload = M7_TAG \<and> payload ! 4 = 24
          then Some payload else None)"

definition carries_m7 :: "bytes \<Rightarrow> bool" where
  "carries_m7 s = (m7_payload s \<noteq> None)"

definition m7_hash :: "bytes \<Rightarrow> block_hash" where
  "m7_hash s = from_be_bytes (take 32 (drop 5 (expect (m7_payload s))))"

definition is_canonical :: "bytes \<Rightarrow> bool" where
  "is_canonical s = (length s = 39 \<and> s ! 0 = 0x6a \<and> unat (s ! 1) = 37)"

definition canonical_m7_script :: "block_hash \<Rightarrow> bytes" where
  "canonical_m7_script h = [0x6a, 37] @ M7_TAG @ [24] @ enc_hash32 h"

lemma m7_step_iff:
  assumes "index < 2 ^ 32"
  shows "m7_step st (index, s) =
    (if 1000000 < ms_aggregate_script_bytes st + length s then Inl AggregateScriptBytesExceeded
     else if carries_m7 s then
       Inr \<lparr> ms_matches = ms_matches st + 1,
             ms_noncanonical = ms_noncanonical st + of_bool (\<not> is_canonical s),
             ms_matched_index = of_nat index, ms_child_hash = m7_hash s,
             ms_aggregate_script_bytes = ms_aggregate_script_bytes st + length s \<rparr>
     else Inr (st\<lparr> ms_aggregate_script_bytes := ms_aggregate_script_bytes st + length s \<rparr>))"
proof (cases "1000000 < ms_aggregate_script_bytes st + length s")
  case True
  then show ?thesis by (simp add: m7_step_def usize_checked_add_def m7_consts)
next
  case False
  then show ?thesis
    using assms
    by (cases "extract_single_op_return_push s")
      (simp_all add: m7_step_def usize_checked_add_def m7_consts carries_m7_def m7_payload_def
        m7_hash_def is_canonical_def)
qed

definition scan_invariant :: "bytes list \<Rightarrow> m7_scan \<Rightarrow> bool" where
  "scan_invariant scripts st =
     (ms_aggregate_script_bytes st = (\<Sum>s \<leftarrow> scripts. length s)
       \<and> ms_matches st = length (filter carries_m7 scripts)
       \<and> ms_noncanonical st = length (filter (\<lambda>s. carries_m7 s \<and> \<not> is_canonical s) scripts)
       \<and> (ms_matches st \<noteq> 0 \<longrightarrow> (\<exists>i < length scripts. carries_m7 (scripts ! i)
            \<and> ms_matched_index st = of_nat i \<and> ms_child_hash st = m7_hash (scripts ! i))))"

lemma ex_nth_snoc:
  assumes "\<exists>i < length xs. Q (xs ! i) i"
  shows "\<exists>i < length (xs @ [x]). Q ((xs @ [x]) ! i) i"
proof -
  from assms obtain i where "i < length xs" "Q (xs ! i) i" by blast
  then show ?thesis by (intro exI [of _ i]) (simp add: nth_append)
qed

lemma scan_run:
  "length scripts \<le> 2 ^ 32 \<Longrightarrow>
     (if (\<Sum>s \<leftarrow> scripts. length s) \<le> 1000000
      then \<exists>st. try_fold m7_step m7_start (enumerate 0 scripts) = Inr st \<and> scan_invariant scripts st
      else try_fold m7_step m7_start (enumerate 0 scripts) = Inl AggregateScriptBytesExceeded)"
proof (induction scripts rule: rev_induct)
  case Nil
  show ?case by (simp add: m7_start_def scan_invariant_def)
next
  case (snoc s scripts)
  let ?run = "try_fold m7_step m7_start (enumerate 0 scripts)"
  have enum: "enumerate 0 (scripts @ [s]) = enumerate 0 scripts @ [(length scripts, s)]"
    by (simp add: enumerate_append_eq)
  have index: "length scripts < 2 ^ 32" using snoc.prems by simp
  note step = m7_step_iff [OF index, where s = s]
  show ?case
  proof (cases "(\<Sum>s \<leftarrow> scripts. length s) \<le> 1000000")
    case True
    with snoc obtain st where st: "?run = Inr st" "scan_invariant scripts st" by auto
    then have run: "try_fold m7_step m7_start (enumerate 0 (scripts @ [s])) =
        m7_step st (length scripts, s)"
      by (simp add: enum try_fold_append del: enumerate_append_eq)
        (cases "m7_step st (length scripts, s)"; simp)
    have agg: "ms_aggregate_script_bytes st = (\<Sum>s \<leftarrow> scripts. length s)"
      using st(2) by (simp add: scan_invariant_def)
    show ?thesis
    proof (cases "carries_m7 s")
      case True
      with st(2) have "scan_invariant (scripts @ [s]) \<lparr> ms_matches = ms_matches st + 1,
             ms_noncanonical = ms_noncanonical st + of_bool (\<not> is_canonical s),
             ms_matched_index = of_nat (length scripts), ms_child_hash = m7_hash s,
             ms_aggregate_script_bytes = ms_aggregate_script_bytes st + length s \<rparr>"
        unfolding scan_invariant_def by (intro conjI impI exI [of _ "length scripts"]) simp_all
      with True agg show ?thesis unfolding run step by simp
    next
      case False
      have "scan_invariant (scripts @ [s])
          (st\<lparr> ms_aggregate_script_bytes := ms_aggregate_script_bytes st + length s \<rparr>)"
        using st(2) False ex_nth_snoc [of scripts "\<lambda>t i. carries_m7 t
            \<and> ms_matched_index st = of_nat i \<and> ms_child_hash st = m7_hash t" s]
        unfolding scan_invariant_def by simp
      with False agg show ?thesis unfolding run step by simp
    qed
  next
    case False
    with snoc show ?thesis by (simp add: enum try_fold_append)
  qed
qed

lemma canonical_payload:
  assumes "is_canonical s"
  shows "m7_payload s = (if take 4 (drop 2 s) = M7_TAG \<and> s ! 6 = 24 then Some (drop 2 s) else None)"
proof -
  have s: "length s = 39" "s ! 0 = 0x6a" "s ! 1 = 37"
    using assms by (auto simp: is_canonical_def unat_eq_iff [symmetric])
  then have "extract_single_op_return_push s = Some (drop 2 s)"
    by (simp add: extract_single_op_return_push_def push_bounds_def OP_RETURN_def
        usize_checked_add_def Let_def)
  then show ?thesis using s(1) by (simp add: m7_payload_def)
qed

lemma canonical_script_fields:
  "length (canonical_m7_script h) = 39" "is_canonical (canonical_m7_script h)"
  "m7_payload (canonical_m7_script h) = Some (M7_TAG @ [24] @ enc_hash32 h)"
proof -
  show "length (canonical_m7_script h) = 39" "is_canonical (canonical_m7_script h)"
    by (simp_all add: canonical_m7_script_def is_canonical_def M7_TAG_def)
  then show "m7_payload (canonical_m7_script h) = Some (M7_TAG @ [24] @ enc_hash32 h)"
    by (subst canonical_payload) (simp_all add: canonical_m7_script_def M7_TAG_def)
qed

lemma dec_enc_hash32: "from_be_bytes (enc_hash32 h) = h"
  by (simp add: enc_hash32_def from_to_be_bytes)

lemma canonical_script_iff:
  "carries_m7 s \<and> is_canonical s \<and> m7_hash s = h \<longleftrightarrow> s = canonical_m7_script h"
proof
  assume s: "carries_m7 s \<and> is_canonical s \<and> m7_hash s = h"
  then have len: "length s = 39" "s ! 0 = 0x6a" "s ! 1 = 37"
    by (auto simp: is_canonical_def unat_eq_iff [symmetric])
  have tag: "take 4 (drop 2 s) = M7_TAG" "s ! 6 = 24" "m7_payload s = Some (drop 2 s)"
    using s canonical_payload [of s] by (auto simp: carries_m7_def split: if_splits)
  then have "h = from_be_bytes (drop 7 s)" using s len by (simp add: m7_hash_def)
  then have "enc_hash32 h = drop 7 s" using len by (simp add: enc_hash32_def to_from_be_bytes)
  moreover have "s = [s ! 0, s ! 1] @ take 4 (drop 2 s) @ [s ! 6] @ drop 7 s"
    using len(1) by (auto simp: list_eq_iff_nth_eq nth_append nth_Cons' less_Suc_eq numeral_eq_Suc)
  ultimately show "s = canonical_m7_script h" using len tag by (simp add: canonical_m7_script_def)
next
  assume "s = canonical_m7_script h"
  then show "carries_m7 s \<and> is_canonical s \<and> m7_hash s = h"
    using canonical_script_fields [of h]
    by (simp add: carries_m7_def m7_hash_def dec_enc_hash32 M7_TAG_def)
qed

lemma filter_singleton_iff:
  "length (filter P xs) = 1 \<longleftrightarrow> (\<exists>i < length xs. P (xs ! i) \<and> (\<forall>j < length xs. j \<noteq> i \<longrightarrow> \<not> P (xs ! j)))"
proof -
  have "length (filter P xs) = 1 \<longleftrightarrow> (\<exists>i. {i. i < length xs \<and> P (xs ! i)} = {i})"
    by (simp add: length_filter_conv_card card_1_singleton_iff)
  also have "\<dots> \<longleftrightarrow> (\<exists>i < length xs. P (xs ! i) \<and> (\<forall>j < length xs. j \<noteq> i \<longrightarrow> \<not> P (xs ! j)))"
    by (intro arg_cong [where f = Ex] ext) auto
  finally show ?thesis .
qed

lemma noncanonical_only:
  assumes "i < length xs" "P (xs ! i)" "\<forall>j < length xs. j \<noteq> i \<longrightarrow> \<not> P (xs ! j)"
  shows "filter (\<lambda>x. P x \<and> \<not> Q x) xs = [] \<longleftrightarrow> Q (xs ! i)"
  using assms unfolding filter_empty_conv all_set_conv_all_nth by blast

lemma extract_m7_iff:
  "extract_elements_slot24_m7 scripts = Inr m \<longleftrightarrow>
     length scripts \<le> 111111 \<and> (\<Sum>s \<leftarrow> scripts. length s) \<le> 1000000
       \<and> (\<exists>i < length scripts. m7_output_index m = of_nat i
            \<and> scripts ! i = canonical_m7_script (m7_committed_child_hash m)
            \<and> (\<forall>j < length scripts. j \<noteq> i \<longrightarrow> \<not> carries_m7 (scripts ! j)))"
proof (cases "length scripts \<le> 111111 \<and> (\<Sum>s \<leftarrow> scripts. length s) \<le> 1000000")
  case False
  have "length scripts \<le> 111111 \<Longrightarrow>
      try_fold m7_step m7_start (enumerate 0 scripts) = Inl AggregateScriptBytesExceeded"
    using False scan_run [of scripts] by (simp split: if_splits)
  with False show ?thesis by (auto simp: extract_elements_slot24_m7_def m7_consts)
next
  case True
  then obtain st where st: "try_fold m7_step m7_start (enumerate 0 scripts) = Inr st"
    "scan_invariant scripts st"
    using scan_run [of scripts] by auto
  let ?only = "\<lambda>i. i < length scripts \<and> carries_m7 (scripts ! i)
    \<and> (\<forall>j < length scripts. j \<noteq> i \<longrightarrow> \<not> carries_m7 (scripts ! j))"
  have "extract_elements_slot24_m7 scripts = m7_finish st"
    using True st(1) by (simp add: extract_elements_slot24_m7_def m7_consts)
  then have "extract_elements_slot24_m7 scripts = Inr m \<longleftrightarrow>
      ms_noncanonical st = 0 \<and> ms_matches st = 1
        \<and> m7_output_index m = ms_matched_index st \<and> m7_committed_child_hash m = ms_child_hash st"
    by (cases m) (auto simp: m7_finish_def)
  also have "\<dots> \<longleftrightarrow> (\<exists>i. ?only i \<and> is_canonical (scripts ! i)
      \<and> m7_output_index m = of_nat i \<and> m7_committed_child_hash m = m7_hash (scripts ! i))"
  proof (cases "ms_matches st = 1")
    case True
    then have "length (filter carries_m7 scripts) = 1" using st(2) by (simp add: scan_invariant_def)
    then obtain i where i: "?only i" unfolding filter_singleton_iff by auto
    then have "ms_matched_index st = of_nat i" "ms_child_hash st = m7_hash (scripts ! i)"
      using st(2) True by (auto simp: scan_invariant_def)
    moreover have "ms_noncanonical st = 0 \<longleftrightarrow> is_canonical (scripts ! i)"
      using st(2) i noncanonical_only [of i scripts] by (simp add: scan_invariant_def)
    moreover have "?only k \<longleftrightarrow> k = i" for k using i by auto
    ultimately show ?thesis using True by auto
  next
    case False
    then have "\<not> ?only i" for i
      using st(2) filter_singleton_iff [of carries_m7 scripts] by (auto simp: scan_invariant_def)
    with False show ?thesis by blast
  qed
  also have "\<dots> \<longleftrightarrow> (\<exists>i < length scripts. m7_output_index m = of_nat i
            \<and> scripts ! i = canonical_m7_script (m7_committed_child_hash m)
            \<and> (\<forall>j < length scripts. j \<noteq> i \<longrightarrow> \<not> carries_m7 (scripts ! j)))"
    by (auto simp flip: canonical_script_iff)
  finally show ?thesis using True by simp
qed

lemma filter_only_iff:
  assumes "i < length xs" "P (xs ! i)"
  shows "(\<forall>j < length xs. j \<noteq> i \<longrightarrow> \<not> P (xs ! j)) \<longleftrightarrow> filter P xs = [xs ! i]"
proof
  assume unique: "\<forall>j < length xs. j \<noteq> i \<longrightarrow> \<not> P (xs ! j)"
  then have "length (filter P xs) = 1" using assms unfolding filter_singleton_iff by blast
  then obtain y where y: "filter P xs = [y]" by (auto simp: length_Suc_conv)
  have "xs ! i \<in> set (filter P xs)" using assms by simp
  with y show "filter P xs = [xs ! i]" by simp
next
  assume "filter P xs = [xs ! i]"
  then have "length (filter P xs) = 1" by simp
  then obtain k where "\<forall>j < length xs. j \<noteq> k \<longrightarrow> \<not> P (xs ! j)"
    unfolding filter_singleton_iff by blast
  with assms show "\<forall>j < length xs. j \<noteq> i \<longrightarrow> \<not> P (xs ! j)" by auto
qed

lemma canonical_m7_iff:
  "and_then (extract_elements_slot24_m7 scripts) (\<lambda>m. require_child_hash m h) = Inr m \<longleftrightarrow>
     length scripts \<le> 111111 \<and> (\<Sum>s \<leftarrow> scripts. length s) \<le> 1000000
       \<and> filter carries_m7 scripts = [canonical_m7_script h]
       \<and> m7_committed_child_hash m = h
       \<and> (\<exists>i < length scripts. m7_output_index m = of_nat i
            \<and> scripts ! i = canonical_m7_script h)"
proof -
  have carries: "carries_m7 (canonical_m7_script h)"
    using canonical_script_fields(3) by (simp add: carries_m7_def)
  have only: "(scripts ! i = canonical_m7_script h
        \<and> (\<forall>j < length scripts. j \<noteq> i \<longrightarrow> \<not> carries_m7 (scripts ! j)))
      \<longleftrightarrow> filter carries_m7 scripts = [canonical_m7_script h] \<and> scripts ! i = canonical_m7_script h"
    if "i < length scripts" for i
    using filter_only_iff [OF that, of carries_m7] carries by auto
  have "and_then (extract_elements_slot24_m7 scripts) (\<lambda>m. require_child_hash m h) = Inr m \<longleftrightarrow>
      extract_elements_slot24_m7 scripts = Inr m \<and> m7_committed_child_hash m = h"
    by (auto simp: and_then_Inr require_child_hash_def)
  also have "\<dots> \<longleftrightarrow> length scripts \<le> 111111 \<and> (\<Sum>s \<leftarrow> scripts. length s) \<le> 1000000
      \<and> m7_committed_child_hash m = h \<and> (\<exists>i < length scripts. m7_output_index m = of_nat i
          \<and> (scripts ! i = canonical_m7_script h
             \<and> (\<forall>j < length scripts. j \<noteq> i \<longrightarrow> \<not> carries_m7 (scripts ! j))))"
    by (auto simp: extract_m7_iff)
  also have "\<dots> \<longleftrightarrow> length scripts \<le> 111111 \<and> (\<Sum>s \<leftarrow> scripts. length s) \<le> 1000000
       \<and> filter carries_m7 scripts = [canonical_m7_script h]
       \<and> m7_committed_child_hash m = h
       \<and> (\<exists>i < length scripts. m7_output_index m = of_nat i
            \<and> scripts ! i = canonical_m7_script h)"
    using only by blast
  finally show ?thesis .
qed

subsection \<open>Properties\<close>

text \<open>
  The canonical M7. Extraction followed by \<open>require_child_hash\<close> succeeds exactly when the
  coinbase respects the output and script-byte bounds and exactly one of its scripts carries a
  slot-24 M7 push (in any push encoding), that script being the 39-byte canonical script of
  the expected child hash; the result is the position of that script and the hash.
\<close>

theorem m7_extraction:
  "and_then (extract_elements_slot24_m7 scripts) (\<lambda>m. require_child_hash m h) = Inr m \<longleftrightarrow>
     length scripts \<le> 111111 \<and> (\<Sum>s \<leftarrow> scripts. length s) \<le> 1000000
       \<and> filter carries_m7 scripts = [canonical_m7_script h]
       \<and> m7_committed_child_hash m = h
       \<and> (\<exists>i < length scripts. m7_output_index m = of_nat i
            \<and> scripts ! i = canonical_m7_script h)"
  by (rule canonical_m7_iff)

end
