(* ===== verification/Wire.thy ===== *)
theory Wire
  imports Prelude
begin

section \<open>Reading serialized Bitcoin blocks (usdd-bitcoin-bmm/src/block.rs)\<close>

text \<open>
  The cursor over a serialized block, compact sizes, and the contract of the parsers built on
  it: a parser succeeds exactly when the bytes at the cursor are the serialization of a valid
  item, of which it returns a view, and leaves the cursor behind them. \<open>fits\<close> says that the
  cursor is inside its slice and its position a \<open>usize\<close>.
\<close>

datatype block_structure_error =
    BlockTooShort
  | SerializedBlockTooLarge
  | UnexpectedEnd
  | NonCanonicalCompactSize
  | LengthOverflow
  | TrailingBytes
  | EmptyBlock
  | TooManyTransactions
  | EmptyInputs
  | TooManyInputs
  | EmptyOutputs
  | TooManyOutputs
  | InvalidWitnessFlags
  | SuperfluousWitness
  | FirstTransactionNotCoinbase
  | MultipleCoinbaseTransactions
  | InvalidCoinbaseScriptSize
  | NullPreviousOutput
  | DuplicateInput
  | OutputValueOutOfRange
  | OutputTotalOutOfRange
  | BlockWeightExceeded
  | MerkleRootMismatch
  | MutatedMerkleTree
  | MissingWitnessCommitment
  | InvalidCoinbaseWitness
  | WitnessCommitmentMismatch

record cursor =
  cu_bytes :: bytes
  cu_position :: nat

type_synonym 'a cursor_fn = "cursor \<Rightarrow> block_structure_error + 'a \<times> cursor"

definition cursor_new :: "bytes \<Rightarrow> nat \<Rightarrow> cursor" where
  "cursor_new bs position = \<lparr> cu_bytes = bs, cu_position = position \<rparr>"

definition cur_remaining :: "cursor \<Rightarrow> nat" where
  "cur_remaining c = length (cu_bytes c) - cu_position c"

text \<open>\<open>slice::get(a..b)\<close>, and the slice between two cursor positions.\<close>

definition slice :: "bytes \<Rightarrow> nat \<Rightarrow> nat \<Rightarrow> bytes" where
  "slice bs a b = take (b - a) (drop a bs)"

definition slice_get :: "bytes \<Rightarrow> nat \<Rightarrow> nat \<Rightarrow> bytes option" where
  "slice_get bs a b = (if a \<le> b \<and> b \<le> length bs then Some (slice bs a b) else None)"

definition cur_take :: "nat \<Rightarrow> bytes cursor_fn" where
  "cur_take n c =
     and_then (ok_or (usize_checked_add (cu_position c) n) LengthOverflow) (\<lambda>end_position.
     and_then (ok_or (slice_get (cu_bytes c) (cu_position c) end_position) UnexpectedEnd) (\<lambda>v.
     Inr (v, c\<lparr> cu_position := end_position \<rparr>)))"

definition cur_byte :: "u8 cursor_fn" where
  "cur_byte c = and_then (cur_take 1 c) (\<lambda>(v, c). Inr (v ! 0, c))"

definition cur_peek :: "cursor \<Rightarrow> block_structure_error + u8" where
  "cur_peek c =
     (if cu_position c < length (cu_bytes c) then Inr (cu_bytes c ! cu_position c)
      else Inl UnexpectedEnd)"

definition cur_compact_size :: "nat cursor_fn" where
  "cur_compact_size c =
     and_then (cur_byte c) (\<lambda>(tag, c).
     if tag \<le> 0xfc then Inr (unat tag, c)
     else if tag = 0xfd then and_then (cur_take 2 c) (\<lambda>(bs, c).
       if nat_le bs < 0xfd then Inl NonCanonicalCompactSize else Inr (nat_le bs, c))
     else if tag = 0xfe then and_then (cur_take 4 c) (\<lambda>(bs, c).
       if nat_le bs \<le> 2 ^ 16 - 1 then Inl NonCanonicalCompactSize else Inr (nat_le bs, c))
     else and_then (cur_take 8 c) (\<lambda>(bs, c).
       if nat_le bs \<le> 2 ^ 32 - 1 then Inl NonCanonicalCompactSize else Inr (nat_le bs, c)))"

definition encode_compact_size :: "nat \<Rightarrow> bytes \<Rightarrow> block_structure_error + bytes" where
  "encode_compact_size n out =
     (if n < 0xfd then Inr (out @ [of_nat n])
      else if n \<le> 2 ^ 16 - 1 then Inr (out @ [0xfd] @ le_nat 2 n)
      else if n \<le> 2 ^ 32 - 1 then Inr (out @ [0xfe] @ le_nat 4 n)
      else if n < 2 ^ 64 then Inr (out @ [0xff] @ le_nat 8 n)
      else Inl LengthOverflow)"

text \<open>A loop that runs a parser a fixed number of times and collects what it returns.\<close>

fun parse_n :: "'a cursor_fn \<Rightarrow> nat \<Rightarrow> 'a list cursor_fn" where
  "parse_n p 0 c = Inr ([], c)"
| "parse_n p (Suc n) c =
     and_then (p c) (\<lambda>(x, c). and_then (parse_n p n c) (\<lambda>(xs, c). Inr (x # xs, c)))"

subsection \<open>Eating a byte string\<close>

definition fits :: "cursor \<Rightarrow> bool" where
  "fits c = (cu_position c \<le> length (cu_bytes c) \<and> cu_position c < 2 ^ 64)"

definition ahead :: "cursor \<Rightarrow> bytes" where
  "ahead c = drop (cu_position c) (cu_bytes c)"

definition forward :: "nat \<Rightarrow> cursor \<Rightarrow> cursor" where
  "forward n c = c\<lparr> cu_position := cu_position c + n \<rparr>"

definition eats :: "cursor \<Rightarrow> bytes \<Rightarrow> cursor \<Rightarrow> bool" where
  "eats c bs c' \<longleftrightarrow> prefix bs (ahead c) \<and> c' = forward (length bs) c \<and> fits c'"

lemma forward_simps [simp]:
  "cu_bytes (forward n c) = cu_bytes c" "cu_position (forward n c) = cu_position c + n"
  "forward m (forward n c) = forward (n + m) c" "forward 0 c = c"
  by (simp_all add: forward_def add.assoc)

lemma ahead_forward [simp]: "ahead (forward n c) = drop n (ahead c)"
  by (simp add: ahead_def add.commute)

lemma cur_remaining_ahead: "cur_remaining c = length (ahead c)"
  by (simp add: cur_remaining_def ahead_def)

lemma eats_Nil [simp]: "eats c [] c' \<longleftrightarrow> fits c \<and> c' = c"
  by (auto simp: eats_def)

lemma eats_append:
  "eats c (xs @ ys) c' \<longleftrightarrow> (\<exists>d. eats c xs d \<and> eats d ys c')"
  by (auto simp: eats_def prefix_def fits_def)

lemma eats_fits: "eats c bs c' \<Longrightarrow> fits c'"
  by (auto simp: eats_def)

lemma eats_length: "eats c bs c' \<Longrightarrow> length bs \<le> cur_remaining c"
  by (auto simp: eats_def cur_remaining_ahead dest: prefix_length_le)

lemma eats_bytes: "eats c bs c' \<Longrightarrow> cu_bytes c' = cu_bytes c"
  by (auto simp: eats_def)

lemma eats_slice: "eats c bs c' \<Longrightarrow> slice (cu_bytes c) (cu_position c) (cu_position c') = bs"
  by (auto simp: eats_def slice_def ahead_def prefix_def)

lemma cur_take_iff [ok_iff]: "cur_take n c = Inr (bs, c') \<longleftrightarrow> length bs = n \<and> eats c bs c'"
proof -
  have "cur_take n c = Inr (bs, c') \<longleftrightarrow>
      cu_position c + n \<le> length (cu_bytes c) \<and> cu_position c + n < 2 ^ 64
        \<and> bs = take n (ahead c) \<and> c' = forward n c"
    by (auto simp: cur_take_def ok_iff usize_checked_add_def slice_get_def slice_def ahead_def
        forward_def)
  also have "\<dots> \<longleftrightarrow> length bs = n \<and> prefix bs (ahead c) \<and> c' = forward (length bs) c \<and> fits c'"
    using append_take_drop_id [of n "ahead c"]
    by (auto simp: fits_def ahead_def take_is_prefix) (auto simp: prefix_def)
  finally show ?thesis by (simp add: eats_def)
qed

lemma cur_byte_iff [ok_iff]: "cur_byte c = Inr (b, c') \<longleftrightarrow> eats c [b] c'"
  by (auto simp: cur_byte_def ok_iff split_beta length_Suc_conv)

lemma cur_peek_iff [ok_iff]: "cur_peek c = Inr b \<longleftrightarrow> (\<exists>bs. ahead c = b # bs)"
  by (auto simp: cur_peek_def ahead_def Cons_nth_drop_Suc [symmetric])

lemma cur_bind:
  "and_then (p c) (\<lambda>(x, d). f x d) = Inr y \<longleftrightarrow> (\<exists>x d. p c = Inr (x, d) \<and> f x d = Inr y)"
  by (auto simp: and_then_Inr)

lemma ok_or_bind:
  "and_then (ok_or m e) f = Inr y \<longleftrightarrow> (\<exists>x. m = Some x \<and> f x = Inr y)"
  by (auto simp: and_then_Inr ok_or_Inr)

lemmas parse_iff = cur_bind ok_or_bind cur_take_iff cur_byte_iff cur_peek_iff
  if_Inl_Inr sum.inject prod.inject

subsection \<open>Compact sizes\<close>

text \<open>The one accepted serialization of a length.\<close>

definition compact_bytes :: "nat \<Rightarrow> bytes" where
  "compact_bytes n =
     (if n < 0xfd then [of_nat n]
      else if n < 2 ^ 16 then 0xfd # le_nat 2 n
      else if n < 2 ^ 32 then 0xfe # le_nat 4 n
      else 0xff # le_nat 8 n)"

lemma encode_compact_size_bytes:
  "n < 2 ^ 64 \<Longrightarrow> encode_compact_size n out = Inr (out @ compact_bytes n)"
  by (auto simp: encode_compact_size_def compact_bytes_def)

lemma eats_Cons: "eats c (x # ys) c' \<longleftrightarrow> (\<exists>d. eats c [x] d \<and> eats d ys c')"
  using eats_append [of c "[x]" ys c'] by simp

lemma cur_nat_iff:
  "(\<exists>bs. cur_take k c = Inr (bs, c') \<and> nat_le bs = n) \<longleftrightarrow> n < 256 ^ k \<and> eats c (le_nat k n) c'"
proof
  assume "\<exists>bs. cur_take k c = Inr (bs, c') \<and> nat_le bs = n"
  then obtain bs where "length bs = k" "eats c bs c'" "nat_le bs = n"
    using cur_take_iff by auto
  then show "n < 256 ^ k \<and> eats c (le_nat k n) c'"
    using nat_le_bound [of bs] le_nat_nat_le [of bs k] by simp
next
  assume "n < 256 ^ k \<and> eats c (le_nat k n) c'"
  then show "\<exists>bs. cur_take k c = Inr (bs, c') \<and> nat_le bs = n"
    using cur_take_iff [of k c "le_nat k n" c'] by (auto simp: nat_le_le_nat)
qed

lemma cur_nat_checked_iff:
  "and_then (cur_take k c) (\<lambda>(bs, c). if nat_le bs \<le> m then Inl e else Inr (nat_le bs, c))
      = Inr (n, c') \<longleftrightarrow> m < n \<and> n < 256 ^ k \<and> eats c (le_nat k n) c'"
proof -
  have "and_then (cur_take k c) (\<lambda>(bs, c). if nat_le bs \<le> m then Inl e else Inr (nat_le bs, c))
      = Inr (n, c') \<longleftrightarrow> (\<exists>bs. cur_take k c = Inr (bs, c') \<and> nat_le bs = n) \<and> m < n"
    by (auto simp: and_then_Inr if_Inl_Inr)
  then show ?thesis by (auto simp: cur_nat_iff)
qed

lemma cur_compact_size_iff [ok_iff]:
  "cur_compact_size c = Inr (n, c') \<longleftrightarrow> n < 2 ^ 64 \<and> eats c (compact_bytes n) c'"
proof -
  define tagged where "tagged tag d = (if tag \<le> 0xfc then Inr (unat tag, d)
     else if tag = 0xfd then and_then (cur_take 2 d) (\<lambda>(bs, c).
       if nat_le bs \<le> 0xfc then Inl NonCanonicalCompactSize else Inr (nat_le bs, c))
     else if tag = 0xfe then and_then (cur_take 4 d) (\<lambda>(bs, c).
       if nat_le bs \<le> 2 ^ 16 - 1 then Inl NonCanonicalCompactSize else Inr (nat_le bs, c))
     else and_then (cur_take 8 d) (\<lambda>(bs, c).
       if nat_le bs \<le> 2 ^ 32 - 1 then Inl NonCanonicalCompactSize else Inr (nat_le bs, c)))"
    for tag :: u8 and d
  have less: "k < 0xfd \<longleftrightarrow> k \<le> 0xfc" for k :: nat by auto
  have "cur_compact_size c = Inr (n, c') \<longleftrightarrow> (\<exists>tag d. eats c [tag] d \<and> tagged tag d = Inr (n, c'))"
    unfolding cur_compact_size_def tagged_def less
    by (auto simp only: and_then_Inr split_beta cur_byte_iff split_paired_Ex fst_conv snd_conv)
  also have "\<dots> \<longleftrightarrow> n < 2 ^ 64 \<and> eats c (compact_bytes n) c'"
  proof
    assume "\<exists>tag d. eats c [tag] d \<and> tagged tag d = Inr (n, c')"
    then obtain tag d where d: "eats c [tag] d" "tagged tag d = Inr (n, c')" by blast
    note number = cur_nat_checked_iff [of _ d]
    have "unat tag \<le> 0xfc \<or> unat tag = 0xfd \<or> unat tag = 0xfe \<or> unat tag = 0xff"
      using unat_bound [of tag] by simp linarith
    then consider "tag \<le> 0xfc" | "tag = 0xfd" | "tag = 0xfe" | "tag = 0xff"
      by (auto simp: word_le_nat_alt simp flip: unat_eq_iff)
    then show "n < 2 ^ 64 \<and> eats c (compact_bytes n) c'"
    proof cases
      case 1
      with d have "n = unat tag" "c' = d" "n < 0xfd"
        by (auto simp: tagged_def word_le_nat_alt)
      with d(1) show ?thesis by (simp add: compact_bytes_def)
    next
      case 2
      with d number show ?thesis by (auto simp: tagged_def compact_bytes_def eats_Cons [of c _ "le_nat _ _"])
    next
      case 3
      with d number show ?thesis by (auto simp: tagged_def compact_bytes_def eats_Cons [of c _ "le_nat _ _"])
    next
      case 4
      with d number show ?thesis by (auto simp: tagged_def compact_bytes_def eats_Cons [of c _ "le_nat _ _"])
    qed
  next
    assume n: "n < 2 ^ 64 \<and> eats c (compact_bytes n) c'"
    show "\<exists>tag d. eats c [tag] d \<and> tagged tag d = Inr (n, c')"
    proof (cases "n < 0xfd")
      case True
      then have "tagged (of_nat n) c' = Inr (n, c')"
        by (simp add: tagged_def word_le_nat_alt unat_of_nat)
      with n True show ?thesis by (auto simp: compact_bytes_def)
    next
      case False
      define tag :: u8 where "tag = (if n < 2 ^ 16 then 0xfd else if n < 2 ^ 32 then 0xfe else 0xff)"
      define k :: nat where "k = (if n < 2 ^ 16 then 2 else if n < 2 ^ 32 then 4 else 8)"
      have "compact_bytes n = tag # le_nat k n"
        using False by (simp add: compact_bytes_def tag_def k_def)
      with n obtain d where d: "eats c [tag] d" "eats d (le_nat k n) c'"
        using eats_Cons [of c tag "le_nat k n" c'] by auto
      from d(2) n False have "tagged tag d = Inr (n, c')"
        by (auto simp: tagged_def cur_nat_checked_iff tag_def k_def split: if_splits)
      with d(1) show ?thesis by blast
    qed
  qed
  finally show ?thesis .
qed

lemma compact_bytes_nonempty: "0 < length (compact_bytes n)"
  by (simp add: compact_bytes_def)

lemma compact_bytes_zero: "n < 2 ^ 64 \<Longrightarrow> hd (compact_bytes n) = 0 \<longleftrightarrow> n = 0"
  by (auto simp: compact_bytes_def unat_of_nat simp flip: unat_eq_iff)

lemma ex_length_Suc:
  "(\<exists>ws. length ws = Suc n \<and> P ws) \<longleftrightarrow> (\<exists>w ws. length ws = n \<and> P (w # ws))"
  by (metis length_Cons length_Suc_conv)

definition put_vector :: "('a \<Rightarrow> bytes) \<Rightarrow> 'a list \<Rightarrow> bytes" where
  "put_vector put xs = compact_bytes (length xs) @ concat (map put xs)"

lemma concat_length_bound:
  "list_all (\<lambda>w. k \<le> length (put w)) ws \<Longrightarrow> k * length ws \<le> length (concat (map put ws))"
  by (induction ws) auto

text \<open>
  The guard that compares a count with the bytes left refuses no list of items with at least
  \<open>k\<close> bytes each.
\<close>

lemma counted_guard:
  assumes "\<And>w. ok w \<Longrightarrow> k \<le> length (put w)" "0 < k"
    and "list_all ok ws" "eats d (concat (map put ws)) c'"
  shows "length ws \<le> cur_remaining d div k"
proof -
  have "list_all (\<lambda>w. k \<le> length (put w)) ws"
    using assms(1,3) by (auto simp: list_all_iff)
  then have "k * length ws \<le> cur_remaining d"
    using concat_length_bound eats_length [OF assms(4)] le_trans by blast
  then show ?thesis using assms(2) by (simp add: less_eq_div_iff_mult_less_eq mult.commute)
qed

subsection \<open>The contract of the parsers\<close>

locale wire_codec =
  fixes put :: "'w \<Rightarrow> bytes"
    and ok :: "'w \<Rightarrow> bool"
    and view :: "'w \<Rightarrow> 'v"
    and get :: "'v cursor_fn"
  assumes get_iff:
    "get c = Inr (v, c') \<longleftrightarrow> (\<exists>w. ok w \<and> view w = v \<and> eats c (put w) c')"
begin

lemma get_fits: "get c = Inr (v, c') \<Longrightarrow> fits c'"
  by (auto simp: get_iff dest: eats_fits)

theorem parse_n_iff:
  "fits c \<Longrightarrow> parse_n get n c = Inr (vs, c') \<longleftrightarrow>
     (\<exists>ws. length ws = n \<and> list_all ok ws \<and> map view ws = vs \<and> eats c (concat (map put ws)) c')"
proof (induction n arbitrary: c vs)
  case 0
  then show ?case by auto
next
  case (Suc n)
  have step: "parse_n get n d = Inr (xs, c') \<longleftrightarrow>
     (\<exists>ws. length ws = n \<and> list_all ok ws \<and> map view ws = xs \<and> eats d (concat (map put ws)) c')"
    if "eats c (put w) d" for w d xs
    using Suc.IH eats_fits [OF that] by simp
  have "parse_n get (Suc n) c = Inr (vs, c') \<longleftrightarrow>
      (\<exists>x d xs. get c = Inr (x, d) \<and> parse_n get n d = Inr (xs, c') \<and> vs = x # xs)"
    by (auto simp: and_then_Inr)
  also have "\<dots> \<longleftrightarrow> (\<exists>x d xs w. (ok w \<and> view w = x \<and> eats c (put w) d)
      \<and> parse_n get n d = Inr (xs, c') \<and> vs = x # xs)"
    by (auto simp: get_iff)
  also have "\<dots> \<longleftrightarrow> (\<exists>w d ws. ok w \<and> eats c (put w) d \<and> length ws = n \<and> list_all ok ws
      \<and> eats d (concat (map put ws)) c' \<and> vs = view w # map view ws)"
    by (auto simp: step cong: conj_cong)
  also have "\<dots> \<longleftrightarrow> (\<exists>ws. length ws = Suc n \<and> list_all ok ws \<and> map view ws = vs
      \<and> eats c (concat (map put ws)) c')"
    unfolding ex_length_Suc by (simp add: eats_append) blast
  finally show ?case .
qed

text \<open>A vector with its count, and the guard on the count.\<close>

theorem counted_iff:
  assumes "\<And>w. ok w \<Longrightarrow> k \<le> length (put w)" "0 < k"
  shows "(\<exists>n d. (n < 2 ^ 64 \<and> eats c (compact_bytes n) d) \<and> Q n \<and> n \<le> cur_remaining d div k
      \<and> parse_n get n d = Inr (vs, c')) \<longleftrightarrow>
    (\<exists>ws. Q (length ws) \<and> length ws < 2 ^ 64 \<and> list_all ok ws \<and> map view ws = vs
      \<and> eats c (put_vector put ws) c')"
proof -
  note fit = counted_guard [of ok k put, OF assms]
  have "(\<exists>n d. (n < 2 ^ 64 \<and> eats c (compact_bytes n) d) \<and> Q n \<and> n \<le> cur_remaining d div k
      \<and> parse_n get n d = Inr (vs, c')) \<longleftrightarrow>
    (\<exists>n d. (n < 2 ^ 64 \<and> eats c (compact_bytes n) d) \<and> Q n \<and> n \<le> cur_remaining d div k
      \<and> (\<exists>ws. length ws = n \<and> list_all ok ws \<and> map view ws = vs
            \<and> eats d (concat (map put ws)) c'))"
    by (intro ex_cong1 conj_cong refl parse_n_iff) (auto dest: eats_fits)
  also have "\<dots> \<longleftrightarrow> (\<exists>ws. Q (length ws) \<and> length ws < 2 ^ 64 \<and> list_all ok ws \<and> map view ws = vs
      \<and> eats c (put_vector put ws) c')"
    unfolding put_vector_def eats_append using fit by blast
  finally show ?thesis .
qed

text \<open>The view is determined by the serialization.\<close>

theorem put_inject:
  assumes "ok w" "ok w'" "put w = put w'" "length (put w) < 2 ^ 64"
  shows "view w = view w'"
proof -
  define c where "c = cursor_new (put w) 0"
  have "eats c (put w) (forward (length (put w)) c)"
    using assms(4) by (simp add: eats_def c_def cursor_new_def ahead_def forward_def fits_def)
  then have "get c = Inr (view w, forward (length (put w)) c)"
    "get c = Inr (view w', forward (length (put w)) c)"
    using assms(1-3) get_iff by metis+
  then show ?thesis by simp
qed

theorem parsed_bytes_determined:
  assumes "get c = Inr (v, c')"
  shows "\<exists>w. ok w \<and> view w = v \<and> slice (cu_bytes c) (cu_position c) (cu_position c') = put w"
  using assms by (auto simp: get_iff dest: eats_slice)

end

interpretation compact: wire_codec compact_bytes "\<lambda>n. n < 2 ^ 64" id cur_compact_size
  by unfold_locales (simp add: cur_compact_size_iff)

interpretation take_codec: wire_codec id "\<lambda>bs. length bs = n" id "cur_take n" for n
  by unfold_locales (simp add: cur_take_iff)

end
