(* ===== verification/Transaction.thy ===== *)
theory Transaction
  imports M7 Wire
begin

section \<open>Parsing transactions (usdd-bitcoin-bmm/src/block.rs)\<close>

text \<open>
  \<open>parse_transaction\<close> with its context-free checks. The loops over inputs, outputs and witness
  stacks are their own definitions; the rest of the function follows the code. The reference is
  the abstract transaction \<open>wire_tx\<close> with its serializations with and without witness: the
  parser succeeds exactly on serializations of transactions that satisfy \<open>tx_ok\<close>, and what it
  returns is \<open>view_tx\<close> of the transaction. A 36-byte outpoint, which the code sorts, is kept in
  the result as the word with these big-endian bytes.
\<close>

type_synonym outpoint = "288 word"

definition BITCOIN_MAX_SERIALIZED_BLOCK_BYTES :: nat where
  "BITCOIN_MAX_SERIALIZED_BLOCK_BYTES = BITCOIN_MAX_BLOCK_WEIGHT"

definition BITCOIN_MIN_TRANSACTION_BASE_BYTES :: nat where
  "BITCOIN_MIN_TRANSACTION_BASE_BYTES = 60"

definition BITCOIN_MIN_SERIALIZED_TXIN_BASE_BYTES :: nat where
  "BITCOIN_MIN_SERIALIZED_TXIN_BASE_BYTES = 41"

definition BITCOIN_MAX_TRANSACTIONS :: nat where
  "BITCOIN_MAX_TRANSACTIONS =
     BITCOIN_MAX_BLOCK_BASE_BYTES div BITCOIN_MIN_TRANSACTION_BASE_BYTES"

definition BITCOIN_MAX_INPUTS_PER_TRANSACTION :: nat where
  "BITCOIN_MAX_INPUTS_PER_TRANSACTION =
     BITCOIN_MAX_BLOCK_BASE_BYTES div BITCOIN_MIN_SERIALIZED_TXIN_BASE_BYTES"

definition MAX_MONEY_SATOSHIS :: u64 where
  "MAX_MONEY_SATOSHIS = 21000000 * 100000000"

lemmas tx_consts = BITCOIN_MAX_SERIALIZED_BLOCK_BYTES_def BITCOIN_MIN_TRANSACTION_BASE_BYTES_def
  BITCOIN_MIN_SERIALIZED_TXIN_BASE_BYTES_def BITCOIN_MAX_TRANSACTIONS_def
  BITCOIN_MAX_INPUTS_PER_TRANSACTION_def m7_consts

record parsed_output =
  po_value :: bytes
  po_script :: bytes

record parsed_coinbase =
  pc_version :: bytes
  pc_inputs_and_output_count :: bytes
  pc_outputs :: "parsed_output list"
  pc_witness :: "bytes list"
  pc_lock_time :: bytes

record parsed_transaction =
  pt_txid :: block_hash
  pt_wtxid :: block_hash
  pt_stripped_size :: nat
  pt_has_witness :: bool
  pt_is_coinbase :: bool
  pt_coinbase :: "parsed_coinbase option"
  pt_inputs :: "outpoint list"
  pt_outputs :: "parsed_output list"

subsection \<open>Inputs\<close>

definition is_null_outpoint :: "bytes \<Rightarrow> bool" where
  "is_null_outpoint outpoint =
     (list_all (\<lambda>b. b = 0) (take 32 outpoint) \<and> drop 32 outpoint = le_nat 4 (2 ^ 32 - 1))"

text \<open>
  A byte string preceded by its size, which the code bounds before taking it: the scripts of
  inputs and outputs and the items of witness stacks.
\<close>

definition parse_script :: "nat \<Rightarrow> bytes cursor_fn" where
  "parse_script limit c =
     and_then (cur_compact_size c) (\<lambda>(script_size, c).
     if limit < script_size then Inl LengthOverflow else cur_take script_size c)"

text \<open>One round of the input loop: the outpoint and the size of the script.\<close>

definition parse_input :: "(bytes \<times> nat) cursor_fn" where
  "parse_input c =
     and_then (cur_take 36 c) (\<lambda>(outpoint, c).
     and_then (parse_script BITCOIN_MAX_COINBASE_OUTPUT_SCRIPT_BYTES c) (\<lambda>(script, c).
     and_then (cur_take 4 c) (\<lambda>(_, c). Inr ((outpoint, length script), c))))"

definition parse_inputs :: "(bytes \<times> nat) list cursor_fn" where
  "parse_inputs c =
     and_then (cur_compact_size c) (\<lambda>(input_count, c).
     if input_count = 0 then Inl EmptyInputs
     else if BITCOIN_MAX_INPUTS_PER_TRANSACTION < input_count
       \<or> cur_remaining c div BITCOIN_MIN_SERIALIZED_TXIN_BASE_BYTES < input_count
     then Inl TooManyInputs
     else parse_n parse_input input_count c)"

fun equal_neighbours :: "'a list \<Rightarrow> bool" where
  "equal_neighbours (a # b # xs) = (a = b \<or> equal_neighbours (b # xs))"
| "equal_neighbours _ = False"

text \<open>The checks after the input loop; the result is the flag \<open>is_coinbase\<close> and the outpoints.\<close>

definition check_inputs ::
  "(bytes \<times> nat) list \<Rightarrow> block_structure_error + bool \<times> outpoint list" where
  "check_inputs inputs =
     (let null_previous_outputs = length (filter (\<lambda>(o', _). is_null_outpoint o') inputs);
          sole_input_script_size = snd (hd inputs);
          is_coinbase = (length inputs = 1 \<and> null_previous_outputs = 1);
          outpoints = map (\<lambda>(o', _). from_be_bytes o') inputs
      in if \<not> is_coinbase \<and> null_previous_outputs \<noteq> 0 then Inl NullPreviousOutput
         else if is_coinbase \<and> \<not> (2 \<le> sole_input_script_size \<and> sole_input_script_size \<le> 100)
         then Inl InvalidCoinbaseScriptSize
         else if \<not> is_coinbase then
           (let outpoints = sort outpoints
            in if equal_neighbours outpoints then Inl DuplicateInput
               else Inr (is_coinbase, outpoints))
         else Inr (is_coinbase, outpoints))"

subsection \<open>Outputs\<close>

text \<open>The output loop with its running total.\<close>

fun parse_output_loop :: "nat \<Rightarrow> u64 \<Rightarrow> parsed_output list cursor_fn" where
  "parse_output_loop 0 output_total c = Inr ([], c)"
| "parse_output_loop (Suc n) output_total c =
     and_then (cur_take 8 c) (\<lambda>(value_bytes, c).
     let value = u64_from_le_bytes value_bytes
     in if value <s 0 then Inl OutputValueOutOfRange
        else if MAX_MONEY_SATOSHIS < value then Inl OutputValueOutOfRange
        else and_then (ok_or (checked_add output_total value) OutputTotalOutOfRange)
          (\<lambda>output_total.
        if MAX_MONEY_SATOSHIS < output_total then Inl OutputTotalOutOfRange
        else and_then (parse_script BITCOIN_MAX_COINBASE_OUTPUT_SCRIPT_BYTES c) (\<lambda>(script, c).
        and_then (parse_output_loop n output_total c) (\<lambda>(outputs, c).
        Inr (\<lparr> po_value = value_bytes, po_script = script \<rparr> # outputs, c)))))"

text \<open>The result carries the position after the output count.\<close>

definition parse_outputs :: "(nat \<times> parsed_output list) cursor_fn" where
  "parse_outputs c =
     and_then (cur_compact_size c) (\<lambda>(output_count, c).
     if output_count = 0 then Inl EmptyOutputs
     else if BITCOIN_MAX_COINBASE_OUTPUTS < output_count
       \<or> cur_remaining c div BITCOIN_MIN_SERIALIZED_TXOUT_BASE_BYTES < output_count
     then Inl TooManyOutputs
     else and_then (parse_output_loop output_count 0 c) (\<lambda>(outputs, c').
       Inr ((cu_position c, outputs), c')))"

subsection \<open>Witnesses\<close>

definition parse_item :: "bytes cursor_fn" where
  "parse_item c = parse_script BITCOIN_MAX_SERIALIZED_BLOCK_BYTES c"

definition parse_stack :: "bytes list cursor_fn" where
  "parse_stack c =
     and_then (cur_compact_size c) (\<lambda>(item_count, c).
     if cur_remaining c < item_count then Inl LengthOverflow
     else parse_n parse_item item_count c)"

text \<open>The witness section, and the witness of the first input of a coinbase.\<close>

definition parse_witness :: "bool \<Rightarrow> nat \<Rightarrow> bool \<Rightarrow> bytes list cursor_fn" where
  "parse_witness has_witness_encoding input_count is_coinbase c =
     (if has_witness_encoding then
        and_then (parse_n parse_stack input_count c) (\<lambda>(stacks, c).
        if \<not> list_ex (\<lambda>stack. stack \<noteq> []) stacks then Inl SuperfluousWitness
        else Inr (if is_coinbase then hd stacks else [], c))
      else Inr ([], c))"

subsection \<open>A transaction\<close>

text \<open>The version, marker and flag; the result is the flag and the position of the inputs.\<close>

definition parse_marker :: "(bool \<times> nat) cursor_fn" where
  "parse_marker c =
     and_then (cur_peek c) (\<lambda>b.
     if b = 0 then
       and_then (cur_byte c) (\<lambda>(_, c).
       and_then (cur_byte c) (\<lambda>(flags, c).
       if flags \<noteq> 1 then Inl InvalidWitnessFlags else Inr ((True, cu_position c), c)))
     else Inr ((False, cu_position c), c))"

definition parse_transaction :: "(bytes \<Rightarrow> hash32) \<Rightarrow> parsed_transaction cursor_fn" where
  "parse_transaction H c0 =
     and_then (cur_take 4 c0) (\<lambda>(version, c1).
     and_then (parse_marker c1) (\<lambda>((has_witness_encoding, input_count_start), c2).
     and_then (parse_inputs c2) (\<lambda>(inputs, c3).
     and_then (check_inputs inputs) (\<lambda>(is_coinbase, outpoints).
     and_then (parse_outputs c3) (\<lambda>((outputs_start, outputs), c4).
     and_then (parse_witness has_witness_encoding (length inputs) is_coinbase c4)
       (\<lambda>(coinbase_witness, c5).
     and_then (cur_take 4 c5) (\<lambda>(lock_time, c6).
     and_then (ok_or (Option.bind (usize_checked_add 4 (cu_position c4 - input_count_start))
         (\<lambda>v. usize_checked_add v 4)) LengthOverflow) (\<lambda>stripped_size.
     let bs = cu_bytes c6;
         txid = (if has_witness_encoding
           then double_sha256 H (slice bs (cu_position c0) (cu_position c1)
                  @ slice bs input_count_start (cu_position c4)
                  @ slice bs (cu_position c5) (cu_position c6))
           else double_sha256 H (slice bs (cu_position c0) (cu_position c6)));
         wtxid = (if has_witness_encoding
           then double_sha256 H (slice bs (cu_position c0) (cu_position c6)) else txid);
         coinbase = (if is_coinbase
           then Some \<lparr> pc_version = version,
                       pc_inputs_and_output_count = slice bs input_count_start outputs_start,
                       pc_outputs = outputs, pc_witness = coinbase_witness,
                       pc_lock_time = lock_time \<rparr>
           else None)
     in Inr (\<lparr> pt_txid = txid, pt_wtxid = wtxid, pt_stripped_size = stripped_size,
               pt_has_witness = has_witness_encoding, pt_is_coinbase = is_coinbase,
               pt_coinbase = coinbase, pt_inputs = outpoints, pt_outputs = outputs \<rparr>, c6)))))))))"

subsection \<open>Abstract transactions\<close>

record wire_input =
  wi_outpoint :: bytes
  wi_script :: bytes
  wi_sequence :: bytes

record wire_tx =
  wt_version :: bytes
  wt_inputs :: "wire_input list"
  wt_outputs :: "parsed_output list"
  wt_witness :: "bytes list list option"
  wt_lock_time :: bytes

definition put_script :: "bytes \<Rightarrow> bytes" where
  "put_script s = compact_bytes (length s) @ s"

definition put_input :: "wire_input \<Rightarrow> bytes" where
  "put_input i = wi_outpoint i @ put_script (wi_script i) @ wi_sequence i"

definition put_output :: "parsed_output \<Rightarrow> bytes" where
  "put_output o' = po_value o' @ put_script (po_script o')"

definition put_stack :: "bytes list \<Rightarrow> bytes" where
  "put_stack stack = put_vector put_script stack"

definition put_witness :: "bytes list list option \<Rightarrow> bytes" where
  "put_witness wit = (case wit of None \<Rightarrow> [] | Some stacks \<Rightarrow> concat (map put_stack stacks))"

definition put_marker :: "bytes list list option \<Rightarrow> bytes" where
  "put_marker wit = (case wit of None \<Rightarrow> [] | Some _ \<Rightarrow> [0, 1])"

definition put_body :: "wire_tx \<Rightarrow> bytes" where
  "put_body t = put_vector put_input (wt_inputs t) @ put_vector put_output (wt_outputs t)"

definition put_stripped :: "wire_tx \<Rightarrow> bytes" where
  "put_stripped t = wt_version t @ put_body t @ wt_lock_time t"

definition put_tx :: "wire_tx \<Rightarrow> bytes" where
  "put_tx t = wt_version t @ put_marker (wt_witness t) @ put_body t
     @ put_witness (wt_witness t) @ wt_lock_time t"

definition input_ok :: "wire_input \<Rightarrow> bool" where
  "input_ok i = (length (wi_outpoint i) = 36 \<and> length (wi_script i) \<le> 1000000
     \<and> length (wi_sequence i) = 4)"

definition output_value :: "parsed_output \<Rightarrow> nat" where
  "output_value o' = nat_le (po_value o')"

definition output_ok :: "parsed_output \<Rightarrow> bool" where
  "output_ok o' = (length (po_value o') = 8 \<and> output_value o' \<le> 2100000000000000
     \<and> length (po_script o') \<le> 1000000)"

definition stack_ok :: "bytes list \<Rightarrow> bool" where
  "stack_ok stack = (length stack < 2 ^ 64 \<and> list_all (\<lambda>item. length item \<le> 4000000) stack)"

definition inputs_check :: "wire_input list \<Rightarrow> bool \<Rightarrow> bool" where
  "inputs_check ws cb =
     ((cb \<longleftrightarrow> length ws = 1 \<and> is_null_outpoint (wi_outpoint (hd ws)))
       \<and> (if cb then 2 \<le> length (wi_script (hd ws)) \<and> length (wi_script (hd ws)) \<le> 100
          else list_all (\<lambda>i. \<not> is_null_outpoint (wi_outpoint i)) ws
            \<and> distinct (map wi_outpoint ws)))"

definition view_outpoints :: "wire_input list \<Rightarrow> bool \<Rightarrow> outpoint list" where
  "view_outpoints ws cb =
     (let ops = map (\<lambda>i. from_be_bytes (wi_outpoint i)) ws in if cb then ops else sort ops)"

definition witness_ok :: "nat \<Rightarrow> bytes list list option \<Rightarrow> bool" where
  "witness_ok n wit = (case wit of None \<Rightarrow> True
     | Some stacks \<Rightarrow> length stacks = n \<and> list_all stack_ok stacks
         \<and> list_ex (\<lambda>stack. stack \<noteq> []) stacks)"

definition first_stack :: "bytes list list option \<Rightarrow> bytes list" where
  "first_stack wit = (case wit of None \<Rightarrow> [] | Some stacks \<Rightarrow> hd stacks)"

definition tx_is_coinbase :: "wire_tx \<Rightarrow> bool" where
  "tx_is_coinbase t =
     (length (wt_inputs t) = 1 \<and> is_null_outpoint (wi_outpoint (hd (wt_inputs t))))"

definition tx_ok :: "wire_tx \<Rightarrow> bool" where
  "tx_ok t =
     (length (wt_version t) = 4 \<and> length (wt_lock_time t) = 4
       \<and> wt_inputs t \<noteq> [] \<and> length (wt_inputs t) \<le> 24390 \<and> list_all input_ok (wt_inputs t)
       \<and> inputs_check (wt_inputs t) (tx_is_coinbase t)
       \<and> wt_outputs t \<noteq> [] \<and> length (wt_outputs t) \<le> 111111 \<and> list_all output_ok (wt_outputs t)
       \<and> (\<Sum>o' \<leftarrow> wt_outputs t. output_value o') \<le> 2100000000000000
       \<and> witness_ok (length (wt_inputs t)) (wt_witness t))"

definition view_tx :: "(bytes \<Rightarrow> hash32) \<Rightarrow> wire_tx \<Rightarrow> parsed_transaction" where
  "view_tx H t =
     (let cb = tx_is_coinbase t in
      \<lparr> pt_txid = double_sha256 H (put_stripped t),
        pt_wtxid = double_sha256 H (put_tx t),
        pt_stripped_size = length (put_stripped t),
        pt_has_witness = (wt_witness t \<noteq> None),
        pt_is_coinbase = cb,
        pt_coinbase = (if cb then Some
          \<lparr> pc_version = wt_version t,
            pc_inputs_and_output_count =
              put_vector put_input (wt_inputs t) @ compact_bytes (length (wt_outputs t)),
            pc_outputs = wt_outputs t,
            pc_witness = first_stack (wt_witness t),
            pc_lock_time = wt_lock_time t \<rparr> else None),
        pt_inputs = view_outpoints (wt_inputs t) cb,
        pt_outputs = wt_outputs t \<rparr>)"

subsection \<open>Inputs and the checks on them\<close>

definition view_input :: "wire_input \<Rightarrow> bytes \<times> nat" where
  "view_input i = (wi_outpoint i, length (wi_script i))"

lemma ex_wire_input: "(\<exists>i :: wire_input. P i) \<longleftrightarrow>
    (\<exists>a s q. P \<lparr> wi_outpoint = a, wi_script = s, wi_sequence = q \<rparr>)"
  by (metis wire_input.cases)

lemma parse_script_iff [ok_iff]:
  "limit < 2 ^ 64 \<Longrightarrow>
     parse_script limit c = Inr (s, c') \<longleftrightarrow> length s \<le> limit \<and> eats c (put_script s) c'"
  unfolding parse_script_def parse_iff cur_compact_size_iff put_script_def eats_append
  by (auto intro!: exI [of _ "length s"])

lemma coinbase_script_limit:
  "parse_script BITCOIN_MAX_COINBASE_OUTPUT_SCRIPT_BYTES c = Inr (s, c') \<longleftrightarrow>
     length s \<le> 1000000 \<and> eats c (put_script s) c'"
  "parse_item c = Inr (s, c') \<longleftrightarrow> length s \<le> 4000000 \<and> eats c (put_script s) c'"
  by (simp_all add: parse_item_def tx_consts parse_script_iff)

interpretation input: wire_codec put_input input_ok view_input parse_input
proof unfold_locales
  fix c v c'
  have "parse_input c = Inr (v, c') \<longleftrightarrow>
      (\<exists>a d. (length a = 36 \<and> eats c a d) \<and>
      (\<exists>s e. (length s \<le> 1000000 \<and> eats d (put_script s) e) \<and>
      (\<exists>q. (length q = 4 \<and> eats e q c') \<and> v = (a, length s))))"
    unfolding parse_input_def parse_iff coinbase_script_limit by blast
  also have "\<dots> \<longleftrightarrow> (\<exists>w. input_ok w \<and> view_input w = v \<and> eats c (put_input w) c')"
    unfolding ex_wire_input input_ok_def view_input_def put_input_def eats_append wire_input.simps
    by blast
  finally show "parse_input c = Inr (v, c') \<longleftrightarrow>
    (\<exists>w. input_ok w \<and> view_input w = v \<and> eats c (put_input w) c')" .
qed

lemma sorted_equal_neighbours: "sorted xs \<Longrightarrow> equal_neighbours xs \<longleftrightarrow> \<not> distinct xs"
  for xs :: "'a::linorder list"
  by (induction xs rule: equal_neighbours.induct) auto

lemma from_be_bytes_inject_on:
  assumes "LENGTH('a::len) = 8 * n"
  shows "inj_on (from_be_bytes :: bytes \<Rightarrow> 'a word) {bs. length bs = n}"
  by (rule inj_onI) (metis assms mem_Collect_eq to_from_be_bytes)

lemma put_script_length: "length s + 1 \<le> length (put_script s)"
  using compact_bytes_nonempty [of "length s"] by (simp add: put_script_def Suc_le_eq)

lemma put_input_length: "input_ok i \<Longrightarrow> 41 \<le> length (put_input i)"
  using put_script_length [of "wi_script i"] by (simp add: input_ok_def put_input_def)

lemma put_output_length: "output_ok o' \<Longrightarrow> 9 \<le> length (put_output o')"
  using put_script_length [of "po_script o'"] by (simp add: output_ok_def put_output_def)

lemma parse_inputs_iff:
  "parse_inputs c = Inr (vs, c') \<longleftrightarrow>
     (\<exists>ws. ws \<noteq> [] \<and> length ws \<le> 24390 \<and> list_all input_ok ws \<and> map view_input ws = vs
       \<and> eats c (put_vector put_input ws) c')"
proof -
  have "parse_inputs c = Inr (vs, c') \<longleftrightarrow>
      (\<exists>n d. (n < 2 ^ 64 \<and> eats c (compact_bytes n) d) \<and> (n \<noteq> 0 \<and> n \<le> 24390)
        \<and> n \<le> cur_remaining d div 41 \<and> parse_n parse_input n d = Inr (vs, c'))"
    unfolding parse_inputs_def parse_iff cur_compact_size_iff by (auto simp: tx_consts not_less)
  also have "\<dots> \<longleftrightarrow> (\<exists>ws. (length ws \<noteq> 0 \<and> length ws \<le> 24390) \<and> length ws < 2 ^ 64
      \<and> list_all input_ok ws \<and> map view_input ws = vs \<and> eats c (put_vector put_input ws) c')"
    by (rule input.counted_iff) (simp_all add: put_input_length)
  finally show ?thesis by auto
qed

lemma outpoint_inject:
  "length a = 36 \<Longrightarrow> length b = 36 \<Longrightarrow> (from_be_bytes a :: outpoint) = from_be_bytes b \<longleftrightarrow> a = b"
  using from_be_bytes_inject_on [of 36, where 'a = 288] by (auto dest: inj_onD)

lemma check_inputs_iff:
  assumes "ws \<noteq> []" "list_all input_ok ws"
  shows "check_inputs (map view_input ws) = Inr (cb, ops) \<longleftrightarrow>
    inputs_check ws cb \<and> ops = view_outpoints ws cb"
proof -
  let ?ops = "map (\<lambda>i. from_be_bytes (wi_outpoint i) :: outpoint) ws"
  have nulls: "length (filter (\<lambda>(o', _). is_null_outpoint o') (map view_input ws)) =
      length (filter (\<lambda>i. is_null_outpoint (wi_outpoint i)) ws)"
    by (simp add: filter_map comp_def view_input_def)
  have ops: "map (\<lambda>(o', _). from_be_bytes o') (map view_input ws) = ?ops"
    by (simp add: view_input_def)
  have cb: "(length ws = 1 \<and> length (filter (\<lambda>i. is_null_outpoint (wi_outpoint i)) ws) = 1) \<longleftrightarrow>
      length ws = 1 \<and> is_null_outpoint (wi_outpoint (hd ws))"
    by (cases ws) (auto simp: length_Suc_conv)
  have "inj_on (\<lambda>i. from_be_bytes (wi_outpoint i) :: outpoint) (set ws)
      \<longleftrightarrow> inj_on wi_outpoint (set ws)"
    using assms(2) outpoint_inject by (auto simp: inj_on_def list_all_iff input_ok_def)
  then have distinct: "distinct ?ops \<longleftrightarrow> distinct (map wi_outpoint ws)"
    by (simp add: distinct_map)
  have "equal_neighbours (sort ?ops) \<longleftrightarrow> \<not> distinct (map wi_outpoint ws)"
    using sorted_equal_neighbours [of "sort ?ops"] by (simp flip: distinct)
  moreover have "snd (hd (map view_input ws)) = length (wi_script (hd ws))"
    using assms(1) by (simp add: hd_map view_input_def)
  moreover have "length (filter (\<lambda>i. is_null_outpoint (wi_outpoint i)) ws) = 0 \<longleftrightarrow>
      list_all (\<lambda>i. \<not> is_null_outpoint (wi_outpoint i)) ws"
    by (simp add: filter_empty_conv list_all_iff)
  ultimately show ?thesis
    unfolding check_inputs_def Let_def nulls ops length_map cb inputs_check_def view_outpoints_def
    by auto
qed

subsection \<open>Outputs and witnesses\<close>

lemma not_negative: "unat (w :: u64) < 2 ^ 63 \<Longrightarrow> \<not> w <s 0"
proof -
  assume "unat w < 2 ^ 63"
  then have "uint w < int (2 ^ 63)" by (simp only: unat_eq_nat_uint nat_less_iff uint_ge_0)
  then have "uint w < 2 ^ 63" by simp
  moreover have "- (2 ^ 63) \<le> uint w" by (rule order_trans [of _ 0]) simp_all
  ultimately have "sint w = uint w" by (simp add: sint_uint signed_take_bit_int_eq_self)
  then show "\<not> w <s 0" by (simp add: word_sless_alt)
qed

lemma money_value: "unat MAX_MONEY_SATOSHIS = 2100000000000000"
  by (simp add: MAX_MONEY_SATOSHIS_def)

lemma money_less: "MAX_MONEY_SATOSHIS < w \<longleftrightarrow> \<not> unat w \<le> 2100000000000000"
  by (simp add: word_less_nat_alt money_value not_le)

lemma value_checks:
  assumes "length vb = 8"
  shows "unat (u64_from_le_bytes vb) = nat_le vb"
    and "\<not> u64_from_le_bytes vb <s 0 \<and> \<not> MAX_MONEY_SATOSHIS < u64_from_le_bytes vb \<longleftrightarrow>
      nat_le vb \<le> 2100000000000000"
proof -
  show v: "unat (u64_from_le_bytes vb) = nat_le vb"
    using nat_le_bound [of vb] assms by (simp add: u64_from_le_bytes_def unat_of_nat)
  show "\<not> u64_from_le_bytes vb <s 0 \<and> \<not> MAX_MONEY_SATOSHIS < u64_from_le_bytes vb \<longleftrightarrow>
      nat_le vb \<le> 2100000000000000"
    using not_negative [of "u64_from_le_bytes vb"] unfolding money_less v by auto
qed

lemma value_ok:
  "length vb = 8 \<Longrightarrow> (\<not> u64_from_le_bytes vb <s 0 \<and> nat_le vb \<le> 2100000000000000 \<and> P)
     \<longleftrightarrow> nat_le vb \<le> 2100000000000000 \<and> P"
  using value_checks [of vb] by (auto simp: money_less)

lemma ex_parsed_output: "(\<exists>o' :: parsed_output. P o') \<longleftrightarrow>
    (\<exists>v s. P \<lparr> po_value = v, po_script = s \<rparr>)"
  by (metis parsed_output.cases)

lemma ex_u64: "k \<le> 2100000000000000 \<Longrightarrow> \<exists>t :: u64. unat t = k"
  by (intro exI [of _ "of_nat k"]) (simp add: unat_of_nat)

lemma parse_output_loop_iff:
  "fits c \<Longrightarrow> unat acc \<le> 2100000000000000 \<Longrightarrow>
     parse_output_loop n acc c = Inr (outs, c') \<longleftrightarrow>
       length outs = n \<and> list_all output_ok outs
         \<and> unat acc + (\<Sum>o' \<leftarrow> outs. output_value o') \<le> 2100000000000000
         \<and> eats c (concat (map put_output outs)) c'"
proof (induction n arbitrary: acc c outs)
  case (Suc n)
  have "parse_output_loop (Suc n) acc c = Inr (outs, c') \<longleftrightarrow>
    (\<exists>vb d. (length vb = 8 \<and> eats c vb d) \<and> nat_le vb \<le> 2100000000000000
      \<and> (\<exists>t. unat t = unat acc + nat_le vb \<and> unat t \<le> 2100000000000000
      \<and> (\<exists>s e. (length s \<le> 1000000 \<and> eats d (put_script s) e)
      \<and> (\<exists>os. parse_output_loop n t e = Inr (os, c')
          \<and> \<lparr> po_value = vb, po_script = s \<rparr> # os = outs))))"
    unfolding parse_output_loop.simps Let_def parse_iff coinbase_script_limit checked_add_Some
    by (simp add: value_checks(1) value_ok money_less cong: conj_cong)
  also have "\<dots> \<longleftrightarrow>
    (\<exists>vb d. (length vb = 8 \<and> eats c vb d) \<and> nat_le vb \<le> 2100000000000000
      \<and> (\<exists>t :: u64. unat t = unat acc + nat_le vb \<and> unat t \<le> 2100000000000000
      \<and> (\<exists>s e. (length s \<le> 1000000 \<and> eats d (put_script s) e)
      \<and> (\<exists>os. (length os = n \<and> list_all output_ok os
            \<and> unat t + (\<Sum>o' \<leftarrow> os. output_value o') \<le> 2100000000000000
            \<and> eats e (concat (map put_output os)) c')
          \<and> \<lparr> po_value = vb, po_script = s \<rparr> # os = outs))))"
    by (intro ex_cong1 conj_cong refl Suc.IH) (auto dest: eats_fits)
  also have "\<dots> \<longleftrightarrow>
    (\<exists>vb d s e os. length vb = 8 \<and> eats c vb d \<and> nat_le vb \<le> 2100000000000000
      \<and> length s \<le> 1000000 \<and> eats d (put_script s) e
      \<and> length os = n \<and> list_all output_ok os
      \<and> unat acc + nat_le vb + (\<Sum>o' \<leftarrow> os. output_value o') \<le> 2100000000000000
      \<and> eats e (concat (map put_output os)) c'
      \<and> outs = \<lparr> po_value = vb, po_script = s \<rparr> # os)"
    (is "?steps \<longleftrightarrow> ?flat")
  proof
    assume ?steps
    then obtain vb d t s e os where *: "length vb = 8" "eats c vb d"
        "nat_le vb \<le> 2100000000000000" "unat (t :: u64) = unat acc + nat_le vb"
        "length s \<le> 1000000" "eats d (put_script s) e" "length os = n" "list_all output_ok os"
        "unat t + (\<Sum>o' \<leftarrow> os. output_value o') \<le> 2100000000000000"
        "eats e (concat (map put_output os)) c'" "\<lparr> po_value = vb, po_script = s \<rparr> # os = outs"
      by blast
    then show ?flat
      by (intro exI [of _ vb] exI [of _ d] exI [of _ s] exI [of _ e] exI [of _ os]) simp
  next
    assume ?flat
    then obtain vb d s e os where *: "length vb = 8" "eats c vb d"
        "nat_le vb \<le> 2100000000000000" "length s \<le> 1000000" "eats d (put_script s) e"
        "length os = n" "list_all output_ok os"
        "unat acc + nat_le vb + (\<Sum>o' \<leftarrow> os. output_value o') \<le> 2100000000000000"
        "eats e (concat (map put_output os)) c'" "outs = \<lparr> po_value = vb, po_script = s \<rparr> # os"
      by blast
    moreover obtain t :: u64 where "unat t = unat acc + nat_le vb"
      using ex_u64 [of "unat acc + nat_le vb"] *(8) by auto
    ultimately show ?steps
      by (intro exI [of _ vb] exI [of _ d] conjI exI [of _ t] exI [of _ s] exI [of _ e]
          exI [of _ os]) simp_all
  qed
  also have "\<dots> \<longleftrightarrow> length outs = Suc n \<and> list_all output_ok outs
      \<and> unat acc + (\<Sum>o' \<leftarrow> outs. output_value o') \<le> 2100000000000000
      \<and> eats c (concat (map put_output outs)) c'"
  proof (cases outs)
    case (Cons o' os)
    then show ?thesis
      by (cases o') (auto simp: output_ok_def output_value_def put_output_def eats_append add.assoc)
  qed auto
  finally show ?case .
qed auto

lemma parse_outputs_iff:
  "parse_outputs c = Inr ((p, outs), c') \<longleftrightarrow>
     (\<exists>d. outs \<noteq> [] \<and> length outs \<le> 111111 \<and> list_all output_ok outs
       \<and> (\<Sum>o' \<leftarrow> outs. output_value o') \<le> 2100000000000000
       \<and> eats c (compact_bytes (length outs)) d \<and> p = cu_position d
       \<and> eats d (concat (map put_output outs)) c')"
proof -
  have "parse_outputs c = Inr ((p, outs), c') \<longleftrightarrow>
      (\<exists>n d. (n < 2 ^ 64 \<and> eats c (compact_bytes n) d) \<and> (n \<noteq> 0 \<and> n \<le> 111111)
        \<and> n \<le> cur_remaining d div 9 \<and> p = cu_position d
        \<and> parse_output_loop n 0 d = Inr (outs, c'))"
    unfolding parse_outputs_def parse_iff cur_compact_size_iff by (auto simp: tx_consts not_less)
  also have "\<dots> \<longleftrightarrow>
      (\<exists>n d. (n < 2 ^ 64 \<and> eats c (compact_bytes n) d) \<and> (n \<noteq> 0 \<and> n \<le> 111111)
        \<and> n \<le> cur_remaining d div 9 \<and> p = cu_position d
        \<and> length outs = n \<and> list_all output_ok outs
        \<and> (\<Sum>o' \<leftarrow> outs. output_value o') \<le> 2100000000000000
        \<and> eats d (concat (map put_output outs)) c')"
    by (intro ex_cong1 conj_cong refl) (auto simp: parse_output_loop_iff dest: eats_fits)
  also have "\<dots> \<longleftrightarrow> (\<exists>d. (length outs < 2 ^ 64 \<and> eats c (compact_bytes (length outs)) d)
        \<and> (length outs \<noteq> 0 \<and> length outs \<le> 111111)
        \<and> length outs \<le> cur_remaining d div 9 \<and> p = cu_position d
        \<and> list_all output_ok outs \<and> (\<Sum>o' \<leftarrow> outs. output_value o') \<le> 2100000000000000
        \<and> eats d (concat (map put_output outs)) c')"
    by blast
  also have "\<dots> \<longleftrightarrow> (\<exists>d. (length outs < 2 ^ 64 \<and> eats c (compact_bytes (length outs)) d)
        \<and> (length outs \<noteq> 0 \<and> length outs \<le> 111111) \<and> p = cu_position d
        \<and> list_all output_ok outs \<and> (\<Sum>o' \<leftarrow> outs. output_value o') \<le> 2100000000000000
        \<and> eats d (concat (map put_output outs)) c')"
    using counted_guard [of output_ok 9 put_output outs _ c'] put_output_length
    by (intro ex_cong1) (auto simp: less_eq_div_iff_mult_less_eq)
  also have "\<dots> \<longleftrightarrow> (\<exists>d. outs \<noteq> [] \<and> length outs \<le> 111111 \<and> list_all output_ok outs
       \<and> (\<Sum>o' \<leftarrow> outs. output_value o') \<le> 2100000000000000
       \<and> eats c (compact_bytes (length outs)) d \<and> p = cu_position d
       \<and> eats d (concat (map put_output outs)) c')"
    by auto
  finally show ?thesis .
qed

interpretation item: wire_codec put_script "\<lambda>item. length item \<le> 4000000" id parse_item
  by unfold_locales (simp add: coinbase_script_limit)

interpretation stack: wire_codec put_stack stack_ok id parse_stack
proof unfold_locales
  fix c v c'
  have "parse_stack c = Inr (v, c') \<longleftrightarrow>
      (\<exists>n d. (n < 2 ^ 64 \<and> eats c (compact_bytes n) d) \<and> True
        \<and> n \<le> cur_remaining d div 1 \<and> parse_n parse_item n d = Inr (v, c'))"
    unfolding parse_stack_def parse_iff cur_compact_size_iff by (auto simp: not_less)
  also have "\<dots> \<longleftrightarrow> (\<exists>ws. True \<and> length ws < 2 ^ 64
      \<and> list_all (\<lambda>item. length item \<le> 4000000) ws \<and> map id ws = v
      \<and> eats c (put_vector put_script ws) c')"
    by (rule item.counted_iff) (auto intro: order_trans [OF _ put_script_length])
  also have "\<dots> \<longleftrightarrow> (\<exists>w. stack_ok w \<and> id w = v \<and> eats c (put_stack w) c')"
    by (simp add: stack_ok_def put_stack_def)
  finally show "parse_stack c = Inr (v, c') \<longleftrightarrow>
    (\<exists>w. stack_ok w \<and> id w = v \<and> eats c (put_stack w) c')" .
qed

lemma ex_witness:
  "(\<exists>wit. P wit) \<longleftrightarrow> P None \<or> (\<exists>stacks. P (Some stacks))"
  by (metis option.exhaust)

lemma parse_witness_iff:
  "fits c \<Longrightarrow> parse_witness h n cb c = Inr (w, c') \<longleftrightarrow>
     (\<exists>wit. (h \<longleftrightarrow> wit \<noteq> None) \<and> witness_ok n wit \<and> w = (if cb then first_stack wit else [])
       \<and> eats c (put_witness wit) c')"
  unfolding ex_witness by (cases h) (auto simp: parse_witness_def parse_iff stack.parse_n_iff
      witness_ok_def first_stack_def put_witness_def)

subsection \<open>Whole transactions\<close>

lemma parse_marker_iff:
  "parse_marker c = Inr ((h, p), c') \<longleftrightarrow>
     p = cu_position c' \<and> (if h then eats c [0, 1] c'
       else c' = c \<and> (\<exists>b bs. ahead c = b # bs \<and> b \<noteq> 0))"
proof -
  have head: "x = y" if "eats c [x] d" "ahead c = y # bs" for x y d bs
    using that by (simp add: eats_def)
  have ahead: "\<exists>bs. ahead c = x # bs" if "eats c [x] d" for x d
    using that by (auto simp: eats_def prefix_def)
  have two: "eats c [0, 1] c' \<longleftrightarrow> (\<exists>d. eats c [0] d \<and> eats d [1] c')"
    by (rule eats_Cons)
  have "parse_marker c = Inr ((h, p), c') \<longleftrightarrow> (\<exists>b. (\<exists>bs. ahead c = b # bs) \<and>
      (if b = 0 then \<exists>x d. eats c [x] d \<and> (\<exists>f e. eats d [f] e \<and> f = 1
          \<and> h \<and> p = cu_position e \<and> e = c')
       else \<not> h \<and> p = cu_position c \<and> c = c'))"
    unfolding parse_marker_def and_then_Inr cur_peek_iff split_beta
    by (intro ex_cong1 conj_cong refl) (auto simp: cur_byte_iff and_then_Inr split_beta if_Inl_Inr)
  also have "\<dots> \<longleftrightarrow> p = cu_position c' \<and> (if h then eats c [0, 1] c'
       else c' = c \<and> (\<exists>b bs. ahead c = b # bs \<and> b \<noteq> 0))"
    unfolding two using head ahead by (cases h) (auto split: if_splits, blast+)
  finally show ?thesis .
qed

lemma put_body_nonzero:
  assumes "wt_inputs t \<noteq> []" "length (wt_inputs t) \<le> 24390"
  shows "\<exists>b bs. put_body t = b # bs \<and> b \<noteq> 0"
proof -
  let ?n = "length (wt_inputs t)"
  obtain b bs where b: "compact_bytes ?n = b # bs"
    using compact_bytes_nonempty [of ?n] by (cases "compact_bytes ?n") auto
  then have "b \<noteq> 0" using compact_bytes_zero [of ?n] assms by auto
  with b show ?thesis by (simp add: put_body_def put_vector_def)
qed

lemma eats_head: "eats c (b # bs) c' \<Longrightarrow> \<exists>bs'. ahead c = b # bs'"
  by (auto simp: eats_def prefix_def)

lemma eats_position: "eats c bs c' \<Longrightarrow> cu_position c' = cu_position c + length bs"
  by (auto simp: eats_def)

text \<open>What the positions recorded by the parser delimit.\<close>

lemma transaction_layout:
  assumes "eats c0 (wt_version t) c1" "eats c1 (put_marker (wt_witness t)) c2"
    and "eats c2 (put_vector put_input (wt_inputs t)) c3"
    and "eats c3 (compact_bytes (length (wt_outputs t))) d"
    and "eats d (concat (map put_output (wt_outputs t))) c4"
    and "eats c4 (put_witness (wt_witness t)) c5" "eats c5 (wt_lock_time t) c6"
  defines "bs \<equiv> cu_bytes c6"
  shows "slice bs (cu_position c0) (cu_position c1) = wt_version t"
    and "slice bs (cu_position c2) (cu_position d) =
      put_vector put_input (wt_inputs t) @ compact_bytes (length (wt_outputs t))"
    and "slice bs (cu_position c2) (cu_position c4) = put_body t"
    and "slice bs (cu_position c5) (cu_position c6) = wt_lock_time t"
    and "slice bs (cu_position c0) (cu_position c6) = put_tx t"
    and "cu_position c4 - cu_position c2 = length (put_body t)"
    and "eats c0 (put_tx t) c6"
proof -
  have bs: "bs = cu_bytes c0" "bs = cu_bytes c2" "bs = cu_bytes c5"
    using assms(1-7) by (simp_all add: bs_def eats_bytes)
  have count: "eats c2 (put_vector put_input (wt_inputs t)
      @ compact_bytes (length (wt_outputs t))) d"
    using assms eats_append by blast
  with assms(5) have body: "eats c2 (put_body t) c4"
    by (auto simp: put_body_def put_vector_def [of put_output] eats_append)
  with assms show tx: "eats c0 (put_tx t) c6"
    unfolding put_tx_def eats_append by blast
  show "slice bs (cu_position c0) (cu_position c1) = wt_version t"
    using eats_slice [OF assms(1)] by (simp add: bs)
  show "slice bs (cu_position c5) (cu_position c6) = wt_lock_time t"
    using eats_slice [OF assms(7)] by (simp add: bs(3))
  show "slice bs (cu_position c0) (cu_position c6) = put_tx t"
    using eats_slice [OF tx] by (simp add: bs(1))
  show "slice bs (cu_position c2) (cu_position d) =
      put_vector put_input (wt_inputs t) @ compact_bytes (length (wt_outputs t))"
    using eats_slice [OF count] by (simp add: bs(2))
  show "slice bs (cu_position c2) (cu_position c4) = put_body t"
    using eats_slice [OF body] by (simp add: bs(2))
  show "cu_position c4 - cu_position c2 = length (put_body t)"
    using eats_position [OF body] by simp
qed

text \<open>The transaction record computed from the positions is the view of the transaction.\<close>

lemma stripped_size_fits:
  assumes "eats c0 (put_tx t) c6" "length (wt_version t) = 4" "length (wt_lock_time t) = 4"
  shows "Option.bind (usize_checked_add 4 (length (put_body t))) (\<lambda>v. usize_checked_add v 4) =
    Some (length (put_stripped t))"
proof -
  have "length (put_stripped t) \<le> length (put_tx t)"
    by (simp add: put_stripped_def put_tx_def)
  moreover have "length (put_tx t) < 2 ^ 64"
    using eats_position [OF assms(1)] eats_fits [OF assms(1)] by (simp add: fits_def)
  ultimately show ?thesis
    using assms(2,3) by (simp add: put_stripped_def usize_checked_add_def)
qed

lemma parse_transaction_complete:
  assumes "tx_ok t" "eats c0 (put_tx t) c6"
  shows "parse_transaction H c0 = Inr (view_tx H t, c6)"
proof -
  let ?cb = "tx_is_coinbase t" and ?w = "wt_witness t"
  note ok = assms(1) [unfolded tx_ok_def]
  obtain c1 c2 c3 d c4 c5 where
      e1: "eats c0 (wt_version t) c1" and e2: "eats c1 (put_marker ?w) c2"
      and e3: "eats c2 (put_vector put_input (wt_inputs t)) c3"
      and e4: "eats c3 (compact_bytes (length (wt_outputs t))) d"
      and e5: "eats d (concat (map put_output (wt_outputs t))) c4"
      and e6: "eats c4 (put_witness ?w) c5" and e7: "eats c5 (wt_lock_time t) c6"
    using assms(2) unfolding put_tx_def put_body_def put_vector_def [of put_output] eats_append
    by blast
  note layout = transaction_layout [OF e1 e2 e3 e4 e5 e6 e7]
  have step1: "cur_take 4 c0 = Inr (wt_version t, c1)" "cur_take 4 c5 = Inr (wt_lock_time t, c6)"
    using ok e1 e7 by (simp_all add: cur_take_iff)
  obtain b bs where "put_body t = b # bs" "b \<noteq> 0" using put_body_nonzero ok by blast
  moreover have "eats c2 (put_body t) c4"
    using e3 e4 e5 unfolding put_body_def put_vector_def [of put_output] eats_append by blast
  ultimately have "\<exists>b bs. ahead c2 = b # bs \<and> b \<noteq> 0" using eats_head by metis
  with e2 have step2: "parse_marker c1 = Inr ((?w \<noteq> None, cu_position c2), c2)"
    unfolding parse_marker_iff by (cases ?w) (auto simp: put_marker_def)
  have step3: "parse_inputs c2 = Inr (map view_input (wt_inputs t), c3)"
    using ok e3 by (auto simp: parse_inputs_iff)
  have step4: "check_inputs (map view_input (wt_inputs t)) =
      Inr (?cb, view_outpoints (wt_inputs t) ?cb)"
    using ok by (simp add: check_inputs_iff)
  have step5: "parse_outputs c3 = Inr ((cu_position d, wt_outputs t), c4)"
    using ok e4 e5 by (auto simp: parse_outputs_iff)
  have step6: "parse_witness (?w \<noteq> None) (length (map view_input (wt_inputs t))) ?cb c4 =
      Inr (if ?cb then first_stack ?w else [], c5)"
    using ok e6 by (auto simp: parse_witness_iff [OF eats_fits [OF e5]])
  have "Option.bind (usize_checked_add 4 (length (put_body t))) (\<lambda>v. usize_checked_add v 4) =
      Some (length (put_stripped t))"
    using stripped_size_fits assms(2) ok by blast
  then show ?thesis
    unfolding parse_transaction_def Let_def step1 step2 step3 step4 step5 step6 and_then_simps
      prod.case layout
    by (cases "wt_witness t")
      (simp_all add: ok_or_def view_tx_def Let_def put_stripped_def put_tx_def put_marker_def
        put_witness_def)
qed

theorem parse_transaction_iff:
  "parse_transaction H c = Inr (v, c') \<longleftrightarrow>
     (\<exists>t. tx_ok t \<and> view_tx H t = v \<and> eats c (put_tx t) c')"
proof
  assume p: "parse_transaction H c = Inr (v, c')"
  then obtain version c1 h p c2 inputs c3 cb ops q outs c4 w c5 lock_time where
      s1: "cur_take 4 c = Inr (version, c1)" "cur_take 4 c5 = Inr (lock_time, c')"
      and s2: "parse_marker c1 = Inr ((h, p), c2)" and s3: "parse_inputs c2 = Inr (inputs, c3)"
      and s4: "check_inputs inputs = Inr (cb, ops)"
      and s5: "parse_outputs c3 = Inr ((q, outs), c4)"
      and s6: "parse_witness h (length inputs) cb c4 = Inr (w, c5)"
    by (auto simp: parse_transaction_def Let_def and_then_Inr ok_or_Inr split_beta)
  obtain ws where ws: "ws \<noteq> []" "length ws \<le> 24390" "list_all input_ok ws"
      "map view_input ws = inputs" "eats c2 (put_vector put_input ws) c3"
    using s3 by (auto simp: parse_inputs_iff)
  obtain d where outs: "outs \<noteq> []" "length outs \<le> 111111" "list_all output_ok outs"
      "(\<Sum>o' \<leftarrow> outs. output_value o') \<le> 2100000000000000"
      "eats c3 (compact_bytes (length outs)) d" "eats d (concat (map put_output outs)) c4"
    using s5 by (auto simp: parse_outputs_iff)
  obtain wit where wit: "h \<longleftrightarrow> wit \<noteq> None" "witness_ok (length inputs) wit"
      "eats c4 (put_witness wit) c5"
    using s6 by (auto simp: parse_witness_iff [OF eats_fits [OF outs(6)]])
  have vs: "length version = 4" "eats c version c1" "length lock_time = 4" "eats c5 lock_time c'"
    using s1 by (simp_all add: cur_take_iff)
  have marker: "eats c1 (put_marker wit) c2"
    using s2 wit(1) eats_fits [OF vs(2)] by (cases wit) (auto simp: parse_marker_iff put_marker_def)
  have check: "inputs_check ws cb"
    using s4 ws by (auto simp: check_inputs_iff)
  define t where "t = \<lparr> wt_version = version, wt_inputs = ws, wt_outputs = outs,
    wt_witness = wit, wt_lock_time = lock_time \<rparr>"
  have "tx_is_coinbase t = cb" using check by (simp add: tx_is_coinbase_def inputs_check_def t_def)
  then have "tx_ok t"
    using ws outs wit check vs by (auto simp: tx_ok_def t_def)
  moreover have "eats c (put_tx t) c'"
    using transaction_layout(7) [of c t] vs marker ws(5) outs(5,6) wit(3) by (simp add: t_def)
  ultimately show "\<exists>t. tx_ok t \<and> view_tx H t = v \<and> eats c (put_tx t) c'"
    using parse_transaction_complete [of t c c' H] p by auto
qed (auto simp: parse_transaction_complete)

interpretation transaction: wire_codec put_tx tx_ok "view_tx H" "parse_transaction H" for H
  by unfold_locales (rule parse_transaction_iff)

subsection \<open>Properties\<close>

text \<open>
  C25: transactions on the wire. From any position of a byte string the parser succeeds exactly
  when the bytes there begin with the serialization, with or without witness, of a transaction
  that satisfies \<open>tx_ok\<close> (canonical compact sizes, count and size bounds, output values and
  their sum within the money supply, the coinbase and null-outpoint rules, no input twice, a
  witness only if it is not empty everywhere). It then returns the view of that transaction:
  the txid is the hash of the serialization without witness, the wtxid of the one with it.
\<close>

theorem transaction_wire_exact:
  "parse_transaction H (cursor_new bs position) = Inr (v, c) \<longleftrightarrow>
     (\<exists>t before after. tx_ok t \<and> v = view_tx H t
        \<and> bs = before @ put_tx t @ after \<and> length before = position
        \<and> position + length (put_tx t) < 2 ^ 64
        \<and> c = cursor_new bs (position + length (put_tx t)))"
proof -
  have "eats (cursor_new bs position) xs c \<and> xs \<noteq> [] \<longleftrightarrow>
      (\<exists>before after. bs = before @ xs @ after \<and> length before = position
        \<and> position + length xs < 2 ^ 64 \<and> c = cursor_new bs (position + length xs)) \<and> xs \<noteq> []" for xs
  proof (cases "position \<le> length bs")
    case True
    have "prefix xs (drop position bs) \<longleftrightarrow> (\<exists>before after. bs = before @ xs @ after \<and> length before = position)"
    proof
      assume "prefix xs (drop position bs)"
      then obtain after where "drop position bs = xs @ after" by (auto simp: prefix_def)
      then have "bs = take position bs @ xs @ after" by (metis append_take_drop_id)
      moreover have "length (take position bs) = position" using True by simp
      ultimately show "\<exists>before after. bs = before @ xs @ after \<and> length before = position" by blast
    qed auto
    moreover have "eats (cursor_new bs position) xs c \<longleftrightarrow> prefix xs (drop position bs)
        \<and> c = cursor_new bs (position + length xs)
        \<and> position + length xs \<le> length bs \<and> position + length xs < 2 ^ 64"
      unfolding eats_def by (auto simp only: cursor_new_def ahead_def forward_def fits_def
          cursor.simps cursor.update_convs cursor.select_convs)
    ultimately show ?thesis by (auto simp only: length_append)
  qed (auto simp: eats_def cursor_new_def ahead_def)
  moreover have "put_tx t \<noteq> []" if "tx_ok t" for t
    using that by (auto simp: put_tx_def tx_ok_def)
  ultimately show ?thesis unfolding parse_transaction_iff by blast
qed

end
