(* ===== verification/Block_Merkle.thy ===== *)
theory Block_Merkle
  imports Transaction Merkle "HOL-Library.While_Combinator"
begin

section \<open>The transaction Merkle tree (usdd-bitcoin-bmm/src/block.rs)\<close>

text \<open>
  \<open>merkle_root_and_mutation\<close>: the loop over the levels, each computed in place in the vector of
  hashes, with the flag of Bitcoin's duplicate-transaction mutation. The outer loop is
  \<open>while_option\<close>, so its result is \<open>None\<close> where it would not return; indexing the empty vector
  panics, which is \<open>None\<close> too. The reference is the hash of a node given by its height and
  index, with the last node of an odd level paired with itself.
\<close>

fun equal_pairs :: "'a list \<Rightarrow> bool" where
  "equal_pairs (a # b # xs) = (a = b \<or> equal_pairs xs)"
| "equal_pairs _ = False"

definition pair_bytes :: "hash32 \<times> hash32 \<Rightarrow> bytes" where
  "pair_bytes p = enc_hash32 (fst p) @ enc_hash32 (snd p)"

definition merkle_write :: "(bytes \<Rightarrow> hash32) \<Rightarrow> nat \<Rightarrow> hash32 list \<Rightarrow> hash32 list" where
  "merkle_write H i hashes =
     hashes[i := double_sha256 H (pair_bytes (hashes ! (i * 2), hashes ! (i * 2 + 1)))]"

text \<open>The body of the outer loop without the flag.\<close>

definition block_level :: "(bytes \<Rightarrow> hash32) \<Rightarrow> hash32 list \<Rightarrow> hash32 list" where
  "block_level H hashes =
     (let hashes = (if length hashes mod 2 \<noteq> 0 then hashes @ [last hashes] else hashes);
          next_len = length hashes div 2
      in take next_len (fold (merkle_write H) [0..<next_len] hashes))"

definition merkle_root_and_mutation ::
  "(bytes \<Rightarrow> hash32) \<Rightarrow> hash32 list \<Rightarrow> (hash32 \<times> bool) option" where
  "merkle_root_and_mutation H hashes =
     Option.bind (while_option (\<lambda>(hashes, mutated). 1 < length hashes)
         (\<lambda>(hashes, mutated). (block_level H hashes, mutated \<or> equal_pairs hashes))
         (hashes, False))
       (\<lambda>(hashes, mutated). if hashes = [] then None else Some (hashes ! 0, mutated))"

subsection \<open>One level\<close>

fun level_pairs :: "'a list \<Rightarrow> ('a \<times> 'a) list" where
  "level_pairs (a # b # xs) = (a, b) # level_pairs xs"
| "level_pairs [a] = [(a, a)]"
| "level_pairs [] = []"

definition block_node :: "(bytes \<Rightarrow> hash32) \<Rightarrow> hash32 \<Rightarrow> hash32 \<Rightarrow> hash32" where
  "block_node H l r = double_sha256 H (pair_bytes (l, r))"

lemma length_level_pairs: "length (level_pairs xs) = (length xs + 1) div 2"
  by (induction xs rule: level_pairs.induct) auto

lemma nth_level_pairs:
  "2 * i < length xs \<Longrightarrow> level_pairs xs ! i =
     (xs ! (2 * i), if 2 * i + 1 < length xs then xs ! (2 * i + 1) else xs ! (2 * i))"
proof (induction xs arbitrary: i rule: level_pairs.induct)
  case (1 a b xs)
  then show ?case by (cases i) auto
qed auto

lemma level_pairs_pad: "odd (length xs) \<Longrightarrow> level_pairs (xs @ [last xs]) = level_pairs xs"
  by (induction xs rule: level_pairs.induct) auto

text \<open>
  The loop that writes the next level over the current one reads no entry it has written: after
  \<open>k\<close> writes the entries from \<open>k\<close> on are still those of the current level.
\<close>

lemma merkle_writes:
  "2 * k \<le> length hs \<Longrightarrow> fold (merkle_write H) [0..<k] hs =
     map (\<lambda>i. block_node H (hs ! (2 * i)) (hs ! (2 * i + 1))) [0..<k] @ drop k hs"
proof (induction k)
  case (Suc k)
  let ?done = "map (\<lambda>i. block_node H (hs ! (2 * i)) (hs ! (2 * i + 1))) [0..<k]"
  have "(?done @ drop k hs) ! j = hs ! j" if "k \<le> j" "j < length hs" for j
    using that by (simp add: nth_append)
  then have "merkle_write H k (?done @ drop k hs) =
      (?done @ drop k hs)[k := block_node H (hs ! (2 * k)) (hs ! (2 * k + 1))]"
    using Suc.prems by (simp add: merkle_write_def block_node_def mult.commute)
  with Suc show ?case
    by (simp add: list_update_append) (simp add: Cons_nth_drop_Suc [symmetric])
qed simp

lemma block_level_pairs: "block_level H hs = map (\<lambda>(l, r). block_node H l r) (level_pairs hs)"
proof -
  have even: "take (length xs div 2) (fold (merkle_write H) [0..<length xs div 2] xs) =
      map (\<lambda>(l, r). block_node H l r) (level_pairs xs)" if "even (length xs)" for xs
    using that by (subst merkle_writes)
      (auto simp: length_level_pairs nth_level_pairs intro!: nth_equalityI elim!: evenE)
  show ?thesis
    using even [of hs] even [of "hs @ [last hs]"] level_pairs_pad [of hs]
    by (cases "even (length hs)")
      (simp_all add: block_level_def Let_def even_iff_mod_2_eq_zero del: length_append,
       simp add: odd_iff_mod_2_eq_one)
qed

lemma length_block_level: "length (block_level H hs) = (length hs + 1) div 2"
  by (simp add: block_level_pairs length_level_pairs)

subsection \<open>All levels\<close>

definition levels :: "nat \<Rightarrow> nat" where
  "levels n = bit_length (n - 1)"

lemma levels_le: "0 < n \<Longrightarrow> levels n \<le> k \<longleftrightarrow> n \<le> 2 ^ k"
  using bit_length_iff [of "n - 1" k] by (auto simp: levels_def)

definition block_row :: "(bytes \<Rightarrow> hash32) \<Rightarrow> hash32 list \<Rightarrow> nat \<Rightarrow> hash32 list" where
  "block_row H hs k = (block_level H ^^ k) hs"

lemma block_row_simps [simp]:
  "block_row H hs 0 = hs"
  "block_row H hs (Suc k) = block_level H (block_row H hs k)"
  by (simp_all add: block_row_def)

lemma block_row_shift: "block_row H hs (Suc k) = block_row H (block_level H hs) k"
  by (simp add: block_row_def funpow_swap1)

text \<open>The width of a level: the number of leaves divided by \<open>2 ^ h\<close>, rounded up.\<close>

definition tree_width :: "nat \<Rightarrow> nat \<Rightarrow> nat" where
  "tree_width n h = (n + (2 ^ h - 1)) div 2 ^ h"

lemma tree_width_le: "tree_width n h \<le> m \<longleftrightarrow> n \<le> m * 2 ^ h"
proof -
  define p :: nat where "p = 2 ^ h"
  have "0 < p" by (simp add: p_def)
  have "tree_width n h \<le> m \<longleftrightarrow> n + (p - 1) < Suc m * p"
    using \<open>0 < p\<close> by (simp only: tree_width_def p_def [symmetric] less_Suc_eq_le [symmetric]
        div_less_iff_less_mult)
  also have "\<dots> \<longleftrightarrow> n \<le> m * p" using \<open>0 < p\<close> by auto
  finally show ?thesis by (simp add: p_def)
qed

lemma tree_width_0 [simp]: "tree_width n 0 = n"
  by (simp add: tree_width_def)

lemma tree_width_Suc: "tree_width n (Suc h) = (tree_width n h + 1) div 2"
proof -
  have "tree_width n (Suc h) \<le> m \<longleftrightarrow> (tree_width n h + 1) div 2 \<le> m" for m
  proof -
    have "(tree_width n h + 1) div 2 \<le> m \<longleftrightarrow> tree_width n h \<le> 2 * m" by linarith
    then show ?thesis by (simp add: tree_width_le ac_simps)
  qed
  then show ?thesis by (meson le_antisym order_refl)
qed

lemma length_block_row: "length (block_row H hs k) = tree_width (length hs) k"
  by (induction k) (simp_all add: length_block_level tree_width_Suc)

lemma block_row_nonempty [simp]: "block_row H hs k = [] \<longleftrightarrow> hs = []"
  using tree_width_le [of "length hs" k 0] length_block_row [of H hs k] by auto

lemma block_row_single:
  "hs \<noteq> [] \<Longrightarrow> length (block_row H hs k) \<le> 1 \<longleftrightarrow> levels (length hs) \<le> k"
  by (simp add: length_block_row tree_width_le levels_le)

definition merkle_mutated :: "(bytes \<Rightarrow> hash32) \<Rightarrow> hash32 list \<Rightarrow> bool" where
  "merkle_mutated H hs =
     list_ex (\<lambda>k. equal_pairs (block_row H hs k)) [0..<levels (length hs)]"

lemma merkle_while:
  assumes "hs \<noteq> []" "k \<le> levels (length hs)"
  shows "while_option (\<lambda>(hashes, mutated). 1 < length hashes)
      (\<lambda>(hashes, mutated). (block_level H hashes, mutated \<or> equal_pairs hashes))
      (block_row H hs (levels (length hs) - k), m) =
    Some (block_row H hs (levels (length hs)),
      m \<or> list_ex (\<lambda>k. equal_pairs (block_row H hs k))
        [levels (length hs) - k..<levels (length hs)])"
  using assms(2)
proof (induction k arbitrary: m)
  case 0
  have "\<not> 1 < length (block_row H hs (levels (length hs)))"
    using block_row_single [OF assms(1)] by (simp add: not_less)
  then show ?case by (subst while_option_unfold) simp
next
  case (Suc k)
  let ?h = "levels (length hs)"
  have "1 < length (block_row H hs (?h - Suc k))"
    using block_row_single [OF assms(1), of H "?h - Suc k"] Suc.prems by linarith
  moreover have "block_level H (block_row H hs (?h - Suc k)) = block_row H hs (?h - k)"
    using Suc.prems by (simp add: Suc_diff_Suc flip: block_row_simps(2))
  moreover have "[?h - Suc k..<?h] = (?h - Suc k) # [?h - k..<?h]"
    using Suc.prems by (simp add: upt_rec Suc_diff_Suc)
  ultimately show ?case
    using Suc by (subst while_option_unfold) (simp add: disj_assoc)
qed

theorem merkle_root_rows:
  assumes "hs \<noteq> []"
  shows "merkle_root_and_mutation H hs =
    Some (block_row H hs (levels (length hs)) ! 0, merkle_mutated H hs)"
  using merkle_while [OF assms, of "levels (length hs)" H False] assms
  by (simp add: merkle_root_and_mutation_def merkle_mutated_def)

subsection \<open>The tree by height and index\<close>

fun tree_hash :: "(bytes \<Rightarrow> hash32) \<Rightarrow> hash32 list \<Rightarrow> nat \<Rightarrow> nat \<Rightarrow> hash32" where
  "tree_hash H txids 0 i = txids ! i"
| "tree_hash H txids (Suc h) i =
     (let left = tree_hash H txids h (2 * i);
          right = (if 2 * i + 1 < tree_width (length txids) h
            then tree_hash H txids h (2 * i + 1) else left)
      in block_node H left right)"

lemma tree_row: "block_row H txids h = map (tree_hash H txids h) [0..<tree_width (length txids) h]"
proof (induction h)
  case 0
  show ?case by (simp add: map_nth)
next
  case (Suc h)
  have "block_level H (block_row H txids h) ! i = tree_hash H txids (Suc h) i"
    if "i < (tree_width (length txids) h + 1) div 2" for i
  proof -
    from that have "2 * i < tree_width (length txids) h" by auto
    then show ?thesis
      using that by (simp add: block_level_pairs Suc length_level_pairs nth_level_pairs Let_def)
  qed
  then show ?case
    by (intro nth_equalityI)
      (simp_all add: length_block_level Suc tree_width_Suc del: upt_Suc tree_hash.simps)
qed

lemma ex_nat_cases: "(\<exists>i. P i) \<longleftrightarrow> P 0 \<or> (\<exists>i. P (Suc i))"
  by (metis not0_implies_Suc)

lemma equal_pairs_iff:
  "equal_pairs xs \<longleftrightarrow> (\<exists>i. 2 * i + 1 < length xs \<and> xs ! (2 * i) = xs ! (2 * i + 1))"
proof (induction xs rule: equal_pairs.induct)
  case (1 a b xs)
  have "(\<exists>i. 2 * i + 1 < length (a # b # xs) \<and> (a # b # xs) ! (2 * i) = (a # b # xs) ! (2 * i + 1))
      \<longleftrightarrow> a = b \<or> (\<exists>i. 2 * i + 1 < length xs \<and> xs ! (2 * i) = xs ! (2 * i + 1))"
    by (subst ex_nat_cases) simp
  with 1 show ?case by simp
qed auto

subsection \<open>Binding\<close>

interpretation block_tree: node_hash "double_sha256 H" "block_node H" pair_bytes for H
proof unfold_locales
  show "pair_bytes p = pair_bytes q \<longleftrightarrow> p = q" for p q
    by (auto simp: pair_bytes_def prod_eq_iff append_eq_append_conv enc_hash32_inject)
qed (simp add: block_node_def)

text \<open>The pairs hashed by the levels of a tree.\<close>

fun tree_pairs :: "(bytes \<Rightarrow> hash32) \<Rightarrow> nat \<Rightarrow> hash32 list \<Rightarrow> (hash32 \<times> hash32) list" where
  "tree_pairs H 0 hs = []"
| "tree_pairs H (Suc k) hs = level_pairs hs @ tree_pairs H k (block_level H hs)"

lemma level_pairs_inject:
  "level_pairs xs = level_pairs ys \<Longrightarrow> \<not> equal_pairs xs \<Longrightarrow> \<not> equal_pairs ys \<Longrightarrow> xs = ys"
proof (induction xs arbitrary: ys rule: level_pairs.induct)
  case (1 a b xs)
  then show ?case by (cases ys rule: level_pairs.cases) auto
next
  case (2 a)
  then show ?case by (cases ys rule: level_pairs.cases) (auto elim: level_pairs.elims)
next
  case 3
  then show ?case by (cases ys rule: level_pairs.cases) auto
qed

lemma block_level_inject:
  assumes "block_level H xs = block_level H ys"
    and "inj_on (double_sha256 H) (pair_bytes ` (set (level_pairs xs) \<union> set (level_pairs ys)))"
    and "\<not> equal_pairs xs" "\<not> equal_pairs ys"
  shows "xs = ys"
proof -
  have "inj_on (\<lambda>(l, r). block_node H l r) (set (level_pairs xs) \<union> set (level_pairs ys))"
    using block_tree.node_inject_on [OF assms(2)] by (auto simp: inj_on_def)
  then have "level_pairs xs = level_pairs ys"
    using assms(1) by (simp add: block_level_pairs inj_on_map_eq_map)
  then show ?thesis using level_pairs_inject assms(3,4) by blast
qed

lemma block_row_binds:
  "block_row H xs k = block_row H ys k \<Longrightarrow>
     inj_on (double_sha256 H) (pair_bytes ` (set (tree_pairs H k xs) \<union> set (tree_pairs H k ys))) \<Longrightarrow>
     list_all (\<lambda>j. \<not> equal_pairs (block_row H xs j) \<and> \<not> equal_pairs (block_row H ys j)) [0..<k] \<Longrightarrow>
     xs = ys"
proof (induction k arbitrary: xs ys)
  case (Suc k)
  have fresh: "\<not> equal_pairs (block_row H xs j) \<and> \<not> equal_pairs (block_row H ys j)"
    if "j < Suc k" for j
    using Suc.prems(3) that by (simp only: list_all_iff set_upt atLeastLessThan_iff) simp
  have "block_level H xs = block_level H ys"
  proof (rule Suc.IH)
    show "block_row H (block_level H xs) k = block_row H (block_level H ys) k"
      using Suc.prems(1) by (simp only: block_row_shift)
    show "inj_on (double_sha256 H) (pair_bytes ` (set (tree_pairs H k (block_level H xs))
        \<union> set (tree_pairs H k (block_level H ys))))"
      by (rule inj_on_subset [OF Suc.prems(2)]) auto
    show "list_all (\<lambda>j. \<not> equal_pairs (block_row H (block_level H xs) j)
        \<and> \<not> equal_pairs (block_row H (block_level H ys) j)) [0..<k]"
      using fresh [of "Suc _"] by (auto simp: list_all_iff simp flip: block_row_shift)
  qed
  moreover have "inj_on (double_sha256 H)
      (pair_bytes ` (set (level_pairs xs) \<union> set (level_pairs ys)))"
    by (rule inj_on_subset [OF Suc.prems(2)]) auto
  ultimately show ?case using fresh [of 0] block_level_inject by auto
qed simp

text \<open>
  Two trees with the same number of levels, the same root and no mutation have the same leaves.
\<close>

lemma merkle_root_binds:
  assumes "xs \<noteq> []" "ys \<noteq> []" "levels (length xs) = levels (length ys)"
    and "merkle_root_and_mutation H xs = Some (root, False)"
    and "merkle_root_and_mutation H ys = Some (root, False)"
    and "inj_on (double_sha256 H) (pair_bytes `
      (set (tree_pairs H (levels (length xs)) xs) \<union> set (tree_pairs H (levels (length xs)) ys)))"
  shows "xs = ys"
proof (rule block_row_binds [OF _ assms(6)])
  have single: "length (block_row H xs (levels (length xs))) = 1"
    "length (block_row H ys (levels (length xs))) = 1"
    using block_row_single [OF assms(1), of H "levels (length xs)"]
      block_row_single [OF assms(2), of H "levels (length xs)"] assms(1,2,3)
    by (auto simp: le_Suc_eq)
  then show "block_row H xs (levels (length xs)) = block_row H ys (levels (length xs))"
    using assms(1-5) by (auto simp: merkle_root_rows length_Suc_conv)
qed (use assms in \<open>auto simp: merkle_root_rows merkle_mutated_def list_all_iff list_ex_iff\<close>)

subsection \<open>Properties\<close>

text \<open>
  C30: the transaction Merkle root. The loop over the levels returns for every non-empty list of
  transaction ids; it returns the hash of the root node of the tree given by height and index,
  and its flag is set exactly when at some level two sibling nodes are equal.
\<close>

theorem merkle_tree_exact:
  assumes "txids \<noteq> []"
  shows "merkle_root_and_mutation H txids =
    Some (tree_hash H txids (levels (length txids)) 0,
      list_ex (\<lambda>h. list_ex (\<lambda>i. 2 * i + 1 < tree_width (length txids) h
          \<and> tree_hash H txids h (2 * i) = tree_hash H txids h (2 * i + 1))
        [0..<tree_width (length txids) h]) [0..<levels (length txids)])"
proof -
  let ?w = "tree_width (length txids)"
  have "1 \<le> ?w (levels (length txids))"
    using tree_width_le [of "length txids" "levels (length txids)" 0] assms by (simp add: Suc_le_eq)
  moreover have "equal_pairs (block_row H txids h) \<longleftrightarrow>
      list_ex (\<lambda>i. 2 * i + 1 < ?w h \<and> tree_hash H txids h (2 * i) = tree_hash H txids h (2 * i + 1))
        [0..<?w h]" for h
    by (auto simp: equal_pairs_iff tree_row list_ex_iff)
  ultimately show ?thesis
    using assms by (simp add: merkle_root_rows merkle_mutated_def tree_row Suc_le_eq)
qed

theorem merkle_tree_exact_witness:
  "merkle_root_and_mutation toy_hash [1, 2, 3] =
     Some (tree_hash toy_hash [1, 2, 3] (levels (length [1, 2, 3 :: hash32])) 0,
      list_ex (\<lambda>h. list_ex (\<lambda>i. 2 * i + 1 < tree_width (length [1, 2, 3 :: hash32]) h
          \<and> tree_hash toy_hash [1, 2, 3] h (2 * i) = tree_hash toy_hash [1, 2, 3] h (2 * i + 1))
        [0..<tree_width (length [1, 2, 3 :: hash32]) h]) [0..<levels (length [1, 2, 3 :: hash32])])"
  by (rule merkle_tree_exact) simp

end
