(* ===== verification/Block.thy ===== *)
theory Block
  imports Block_Merkle
begin

section \<open>Serialized blocks (usdd-bitcoin-bmm/src/block.rs)\<close>

text \<open>
  \<open>parse_and_verify_block\<close> with its loop over the transactions, the SegWit commitment of the
  coinbase, and the binding of the slot-24 commitment to a proof-of-work successor. The
  reference is an abstract block, a header and a list of transactions: a byte string is accepted
  exactly when it is the serialization of one that satisfies \<open>block_ok\<close>.
\<close>

definition usize_checked_mul :: "nat \<Rightarrow> nat \<Rightarrow> nat option" where
  "usize_checked_mul a b = (if a * b < 2 ^ 64 then Some (a * b) else None)"

definition u32_try_from :: "nat \<Rightarrow> 'e \<Rightarrow> 'e + u32" where
  "u32_try_from n e = (if n < 2 ^ 32 then Inr (of_nat n) else Inl e)"

record merkle_verified_bitcoin_block =
  mv_header :: bitcoin_header
  mv_block_hash :: block_hash
  mv_coinbase_txid :: block_hash
  mv_transaction_count :: u32
  mv_stripped_size :: u32
  mv_total_size :: u32
  mv_weight :: u32

record parsed_block =
  pb_metadata :: merkle_verified_bitcoin_block
  pb_coinbase :: parsed_coinbase
  pb_txids :: "block_hash list"
  pb_transactions :: "parsed_transaction list"

subsection \<open>The witness commitment\<close>

definition commits_witness :: "parsed_output \<Rightarrow> bool" where
  "commits_witness output =
     (38 \<le> length (po_script output)
       \<and> take 6 (po_script output) = [0x6a, 0x24, 0xaa, 0x21, 0xa9, 0xed])"

definition witness_commitment_index :: "parsed_output list \<Rightarrow> nat option" where
  "witness_commitment_index outputs =
     (let indices = map fst (filter (\<lambda>(_, output). commits_witness output) (enumerate 0 outputs))
      in if indices = [] then None else Some (last indices))"

definition verify_witness_commitment ::
  "(bytes \<Rightarrow> hash32) \<Rightarrow> parsed_coinbase \<Rightarrow> block_hash list \<Rightarrow> bool
     \<Rightarrow> block_structure_error + unit" where
  "verify_witness_commitment H coinbase wtxids block_has_witness =
     (let commitment_index = witness_commitment_index (pc_outputs coinbase) in
      if \<not> block_has_witness \<and> commitment_index = None then Inr ()
      else and_then (ok_or commitment_index MissingWitnessCommitment) (\<lambda>commitment_index.
      if length (pc_witness coinbase) \<noteq> 1 \<or> length (pc_witness coinbase ! 0) \<noteq> 32
      then Inl InvalidCoinbaseWitness
      else let (root, _) = expect (merkle_root_and_mutation H (wtxids[0 := 0]));
               expected = double_sha256 H (enc_hash32 root @ pc_witness coinbase ! 0);
               script = po_script (pc_outputs coinbase ! commitment_index)
           in if slice script 6 38 \<noteq> enc_hash32 expected then Inl WitnessCommitmentMismatch
              else Inr ()))"

subsection \<open>The loop over the transactions\<close>

record block_scan =
  bk_txids :: "block_hash list"
  bk_wtxids :: "block_hash list"
  bk_has_witness :: bool
  bk_stripped_size :: nat
  bk_coinbase_txid :: block_hash
  bk_coinbase :: "parsed_coinbase option"
  bk_transactions :: "parsed_transaction list"

definition block_step ::
  "(bytes \<Rightarrow> hash32) \<Rightarrow> block_scan \<times> cursor \<Rightarrow> nat
     \<Rightarrow> block_structure_error + block_scan \<times> cursor" where
  "block_step H = (\<lambda>(st, c) index.
     and_then (parse_transaction H c) (\<lambda>(transaction, c).
     if index = 0 \<and> \<not> pt_is_coinbase transaction then Inl FirstTransactionNotCoinbase
     else if index \<noteq> 0 \<and> pt_is_coinbase transaction then Inl MultipleCoinbaseTransactions
     else let st = (if index = 0
            then st\<lparr> bk_coinbase_txid := pt_txid transaction,
                     bk_coinbase := pt_coinbase transaction \<rparr>
            else st)
       in and_then (ok_or (usize_checked_add (bk_stripped_size st)
            (pt_stripped_size transaction)) LengthOverflow) (\<lambda>stripped_size.
       Inr (st\<lparr> bk_stripped_size := stripped_size,
                bk_txids := bk_txids st @ [pt_txid transaction],
                bk_wtxids := bk_wtxids st @ [pt_wtxid transaction],
                bk_has_witness := bk_has_witness st \<or> pt_has_witness transaction,
                bk_transactions := bk_transactions st @ [transaction] \<rparr>, c))))"

definition block_start :: "nat \<Rightarrow> block_scan" where
  "block_start stripped_size =
     \<lparr> bk_txids = [], bk_wtxids = [], bk_has_witness = False, bk_stripped_size = stripped_size,
       bk_coinbase_txid = 0, bk_coinbase = None, bk_transactions = [] \<rparr>"

definition parse_and_verify_block ::
  "(bytes \<Rightarrow> hash32) \<Rightarrow> bytes \<Rightarrow> block_structure_error + parsed_block" where
  "parse_and_verify_block H bs =
     (if length bs < BITCOIN_HEADER_LEN + 1 then Inl BlockTooShort
      else if BITCOIN_MAX_SERIALIZED_BLOCK_BYTES < length bs then Inl SerializedBlockTooLarge
      else and_then (map_err (\<lambda>_. BlockTooShort)
        (header_decode_exact (take BITCOIN_HEADER_LEN bs))) (\<lambda>header.
      and_then (cur_compact_size (cursor_new bs BITCOIN_HEADER_LEN)) (\<lambda>(transaction_count, c).
      if transaction_count = 0 then Inl EmptyBlock
      else if BITCOIN_MAX_TRANSACTIONS < transaction_count
        \<or> cur_remaining c div BITCOIN_MIN_TRANSACTION_BASE_BYTES < transaction_count
      then Inl TooManyTransactions
      else and_then (ok_or (usize_checked_add BITCOIN_HEADER_LEN
          (cu_position c - BITCOIN_HEADER_LEN)) LengthOverflow) (\<lambda>stripped_size.
      and_then (try_fold (block_step H) (block_start stripped_size, c) [0..<transaction_count])
        (\<lambda>(st, c).
      if cu_position c \<noteq> length bs then Inl TrailingBytes
      else and_then (ok_or (Option.bind (usize_checked_mul (bk_stripped_size st) 3)
          (\<lambda>v. usize_checked_add v (length bs))) LengthOverflow) (\<lambda>weight.
      if BITCOIN_MAX_BLOCK_WEIGHT < weight then Inl BlockWeightExceeded
      else let (merkle_root, mutated) = expect (merkle_root_and_mutation H (bk_txids st)) in
      if mutated then Inl MutatedMerkleTree
      else if merkle_root \<noteq> bh_merkle_root header then Inl MerkleRootMismatch
      else and_then (ok_or (bk_coinbase st) FirstTransactionNotCoinbase) (\<lambda>coinbase.
      and_then (verify_witness_commitment H coinbase (bk_wtxids st) (bk_has_witness st)) (\<lambda>_.
      and_then (u32_try_from transaction_count LengthOverflow) (\<lambda>transaction_count.
      and_then (u32_try_from (bk_stripped_size st) LengthOverflow) (\<lambda>stripped_size.
      and_then (u32_try_from (length bs) LengthOverflow) (\<lambda>total_size.
      and_then (u32_try_from weight LengthOverflow) (\<lambda>weight.
      Inr \<lparr> pb_metadata =
              \<lparr> mv_header = header, mv_block_hash = block_hash_of H header,
                mv_coinbase_txid = bk_coinbase_txid st,
                mv_transaction_count = transaction_count, mv_stripped_size = stripped_size,
                mv_total_size = total_size, mv_weight = weight \<rparr>,
            pb_coinbase = coinbase, pb_txids = bk_txids st,
            pb_transactions = bk_transactions st \<rparr>))))))))))))"

definition verify_serialized_block_merkle ::
  "(bytes \<Rightarrow> hash32) \<Rightarrow> bytes \<Rightarrow> block_structure_error + merkle_verified_bitcoin_block" where
  "verify_serialized_block_merkle H bs =
     and_then (parse_and_verify_block H bs) (\<lambda>pb. Inr (pb_metadata pb))"

subsection \<open>The commitment bound to a proof-of-work successor\<close>

record pow_merkle_bound_m7 =
  pm_parent_block_hash :: block_hash
  pm_parent_height :: u32
  pm_coinbase_txid :: block_hash
  pm_output_index :: u32
  pm_committed_child_hash :: block_hash
  pm_transaction_count :: u32
  pm_block_weight :: u32

definition require_validated_child_hash ::
  "pow_merkle_bound_m7 \<Rightarrow> block_hash \<Rightarrow> m7_error + pow_merkle_bound_m7" where
  "require_validated_child_hash m child_hash =
     (if pm_committed_child_hash m \<noteq> child_hash then Inl WrongChildHash else Inr m)"

record pow_merkle_bound_m7_transition =
  pt_next_parent_state :: header_chain_state
  pt_commitment :: pow_merkle_bound_m7

datatype parent_block_m7_error =
    HeaderE header_error
  | BlockE block_structure_error
  | CommitmentE m7_error

text \<open>The commitment the two successor verifiers assemble from the parsed block.\<close>

definition bound_m7 ::
  "merkle_verified_bitcoin_block \<Rightarrow> header_chain_state \<Rightarrow> unbound_canonical_m7
     \<Rightarrow> pow_merkle_bound_m7" where
  "bound_m7 metadata next_parent_state m =
     \<lparr> pm_parent_block_hash = mv_block_hash metadata,
       pm_parent_height = hc_height next_parent_state,
       pm_coinbase_txid = mv_coinbase_txid metadata,
       pm_output_index = m7_output_index m,
       pm_committed_child_hash = m7_committed_child_hash m,
       pm_transaction_count = mv_transaction_count metadata,
       pm_block_weight = mv_weight metadata \<rparr>"

definition verify_pow_merkle_bound_elements_m7_successor ::
  "(bytes \<Rightarrow> hash32) \<Rightarrow> header_chain_state \<Rightarrow> bytes \<Rightarrow> pow_parameters
     \<Rightarrow> parent_block_m7_error + pow_merkle_bound_m7_transition" where
  "verify_pow_merkle_bound_elements_m7_successor H prior serialized_block params =
     and_then (map_err BlockE (parse_and_verify_block H serialized_block)) (\<lambda>parsed.
     and_then (map_err HeaderE (verify_successor_header H params prior
       (bh_raw (mv_header (pb_metadata parsed))))) (\<lambda>next_parent_state.
     let coinbase_output_scripts = map po_script (pc_outputs (pb_coinbase parsed)) in
     and_then (map_err CommitmentE (extract_elements_slot24_m7 coinbase_output_scripts))
       (\<lambda>unbound.
     Inr \<lparr> pt_next_parent_state = next_parent_state,
           pt_commitment = bound_m7 (pb_metadata parsed) next_parent_state unbound \<rparr>)))"

subsection \<open>Abstract blocks\<close>

definition put_block :: "bytes \<Rightarrow> wire_tx list \<Rightarrow> bytes" where
  "put_block header txs = header @ put_vector put_tx txs"

definition block_txids :: "(bytes \<Rightarrow> hash32) \<Rightarrow> wire_tx list \<Rightarrow> block_hash list" where
  "block_txids H txs = map (\<lambda>t. double_sha256 H (put_stripped t)) txs"

definition block_wtxids :: "(bytes \<Rightarrow> hash32) \<Rightarrow> wire_tx list \<Rightarrow> block_hash list" where
  "block_wtxids H txs = map (\<lambda>t. double_sha256 H (put_tx t)) txs"

text \<open>The size of the block without witnesses, and its weight.\<close>

definition block_base_size :: "wire_tx list \<Rightarrow> nat" where
  "block_base_size txs =
     80 + length (compact_bytes (length txs)) + (\<Sum>t \<leftarrow> txs. length (put_stripped t))"

definition block_weight :: "bytes \<Rightarrow> wire_tx list \<Rightarrow> nat" where
  "block_weight header txs = 3 * block_base_size txs + length (put_block header txs)"

definition commitment_ok :: "(bytes \<Rightarrow> hash32) \<Rightarrow> wire_tx list \<Rightarrow> bool" where
  "commitment_ok H txs =
     (case filter commits_witness (wt_outputs (hd txs)) of
        [] \<Rightarrow> list_all (\<lambda>t. wt_witness t = None) txs
      | outputs \<Rightarrow>
          (case first_stack (wt_witness (hd txs)) of
             [nonce] \<Rightarrow> length nonce = 32
               \<and> slice (po_script (last outputs)) 6 38 = enc_hash32 (double_sha256 H
                   (enc_hash32 (fst (expect (merkle_root_and_mutation H
                      ((block_wtxids H txs)[0 := 0])))) @ nonce))
           | _ \<Rightarrow> False))"

definition block_ok :: "(bytes \<Rightarrow> hash32) \<Rightarrow> bytes \<Rightarrow> wire_tx list \<Rightarrow> bool" where
  "block_ok H header txs =
     (length header = 80 \<and> txs \<noteq> [] \<and> length txs \<le> 16666 \<and> list_all tx_ok txs
       \<and> tx_is_coinbase (hd txs) \<and> list_all (\<lambda>t. \<not> tx_is_coinbase t) (tl txs)
       \<and> block_weight header txs \<le> 4000000
       \<and> merkle_root_and_mutation H (block_txids H txs) =
           Some (from_be_bytes (take 32 (drop 36 header)), False)
       \<and> commitment_ok H txs)"

definition view_block :: "(bytes \<Rightarrow> hash32) \<Rightarrow> bytes \<Rightarrow> wire_tx list \<Rightarrow> parsed_block" where
  "view_block H header txs =
     \<lparr> pb_metadata =
         \<lparr> mv_header = projr (header_decode_exact header),
           mv_block_hash = double_sha256 H header,
           mv_coinbase_txid = hd (block_txids H txs),
           mv_transaction_count = of_nat (length txs),
           mv_stripped_size = of_nat (block_base_size txs),
           mv_total_size = of_nat (length (put_block header txs)),
           mv_weight = of_nat (block_weight header txs) \<rparr>,
       pb_coinbase = the (pt_coinbase (view_tx H (hd txs))),
       pb_txids = block_txids H txs,
       pb_transactions = map (view_tx H) txs \<rparr>"

subsection \<open>What the loop computes\<close>

lemma put_vector_length:
  assumes "xs \<noteq> []" "list_all (\<lambda>x. k \<le> length (put x)) xs"
  shows "k + 1 \<le> length (put_vector put xs)"
proof -
  have "k * 1 \<le> k * length xs" using assms(1) by (intro mult_le_mono2) (simp add: Suc_le_eq)
  also have "\<dots> \<le> length (concat (map put xs))" by (rule concat_length_bound [OF assms(2)])
  finally show ?thesis
    using compact_bytes_nonempty [of "length xs"] unfolding put_vector_def length_append by linarith
qed

lemma put_tx_length:
  assumes "tx_ok t"
  shows "60 \<le> length (put_stripped t)" "length (put_stripped t) \<le> length (put_tx t)"
proof -
  have "41 + 1 \<le> length (put_vector put_input (wt_inputs t))"
    using assms put_input_length
    by (intro put_vector_length) (auto simp: tx_ok_def list_all_iff)
  moreover have "9 + 1 \<le> length (put_vector put_output (wt_outputs t))"
    using assms put_output_length
    by (intro put_vector_length) (auto simp: tx_ok_def list_all_iff)
  ultimately show "60 \<le> length (put_stripped t)"
    using assms by (simp add: put_stripped_def put_body_def tx_ok_def)
  show "length (put_stripped t) \<le> length (put_tx t)"
    by (simp add: put_stripped_def put_tx_def)
qed

definition scan_add :: "nat \<Rightarrow> block_scan \<Rightarrow> parsed_transaction list \<Rightarrow> block_scan" where
  "scan_add k st ts =
     \<lparr> bk_txids = bk_txids st @ map pt_txid ts,
       bk_wtxids = bk_wtxids st @ map pt_wtxid ts,
       bk_has_witness = (bk_has_witness st \<or> list_ex pt_has_witness ts),
       bk_stripped_size = bk_stripped_size st + (\<Sum>t \<leftarrow> ts. pt_stripped_size t),
       bk_coinbase_txid = (if k = 0 \<and> ts \<noteq> [] then pt_txid (hd ts) else bk_coinbase_txid st),
       bk_coinbase = (if k = 0 \<and> ts \<noteq> [] then pt_coinbase (hd ts) else bk_coinbase st),
       bk_transactions = bk_transactions st @ ts \<rparr>"

definition placed :: "nat \<Rightarrow> parsed_transaction list \<Rightarrow> bool" where
  "placed k ts = list_all (\<lambda>(i, t). pt_is_coinbase t \<longleftrightarrow> i = 0) (enumerate k ts)"

lemma placed_simps [simp]:
  "placed k []" "placed k (t # ts) \<longleftrightarrow> (pt_is_coinbase t \<longleftrightarrow> k = 0) \<and> placed (Suc k) ts"
  by (simp_all add: placed_def)

lemma block_step_iff:
  "block_step H (st, c) k = Inr (st', c') \<longleftrightarrow>
     (\<exists>t. parse_transaction H c = Inr (t, c') \<and> placed k [t]
       \<and> bk_stripped_size st + pt_stripped_size t < 2 ^ 64 \<and> st' = scan_add k st [t])"
  unfolding block_step_def prod.case cur_bind Let_def
  by (intro iffI; elim exE conjE)
    (auto simp: ok_iff usize_checked_add_def placed_def scan_add_def split: if_splits)

lemma block_loop_iff:
  "bk_stripped_size st < 2 ^ 64 \<Longrightarrow>
   try_fold (block_step H) (st, c) [k..<k + n] = Inr (st', c') \<longleftrightarrow>
     (\<exists>ts. parse_n (parse_transaction H) n c = Inr (ts, c') \<and> placed k ts
       \<and> bk_stripped_size st + (\<Sum>t \<leftarrow> ts. pt_stripped_size t) < 2 ^ 64 \<and> st' = scan_add k st ts)"
proof (induction n arbitrary: k st c)
  case 0
  then show ?case by (auto simp: placed_def scan_add_def)
next
  case (Suc n)
  have range: "[k..<k + Suc n] = k # [Suc k..<Suc k + n]" by (simp add: upt_rec)
  have add: "scan_add (Suc k) (scan_add k st [t]) ts = scan_add k st (t # ts)" for t ts
    by (simp add: scan_add_def disj_assoc)
  have size: "bk_stripped_size (scan_add k st [t]) = bk_stripped_size st + pt_stripped_size t" for t
    by (simp add: scan_add_def)
  have "try_fold (block_step H) (st, c) [k..<k + Suc n] = Inr (st', c') \<longleftrightarrow>
      (\<exists>t d. parse_transaction H c = Inr (t, d) \<and> placed k [t]
        \<and> bk_stripped_size st + pt_stripped_size t < 2 ^ 64
        \<and> try_fold (block_step H) (scan_add k st [t], d) [Suc k..<Suc k + n] = Inr (st', c'))"
    unfolding range try_fold.simps and_then_Inr split_paired_Ex block_step_iff by blast
  also have "\<dots> \<longleftrightarrow> (\<exists>t d. parse_transaction H c = Inr (t, d) \<and> placed k [t]
      \<and> bk_stripped_size st + pt_stripped_size t < 2 ^ 64
      \<and> (\<exists>ts. parse_n (parse_transaction H) n d = Inr (ts, c') \<and> placed (Suc k) ts
        \<and> bk_stripped_size st + pt_stripped_size t + (\<Sum>t \<leftarrow> ts. pt_stripped_size t) < 2 ^ 64
        \<and> st' = scan_add k st (t # ts)))"
    using Suc.IH [where k = "Suc k"] by (simp add: size add cong: conj_cong)
  also have "\<dots> \<longleftrightarrow> (\<exists>t ts d. parse_transaction H c = Inr (t, d)
      \<and> parse_n (parse_transaction H) n d = Inr (ts, c') \<and> placed k (t # ts)
      \<and> bk_stripped_size st + (\<Sum>t \<leftarrow> t # ts. pt_stripped_size t) < 2 ^ 64
      \<and> st' = scan_add k st (t # ts))"
    by (auto simp: add.assoc dest: add_lessD1)
  also have "\<dots> \<longleftrightarrow> (\<exists>ts. parse_n (parse_transaction H) (Suc n) c = Inr (ts, c') \<and> placed k ts
       \<and> bk_stripped_size st + (\<Sum>t \<leftarrow> ts. pt_stripped_size t) < 2 ^ 64 \<and> st' = scan_add k st ts)"
    by (auto simp: and_then_Inr)
  finally show ?case .
qed

subsection \<open>Acceptance\<close>

lemma witness_commitment_index_iff:
  "witness_commitment_index outputs = None \<longleftrightarrow> filter commits_witness outputs = []"
  "witness_commitment_index outputs = Some i \<Longrightarrow> outputs ! i = last (filter commits_witness outputs)"
proof -
  let ?es = "filter (\<lambda>(_, output). commits_witness output) (enumerate 0 outputs)"
  have es: "map snd ?es = filter commits_witness outputs"
  proof (induction outputs rule: rev_induct)
    case (snoc x xs)
    then show ?case by (simp add: enumerate_append_eq)
  qed simp
  then show "witness_commitment_index outputs = None \<longleftrightarrow> filter commits_witness outputs = []"
    unfolding witness_commitment_index_def Let_def by (metis map_is_Nil_conv option.distinct(1))
  assume "witness_commitment_index outputs = Some i"
  then have i: "?es \<noteq> []" "i = fst (last ?es)"
    by (auto simp: witness_commitment_index_def Let_def last_map split: if_splits)
  then have "last ?es \<in> set (enumerate 0 outputs)" using last_in_set [OF i(1)] by simp
  then have "outputs ! i = snd (last ?es)" using i(2) by (auto simp: in_set_enumerate_eq)
  then show "outputs ! i = last (filter commits_witness outputs)"
    using i(1) by (simp flip: es add: last_map)
qed

lemma verify_witness_commitment_iff:
  assumes "pc_outputs cb = wt_outputs (hd txs)" "pc_witness cb = first_stack (wt_witness (hd txs))"
    and "has \<longleftrightarrow> list_ex (\<lambda>t. wt_witness t \<noteq> None) txs"
  shows "verify_witness_commitment H cb (block_wtxids H txs) has = Inr () \<longleftrightarrow> commitment_ok H txs"
proof (cases "witness_commitment_index (wt_outputs (hd txs))")
  case None
  then have "filter commits_witness (wt_outputs (hd txs)) = []"
    by (simp only: witness_commitment_index_iff)
  with None show ?thesis
    unfolding verify_witness_commitment_def commitment_ok_def assms
    by (auto simp: list_ex_iff list_all_iff)
next
  case (Some i)
  note last = witness_commitment_index_iff(2) [OF Some]
  have "filter commits_witness (wt_outputs (hd txs)) \<noteq> []"
    using Some witness_commitment_index_iff(1) [of "wt_outputs (hd txs)"] by simp
  then obtain o' os where os: "filter commits_witness (wt_outputs (hd txs)) = o' # os"
    by (cases "filter commits_witness (wt_outputs (hd txs))") auto
  show ?thesis
    unfolding verify_witness_commitment_def commitment_ok_def assms(1,2) Some os
    using last os
    by (cases "first_stack (wt_witness (hd txs))" rule: level_pairs.cases)
      (auto simp: Let_def if_Inl_Inr split_beta)
qed

lemma view_tx_simps:
  "map pt_txid (map (view_tx H) txs) = block_txids H txs"
  "map pt_wtxid (map (view_tx H) txs) = block_wtxids H txs"
  "list_ex pt_has_witness (map (view_tx H) txs) = list_ex (\<lambda>t. wt_witness t \<noteq> None) txs"
  "(\<Sum>t \<leftarrow> map (view_tx H) txs. pt_stripped_size t) = (\<Sum>t \<leftarrow> txs. length (put_stripped t))"
  "pt_is_coinbase (view_tx H t) = tx_is_coinbase t"
  "pt_txid (view_tx H t) = double_sha256 H (put_stripped t)"
  by (simp_all add: view_tx_def Let_def block_txids_def block_wtxids_def comp_def list_ex_iff)

lemma view_coinbase:
  assumes "tx_is_coinbase t"
  shows "pt_coinbase (view_tx H t) = Some (the (pt_coinbase (view_tx H t)))"
    "pc_outputs (the (pt_coinbase (view_tx H t))) = wt_outputs t"
    "pc_witness (the (pt_coinbase (view_tx H t))) = first_stack (wt_witness t)"
  using assms by (simp_all add: view_tx_def Let_def)

lemma placed_views:
  "placed 0 (map (view_tx H) (t # ts)) \<longleftrightarrow>
     tx_is_coinbase t \<and> list_all (\<lambda>t. \<not> tx_is_coinbase t) ts"
proof -
  have "placed (Suc k) (map (view_tx H) ts) \<longleftrightarrow> list_all (\<lambda>t. \<not> tx_is_coinbase t) ts" for k
    by (induction ts arbitrary: k) (simp_all add: view_tx_simps)
  then show ?thesis by (simp add: view_tx_simps)
qed

lemma block_parts:
  assumes "length header = 80" "length (put_block header txs) < 2 ^ 64"
  shows "eats (cursor_new (put_block header txs) 80) (put_vector put_tx txs)
    (cursor_new (put_block header txs) (length (put_block header txs)))"
  using assms by (simp add: eats_def cursor_new_def put_block_def ahead_def forward_def fits_def)

lemma block_base_size_le:
  "list_all tx_ok txs \<Longrightarrow> length header = 80 \<Longrightarrow>
     block_base_size txs \<le> length (put_block header txs)"
proof -
  assume "list_all tx_ok txs" "length header = 80"
  moreover from this(1) have "(\<Sum>t \<leftarrow> txs. length (put_stripped t)) \<le> length (concat (map put_tx txs))"
    by (induction txs) (auto simp: put_tx_length intro: add_mono)
  ultimately show ?thesis by (simp add: block_base_size_def put_block_def put_vector_def)
qed

lemma parse_block_complete:
  assumes "block_ok H header txs"
  shows "parse_and_verify_block H (put_block header txs) = Inr (view_block H header txs)"
proof -
  let ?bs = "put_block header txs" and ?ts = "map (view_tx H) txs"
  let ?cb = "the (pt_coinbase (view_tx H (hd txs)))"
  note ok = assms [unfolded block_ok_def]
  then obtain t txs' where txs: "txs = t # txs'" by (cases txs) auto
  have base: "block_base_size txs \<le> length ?bs" using ok block_base_size_le by blast
  have bound: "3 * block_base_size txs + length ?bs \<le> 4000000"
    using ok by (simp add: block_weight_def)
  then have len: "81 \<le> length ?bs" "length ?bs \<le> 4000000"
    using ok compact_bytes_nonempty [of "length txs"]
    by (simp_all add: put_block_def put_vector_def Suc_le_eq)
  obtain h where h: "header_decode_exact header = Inr h"
    using ok by (simp add: header_decode_exact_def BITCOIN_HEADER_LEN_def)
  then have root: "bh_merkle_root h = from_be_bytes (take 32 (drop 36 header))"
    by (auto simp: header_decode_exact_def split: if_splits)
  define c' where "c' = cursor_new ?bs (length ?bs)"
  obtain d where d: "eats (cursor_new ?bs 80) (compact_bytes (length txs)) d"
      "eats d (concat (map put_tx txs)) c'"
    using block_parts [of header txs] ok len(2) unfolding put_vector_def eats_append c'_def by auto
  have count: "cur_compact_size (cursor_new ?bs 80) = Inr (length txs, d)"
    using d(1) ok by (simp add: cur_compact_size_iff)
  have position: "cu_position d - 80 = length (compact_bytes (length txs))"
    using eats_position [OF d(1)] by (simp add: cursor_new_def)
  have guard: "length txs \<le> cur_remaining d div 60"
    using put_tx_length ok by (intro counted_guard [OF _ _ _ d(2), of tx_ok]) (auto intro: order_trans)
  define st where "st = scan_add 0 (block_start (80 + length (compact_bytes (length txs)))) ?ts"
  have st: "bk_txids st = block_txids H txs" "bk_wtxids st = block_wtxids H txs"
    "bk_has_witness st = list_ex (\<lambda>t. wt_witness t \<noteq> None) txs"
    "bk_stripped_size st = block_base_size txs" "bk_transactions st = ?ts"
    unfolding st_def scan_add_def block_start_def block_scan.simps view_tx_simps append_Nil
      block_base_size_def by simp_all
  have coinbase: "bk_coinbase st = Some ?cb" "bk_coinbase_txid st = hd (block_txids H txs)"
    using ok view_coinbase(1) [of t H] unfolding st_def scan_add_def block_start_def txs
    by (simp_all add: view_tx_simps block_txids_def)
  have stripped: "bk_stripped_size (block_start (80 + length (compact_bytes (length txs))))
      + (\<Sum>t \<leftarrow> ?ts. pt_stripped_size t) < 2 ^ 64"
    "bk_stripped_size (block_start (80 + length (compact_bytes (length txs)))) < 2 ^ 64"
    using base len(2) unfolding view_tx_simps by (simp_all add: block_start_def block_base_size_def)
  have "parse_n (parse_transaction H) (length txs) d = Inr (?ts, c')"
    using transaction.parse_n_iff [OF eats_fits [OF d(1)]] d(2) ok by blast
  moreover have "placed 0 ?ts" using ok unfolding txs placed_views by simp
  ultimately have loop: "try_fold (block_step H)
      (block_start (80 + length (compact_bytes (length txs))), d) [0..<length txs] = Inr (st, c')"
    using block_loop_iff [of "block_start (80 + length (compact_bytes (length txs)))" H d 0
        "length txs" st c'] stripped base len(2)
    by (auto simp: st_def block_base_size_def)
  have commitment: "verify_witness_commitment H ?cb (block_wtxids H txs)
      (list_ex (\<lambda>t. wt_witness t \<noteq> None) txs) = Inr ()"
    using verify_witness_commitment_iff [OF view_coinbase(2,3) refl, of txs H H] ok by simp
  have small: "length txs < 2 ^ 32" "block_base_size txs < 2 ^ 32" "length ?bs < 2 ^ 32"
    "block_base_size txs * 3 + length ?bs < 2 ^ 32" "block_base_size txs * 3 < 2 ^ 64"
    using ok base bound by simp_all
  have size: "usize_checked_add 80 (length (compact_bytes (length txs))) =
      Some (80 + length (compact_bytes (length txs)))"
    "Option.bind (usize_checked_mul (block_base_size txs) 3) (\<lambda>v. usize_checked_add v (length ?bs)) =
      Some (block_base_size txs * 3 + length ?bs)"
    using small base len(2) by (simp_all add: usize_checked_add_def usize_checked_mul_def block_base_size_def)
  have take: "take 80 ?bs = header" using ok by (simp add: put_block_def)
  have c': "cu_position c' = length ?bs" by (simp add: c'_def cursor_new_def)
  have limits: "\<not> length ?bs < 80 + 1" "\<not> 4000000 < length ?bs" "length txs \<noteq> 0"
    "\<not> (16666 < length txs \<or> cur_remaining d div 60 < length txs)"
    "\<not> 4000000 < block_base_size txs * 3 + length ?bs"
    using len ok guard bound by (simp_all add: not_less)
  have numbers: "BITCOIN_MAX_SERIALIZED_BLOCK_BYTES = 4000000" "BITCOIN_MAX_TRANSACTIONS = 16666"
    "BITCOIN_MIN_TRANSACTION_BASE_BYTES = 60" "BITCOIN_MAX_BLOCK_WEIGHT = 4000000"
    by (simp_all add: tx_consts)
  have hash: "block_hash_of H h = double_sha256 H header"
    using header_decode_exact_Inr [OF h] by (simp add: block_hash_of_def)
  show ?thesis
    unfolding parse_and_verify_block_def BITCOIN_HEADER_LEN_def numbers take h map_err_simps
      and_then_simps count position size ok_or_simps prod.case loop Let_def st coinbase c'
    using limits ok small root commitment
    by (simp add: u32_try_from_def view_block_def h hash block_weight_def ac_simps)
qed

theorem parse_and_verify_block_iff:
  "parse_and_verify_block H bs = Inr pb \<longleftrightarrow>
     (\<exists>header txs. bs = put_block header txs \<and> block_ok H header txs
        \<and> pb = view_block H header txs)"
proof
  assume p: "parse_and_verify_block H bs = Inr pb"
  then obtain h n c st c' weight cb where
      len: "81 \<le> length bs" "length bs \<le> 4000000"
      and h: "header_decode_exact (take 80 bs) = Inr h"
      and n: "cur_compact_size (cursor_new bs 80) = Inr (n, c)" "n \<noteq> 0" "n \<le> 16666"
      and loop: "try_fold (block_step H) (block_start (80 + (cu_position c - 80)), c) [0..<n]
        = Inr (st, c')"
      and c': "cu_position c' = length bs"
      and weight: "bk_stripped_size st * 3 + length bs \<le> 4000000"
      and merkle: "expect (merkle_root_and_mutation H (bk_txids st)) = (bh_merkle_root h, False)"
      and cb: "bk_coinbase st = Some cb"
        "verify_witness_commitment H cb (bk_wtxids st) (bk_has_witness st) = Inr ()"
    unfolding parse_and_verify_block_def Let_def BITCOIN_HEADER_LEN_def tx_consts
    by (clarsimp simp: and_then_Inr ok_or_Inr map_err_Inr if_Inl_Inr split_beta usize_checked_add_def
        usize_checked_mul_def not_less prod_eq_iff split: if_splits bind_splits)
  define header where "header = take 80 bs"
  have n_eats: "eats (cursor_new bs 80) (compact_bytes n) c" using n(1) by (simp add: cur_compact_size_iff)
  have position: "cu_position c = 80 + length (compact_bytes n)"
    using eats_position [OF n_eats] by (simp add: cursor_new_def)
  have "80 + (cu_position c - 80) < 2 ^ 64"
    using position by (simp add: compact_bytes_def)
  then obtain ts where ts: "parse_n (parse_transaction H) n c = Inr (ts, c')" "placed 0 ts"
      "st = scan_add 0 (block_start (80 + length (compact_bytes n))) ts"
    using loop block_loop_iff [of "block_start (80 + (cu_position c - 80))" H c 0 n st c'] position
    by (auto simp: block_start_def)
  then obtain txs where txs: "length txs = n" "list_all tx_ok txs" "map (view_tx H) txs = ts"
      "eats c (concat (map put_tx txs)) c'"
    using transaction.parse_n_iff [OF eats_fits [OF n_eats]] by blast
  have "eats (cursor_new bs 80) (put_vector put_tx txs) c'"
    using n_eats txs(1,4) by (auto simp: put_vector_def eats_append)
  then have "slice bs 80 (length bs) = put_vector put_tx txs"
    using eats_slice [of "cursor_new bs 80" _ c'] c' by (simp add: cursor_new_def)
  then have bs: "bs = put_block header txs"
    using append_take_drop_id [of 80 bs] by (simp add: put_block_def header_def slice_def)
  obtain t txs' where hd: "txs = t # txs'" using n(2) txs(1) by (cases txs) auto
  have "tx_is_coinbase t \<and> list_all (\<lambda>t. \<not> tx_is_coinbase t) txs'"
    using ts(2) unfolding txs(3) [symmetric] hd placed_views .
  then have coinbase: "tx_is_coinbase (hd txs)" "list_all (\<lambda>t. \<not> tx_is_coinbase t) (tl txs)"
    by (simp_all add: hd)
  have st: "bk_txids st = block_txids H txs" "bk_wtxids st = block_wtxids H txs"
    "bk_has_witness st = list_ex (\<lambda>t. wt_witness t \<noteq> None) txs"
    "bk_stripped_size st = block_base_size txs"
    unfolding ts(3) scan_add_def block_start_def block_scan.simps txs(3) [symmetric] view_tx_simps
      append_Nil block_base_size_def txs(1) by simp_all
  have view_cb: "cb = the (pt_coinbase (view_tx H (hd txs)))"
    using cb(1) unfolding ts(3) scan_add_def block_start_def txs(3) [symmetric] hd by simp
  have "length header = 80" using len(1) by (simp add: header_def)
  moreover have "block_weight header txs \<le> 4000000"
    using weight by (simp add: block_weight_def st flip: bs)
  moreover have "bh_merkle_root h = from_be_bytes (take 32 (drop 36 header))"
    using h unfolding header_def by (auto simp: header_decode_exact_def split: if_splits)
  moreover have "commitment_ok H txs"
    using cb(2) verify_witness_commitment_iff [OF view_coinbase(2,3) refl, of txs H H] coinbase
    unfolding st view_cb by simp
  moreover have "block_txids H txs \<noteq> []" by (simp add: block_txids_def hd)
  ultimately have "block_ok H header txs"
    using n txs(1,2) coinbase merkle by (auto simp: block_ok_def st merkle_root_rows)
  with p parse_block_complete [OF this] bs
  show "\<exists>header txs. bs = put_block header txs \<and> block_ok H header txs
        \<and> pb = view_block H header txs" by auto
qed (auto simp: parse_block_complete)

lemma view_block_simps:
  assumes "block_ok H header txs"
  shows "bh_raw (mv_header (pb_metadata (view_block H header txs))) = header"
    "pc_outputs (pb_coinbase (view_block H header txs)) = wt_outputs (hd txs)"
    "bh_merkle_root (mv_header (pb_metadata (view_block H header txs))) =
       from_be_bytes (take 32 (drop 36 header))"
    "bh_previous_block (mv_header (pb_metadata (view_block H header txs))) = header_previous header"
proof -
  have "length header = 80" "tx_is_coinbase (hd txs)"
    using assms by (simp_all add: block_ok_def)
  then show "bh_raw (mv_header (pb_metadata (view_block H header txs))) = header"
    "pc_outputs (pb_coinbase (view_block H header txs)) = wt_outputs (hd txs)"
    "bh_merkle_root (mv_header (pb_metadata (view_block H header txs))) =
       from_be_bytes (take 32 (drop 36 header))"
    "bh_previous_block (mv_header (pb_metadata (view_block H header txs))) = header_previous header"
    by (simp_all add: view_block_def header_decode_exact_def BITCOIN_HEADER_LEN_def view_coinbase(2)
        header_previous_def)
qed

theorem bound_m7_iff:
  "verify_pow_merkle_bound_elements_m7_successor H prior bs params = Inr tr \<longleftrightarrow>
     (\<exists>header txs t m. bs = put_block header txs \<and> block_ok H header txs
        \<and> verify_successor_header H params prior header = Inr t
        \<and> extract_elements_slot24_m7 (map po_script (wt_outputs (hd txs))) = Inr m
        \<and> tr = \<lparr> pt_next_parent_state = t,
                 pt_commitment = bound_m7 (pb_metadata (view_block H header txs)) t m \<rparr>)"
proof -
  have "verify_pow_merkle_bound_elements_m7_successor H prior bs params = Inr tr \<longleftrightarrow>
      (\<exists>header txs. bs = put_block header txs \<and> block_ok H header txs
        \<and> (\<exists>t. verify_successor_header H params prior
              (bh_raw (mv_header (pb_metadata (view_block H header txs)))) = Inr t
        \<and> (\<exists>m. extract_elements_slot24_m7
              (map po_script (pc_outputs (pb_coinbase (view_block H header txs)))) = Inr m
        \<and> tr = \<lparr> pt_next_parent_state = t,
                 pt_commitment = bound_m7 (pb_metadata (view_block H header txs)) t m \<rparr>)))"
    unfolding verify_pow_merkle_bound_elements_m7_successor_def Let_def and_then_Inr map_err_Inr
      parse_and_verify_block_iff sum.inject by blast
  also have "\<dots> \<longleftrightarrow> (\<exists>header txs. bs = put_block header txs \<and> block_ok H header txs
        \<and> (\<exists>t. verify_successor_header H params prior header = Inr t
        \<and> (\<exists>m. extract_elements_slot24_m7 (map po_script (wt_outputs (hd txs))) = Inr m
        \<and> tr = \<lparr> pt_next_parent_state = t,
                 pt_commitment = bound_m7 (pb_metadata (view_block H header txs)) t m \<rparr>)))"
    by (intro ex_cong1 conj_cong refl) (simp_all add: view_block_simps)
  finally show ?thesis by blast
qed

subsection \<open>The header binds the transactions\<close>

lemma put_stripped_outputs:
  assumes "tx_ok t" "tx_ok u" "put_stripped t = put_stripped u" "length (put_stripped t) < 2 ^ 64"
  shows "wt_outputs t = wt_outputs u"
proof -
  define bare where "bare t = t\<lparr> wt_witness := None \<rparr>" for t :: wire_tx
  have "put_tx (bare t) = put_stripped t" for t
    by (simp add: bare_def put_tx_def put_stripped_def put_marker_def put_witness_def put_body_def)
  moreover have "tx_ok (bare t)" if "tx_ok t" for t
    using that by (simp add: bare_def tx_ok_def tx_is_coinbase_def witness_ok_def)
  ultimately have "view_tx H (bare t) = view_tx H (bare u)" for H
    using transaction.put_inject [of "bare t" "bare u"] assms by simp
  then have "pt_outputs (view_tx H (bare t)) = pt_outputs (view_tx H (bare u))" for H by simp
  then show ?thesis by (simp add: view_tx_def Let_def bare_def)
qed

text \<open>
  A Merkle root does not determine the number of its levels: a transaction of 64 bytes may be
  the preimage of an inner node. Without such transactions it determines the transactions.
\<close>

definition no_node_sized :: "wire_tx list \<Rightarrow> bool" where
  "no_node_sized txs = list_all (\<lambda>t. length (put_stripped t) \<noteq> 64) txs"

definition block_preimages :: "(bytes \<Rightarrow> hash32) \<Rightarrow> wire_tx list \<Rightarrow> bytes set" where
  "block_preimages H txs = put_stripped ` set txs
     \<union> pair_bytes ` set (tree_pairs H (levels (length txs)) (block_txids H txs))"

lemma block_row_add: "block_row H xs (m + k) = block_row H (block_row H xs m) k"
  by (induction k) simp_all

lemma tree_pairs_add:
  "tree_pairs H (m + k) xs = tree_pairs H m xs @ tree_pairs H k (block_row H xs m)"
proof (induction m arbitrary: xs)
  case (Suc m)
  then show ?case by (simp add: block_row_shift del: block_row_simps(2))
qed simp

lemma root_leaves:
  assumes "txs \<noteq> []" "us \<noteq> []" "levels (length txs) \<le> levels (length us)"
    and "merkle_root_and_mutation H (block_txids H txs) = Some (root, False)"
    and "merkle_root_and_mutation H (block_txids H us) = Some (root, False)"
    and "inj_on (double_sha256 H) (block_preimages H txs \<union> block_preimages H us)"
  shows "block_txids H txs =
    block_row H (block_txids H us) (levels (length us) - levels (length txs))"
proof -
  let ?x = "block_txids H txs" and ?y = "block_txids H us"
  let ?a = "levels (length txs)" and ?b = "levels (length us)"
  have len: "length ?x = length txs" "length ?y = length us" by (simp_all add: block_txids_def)
  have ne: "?x \<noteq> []" "?y \<noteq> []" using assms(1,2) len by auto
  have b: "?b = (?b - ?a) + ?a" using assms(3) by simp
  have single: "\<exists>r. block_row H hs (levels (length hs)) = [r]" if "hs \<noteq> []" for hs
    using block_row_single [OF that, of H "levels (length hs)"] that by (auto simp: le_Suc_eq length_Suc_conv)
  have "block_row H ?x ?a = block_row H ?y ?b"
    using single [OF ne(1)] single [OF ne(2)] assms(4,5) ne by (auto simp: merkle_root_rows len)
  then have rows: "block_row H ?x ?a = block_row H (block_row H ?y (?b - ?a)) ?a"
    using b block_row_add by metis
  have fresh: "\<not> equal_pairs (block_row H ?x j)" if "j < ?a" for j
    using assms(4) ne that by (auto simp: merkle_root_rows merkle_mutated_def list_ex_iff len)
  have fresh': "\<not> equal_pairs (block_row H (block_row H ?y (?b - ?a)) j)" if "j < ?a" for j
  proof -
    have "(?b - ?a) + j < ?b" using that assms(3) by simp
    then show ?thesis
      using assms(5) ne by (auto simp: merkle_root_rows merkle_mutated_def list_ex_iff len
          simp flip: block_row_add)
  qed
  have "set (tree_pairs H ?a (block_row H ?y (?b - ?a))) \<subseteq> set (tree_pairs H ?b ?y)"
    using tree_pairs_add [of H "?b - ?a" ?a ?y] b by (metis set_append Un_upper2)
  then have "inj_on (double_sha256 H) (pair_bytes ` (set (tree_pairs H ?a ?x)
      \<union> set (tree_pairs H ?a (block_row H ?y (?b - ?a)))))"
    by (intro inj_on_subset [OF assms(6)]) (auto simp: block_preimages_def)
  then show ?thesis
    by (rule block_row_binds [OF rows]) (simp add: list_all_iff fresh fresh')
qed

lemma length_pair_bytes: "length (pair_bytes p) = 64"
  by (simp add: pair_bytes_def enc_hash32_def)

lemma root_levels:
  assumes "txs \<noteq> []" "us \<noteq> []" "levels (length txs) \<le> levels (length us)"
    and "merkle_root_and_mutation H (block_txids H txs) = Some (root, False)"
    and "merkle_root_and_mutation H (block_txids H us) = Some (root, False)"
    and "inj_on (double_sha256 H) (block_preimages H txs \<union> block_preimages H us)"
    and "no_node_sized txs"
  shows "levels (length txs) = levels (length us)"
proof (rule ccontr)
  assume ne: "levels (length txs) \<noteq> levels (length us)"
  let ?y = "block_txids H us" and ?b = "levels (length us)"
  define m where "m = ?b - levels (length txs) - 1"
  have m: "?b - levels (length txs) = Suc m" using ne assms(3) by (simp add: m_def)
  have leaves: "block_txids H txs = block_level H (block_row H ?y m)"
    using root_leaves [OF assms(1-6)] by (simp add: m)
  have "block_row H ?y m \<noteq> []" using assms(2) by (simp add: block_txids_def)
  then obtain p where p: "p \<in> set (level_pairs (block_row H ?y m))"
      "hd (block_level H (block_row H ?y m)) = double_sha256 H (pair_bytes p)"
    by (cases "block_row H ?y m" rule: level_pairs.cases)
      (auto simp: block_level_pairs block_node_def)
  have "?b = m + Suc (?b - Suc m)" using m by simp
  then have "p \<in> set (tree_pairs H ?b ?y)"
    using tree_pairs_add [of H m "Suc (?b - Suc m)" ?y] p(1) by (metis Un_iff set_append tree_pairs.simps(2))
  then have "pair_bytes p \<in> block_preimages H us" by (simp add: block_preimages_def)
  moreover have "put_stripped (hd txs) \<in> block_preimages H txs"
    using assms(1) by (simp add: block_preimages_def)
  moreover have "double_sha256 H (put_stripped (hd txs)) = double_sha256 H (pair_bytes p)"
  proof -
    have "hd (block_txids H txs) = double_sha256 H (put_stripped (hd txs))"
      using assms(1) by (simp add: block_txids_def hd_map)
    then show ?thesis using p(2) leaves by simp
  qed
  ultimately have "put_stripped (hd txs) = pair_bytes p"
    using inj_onD [OF assms(6)] by blast
  then have "length (put_stripped (hd txs)) = 64" by (simp add: length_pair_bytes)
  then show False using assms(1,7) by (cases txs) (simp_all add: no_node_sized_def)
qed

lemma root_binds_transactions:
  assumes "txs \<noteq> []" "us \<noteq> []" "no_node_sized txs" "no_node_sized us"
    and "merkle_root_and_mutation H (block_txids H txs) = Some (root, False)"
    and "merkle_root_and_mutation H (block_txids H us) = Some (root, False)"
    and "inj_on (double_sha256 H) (block_preimages H txs \<union> block_preimages H us)"
  shows "map put_stripped txs = map put_stripped us"
proof -
  have inj: "inj_on (double_sha256 H) (block_preimages H us \<union> block_preimages H txs)"
    using assms(7) by (simp add: Un_commute)
  have "levels (length txs) = levels (length us)"
    using root_levels [OF assms(1,2) _ assms(5-7,3)] root_levels [OF assms(2,1) _ assms(6,5) inj assms(4)]
    by linarith
  then have "block_txids H txs = block_txids H us"
    using root_leaves [OF assms(1,2) _ assms(5-7)] by simp
  then have "map (double_sha256 H) (map put_stripped txs) = map (double_sha256 H) (map put_stripped us)"
    by (simp add: block_txids_def comp_def)
  then show ?thesis
    by (rule inj_on_map_eq_map [THEN iffD1, rotated])
      (auto intro: inj_on_subset [OF assms(7)] simp: block_preimages_def)
qed

subsection \<open>Accepted blocks and their commitment\<close>

lemma block_hd_ok:
  assumes "block_ok H header txs"
  shows "tx_ok (hd txs)" "length (put_stripped (hd txs)) < 2 ^ 64"
proof -
  from assms obtain t ts where txs: "txs = t # ts" by (cases txs) (auto simp: block_ok_def)
  with assms show "tx_ok (hd txs)" by (simp add: block_ok_def)
  show "length (put_stripped (hd txs)) < 2 ^ 64"
    using assms by (simp add: block_ok_def block_weight_def block_base_size_def txs)
qed

text \<open>The weight bounds the scripts of the coinbase: four times their sizes are weighed.\<close>

lemma block_script_bounds:
  assumes "block_ok H header txs"
  shows "length (map po_script (wt_outputs (hd txs))) \<le> 111111"
    "(\<Sum>s \<leftarrow> map po_script (wt_outputs (hd txs)). length s) \<le> 1000000"
proof -
  from assms obtain t ts where txs: "txs = t # ts" by (cases txs) (auto simp: block_ok_def)
  show "length (map po_script (wt_outputs (hd txs))) \<le> 111111"
    using block_hd_ok(1) [OF assms] by (simp add: tx_ok_def)
  have "(\<Sum>s \<leftarrow> map po_script os. length s) \<le> length (concat (map put_output os))" for os
    by (induction os) (simp_all add: put_output_def put_script_def)
  then have "(\<Sum>s \<leftarrow> map po_script (wt_outputs t). length s) \<le> length (put_stripped t)"
    by (simp add: put_stripped_def put_body_def put_vector_def le_add2 trans_le_add2 trans_le_add1)
  also have "\<dots> \<le> block_base_size txs" by (simp add: block_base_size_def txs)
  also have "4 * block_base_size txs \<le> block_weight header txs"
    using block_base_size_le [of txs header] assms by (simp add: block_ok_def block_weight_def)
  then have "block_base_size txs \<le> 1000000" using assms by (simp add: block_ok_def)
  finally show "(\<Sum>s \<leftarrow> map po_script (wt_outputs (hd txs)). length s) \<le> 1000000"
    by (simp add: txs)
qed

lemma bound_m7_of_block:
  assumes "block_ok H header txs"
    and "verify_pow_merkle_bound_elements_m7_successor H prior (put_block header txs) params = Inr tr"
  shows "pm_parent_block_hash (pt_commitment tr) = double_sha256 H header"
    "pm_coinbase_txid (pt_commitment tr) = double_sha256 H (put_stripped (hd txs))"
    "extract_elements_slot24_m7 (map po_script (wt_outputs (hd txs))) =
       Inr \<lparr> m7_output_index = pm_output_index (pt_commitment tr),
             m7_committed_child_hash = pm_committed_child_hash (pt_commitment tr) \<rparr>"
proof -
  obtain t m where "extract_elements_slot24_m7 (map po_script (wt_outputs (hd txs))) = Inr m"
      "tr = \<lparr> pt_next_parent_state = t,
             pt_commitment = bound_m7 (pb_metadata (view_block H header txs)) t m \<rparr>"
    using assms(2)
    unfolding verify_pow_merkle_bound_elements_m7_successor_def parse_block_complete [OF assms(1)]
    by (auto simp: and_then_Inr map_err_Inr view_block_simps [OF assms(1)])
  moreover have "hd (block_txids H txs) = double_sha256 H (put_stripped (hd txs))"
    using assms(1) by (simp add: block_ok_def block_txids_def hd_map)
  ultimately show "pm_parent_block_hash (pt_commitment tr) = double_sha256 H header"
    "pm_coinbase_txid (pt_commitment tr) = double_sha256 H (put_stripped (hd txs))"
    "extract_elements_slot24_m7 (map po_script (wt_outputs (hd txs))) =
       Inr \<lparr> m7_output_index = pm_output_index (pt_commitment tr),
             m7_committed_child_hash = pm_committed_child_hash (pt_commitment tr) \<rparr>"
    by (simp_all add: bound_m7_def view_block_def)
qed

subsection \<open>Properties\<close>

text \<open>
  C21: acceptance of a block. A byte string is accepted exactly when it is an 80-byte header
  followed by the counted serializations of one coinbase and further transactions that satisfy
  \<open>tx_ok\<close>, of weight at most 4,000,000, whose transaction ids have the Merkle root of the
  header without the duplicate mutation, and whose witness commitment, required as soon as any
  transaction has a witness, is the last matching coinbase output and correct. The metadata
  returned are those of that block; no intermediate addition overflows.
\<close>

theorem block_accepted_iff:
  "verify_serialized_block_merkle H bs = Inr metadata \<longleftrightarrow>
     (\<exists>header txs. bs = put_block header txs \<and> block_ok H header txs
        \<and> metadata = pb_metadata (view_block H header txs))"
  unfolding verify_serialized_block_merkle_def and_then_Inr parse_and_verify_block_iff by blast

text \<open>
  C19: the commitment of an accepted successor. A serialized block is accepted as successor
  with a commitment validated for \<open>child\<close> exactly when it is the serialization of an
  acceptable block whose header is an accepted successor of the prior state and exactly one of
  whose coinbase scripts carries a slot-24 M7, that script being the canonical one of
  \<open>child\<close>. The output and script-byte bounds of the extraction hold for every accepted block.
\<close>

theorem successor_commitment_exact:
  "verify_pow_merkle_bound_elements_m7_successor H prior bs params = Inr tr
     \<and> require_validated_child_hash (pt_commitment tr) child = Inr m \<longleftrightarrow>
   (\<exists>header txs t i. let scripts = map po_script (wt_outputs (hd txs)) in
      bs = put_block header txs \<and> block_ok H header txs
      \<and> verify_successor_header H params prior header = Inr t
      \<and> filter carries_m7 scripts = [canonical_m7_script child]
      \<and> i < length scripts \<and> scripts ! i = canonical_m7_script child
      \<and> m = \<lparr> pm_parent_block_hash = double_sha256 H header, pm_parent_height = hc_height t,
              pm_coinbase_txid = hd (block_txids H txs), pm_output_index = of_nat i,
              pm_committed_child_hash = child, pm_transaction_count = of_nat (length txs),
              pm_block_weight = of_nat (block_weight header txs) \<rparr>
      \<and> tr = \<lparr> pt_next_parent_state = t, pt_commitment = m \<rparr>)"
proof -
  have bound: "pm_committed_child_hash (bound_m7 metadata t u) = m7_committed_child_hash u" for metadata t u
    by (simp add: bound_m7_def)
  have scan: "extract_elements_slot24_m7 (map po_script (wt_outputs (hd txs))) = Inr u
      \<and> m7_committed_child_hash u = child \<longleftrightarrow>
    (let scripts = map po_script (wt_outputs (hd txs)) in
      filter carries_m7 scripts = [canonical_m7_script child]
      \<and> (\<exists>i. i < length scripts \<and> scripts ! i = canonical_m7_script child
          \<and> u = \<lparr> m7_output_index = of_nat i, m7_committed_child_hash = child \<rparr>))"
    if "block_ok H header txs" for header txs u
    using canonical_m7_iff [of "map po_script (wt_outputs (hd txs))" child u] block_script_bounds [OF that]
    unfolding and_then_Inr require_child_hash_def Let_def
    by (cases u) (auto simp: if_Inl_Inr)
  have "verify_pow_merkle_bound_elements_m7_successor H prior bs params = Inr tr
     \<and> require_validated_child_hash (pt_commitment tr) child = Inr m \<longleftrightarrow>
   (\<exists>header txs t u. (bs = put_block header txs \<and> block_ok H header txs
      \<and> verify_successor_header H params prior header = Inr t)
      \<and> (extract_elements_slot24_m7 (map po_script (wt_outputs (hd txs))) = Inr u
        \<and> m7_committed_child_hash u = child)
      \<and> m = bound_m7 (pb_metadata (view_block H header txs)) t u
      \<and> tr = \<lparr> pt_next_parent_state = t, pt_commitment = m \<rparr>)"
    unfolding bound_m7_iff require_validated_child_hash_def if_Inl_Inr sum.inject
    by (intro iffI; elim exE conjE; clarsimp simp: bound; blast)
  also have "\<dots> \<longleftrightarrow> (\<exists>header txs t u. (bs = put_block header txs \<and> block_ok H header txs
      \<and> verify_successor_header H params prior header = Inr t)
      \<and> (let scripts = map po_script (wt_outputs (hd txs)) in
          filter carries_m7 scripts = [canonical_m7_script child]
          \<and> (\<exists>i. i < length scripts \<and> scripts ! i = canonical_m7_script child
              \<and> u = \<lparr> m7_output_index = of_nat i, m7_committed_child_hash = child \<rparr>))
      \<and> m = bound_m7 (pb_metadata (view_block H header txs)) t u
      \<and> tr = \<lparr> pt_next_parent_state = t, pt_commitment = m \<rparr>)"
    by (intro ex_cong1 conj_cong refl) (elim conjE, erule scan)
  also have "\<dots> \<longleftrightarrow> (\<exists>header txs t i. let scripts = map po_script (wt_outputs (hd txs)) in
      bs = put_block header txs \<and> block_ok H header txs
      \<and> verify_successor_header H params prior header = Inr t
      \<and> filter carries_m7 scripts = [canonical_m7_script child]
      \<and> i < length scripts \<and> scripts ! i = canonical_m7_script child
      \<and> m = bound_m7 (pb_metadata (view_block H header txs)) t
          \<lparr> m7_output_index = of_nat i, m7_committed_child_hash = child \<rparr>
      \<and> tr = \<lparr> pt_next_parent_state = t, pt_commitment = m \<rparr>)"
    unfolding Let_def by blast
  finally show ?thesis
    by (simp only: bound_m7_def view_block_def parsed_block.simps
        merkle_verified_bitcoin_block.simps unbound_canonical_m7.simps)
qed

text \<open>
  C20: the header binds the commitment. Two accepted successor blocks with the same block hash
  have the same transactions up to witnesses, hence the same coinbase, and the same M7
  commitment at the same output, unless double SHA-256 collides on the two headers or on the
  transactions and tree nodes of the two blocks. No transaction may be serialized in 64 bytes
  without witness, the size of a tree node.
\<close>

theorem header_binds_m7:
  assumes "verify_pow_merkle_bound_elements_m7_successor H prior (put_block h txs) params = Inr tr"
    and "verify_pow_merkle_bound_elements_m7_successor H prior' (put_block h' us) params' = Inr tr'"
    and "block_ok H h txs" "block_ok H h' us"
    and "pm_parent_block_hash (pt_commitment tr) = pm_parent_block_hash (pt_commitment tr')"
    and "no_node_sized txs" "no_node_sized us"
    and "inj_on (double_sha256 H) {h, h'}"
    and "inj_on (double_sha256 H) (block_preimages H txs \<union> block_preimages H us)"
  shows "map put_stripped txs = map put_stripped us
    \<and> pm_coinbase_txid (pt_commitment tr) = pm_coinbase_txid (pt_commitment tr')
    \<and> pm_output_index (pt_commitment tr) = pm_output_index (pt_commitment tr')
    \<and> pm_committed_child_hash (pt_commitment tr) = pm_committed_child_hash (pt_commitment tr')"
proof -
  note first = bound_m7_of_block [OF assms(3,1)]
  note second = bound_m7_of_block [OF assms(4,2)]
  have "h = h'"
    using inj_onD [OF assms(8), of h h'] first(1) second(1) assms(5) by simp
  then have stripped: "map put_stripped txs = map put_stripped us"
    using root_binds_transactions [OF _ _ assms(6,7) _ _ assms(9)] assms(3,4)
    by (auto simp: block_ok_def)
  have hd: "put_stripped (hd txs) = put_stripped (hd us)"
    using arg_cong [OF stripped, of hd] assms(3,4) by (simp add: block_ok_def hd_map)
  then have "wt_outputs (hd txs) = wt_outputs (hd us)"
    by (rule put_stripped_outputs [OF block_hd_ok(1) [OF assms(3)] block_hd_ok(1) [OF assms(4)]
          _ block_hd_ok(2) [OF assms(3)]])
  then have "Inr \<lparr> m7_output_index = pm_output_index (pt_commitment tr),
             m7_committed_child_hash = pm_committed_child_hash (pt_commitment tr) \<rparr> =
      (Inr \<lparr> m7_output_index = pm_output_index (pt_commitment tr'),
             m7_committed_child_hash = pm_committed_child_hash (pt_commitment tr') \<rparr>
        :: m7_error + unbound_canonical_m7)"
    unfolding first(3) [symmetric] second(3) [symmetric] by simp
  moreover have "pm_coinbase_txid (pt_commitment tr) = pm_coinbase_txid (pt_commitment tr')"
    unfolding first(2) second(2) hd ..
  ultimately show ?thesis using stripped by blast
qed

definition example_coinbase :: wire_tx where
  "example_coinbase =
     \<lparr> wt_version = [2, 0, 0, 0],
       wt_inputs = [\<lparr> wi_outpoint = replicate 32 0 @ replicate 4 255, wi_script = [1, 2],
                      wi_sequence = replicate 4 255 \<rparr>],
       wt_outputs = [\<lparr> po_value = replicate 8 0, po_script = canonical_m7_script 5 \<rparr>],
       wt_witness = None, wt_lock_time = replicate 4 0 \<rparr>"

definition example_block_header :: bytes where
  "example_block_header = replicate 35 0 @ [1] @ replicate 31 0 @ [1] @ replicate 4 0
     @ [0xff, 0xff, 0x7f, 0x20] @ replicate 4 0"

lemma example_block_header_fields:
  "length example_block_header = 80" "header_bits example_block_header = 0x207fffff"
  "header_previous example_block_header = 1" "from_be_bytes (take 32 (drop 36 example_block_header)) = (1 :: hash32)"
  by (simp_all add: example_block_header_def header_bits_def header_previous_def
      u32_from_le_bytes_def from_be_bytes_def nat_le_append nat_le_replicate_0)

lemma le_nat_max: "le_nat 4 4294967295 = replicate 4 255"
proof -
  have four: "4 = Suc (Suc (Suc (Suc 0)))" by simp
  show ?thesis unfolding four by simp
qed

lemma example_coinbase_ok: "tx_ok example_coinbase" "tx_is_coinbase example_coinbase"
proof -
  have "is_null_outpoint (replicate 32 0 @ replicate 4 255)"
    by (simp add: is_null_outpoint_def list_all_iff le_nat_max)
  then show cb: "tx_is_coinbase example_coinbase"
    by (simp only: tx_is_coinbase_def example_coinbase_def) simp
  then have "inputs_check (wt_inputs example_coinbase) True"
    unfolding inputs_check_def tx_is_coinbase_def by (simp add: example_coinbase_def)
  moreover have "list_all output_ok (wt_outputs example_coinbase)"
      "(\<Sum>o' \<leftarrow> wt_outputs example_coinbase. output_value o') = 0"
    by (simp_all add: example_coinbase_def output_ok_def output_value_def nat_le_replicate_0
        canonical_script_fields)
  ultimately show "tx_ok example_coinbase"
    using cb unfolding tx_ok_def by (simp add: example_coinbase_def input_ok_def witness_ok_def)
qed

lemma example_coinbase_size: "length (put_stripped example_coinbase) = 101"
  by (simp add: example_coinbase_def put_stripped_def put_body_def put_vector_def put_input_def
      put_output_def put_script_def compact_bytes_def canonical_script_fields)

lemma example_levels: "levels (Suc 0) = 0"
  by (simp add: levels_def bit_length.simps)

lemma example_block_ok: "block_ok toy_hash example_block_header [example_coinbase]"
proof -
  have tx: "length (put_tx example_coinbase) = length (put_stripped example_coinbase)"
    by (simp add: put_tx_def put_stripped_def example_coinbase_def put_marker_def put_witness_def)
  have "block_weight example_block_header [example_coinbase] \<le> 4000000"
    by (simp add: block_weight_def block_base_size_def put_block_def put_vector_def tx
        example_coinbase_size example_block_header_fields compact_bytes_def)
  moreover have "merkle_root_and_mutation toy_hash (block_txids toy_hash [example_coinbase]) = Some (1, False)"
    by (simp add: merkle_root_rows block_txids_def example_levels merkle_mutated_def
        double_sha256_def toy_hash_def)
  moreover have "\<not> commits_witness \<lparr> po_value = replicate 8 0, po_script = canonical_m7_script 5 \<rparr>"
    by (simp add: commits_witness_def canonical_m7_script_def M7_TAG_def)
  then have "commitment_ok toy_hash [example_coinbase]"
    by (simp add: commitment_ok_def example_coinbase_def)
  ultimately show ?thesis
    using example_coinbase_ok by (simp add: block_ok_def example_block_header_fields)
qed

lemma example_m7:
  "extract_elements_slot24_m7 (map po_script (wt_outputs example_coinbase)) =
     Inr \<lparr> m7_output_index = 0, m7_committed_child_hash = 5 \<rparr>"
proof -
  have "carries_m7 (canonical_m7_script 5)" using canonical_script_iff [of "canonical_m7_script 5" 5] by simp
  then show ?thesis
    by (subst extract_m7_iff) (simp add: example_coinbase_def canonical_script_fields)
qed

definition example_transition :: pow_merkle_bound_m7_transition where
  "example_transition =
     \<lparr> pt_next_parent_state = example_successor example_block_header,
       pt_commitment = bound_m7
         (pb_metadata (view_block toy_hash example_block_header [example_coinbase]))
         (example_successor example_block_header)
         \<lparr> m7_output_index = 0, m7_committed_child_hash = 5 \<rparr> \<rparr>"

lemma example_transition_step:
  "verify_pow_merkle_bound_elements_m7_successor toy_hash (example_chain 2014 0x207fffff)
     (put_block example_block_header [example_coinbase]) example_pow = Inr example_transition"
  unfolding bound_m7_iff
proof (intro exI conjI)
  show "verify_successor_header toy_hash example_pow (example_chain 2014 0x207fffff)
      example_block_header = Inr (example_successor example_block_header)"
    by (rule example_successor_step) (simp_all add: example_block_header_fields)
  show "extract_elements_slot24_m7 (map po_script (wt_outputs (hd [example_coinbase]))) =
      Inr \<lparr> m7_output_index = 0, m7_committed_child_hash = 5 \<rparr>"
    by (simp add: example_m7)
qed (simp_all add: example_block_ok example_transition_def)

theorem header_binds_m7_witness:
  "map put_stripped [example_coinbase] = map put_stripped [example_coinbase]
    \<and> pm_coinbase_txid (pt_commitment example_transition) =
        pm_coinbase_txid (pt_commitment example_transition)
    \<and> pm_output_index (pt_commitment example_transition) =
        pm_output_index (pt_commitment example_transition)
    \<and> pm_committed_child_hash (pt_commitment example_transition) =
        pm_committed_child_hash (pt_commitment example_transition)"
  by (rule header_binds_m7 [OF example_transition_step example_transition_step
        example_block_ok example_block_ok])
    (simp_all add: no_node_sized_def example_coinbase_size block_preimages_def example_levels)

end
