(* ===== verification/Replay_State.thy ===== *)
theory Replay_State
  imports Block "HOL-Library.RBT"
begin

section \<open>The slot-24 replay state (usdd-bitcoin-bmm/src/block/bip300.rs)\<close>

text \<open>
  Configuration, state and validation of the BIP300 replay for slot 24, and the effect of the
  coinbase messages M1 and M2 on the pending proposals. A \<open>BTreeMap\<close> is the library's
  red-black map, whose entries are sorted by key; the two \<open>BTreeSet\<close>s of the message loop, only
  inserted into and tested, are sets. A proposal hash \<open>[u8; 32]\<close> is the word of its bytes.
\<close>

definition M1_TAG :: bytes where "M1_TAG = [0xd5, 0xe0, 0xc4, 0xaf]"
definition M2_TAG :: bytes where "M2_TAG = [0xd6, 0xe1, 0xc5, 0xdf]"

definition ELEMENTS_V1_REQUIRED_PROPOSAL_HASH_INTERNAL :: hash32 where
  "ELEMENTS_V1_REQUIRED_PROPOSAL_HASH_INTERNAL =
     0x982f04552ef59253c2b0bb55304ad2ef7648ac2cb74660e38bb49d3f232b7bb2"

definition ELEMENTS_V1_MAX_LIVE_PROPOSAL_BLOCKS :: nat where
  "ELEMENTS_V1_MAX_LIVE_PROPOSAL_BLOCKS = 10 + 1"

definition MAX_PENDING_SLOT24_PROPOSALS :: nat where
  "MAX_PENDING_SLOT24_PROPOSALS =
     BITCOIN_MAX_COINBASE_OUTPUTS * ELEMENTS_V1_MAX_LIVE_PROPOSAL_BLOCKS"

datatype replay_error =
    ReplayBlock block_structure_error
  | InvalidConfig
  | MalformedState
  | BrokenParentLink
  | HeightOverflow
  | PendingProposalLimitExceeded
  | DuplicateProposalMessage
  | MultipleAckMessages
  | VoteOverflow
  | ProposalHeightAhead
  | ProposalVotesAhead
  | RequiredProposalReplaced
  | DuplicateM7
  | OutputIndexOverflow
  | M8WithoutM7
  | M8WrongChildHash
  | M8Expired
  | M8CountOverflow
  | MultipleTreasuryOutputs
  | ParallelTreasuryOutput
  | CtipSpentWithoutReplacement
  | ZeroCtipDelta
  | CtipDecreaseUnsupported
  | MissingDepositAddress
  | AmountOverflow

record replay_config =
  rc_required_proposal_hash :: hash32
  rc_unused_proposal_max_age :: u16
  rc_unused_activation_threshold :: u16
  rc_used_proposal_max_age :: u16
  rc_used_activation_threshold :: u16

definition elements_v1 :: replay_config where
  "elements_v1 =
     \<lparr> rc_required_proposal_hash = ELEMENTS_V1_REQUIRED_PROPOSAL_HASH_INTERNAL,
       rc_unused_proposal_max_age = 10, rc_unused_activation_threshold = 5,
       rc_used_proposal_max_age = 10, rc_used_activation_threshold = 5 \<rparr>"

definition maximum_pending_proposals :: "replay_config \<Rightarrow> replay_error + nat" where
  "maximum_pending_proposals cfg =
     and_then (ok_or (usize_checked_add
       (unat (max (rc_unused_proposal_max_age cfg) (rc_used_proposal_max_age cfg))) 1)
       InvalidConfig) (\<lambda>live_blocks.
     ok_or (usize_checked_mul BITCOIN_MAX_COINBASE_OUTPUTS live_blocks) InvalidConfig)"

definition config_validate :: "replay_config \<Rightarrow> replay_error + unit" where
  "config_validate cfg =
     (if rc_required_proposal_hash cfg = 0
        \<or> rc_unused_proposal_max_age cfg = 0
        \<or> rc_unused_activation_threshold cfg = 0
        \<or> rc_unused_activation_threshold cfg \<ge> rc_unused_proposal_max_age cfg
        \<or> rc_used_proposal_max_age cfg = 0
        \<or> rc_used_activation_threshold cfg = 0
        \<or> rc_used_activation_threshold cfg \<ge> rc_used_proposal_max_age cfg
      then Inl InvalidConfig
      else and_then (maximum_pending_proposals cfg) (\<lambda>_. Inr ()))"

definition from_manifest_bound_identity ::
  "hash32 \<Rightarrow> u16 \<Rightarrow> u16 \<Rightarrow> u16 \<Rightarrow> u16 \<Rightarrow> replay_error + replay_config" where
  "from_manifest_bound_identity required_proposal_hash unused_proposal_max_age
     unused_activation_threshold used_proposal_max_age used_activation_threshold =
     (let cfg = \<lparr> rc_required_proposal_hash = required_proposal_hash,
                  rc_unused_proposal_max_age = unused_proposal_max_age,
                  rc_unused_activation_threshold = unused_activation_threshold,
                  rc_used_proposal_max_age = used_proposal_max_age,
                  rc_used_activation_threshold = used_activation_threshold \<rparr>
      in and_then (config_validate cfg) (\<lambda>_. Inr cfg))"

definition thresholds :: "replay_config \<Rightarrow> bool \<Rightarrow> u16 \<times> u16" where
  "thresholds cfg slot_is_used =
     (if slot_is_used then (rc_used_proposal_max_age cfg, rc_used_activation_threshold cfg)
      else (rc_unused_proposal_max_age cfg, rc_unused_activation_threshold cfg))"

record pending_proposal =
  pp_proposal_hash :: hash32
  pp_proposal_height :: u32
  pp_votes :: u16

record slot24_ctip =
  ct_txid :: block_hash
  ct_vout :: u32
  ct_value_sat :: u64

record mintable_deposit =
  md_outpoint :: slot24_ctip
  md_block_hash :: block_hash
  md_block_height :: u32
  md_value_sat :: u64
  md_elements_address :: bytes

type_synonym pending_map = "(hash32, pending_proposal) rbt"

record replay_state =
  rs_config :: replay_config
  rs_next_height :: u32
  rs_tip_hash :: block_hash
  rs_active_proposal_hash :: "hash32 option"
  rs_required_activation :: "(u32 \<times> block_hash) option"
  rs_pending_proposals :: pending_map
  rs_ctip :: "slot24_ctip option"

definition pending_len :: "pending_map \<Rightarrow> nat" where
  "pending_len m = length (RBT.entries m)"

definition before_parent_genesis :: "replay_config \<Rightarrow> replay_error + replay_state" where
  "before_parent_genesis cfg =
     and_then (config_validate cfg) (\<lambda>_.
     Inr \<lparr> rs_config = cfg, rs_next_height = 0, rs_tip_hash = 0, rs_active_proposal_hash = None,
           rs_required_activation = None, rs_pending_proposals = RBT.empty, rs_ctip = None \<rparr>)"

definition required_proposal_is_active :: "replay_state \<Rightarrow> bool" where
  "required_proposal_is_active s =
     (rs_required_activation s \<noteq> None
       \<and> rs_active_proposal_hash s = Some (rc_required_proposal_hash (rs_config s)))"

subsection \<open>Validation\<close>

text \<open>The check of one pending proposal at the height of the tip.\<close>

definition check_pending ::
  "u32 \<Rightarrow> u16 \<Rightarrow> u16 \<Rightarrow> unit \<Rightarrow> hash32 \<times> pending_proposal \<Rightarrow> replay_error + unit" where
  "check_pending tip_height proposal_max_age activation_threshold _ = (\<lambda>(hash, proposal).
     let max_fails = (ucast (proposal_max_age - activation_threshold) :: u32) in
     and_then (ok_or (checked_sub tip_height (pp_proposal_height proposal)) MalformedState) (\<lambda>age.
     and_then (ok_or (checked_sub age (ucast (pp_votes proposal))) MalformedState) (\<lambda>misses.
     if hash = 0 \<or> hash \<noteq> pp_proposal_hash proposal \<or> tip_height < pp_proposal_height proposal
       \<or> ucast proposal_max_age < age \<or> (max_fails < age \<and> max_fails \<le> misses)
     then Inl MalformedState else Inr ())))"

definition replay_validate :: "replay_state \<Rightarrow> replay_error + unit" where
  "replay_validate s =
     and_then (config_validate (rs_config s)) (\<lambda>_.
     and_then (maximum_pending_proposals (rs_config s)) (\<lambda>maximum.
     if maximum < pending_len (rs_pending_proposals s) then Inl PendingProposalLimitExceeded
     else if rs_next_height s = 0 then
       (if rs_tip_hash s \<noteq> 0 \<or> rs_active_proposal_hash s \<noteq> None
          \<or> rs_required_activation s \<noteq> None \<or> \<not> RBT.is_empty (rs_pending_proposals s)
          \<or> rs_ctip s \<noteq> None
        then Inl MalformedState else Inr ())
     else if rs_tip_hash s = 0 then Inl MalformedState
     else if rs_active_proposal_hash s = None \<and> rs_ctip s \<noteq> None then Inl MalformedState
     else if (rs_active_proposal_hash s = Some (rc_required_proposal_hash (rs_config s)))
         \<noteq> (rs_required_activation s \<noteq> None) then Inl MalformedState
     else if (case rs_required_activation s of None \<Rightarrow> False
       | Some (height, hash) \<Rightarrow>
           rs_active_proposal_hash s \<noteq> Some (rc_required_proposal_hash (rs_config s))
             \<or> rs_next_height s \<le> height \<or> hash = 0) then Inl MalformedState
     else if (case rs_ctip s of None \<Rightarrow> False
       | Some ctip \<Rightarrow> ct_txid ctip = 0 \<or> ct_value_sat ctip = 0
             \<or> MAX_MONEY_SATOSHIS < ct_value_sat ctip) then Inl MalformedState
     else let tip_height = rs_next_height s - 1;
              (proposal_max_age, activation_threshold) =
                thresholds (rs_config s) (rs_active_proposal_hash s \<noteq> None)
          in try_fold (check_pending tip_height proposal_max_age activation_threshold) ()
               (RBT.entries (rs_pending_proposals s))))"

text \<open>The insertion loop of the checkpoint constructor.\<close>

definition insert_pending ::
  "pending_map \<Rightarrow> pending_proposal \<Rightarrow> replay_error + pending_map" where
  "insert_pending pending proposal =
     (if RBT.lookup pending (pp_proposal_hash proposal) \<noteq> None then Inl MalformedState
      else Inr (RBT.insert (pp_proposal_hash proposal) proposal pending))"

definition replay_from_unverified_checkpoint ::
  "replay_config \<Rightarrow> u32 \<Rightarrow> block_hash \<Rightarrow> hash32 option \<Rightarrow> (u32 \<times> block_hash) option
     \<Rightarrow> pending_proposal list \<Rightarrow> slot24_ctip option \<Rightarrow> replay_error + replay_state" where
  "replay_from_unverified_checkpoint cfg processed_height tip active_proposal_hash
     required_activation pending_proposals ctip =
     and_then (config_validate cfg) (\<lambda>_.
     and_then (ok_or (checked_add processed_height 1) HeightOverflow) (\<lambda>next_height.
     and_then (try_fold insert_pending RBT.empty pending_proposals) (\<lambda>pending.
     let state = \<lparr> rs_config = cfg, rs_next_height = next_height, rs_tip_hash = tip,
                   rs_active_proposal_hash = active_proposal_hash,
                   rs_required_activation = required_activation,
                   rs_pending_proposals = pending, rs_ctip = ctip \<rparr>
     in and_then (replay_validate state) (\<lambda>_. Inr state))))"

subsection \<open>Coinbase messages\<close>

datatype parent_message = Proposal hash32 | Ack hash32

definition parse_slot24_parent_message ::
  "(bytes \<Rightarrow> hash32) \<Rightarrow> bytes \<Rightarrow> parent_message option" where
  "parse_slot24_parent_message H script =
     Option.bind (extract_single_op_return_push script) (\<lambda>payload.
     if length payload < 5 \<or> payload ! 4 \<noteq> ELEMENTS_DRIVECHAIN_SLOT then None
     else if take 4 payload = M1_TAG then Some (Proposal (double_sha256 H (drop 5 payload)))
     else if length payload = 4 + 1 + 32 \<and> take 4 payload = M2_TAG
     then Some (Ack (from_be_bytes (drop 5 payload)))
     else None)"

record message_scan =
  sc_state :: replay_state
  sc_created_in_block :: "hash32 set"
  sc_proposal_messages_in_block :: "hash32 set"
  sc_saw_ack :: bool

definition apply_proposal :: "u32 \<Rightarrow> message_scan \<Rightarrow> hash32 \<Rightarrow> replay_error + message_scan" where
  "apply_proposal height sc proposal_hash =
     (let state = sc_state sc in
      if proposal_hash \<in> sc_proposal_messages_in_block sc then Inl DuplicateProposalMessage
      else let sc = sc\<lparr> sc_proposal_messages_in_block :=
                          insert proposal_hash (sc_proposal_messages_in_block sc) \<rparr> in
        if RBT.lookup (rs_pending_proposals state) proposal_hash \<noteq> None then Inr sc
        else and_then (maximum_pending_proposals (rs_config state)) (\<lambda>maximum.
          if pending_len (rs_pending_proposals state) = maximum
          then Inl PendingProposalLimitExceeded
          else Inr (sc\<lparr>
            sc_state := state\<lparr> rs_pending_proposals := RBT.insert proposal_hash
              \<lparr> pp_proposal_hash = proposal_hash, pp_proposal_height = height, pp_votes = 0 \<rparr>
              (rs_pending_proposals state) \<rparr>,
            sc_created_in_block := insert proposal_hash (sc_created_in_block sc) \<rparr>)))"

definition apply_ack ::
  "block_hash \<Rightarrow> u32 \<Rightarrow> message_scan \<Rightarrow> hash32 \<Rightarrow> replay_error + message_scan" where
  "apply_ack block_hash' height sc proposal_hash =
     (let state = sc_state sc in
      if sc_saw_ack sc then Inl MultipleAckMessages
      else let sc = sc\<lparr> sc_saw_ack := True \<rparr> in
        if proposal_hash \<in> sc_created_in_block sc then Inr sc
        else (case RBT.lookup (rs_pending_proposals state) proposal_hash of
          None \<Rightarrow> Inr sc
        | Some proposal \<Rightarrow>
            and_then (ok_or (checked_add (pp_votes proposal) 1) VoteOverflow) (\<lambda>votes.
            let state = state\<lparr> rs_pending_proposals :=
                  RBT.insert proposal_hash (proposal\<lparr> pp_votes := votes \<rparr>)
                    (rs_pending_proposals state) \<rparr>;
                (_, activation_threshold) =
                  thresholds (rs_config state) (rs_active_proposal_hash state \<noteq> None)
            in if activation_threshold < votes then
                 (let state = state\<lparr>
                    rs_active_proposal_hash := Some proposal_hash,
                    rs_pending_proposals :=
                      RBT.delete proposal_hash (rs_pending_proposals state) \<rparr>
                  in if rs_required_activation state \<noteq> None
                       \<and> proposal_hash \<noteq> rc_required_proposal_hash (rs_config state)
                     then Inl RequiredProposalReplaced
                     else if rs_required_activation state = None
                       \<and> proposal_hash = rc_required_proposal_hash (rs_config state)
                     then Inr (sc\<lparr> sc_state := state\<lparr> rs_required_activation :=
                                 Some (height, block_hash') \<rparr> \<rparr>)
                     else Inr (sc\<lparr> sc_state := state \<rparr>))
               else Inr (sc\<lparr> sc_state := state \<rparr>))))"

definition apply_message ::
  "(bytes \<Rightarrow> hash32) \<Rightarrow> block_hash \<Rightarrow> u32 \<Rightarrow> message_scan \<Rightarrow> parsed_output
     \<Rightarrow> replay_error + message_scan" where
  "apply_message H block_hash' height sc output =
     (case parse_slot24_parent_message H (po_script output) of
        None \<Rightarrow> Inr sc
      | Some (Proposal proposal_hash) \<Rightarrow> apply_proposal height sc proposal_hash
      | Some (Ack proposal_hash) \<Rightarrow> apply_ack block_hash' height sc proposal_hash)"

text \<open>The ageing of one proposal: the list of the expired hashes grows.\<close>

definition age_step ::
  "u32 \<Rightarrow> u16 \<Rightarrow> u16 \<Rightarrow> hash32 list \<Rightarrow> hash32 \<times> pending_proposal
     \<Rightarrow> replay_error + hash32 list" where
  "age_step height proposal_max_age activation_threshold expired = (\<lambda>(hash, proposal).
     let max_fails = (ucast (proposal_max_age - activation_threshold) :: u32) in
     and_then (ok_or (checked_sub height (pp_proposal_height proposal)) ProposalHeightAhead)
       (\<lambda>age.
     if age < ucast (pp_votes proposal) then Inl ProposalVotesAhead
     else let misses = age - ucast (pp_votes proposal) in
       Inr (if ucast proposal_max_age < age \<or> (max_fails < age \<and> max_fails \<le> misses)
            then expired @ [hash] else expired)))"

definition age_proposals :: "u32 \<Rightarrow> replay_state \<Rightarrow> replay_error + replay_state" where
  "age_proposals height state =
     (let (proposal_max_age, activation_threshold) =
        thresholds (rs_config state) (rs_active_proposal_hash state \<noteq> None)
      in and_then (try_fold (age_step height proposal_max_age activation_threshold) []
           (RBT.entries (rs_pending_proposals state))) (\<lambda>expired.
         Inr (state\<lparr> rs_pending_proposals :=
           fold RBT.delete expired (rs_pending_proposals state) \<rparr>)))"

definition apply_coinbase_messages ::
  "(bytes \<Rightarrow> hash32) \<Rightarrow> replay_state \<Rightarrow> parsed_block \<Rightarrow> u32
     \<Rightarrow> replay_error + replay_state" where
  "apply_coinbase_messages H state parsed height =
     and_then (try_fold (apply_message H (mv_block_hash (pb_metadata parsed)) height)
       \<lparr> sc_state = state, sc_created_in_block = {}, sc_proposal_messages_in_block = {},
         sc_saw_ack = False \<rparr>
       (pc_outputs (pb_coinbase parsed))) (\<lambda>sc.
     age_proposals height (sc_state sc))"

subsection \<open>Loops with an invariant over the processed prefix\<close>

lemma try_fold_invariant:
  assumes "I [] s"
    and "\<And>ys x zs t u. xs = ys @ x # zs \<Longrightarrow> I ys t \<Longrightarrow> f t x = Inr u \<Longrightarrow> I (ys @ [x]) u"
  shows "case try_fold f s xs of Inr t \<Rightarrow> I xs t
    | Inl e \<Rightarrow> \<exists>ys x zs t. xs = ys @ x # zs \<and> I ys t \<and> f t x = Inl e"
proof -
  have "case try_fold f s ys of Inr t \<Rightarrow> I ys t
    | Inl e \<Rightarrow> \<exists>ys x zs t. xs = ys @ x # zs \<and> I ys t \<and> f t x = Inl e" if "xs = ys @ zs" for ys zs
    using that
  proof (induction ys arbitrary: zs rule: rev_induct)
    case Nil
    then show ?case using assms(1) by simp
  next
    case (snoc y ys)
    then have IH: "case try_fold f s ys of Inr t \<Rightarrow> I ys t
      | Inl e \<Rightarrow> \<exists>ys x zs t. xs = ys @ x # zs \<and> I ys t \<and> f t x = Inl e" by simp
    show ?case
    proof (cases "try_fold f s ys")
      case (Inl e)
      with IH show ?thesis by (simp add: try_fold_append)
    next
      case (Inr t)
      with IH have "I ys t" by simp
      with snoc.prems assms(2) [of ys y zs t] Inr show ?thesis
        by (cases "f t y") (auto simp: try_fold_append)
    qed
  qed
  from this [of xs "[]"] show ?thesis by simp
qed

lemma try_fold_unit:
  "try_fold f () xs = Inr () \<longleftrightarrow> list_all (\<lambda>x. f () x = Inr ()) xs"
  by (induction xs) (auto simp: and_then_Inr)

subsection \<open>The pending map\<close>

lemma pending_len_card: "pending_len m = card (dom (RBT.lookup m))"
proof -
  have "dom (RBT.lookup m) = fst ` set (RBT.entries m)"
    by (metis dom_map_of_conv_image_fst RBT.map_of_entries)
  then show ?thesis
    using distinct_card [OF RBT.distinct_entries [of m]] by (simp add: pending_len_def)
qed

lemma pending_len_insert:
  "pending_len (RBT.insert k v m) =
     (if RBT.lookup m k = None then Suc (pending_len m) else pending_len m)"
  by (auto simp: pending_len_card card_insert_if domIff insert_absorb)

lemma pending_len_delete: "pending_len (RBT.delete k m) \<le> pending_len m"
  by (simp add: pending_len_card card_mono)

lemma pending_len_empty [simp]: "pending_len RBT.empty = 0"
  by (simp add: pending_len_card)

lemma pending_is_empty: "RBT.is_empty m \<longleftrightarrow> RBT.lookup m = Map.empty"
  by (metis RBT.is_empty_def RBT.lookup_empty RBT.lookup_empty_empty RBT.is_empty_empty)

lemma lookup_deletes: "RBT.lookup (fold RBT.delete ks m) = (RBT.lookup m) |` (- set ks)"
  by (induction ks arbitrary: m) (auto simp: restrict_map_def fun_eq_iff)

lemma pending_len_deletes: "pending_len (fold RBT.delete ks m) \<le> pending_len m"
  by (induction ks arbitrary: m) (auto intro: order_trans pending_len_delete)

subsection \<open>What validation accepts\<close>

definition pending_cap :: "replay_config \<Rightarrow> nat" where
  "pending_cap cfg =
     111111 * (max (unat (rc_unused_proposal_max_age cfg)) (unat (rc_used_proposal_max_age cfg)) + 1)"

lemma unat_max: "unat (max a b) = max (unat a) (unat b)"
  by (auto simp: max_def word_le_nat_alt)

lemma maximum_pending_value: "maximum_pending_proposals cfg = Inr (pending_cap cfg)"
proof -
  define m where "m = max (unat (rc_unused_proposal_max_age cfg)) (unat (rc_used_proposal_max_age cfg))"
  have "m < 65536"
    using unat_bound [of "rc_unused_proposal_max_age cfg"] unat_bound [of "rc_used_proposal_max_age cfg"]
    by (simp add: m_def)
  then show ?thesis
    by (simp add: maximum_pending_proposals_def usize_checked_add_def usize_checked_mul_def
        m7_consts pending_cap_def unat_max flip: m_def)
qed

definition config_ok :: "replay_config \<Rightarrow> bool" where
  "config_ok cfg =
     (rc_required_proposal_hash cfg \<noteq> 0
       \<and> 0 < unat (rc_unused_activation_threshold cfg)
       \<and> unat (rc_unused_activation_threshold cfg) < unat (rc_unused_proposal_max_age cfg)
       \<and> 0 < unat (rc_used_activation_threshold cfg)
       \<and> unat (rc_used_activation_threshold cfg) < unat (rc_used_proposal_max_age cfg))"

lemma config_validate_iff: "config_validate cfg = Inr () \<longleftrightarrow> config_ok cfg"
  by (auto simp: config_validate_def config_ok_def maximum_pending_value word_le_nat_alt
      unat_gt_0 not_le word_less_nat_alt)

definition max_age :: "replay_state \<Rightarrow> nat" where
  "max_age s = unat (fst (thresholds (rs_config s) (rs_active_proposal_hash s \<noteq> None)))"

definition max_fails :: "replay_state \<Rightarrow> nat" where
  "max_fails s =
     max_age s - unat (snd (thresholds (rs_config s) (rs_active_proposal_hash s \<noteq> None)))"

text \<open>A pending proposal that has not expired at height \<open>tip\<close>.\<close>

definition live :: "nat \<Rightarrow> nat \<Rightarrow> nat \<Rightarrow> pending_proposal \<Rightarrow> bool" where
  "live age_limit fails tip p =
     (let height = unat (pp_proposal_height p); votes = unat (pp_votes p) in
      height \<le> tip \<and> votes \<le> tip - height \<and> tip - height \<le> age_limit
        \<and> \<not> (fails < tip - height \<and> fails \<le> tip - height - votes))"

definition keyed :: "(pending_proposal \<Rightarrow> bool) \<Rightarrow> pending_map \<Rightarrow> bool" where
  "keyed P m = (\<forall>h p. RBT.lookup m h = Some p \<longrightarrow> h \<noteq> 0 \<and> h = pp_proposal_hash p \<and> P p)"

lemma unat_ucast_16_32: "unat (ucast (w :: u16) :: u32) = unat w"
  using unat_bound [of w] by (simp add: unsigned_ucast_eq take_bit_nat_eq_self)

lemma fails_value: "thr < age \<Longrightarrow> unat (age - thr :: u16) = unat age - unat thr"
  by (simp add: unat_sub_if' word_less_nat_alt)

lemma check_pending_iff:
  assumes "thr < age"
  shows "check_pending tip age thr () (h, p) = Inr () \<longleftrightarrow>
    h \<noteq> 0 \<and> h = pp_proposal_hash p \<and> live (unat age) (unat age - unat thr) (unat tip) p"
proof -
  have "check_pending tip age thr () (h, p) = Inr () \<longleftrightarrow>
    (\<exists>c :: u32. unat tip = unat (pp_proposal_height p) + unat c \<and>
    (\<exists>d :: u32. unat c = unat (ucast (pp_votes p) :: u32) + unat d \<and>
      h \<noteq> 0 \<and> h = pp_proposal_hash p \<and> unat c \<le> unat age
      \<and> \<not> (unat age - unat thr < unat c \<and> unat age - unat thr \<le> unat d)))"
    unfolding check_pending_def Let_def prod.case and_then_Inr ok_or_Inr checked_sub_Some if_Inl_Inr
    by (rule ex_cong1, rule conj_cong, rule refl, rule ex_cong1, rule conj_cong, rule refl)
      (auto simp: word_less_nat_alt word_le_nat_alt fails_value [OF assms] unat_ucast_16_32 not_less)
  also have "\<dots> \<longleftrightarrow> h \<noteq> 0 \<and> h = pp_proposal_hash p \<and> live (unat age) (unat age - unat thr) (unat tip) p"
    (is "?steps \<longleftrightarrow> ?rhs")
  proof
    assume ?rhs
    then show ?steps
      by (intro exI [of _ "tip - pp_proposal_height p"] conjI
          exI [of _ "tip - pp_proposal_height p - ucast (pp_votes p)"])
        (auto simp: live_def Let_def unat_sub_if' unat_ucast_16_32)
  qed (auto simp: live_def Let_def unat_ucast_16_32)
  finally show ?thesis .
qed

definition replay_ok :: "replay_state \<Rightarrow> bool" where
  "replay_ok s =
     (config_ok (rs_config s) \<and> pending_len (rs_pending_proposals s) \<le> pending_cap (rs_config s)
       \<and> (if rs_next_height s = 0
          then rs_tip_hash s = 0 \<and> rs_active_proposal_hash s = None
            \<and> rs_required_activation s = None \<and> RBT.lookup (rs_pending_proposals s) = Map.empty
            \<and> rs_ctip s = None
          else rs_tip_hash s \<noteq> 0
            \<and> (rs_active_proposal_hash s = None \<longrightarrow> rs_ctip s = None)
            \<and> (rs_active_proposal_hash s = Some (rc_required_proposal_hash (rs_config s))
                \<longleftrightarrow> rs_required_activation s \<noteq> None)
            \<and> (\<forall>height hash. rs_required_activation s = Some (height, hash) \<longrightarrow>
                unat height < unat (rs_next_height s) \<and> hash \<noteq> 0)
            \<and> (\<forall>ctip. rs_ctip s = Some ctip \<longrightarrow> ct_txid ctip \<noteq> 0
                \<and> 0 < unat (ct_value_sat ctip) \<and> unat (ct_value_sat ctip) \<le> 2100000000000000)
            \<and> keyed (live (max_age s) (max_fails s) (unat (rs_next_height s) - 1))
                (rs_pending_proposals s)))"

lemma thresholds_less:
  "config_ok cfg \<Longrightarrow> snd (thresholds cfg used) < fst (thresholds cfg used)"
  by (auto simp: config_ok_def thresholds_def word_less_nat_alt)

lemma list_all_entries:
  "list_all (\<lambda>(h, p). Q h p) (RBT.entries m) \<longleftrightarrow> (\<forall>h p. RBT.lookup m h = Some p \<longrightarrow> Q h p)"
  by (auto simp: list_all_iff RBT.lookup_in_tree)

lemma unat_minus_one: "w \<noteq> 0 \<Longrightarrow> unat (w - 1 :: u32) = unat w - 1"
  by (simp add: unat_sub_if' unat_gt_0 Suc_le_eq)

lemma check_entries_iff:
  assumes "config_ok (rs_config s)" "rs_next_height s \<noteq> 0"
  shows "try_fold (check_pending (rs_next_height s - 1)
       (fst (thresholds (rs_config s) (rs_active_proposal_hash s \<noteq> None)))
       (snd (thresholds (rs_config s) (rs_active_proposal_hash s \<noteq> None)))) ()
       (RBT.entries (rs_pending_proposals s)) = Inr () \<longleftrightarrow>
    keyed (live (max_age s) (max_fails s) (unat (rs_next_height s) - 1)) (rs_pending_proposals s)"
proof -
  note check = check_pending_iff [OF thresholds_less [OF assms(1)]]
  show ?thesis
    unfolding try_fold_unit keyed_def max_age_def max_fails_def unat_minus_one [OF assms(2), symmetric]
      check [symmetric] list_all_entries [symmetric]
    by (simp add: case_prod_beta')
qed

lemma replay_validate_iff: "replay_validate s = Inr () \<longleftrightarrow> replay_ok s"
proof (cases "config_ok (rs_config s)")
  case True
  then have valid: "config_validate (rs_config s) = Inr ()" by (simp add: config_validate_iff)
  note eq = replay_validate_def [of s, unfolded valid maximum_pending_value and_then_simps]
  show ?thesis
  proof (cases "rs_next_height s = 0")
    case True
    then show ?thesis
      using \<open>config_ok (rs_config s)\<close>
      by (cases "rs_required_activation s") (auto simp: eq replay_ok_def pending_is_empty not_less)
  next
    case False
    note entries = check_entries_iff [OF True False]
    have required: "(case rs_required_activation s of None \<Rightarrow> False | Some x \<Rightarrow>
          A \<or> rs_next_height s \<le> fst x \<or> snd x = 0) \<longleftrightarrow>
        \<not> ((rs_required_activation s \<noteq> None \<longrightarrow> \<not> A)
          \<and> (\<forall>height hash. rs_required_activation s = Some (height, hash) \<longrightarrow>
            unat height < unat (rs_next_height s) \<and> hash \<noteq> 0))" for A
      by (cases "rs_required_activation s") (auto simp: word_le_nat_alt not_less split: prod.splits)
    have ctip: "(case rs_ctip s of None \<Rightarrow> False | Some ctip \<Rightarrow>
          ct_txid ctip = 0 \<or> ct_value_sat ctip = 0 \<or> MAX_MONEY_SATOSHIS < ct_value_sat ctip) \<longleftrightarrow>
        \<not> (\<forall>ctip. rs_ctip s = Some ctip \<longrightarrow> ct_txid ctip \<noteq> 0 \<and> 0 < unat (ct_value_sat ctip)
            \<and> unat (ct_value_sat ctip) \<le> 2100000000000000)"
      by (cases "rs_ctip s") (auto simp: money_less unat_gt_0)
    show ?thesis
      unfolding eq Let_def case_prod_beta' if_Inl_Inr required ctip replay_ok_def
      using False True entries
      by (cases "rs_active_proposal_hash s"; cases "rs_required_activation s") (auto simp: not_less)
  qed
qed (auto simp: replay_validate_def and_then_Inr config_validate_iff replay_ok_def)

text \<open>A state with a valid configuration is refused only as malformed or too full.\<close>

lemma replay_validate_error:
  assumes "config_ok (rs_config s)" "replay_validate s = Inl e"
  shows "e = MalformedState \<or> e = PendingProposalLimitExceeded"
proof -
  have check: "e' = MalformedState" if "check_pending tip age thr u x = Inl e'" for tip age thr u x e'
    using that by (cases x) (auto simp: check_pending_def Let_def and_then_Inl ok_or_Inl split: if_splits)
  have loop: "e' = MalformedState" if "try_fold (check_pending tip age thr) u xs = Inl e'" for tip age thr u xs e'
    using try_fold_Inl [OF that] check by blast
  have "config_validate (rs_config s) = Inr ()" using assms(1) by (simp add: config_validate_iff)
  then show ?thesis
    using assms(2)
    by (auto simp: replay_validate_def maximum_pending_value Let_def split_beta dest: loop
        split: if_split_asm)
qed

subsection \<open>What the messages do to a valid state\<close>

text \<open>
  The invariant of the message loop at a block of height \<open>height\<close> and hash \<open>bh\<close>: proposals of
  this block have no vote, older ones have fewer votes than their age, up to the one vote of
  this block. \<open>nz\<close> stands for the absence of zero hashes in the block, which the code does not
  exclude before the final validation.
\<close>

text \<open>
  A proposal lives for at most its maximal age and gains at most one vote per block, so votes
  overflow 16 bits only when a maximal age is 65535, the largest one a configuration can have.
\<close>

definition ages_bounded :: "replay_config \<Rightarrow> bool" where
  "ages_bounded cfg =
     (unat (rc_unused_proposal_max_age cfg) < 65535 \<and> unat (rc_used_proposal_max_age cfg) < 65535)"

definition entry_inv :: "bool \<Rightarrow> bool \<Rightarrow> u32 \<Rightarrow> hash32 set \<Rightarrow> bool \<Rightarrow> hash32 \<Rightarrow> pending_proposal \<Rightarrow> bool" where
  "entry_inv nz bounded height created ack h p =
     ((nz \<longrightarrow> h \<noteq> 0) \<and> h = pp_proposal_hash p
       \<and> (if h \<in> created then pp_proposal_height p = height \<and> pp_votes p = 0
          else unat (pp_proposal_height p) < unat height
            \<and> unat (pp_proposal_height p) + unat (pp_votes p) < unat height + of_bool ack
            \<and> (bounded \<longrightarrow> unat height - unat (pp_proposal_height p) \<le> 65535)))"

definition pending_inv :: "bool \<Rightarrow> u32 \<Rightarrow> message_scan \<Rightarrow> bool" where
  "pending_inv nz height sc =
     (\<forall>h p. RBT.lookup (rs_pending_proposals (sc_state sc)) h = Some p \<longrightarrow>
       entry_inv nz (ages_bounded (rs_config (sc_state sc))) height (sc_created_in_block sc) (sc_saw_ack sc) h p)"

lemma pending_invD:
  "pending_inv nz height sc \<Longrightarrow> RBT.lookup (rs_pending_proposals (sc_state sc)) h = Some p \<Longrightarrow>
     entry_inv nz (ages_bounded (rs_config (sc_state sc))) height (sc_created_in_block sc) (sc_saw_ack sc) h p"
  by (simp add: pending_inv_def)

lemma entry_inv_ack:
  "entry_inv nz bounded height created ack h p \<Longrightarrow> entry_inv nz bounded height created True h p"
  by (cases ack) (auto simp: entry_inv_def)

lemma entry_inv_insert:
  "entry_inv nz bounded height created ack h p \<Longrightarrow> h \<noteq> k \<Longrightarrow>
     entry_inv nz bounded height (insert k created) ack h p"
  by (auto simp: entry_inv_def)

definition activation_ok :: "replay_state \<Rightarrow> bool" where
  "activation_ok s =
     (rs_active_proposal_hash s = Some (rc_required_proposal_hash (rs_config s))
       \<longleftrightarrow> rs_required_activation s \<noteq> None)"

text \<open>What a block leaves alone, and how its activations may change the state.\<close>

definition kept :: "u32 \<Rightarrow> block_hash \<Rightarrow> replay_state \<Rightarrow> replay_state \<Rightarrow> bool" where
  "kept height bh s0 s =
     (rs_config s = rs_config s0 \<and> rs_next_height s = rs_next_height s0
       \<and> rs_tip_hash s = rs_tip_hash s0 \<and> rs_ctip s = rs_ctip s0
       \<and> (rs_active_proposal_hash s0 \<noteq> None \<longrightarrow> rs_active_proposal_hash s \<noteq> None)
       \<and> (rs_required_activation s = rs_required_activation s0
          \<or> rs_required_activation s0 = None \<and> rs_required_activation s = Some (height, bh)))"

definition message_inv ::
  "bool \<Rightarrow> u32 \<Rightarrow> block_hash \<Rightarrow> replay_state \<Rightarrow> message_scan \<Rightarrow> bool" where
  "message_inv nz height bh s0 sc =
     (kept height bh s0 (sc_state sc) \<and> activation_ok (sc_state sc)
       \<and> pending_len (rs_pending_proposals (sc_state sc)) \<le> pending_cap (rs_config s0)
       \<and> pending_inv nz height sc)"

lemma apply_proposal_cases:
  "apply_proposal height sc h =
     (if h \<in> sc_proposal_messages_in_block sc then Inl DuplicateProposalMessage
      else if RBT.lookup (rs_pending_proposals (sc_state sc)) h \<noteq> None
      then Inr (sc\<lparr> sc_proposal_messages_in_block := insert h (sc_proposal_messages_in_block sc) \<rparr>)
      else if pending_len (rs_pending_proposals (sc_state sc)) = pending_cap (rs_config (sc_state sc))
      then Inl PendingProposalLimitExceeded
      else Inr (sc\<lparr> sc_proposal_messages_in_block := insert h (sc_proposal_messages_in_block sc),
        sc_state := (sc_state sc)\<lparr> rs_pending_proposals := RBT.insert h
            \<lparr> pp_proposal_hash = h, pp_proposal_height = height, pp_votes = 0 \<rparr>
            (rs_pending_proposals (sc_state sc)) \<rparr>,
        sc_created_in_block := insert h (sc_created_in_block sc) \<rparr>))"
  by (simp add: apply_proposal_def Let_def maximum_pending_value)

lemma apply_proposal_inv:
  assumes "message_inv nz height bh s0 sc" "nz \<longrightarrow> h \<noteq> 0" "apply_proposal height sc h = Inr sc'"
  shows "message_inv nz height bh s0 sc'"
proof (cases "RBT.lookup (rs_pending_proposals (sc_state sc)) h = None")
  case False
  then have "sc' = sc\<lparr> sc_proposal_messages_in_block := insert h (sc_proposal_messages_in_block sc) \<rparr>"
    using assms(3) by (auto simp: apply_proposal_cases split: if_splits)
  with assms(1) show ?thesis by (simp add: message_inv_def pending_inv_def)
next
  case True
  have config: "rs_config (sc_state sc) = rs_config s0"
    using assms(1) by (simp add: message_inv_def kept_def)
  from True assms(3) have
    cap: "pending_len (rs_pending_proposals (sc_state sc)) \<noteq> pending_cap (rs_config s0)"
    and sc': "sc' = sc\<lparr> sc_proposal_messages_in_block := insert h (sc_proposal_messages_in_block sc),
        sc_state := (sc_state sc)\<lparr> rs_pending_proposals := RBT.insert h
            \<lparr> pp_proposal_hash = h, pp_proposal_height = height, pp_votes = 0 \<rparr>
            (rs_pending_proposals (sc_state sc)) \<rparr>,
        sc_created_in_block := insert h (sc_created_in_block sc) \<rparr>"
    by (auto simp: apply_proposal_cases config split: if_splits)
  have "pending_inv nz height sc" using assms(1) by (simp add: message_inv_def)
  then have "pending_inv nz height sc'"
    using assms(2) unfolding pending_inv_def
    by (auto simp: sc' intro: entry_inv_insert) (simp add: entry_inv_def)+
  moreover have "pending_len (rs_pending_proposals (sc_state sc')) \<le> pending_cap (rs_config s0)"
    using assms(1) cap True by (simp add: sc' message_inv_def pending_len_insert)
  ultimately show ?thesis
    using assms(1) config by (simp add: sc' message_inv_def kept_def activation_ok_def)
qed

lemma ack_votes:
  assumes "pending_inv nz height sc" "\<not> sc_saw_ack sc" "h \<notin> sc_created_in_block sc"
    and "RBT.lookup (rs_pending_proposals (sc_state sc)) h = Some p"
    and "ages_bounded (rs_config (sc_state sc))"
  shows "checked_add (pp_votes p) 1 \<noteq> None"
proof -
  have "unat (pp_proposal_height p) + unat (pp_votes p) < unat height"
    "unat height - unat (pp_proposal_height p) \<le> 65535"
    using pending_invD [OF assms(1,4)] assms(2,3,5) by (simp_all add: entry_inv_def)
  then have "unat (pp_votes p) + 1 < 65536" by linarith
  then show ?thesis by (simp add: checked_add_def)
qed

lemma apply_ack_inv:
  assumes inv: "message_inv nz height bh s0 sc" and ok: "apply_ack bh height sc h = Inr sc'"
  shows "message_inv nz height bh s0 sc'"
proof (cases "h \<notin> sc_created_in_block sc
    \<and> RBT.lookup (rs_pending_proposals (sc_state sc)) h \<noteq> None")
  case False
  then have "\<not> sc_saw_ack sc" "sc' = sc\<lparr> sc_saw_ack := True \<rparr>"
    using ok by (auto simp: apply_ack_def Let_def split: if_splits)
  with inv show ?thesis by (auto simp: message_inv_def pending_inv_def intro: entry_inv_ack)
next
  case True
  then obtain p where p: "RBT.lookup (rs_pending_proposals (sc_state sc)) h = Some p"
      "h \<notin> sc_created_in_block sc" by auto
  have fresh: "\<not> sc_saw_ack sc" using ok by (auto simp: apply_ack_def split: if_splits)
  have pend: "pending_inv nz height sc" and len:
    "pending_len (rs_pending_proposals (sc_state sc)) \<le> pending_cap (rs_config s0)"
    using inv by (simp_all add: message_inv_def)
  obtain v where v: "checked_add (pp_votes p) 1 = Some v"
    using ok p fresh by (cases "checked_add (pp_votes p) 1") (simp_all add: apply_ack_def Let_def split_beta)
  then have v_eq: "v = pp_votes p + 1" by (simp add: checked_add_def split: if_splits)
  have votes: "checked_add (pp_votes p) 1 = Some (pp_votes p + 1)"
    "unat (pp_votes p + 1) = unat (pp_votes p) + 1"
    using v unfolding v_eq by (simp_all add: checked_add_Some)
  define m where "m = RBT.insert h (p\<lparr> pp_votes := pp_votes p + 1 \<rparr>) (rs_pending_proposals (sc_state sc))"
  have m_len: "pending_len m = pending_len (rs_pending_proposals (sc_state sc))"
    using p(1) by (simp add: m_def pending_len_insert)
  have m_inv: "pending_inv nz height (sc\<lparr> sc_saw_ack := True,
      sc_state := (sc_state sc)\<lparr> rs_pending_proposals := m \<rparr> \<rparr>)"
    unfolding pending_inv_def
  proof (intro allI impI)
    fix k q
    assume "RBT.lookup (rs_pending_proposals (sc_state (sc\<lparr> sc_saw_ack := True,
      sc_state := (sc_state sc)\<lparr> rs_pending_proposals := m \<rparr> \<rparr>))) k = Some q"
    then have "k = h \<and> q = p\<lparr> pp_votes := pp_votes p + 1 \<rparr>
        \<or> RBT.lookup (rs_pending_proposals (sc_state sc)) k = Some q"
      by (simp add: m_def eq_commute split: if_splits)
    then have "entry_inv nz (ages_bounded (rs_config (sc_state sc))) height (sc_created_in_block sc) True k q"
    proof
      assume "k = h \<and> q = p\<lparr> pp_votes := pp_votes p + 1 \<rparr>"
      then show ?thesis
        using pending_invD [OF pend p(1)] p(2) votes(2) fresh by (auto simp: entry_inv_def)
    qed (use pending_invD [OF pend] entry_inv_ack in blast)
    then show "entry_inv nz (ages_bounded (rs_config (sc_state (sc\<lparr> sc_saw_ack := True,
      sc_state := (sc_state sc)\<lparr> rs_pending_proposals := m \<rparr> \<rparr>)))) height (sc_created_in_block (sc\<lparr> sc_saw_ack := True,
      sc_state := (sc_state sc)\<lparr> rs_pending_proposals := m \<rparr> \<rparr>)) (sc_saw_ack (sc\<lparr> sc_saw_ack := True,
      sc_state := (sc_state sc)\<lparr> rs_pending_proposals := m \<rparr> \<rparr>)) k q" by simp
  qed
  define s where "s = sc_state sc"
  let ?required = "rc_required_proposal_hash (rs_config s)"
  have result: "apply_ack bh height sc h =
      (if snd (thresholds (rs_config s) (rs_active_proposal_hash s \<noteq> None)) < pp_votes p + 1 then
         if rs_required_activation s \<noteq> None \<and> h \<noteq> ?required then Inl RequiredProposalReplaced
         else if rs_required_activation s = None \<and> h = ?required
         then Inr (sc\<lparr> sc_saw_ack := True, sc_state := s\<lparr> rs_active_proposal_hash := Some h,
           rs_pending_proposals := RBT.delete h m, rs_required_activation := Some (height, bh) \<rparr> \<rparr>)
         else Inr (sc\<lparr> sc_saw_ack := True, sc_state := s\<lparr> rs_active_proposal_hash := Some h,
           rs_pending_proposals := RBT.delete h m \<rparr> \<rparr>)
       else Inr (sc\<lparr> sc_saw_ack := True, sc_state := s\<lparr> rs_pending_proposals := m \<rparr> \<rparr>))"
    using p votes(1) fresh
    by (simp add: apply_ack_def Let_def split_beta m_def s_def)
  consider
      (vote) "sc' = sc\<lparr> sc_saw_ack := True, sc_state := s\<lparr> rs_pending_proposals := m \<rparr> \<rparr>"
    | (replace) "sc' = sc\<lparr> sc_saw_ack := True, sc_state := s\<lparr> rs_active_proposal_hash := Some h,
          rs_pending_proposals := RBT.delete h m \<rparr> \<rparr>"
        "(rs_required_activation s = None) \<longleftrightarrow> (h \<noteq> ?required)"
    | (activate) "sc' = sc\<lparr> sc_saw_ack := True, sc_state := s\<lparr> rs_active_proposal_hash := Some h,
          rs_pending_proposals := RBT.delete h m, rs_required_activation := Some (height, bh) \<rparr> \<rparr>"
        "rs_required_activation s = None" "h = ?required"
    using ok unfolding result by (auto simp del: not_None_eq split: if_splits)
  then show ?thesis
  proof cases
    case vote
    then show ?thesis
      using inv m_inv m_len by (auto simp: message_inv_def kept_def activation_ok_def s_def)
  next
    case replace
    have "pending_inv nz height sc'"
      using m_inv unfolding pending_inv_def by (auto simp: replace(1) restrict_map_def s_def split: if_splits)
    moreover have "pending_len (RBT.delete h m) \<le> pending_cap (rs_config s0)"
      using pending_len_delete [of h m] m_len len by simp
    ultimately show ?thesis
      using inv replace(2) by (auto simp: replace(1) message_inv_def kept_def activation_ok_def s_def)
  next
    case activate
    have "pending_inv nz height sc'"
      using m_inv unfolding pending_inv_def by (auto simp: activate(1) restrict_map_def s_def split: if_splits)
    moreover have "pending_len (RBT.delete h m) \<le> pending_cap (rs_config s0)"
      using pending_len_delete [of h m] m_len len by simp
    ultimately show ?thesis
      using inv activate(2,3) by (auto simp: activate(1) message_inv_def kept_def activation_ok_def s_def)
  qed
qed

definition message_errors :: "replay_config \<Rightarrow> replay_error set" where
  "message_errors cfg = {DuplicateProposalMessage, PendingProposalLimitExceeded, MultipleAckMessages,
     RequiredProposalReplaced} \<union> (if ages_bounded cfg then {} else {VoteOverflow})"

lemma apply_message_inv:
  assumes "message_inv nz height bh s0 sc"
    and "nz \<longrightarrow> parse_slot24_parent_message H (po_script out) \<noteq> Some (Proposal 0)"
  shows "case apply_message H bh height sc out of Inr sc' \<Rightarrow> message_inv nz height bh s0 sc'
    | Inl e \<Rightarrow> e \<in> message_errors (rs_config s0)"
proof (cases "parse_slot24_parent_message H (po_script out)")
  case None
  then show ?thesis using assms(1) by (simp add: apply_message_def)
next
  case (Some m)
  show ?thesis
  proof (cases m)
    case (Proposal h)
    with Some assms apply_proposal_inv [OF assms(1), of h] show ?thesis
      by (cases "apply_proposal height sc h")
        (auto simp: apply_message_def apply_proposal_cases message_errors_def split: if_splits)
  next
    case (Ack h)
    have "e \<in> message_errors (rs_config s0)" if "apply_ack bh height sc h = Inl e" for e
    proof -
      have inv: "pending_inv nz height sc" "rs_config (sc_state sc) = rs_config s0"
        using assms(1) by (simp_all add: message_inv_def kept_def)
      show ?thesis
      proof (cases "sc_saw_ack sc \<or> h \<in> sc_created_in_block sc
          \<or> RBT.lookup (rs_pending_proposals (sc_state sc)) h = None")
        case True
        with that show ?thesis
          by (auto simp: apply_ack_def Let_def message_errors_def split: if_splits)
      next
        case False
        then obtain p where p: "\<not> sc_saw_ack sc" "h \<notin> sc_created_in_block sc"
          "RBT.lookup (rs_pending_proposals (sc_state sc)) h = Some p" by blast
        show ?thesis
        proof (cases "checked_add (pp_votes p) 1")
          case None
          with that p have "e = VoteOverflow" by (simp add: apply_ack_def)
          moreover have "\<not> ages_bounded (rs_config s0)"
            using ack_votes [OF inv(1) p] None inv(2) by auto
          ultimately show ?thesis by (simp add: message_errors_def)
        next
          case (Some v)
          with that p show ?thesis
            by (auto simp: apply_ack_def Let_def split_beta message_errors_def split: if_splits)
        qed
      qed
    qed
    with Some Ack apply_ack_inv [OF assms(1), of h] show ?thesis
      by (cases "apply_ack bh height sc h") (auto simp: apply_message_def)
  qed
qed

subsection \<open>Ageing\<close>

lemma age_step_live:
  assumes "thr < age" "h = pp_proposal_hash p"
    and "unat (pp_proposal_height p) \<le> unat height"
    and "unat (pp_proposal_height p) + unat (pp_votes p) \<le> unat height"
  shows "age_step height age thr expired (h, p) =
    Inr (if live (unat age) (unat age - unat thr) (unat height) p then expired else expired @ [h])"
proof -
  let ?a = "height - pp_proposal_height p"
  have a: "checked_sub height (pp_proposal_height p) = Some ?a"
    "unat ?a = unat height - unat (pp_proposal_height p)"
    using assms(3) by (simp_all add: checked_sub_def unat_sub_if')
  have votes: "\<not> ?a < ucast (pp_votes p)"
    using assms(3,4) unfolding word_less_nat_alt unat_ucast_16_32 a(2) by linarith
  then have misses: "unat (?a - ucast (pp_votes p)) =
      unat height - unat (pp_proposal_height p) - unat (pp_votes p)"
    using a(2) by (simp add: unat_sub_if' [of ?a] unat_ucast_16_32 word_less_nat_alt)
  have "(ucast age < ?a \<or> (ucast (age - thr) < ?a \<and> ucast (age - thr) \<le> ?a - ucast (pp_votes p)))
      \<longleftrightarrow> \<not> live (unat age) (unat age - unat thr) (unat height) p"
    using assms(3,4) unfolding word_less_nat_alt word_le_nat_alt unat_ucast_16_32 a(2) misses
      fails_value [OF assms(1)] live_def Let_def by auto
  then show ?thesis
    unfolding age_step_def prod.case Let_def a(1) ok_or_simps and_then_simps using votes by simp
qed

lemma age_loop:
  assumes "thr < age"
    and "list_all (\<lambda>(h, p). h = pp_proposal_hash p \<and> unat (pp_proposal_height p) \<le> unat height
      \<and> unat (pp_proposal_height p) + unat (pp_votes p) \<le> unat height) es"
  shows "try_fold (age_step height age thr) expired es =
    Inr (expired @ map fst (filter (\<lambda>(h, p).
      \<not> live (unat age) (unat age - unat thr) (unat height) p) es))"
  using assms(2)
proof (induction es arbitrary: expired)
  case (Cons e es)
  then show ?case by (cases e) (simp add: age_step_live [OF assms(1)])
qed simp

lemma age_proposals_live:
  assumes "config_ok (rs_config s)"
    and "\<And>h p. RBT.lookup (rs_pending_proposals s) h = Some p \<Longrightarrow>
      (nz \<longrightarrow> h \<noteq> 0) \<and> h = pp_proposal_hash p
        \<and> unat (pp_proposal_height p) + unat (pp_votes p) \<le> unat height"
  obtains m where "age_proposals height s = Inr (s\<lparr> rs_pending_proposals := m \<rparr>)"
    "nz \<longrightarrow> keyed (live (max_age s) (max_fails s) (unat height)) m"
    "pending_len m \<le> pending_len (rs_pending_proposals s)"
proof -
  let ?t = "thresholds (rs_config s) (rs_active_proposal_hash s \<noteq> None)"
  define dead where "dead = map fst (filter (\<lambda>(h, p). \<not> live (max_age s) (max_fails s) (unat height) p)
    (RBT.entries (rs_pending_proposals s)))"
  have entries: "list_all (\<lambda>(h, p). h = pp_proposal_hash p \<and> unat (pp_proposal_height p) \<le> unat height
      \<and> unat (pp_proposal_height p) + unat (pp_votes p) \<le> unat height)
      (RBT.entries (rs_pending_proposals s))"
    unfolding list_all_entries using assms(2) by fastforce
  have "try_fold (age_step height (fst ?t) (snd ?t)) [] (RBT.entries (rs_pending_proposals s)) = Inr dead"
    using age_loop [OF thresholds_less [OF assms(1)] entries, of _ "[]"]
    by (simp add: dead_def max_age_def max_fails_def)
  then have "age_proposals height s =
      Inr (s\<lparr> rs_pending_proposals := fold RBT.delete dead (rs_pending_proposals s) \<rparr>)"
    by (simp add: age_proposals_def split_beta)
  moreover have "nz \<longrightarrow> keyed (live (max_age s) (max_fails s) (unat height))
      (fold RBT.delete dead (rs_pending_proposals s))"
    using assms(2) unfolding keyed_def lookup_deletes
    by (auto simp: restrict_map_def dead_def image_iff RBT.lookup_in_tree split: if_splits)
  ultimately show ?thesis using pending_len_deletes by (rule that)
qed

subsection \<open>Coinbase messages on a valid state\<close>

lemma ages_bounded_iff:
  "ages_bounded cfg \<longleftrightarrow> rc_unused_proposal_max_age cfg \<noteq> 65535 \<and> rc_used_proposal_max_age cfg \<noteq> 65535"
proof -
  have "unat a < 65535 \<longleftrightarrow> a \<noteq> 65535" for a :: u16
    using unat_bound [of a] by (auto simp: word_unat_eq_iff less_le)
  then show ?thesis by (simp add: ages_bounded_def)
qed

lemma max_age_bounded: "ages_bounded (rs_config s) \<Longrightarrow> max_age s < 65535"
  by (auto simp: ages_bounded_def max_age_def thresholds_def)

lemma message_inv_start:
  assumes "replay_ok s"
  shows "message_inv nz (rs_next_height s) bh s
    \<lparr> sc_state = s, sc_created_in_block = {}, sc_proposal_messages_in_block = {}, sc_saw_ack = False \<rparr>"
proof (cases "rs_next_height s = 0")
  case True
  with assms(1) show ?thesis
    by (simp add: replay_ok_def message_inv_def kept_def activation_ok_def pending_inv_def)
next
  case False
  have "entry_inv nz (ages_bounded (rs_config s)) (rs_next_height s) {} False h p"
    if "RBT.lookup (rs_pending_proposals s) h = Some p" for h p
  proof -
    have "live (max_age s) (max_fails s) (unat (rs_next_height s) - 1) p"
      and h: "h \<noteq> 0" "h = pp_proposal_hash p"
      using assms(1) False that by (auto simp: replay_ok_def keyed_def)
    moreover have "0 < unat (rs_next_height s)" using False by (simp add: unat_gt_0)
    ultimately have "unat (pp_proposal_height p) < unat (rs_next_height s)"
      "unat (pp_proposal_height p) + unat (pp_votes p) < unat (rs_next_height s)"
      "ages_bounded (rs_config s) \<longrightarrow> unat (rs_next_height s) - unat (pp_proposal_height p) \<le> 65535"
      using max_age_bounded [of s] by (auto simp: live_def Let_def)
    with h show ?thesis by (auto simp: entry_inv_def)
  qed
  with assms(1) False show ?thesis
    by (simp add: replay_ok_def message_inv_def kept_def activation_ok_def pending_inv_def)
qed

lemma entry_inv_age: "entry_inv nz bounded height created ack h p \<Longrightarrow>
    (nz \<longrightarrow> h \<noteq> 0) \<and> h = pp_proposal_hash p \<and> unat (pp_proposal_height p) + unat (pp_votes p) \<le> unat height"
  by (cases ack) (auto simp: entry_inv_def split: if_splits)

theorem coinbase_messages_valid:
  assumes "replay_ok s"
    and "nz \<longrightarrow> list_all (\<lambda>out. parse_slot24_parent_message H (po_script out) \<noteq> Some (Proposal 0))
      (pc_outputs (pb_coinbase parsed))"
  shows "case apply_coinbase_messages H s parsed (rs_next_height s) of Inl e \<Rightarrow> e \<in> message_errors (rs_config s)
    | Inr s' \<Rightarrow> kept (rs_next_height s) (mv_block_hash (pb_metadata parsed)) s s' \<and> activation_ok s'
        \<and> pending_len (rs_pending_proposals s') \<le> pending_cap (rs_config s)
        \<and> (nz \<longrightarrow> keyed (live (max_age s') (max_fails s') (unat (rs_next_height s))) (rs_pending_proposals s'))"
proof -
  let ?bh = "mv_block_hash (pb_metadata parsed)" and ?height = "rs_next_height s"
  let ?start = "\<lparr> sc_state = s, sc_created_in_block = {}, sc_proposal_messages_in_block = {},
    sc_saw_ack = False \<rparr>"
  let ?run = "try_fold (apply_message H ?bh ?height) ?start (pc_outputs (pb_coinbase parsed))"
  have nonzero: "nz \<longrightarrow> parse_slot24_parent_message H (po_script out) \<noteq> Some (Proposal 0)"
    if "pc_outputs (pb_coinbase parsed) = ys @ out # zs" for ys out zs
    using assms(2) that by simp
  have step: "case apply_message H ?bh ?height t x of Inr t' \<Rightarrow> message_inv nz ?height ?bh s t'
      | Inl e \<Rightarrow> e \<in> message_errors (rs_config s)"
    if "pc_outputs (pb_coinbase parsed) = ys @ x # zs" "message_inv nz ?height ?bh s t" for ys x zs t
    by (rule apply_message_inv [OF that(2) nonzero [OF that(1)]])
  have run: "case ?run of Inr t \<Rightarrow> message_inv nz ?height ?bh s t
    | Inl e \<Rightarrow> \<exists>ys x zs t. pc_outputs (pb_coinbase parsed) = ys @ x # zs
        \<and> message_inv nz ?height ?bh s t \<and> apply_message H ?bh ?height t x = Inl e"
    by (rule try_fold_invariant [where I = "\<lambda>_. message_inv nz ?height ?bh s"])
      (use message_inv_start [OF assms(1)] step in \<open>fastforce split: sum.splits\<close>)+
  show ?thesis
  proof (cases ?run)
    case (Inl e)
    with run have "e \<in> message_errors (rs_config s)"
      using step by (fastforce split: sum.splits)
    with Inl show ?thesis by (simp add: apply_coinbase_messages_def)
  next
    case (Inr sc)
    with run have inv: "message_inv nz ?height ?bh s sc" by simp
    then have "config_ok (rs_config (sc_state sc))" "rs_config (sc_state sc) = rs_config s"
      using assms(1) by (simp_all add: message_inv_def kept_def replay_ok_def)
    moreover have "(nz \<longrightarrow> h \<noteq> 0) \<and> h = pp_proposal_hash p
        \<and> unat (pp_proposal_height p) + unat (pp_votes p) \<le> unat ?height"
      if "RBT.lookup (rs_pending_proposals (sc_state sc)) h = Some p" for h p
      using inv that entry_inv_age by (simp add: message_inv_def pending_inv_def) blast
    ultimately obtain m where m:
      "age_proposals ?height (sc_state sc) = Inr ((sc_state sc)\<lparr> rs_pending_proposals := m \<rparr>)"
      "nz \<longrightarrow> keyed (live (max_age (sc_state sc)) (max_fails (sc_state sc)) (unat ?height)) m"
      "pending_len m \<le> pending_len (rs_pending_proposals (sc_state sc))"
      using age_proposals_live by blast
    with Inr inv show ?thesis
      by (auto simp: apply_coinbase_messages_def message_inv_def kept_def activation_ok_def
          max_age_def max_fails_def)
  qed
qed

end
