(* ===== verification/Replay.thy ===== *)
theory Replay
  imports Replay_State
begin

section \<open>The slot-24 replay of a block (usdd-bitcoin-bmm/src/block/bip300.rs)\<close>

text \<open>
  The M7 of the coinbase, the M8 requests and treasury outputs of the other transactions, and
  the application of one serialized block. The code changes a clone of the state and stores it
  at the end, so the result carries the new state and an error leaves the old one.
\<close>

definition M8_TAG :: bytes where "M8_TAG = [0x00, 0xbf, 0x00]"
definition OP_DRIVECHAIN :: u8 where "OP_DRIVECHAIN = 0xb4"
definition OP_TRUE :: u8 where "OP_TRUE = 0x51"
definition M8_PAYLOAD_LEN :: nat where "M8_PAYLOAD_LEN = 3 + 1 + 32 + 32"
definition M8_CANONICAL_SCRIPT_LEN :: nat where "M8_CANONICAL_SCRIPT_LEN = 1 + 1 + M8_PAYLOAD_LEN"

record bmm_edge =
  be_parent_block_hash :: block_hash
  be_successor_block_hash :: block_hash
  be_successor_height :: u32
  be_coinbase_txid :: block_hash
  be_m7_output_index :: u32
  be_committed_child_hash :: block_hash

record block_effects =
  ef_deposits :: "mintable_deposit list"
  ef_bmm_edge :: "bmm_edge option"
  ef_matching_m8_requests :: u32
  ef_saw_slot24_m7 :: bool
  ef_required_proposal_active :: bool

subsection \<open>Messages of the scripts\<close>

record observed_m7 =
  om_output_index :: u32
  om_child_hash :: block_hash
  om_canonical_for_elements :: bool

definition observe_step ::
  "observed_m7 option \<Rightarrow> nat \<times> parsed_output \<Rightarrow> replay_error + observed_m7 option" where
  "observe_step observed = (\<lambda>(index, output).
     (case extract_single_op_return_push (po_script output) of
        None \<Rightarrow> Inr observed
      | Some payload \<Rightarrow>
          if length payload \<noteq> M7_PAYLOAD_LEN \<or> take 4 payload \<noteq> M7_TAG
            \<or> payload ! 4 \<noteq> ELEMENTS_DRIVECHAIN_SLOT
          then Inr observed
          else if observed \<noteq> None then Inl DuplicateM7
          else and_then (u32_try_from index OutputIndexOverflow) (\<lambda>output_index.
            let script = po_script output in
            Inr (Some \<lparr> om_output_index = output_index,
                        om_child_hash = from_be_bytes (drop 5 payload),
                        om_canonical_for_elements =
                          (length script = M7_CANONICAL_SCRIPT_LEN \<and> script ! 0 = OP_RETURN
                            \<and> unat (script ! 1) = M7_PAYLOAD_LEN) \<rparr>))))"

definition observe_slot24_m7 :: "parsed_block \<Rightarrow> replay_error + observed_m7 option" where
  "observe_slot24_m7 parsed =
     try_fold observe_step None (enumerate 0 (pc_outputs (pb_coinbase parsed)))"

definition parse_slot24_m8 :: "parsed_transaction \<Rightarrow> (block_hash \<times> block_hash) option" where
  "parse_slot24_m8 transaction =
     (case pt_outputs transaction of
        [] \<Rightarrow> None
      | output # _ \<Rightarrow>
          let script = po_script output in
          if length script \<noteq> M8_CANONICAL_SCRIPT_LEN \<or> script ! 0 \<noteq> OP_RETURN
            \<or> unat (script ! 1) \<noteq> M8_PAYLOAD_LEN \<or> slice script 2 5 \<noteq> M8_TAG
            \<or> script ! 5 \<noteq> ELEMENTS_DRIVECHAIN_SLOT
          then None
          else Some (from_be_bytes (slice script 6 38), from_be_bytes (slice script 38 70)))"

definition is_slot24_treasury :: "bytes \<Rightarrow> bool" where
  "is_slot24_treasury script =
     (script = [OP_DRIVECHAIN, 0x01, ELEMENTS_DRIVECHAIN_SLOT, OP_TRUE])"

definition input_spends :: "outpoint \<Rightarrow> slot24_ctip \<Rightarrow> bool" where
  "input_spends input ctip =
     (let bs = to_be_bytes 36 input in
      take 32 bs = enc_hash32 (ct_txid ctip) \<and> drop 32 bs = le_nat 4 (unat (ct_vout ctip)))"

definition treasury_value :: "parsed_output \<Rightarrow> u64" where
  "treasury_value output = u64_from_le_bytes (po_value output)"

subsection \<open>Transactions\<close>

record transaction_scan =
  ts_state :: replay_state
  ts_deposits :: "mintable_deposit list"
  ts_matching_m8_requests :: u32

definition count_m8 ::
  "block_hash \<Rightarrow> observed_m7 option \<Rightarrow> u32 \<Rightarrow> parsed_transaction \<Rightarrow> replay_error + u32" where
  "count_m8 previous_block observed matching_m8_requests transaction =
     (case parse_slot24_m8 transaction of
        None \<Rightarrow> Inr matching_m8_requests
      | Some (child_hash, previous_hash) \<Rightarrow>
          and_then (ok_or observed M8WithoutM7) (\<lambda>m7.
          if child_hash \<noteq> om_child_hash m7 then Inl M8WrongChildHash
          else if previous_hash \<noteq> previous_block then Inl M8Expired
          else ok_or (checked_add matching_m8_requests 1) M8CountOverflow))"

definition treasury_step ::
  "(nat \<times> u64) option \<Rightarrow> nat \<times> parsed_output \<Rightarrow> replay_error + (nat \<times> u64) option" where
  "treasury_step treasury_output = (\<lambda>(index, output).
     if \<not> is_slot24_treasury (po_script output) then Inr treasury_output
     else if treasury_output \<noteq> None then Inl MultipleTreasuryOutputs
     else Inr (Some (index, treasury_value output)))"

text \<open>The treasury transition of one transaction, once a proposal is active.\<close>

definition apply_treasury ::
  "block_hash \<Rightarrow> u32 \<Rightarrow> bool \<Rightarrow> transaction_scan \<Rightarrow> parsed_transaction
     \<Rightarrow> replay_error + transaction_scan" where
  "apply_treasury block_hash' height required_active sc transaction =
     (let state = ts_state sc;
          current_ctip_inputs = (case rs_ctip state of None \<Rightarrow> 0
            | Some ctip \<Rightarrow> length (filter (\<lambda>input. input_spends input ctip)
                (pt_inputs transaction)))
      in and_then (try_fold treasury_step None (enumerate 0 (pt_outputs transaction)))
        (\<lambda>treasury_output.
      if rs_ctip state \<noteq> None \<and> current_ctip_inputs = 0 \<and> treasury_output \<noteq> None
      then Inl ParallelTreasuryOutput
      else if rs_ctip state \<noteq> None \<and> current_ctip_inputs = 1 \<and> treasury_output = None
      then Inl CtipSpentWithoutReplacement
      else if (rs_ctip state \<noteq> None \<and> current_ctip_inputs = 0)
        \<or> (rs_ctip state = None \<and> treasury_output = None)
      then Inr sc
      else if 1 < current_ctip_inputs then Inl MalformedState
      else let old_value = (case rs_ctip state of None \<Rightarrow> 0 | Some ctip \<Rightarrow> ct_value_sat ctip);
               (output_index, new_value) = expect treasury_output
        in if new_value = old_value then Inl ZeroCtipDelta
           else if new_value < old_value then Inl CtipDecreaseUnsupported
           else and_then (ok_or (if output_index + 1 < length (pt_outputs transaction)
               then extract_single_op_return_push
                 (po_script (pt_outputs transaction ! (output_index + 1)))
               else None) MissingDepositAddress) (\<lambda>address.
             and_then (ok_or (checked_sub new_value old_value) AmountOverflow) (\<lambda>value_sat.
             and_then (u32_try_from output_index OutputIndexOverflow) (\<lambda>vout.
             let ctip = \<lparr> ct_txid = pt_txid transaction, ct_vout = vout,
                          ct_value_sat = new_value \<rparr>;
                 sc = sc\<lparr> ts_state := state\<lparr> rs_ctip := Some ctip \<rparr> \<rparr>
             in Inr (if required_active \<and> address \<noteq> [] \<and> length address \<le> 128
                     then sc\<lparr> ts_deposits := ts_deposits sc @
                       [\<lparr> md_outpoint = ctip, md_block_hash = block_hash',
                          md_block_height = height, md_value_sat = value_sat,
                          md_elements_address = address \<rparr>] \<rparr>
                     else sc))))))"

definition apply_transaction ::
  "merkle_verified_bitcoin_block \<Rightarrow> u32 \<Rightarrow> observed_m7 option \<Rightarrow> bool \<Rightarrow> transaction_scan
     \<Rightarrow> parsed_transaction \<Rightarrow> replay_error + transaction_scan" where
  "apply_transaction metadata height observed required_active sc transaction =
     and_then (count_m8 (bh_previous_block (mv_header metadata)) observed
       (ts_matching_m8_requests sc) transaction) (\<lambda>matching_m8_requests.
     let sc = sc\<lparr> ts_matching_m8_requests := matching_m8_requests \<rparr> in
     if rs_active_proposal_hash (ts_state sc) = None then Inr sc
     else apply_treasury (mv_block_hash metadata) height required_active sc transaction)"

definition apply_transactions ::
  "replay_state \<Rightarrow> parsed_block \<Rightarrow> u32 \<Rightarrow> observed_m7 option
     \<Rightarrow> replay_error + transaction_scan" where
  "apply_transactions state parsed height observed =
     try_fold (apply_transaction (pb_metadata parsed) height observed
         (required_proposal_is_active state))
       \<lparr> ts_state = state, ts_deposits = [], ts_matching_m8_requests = 0 \<rparr>
       (drop 1 (pb_transactions parsed))"

subsection \<open>One block\<close>

definition apply_parsed_block ::
  "(bytes \<Rightarrow> hash32) \<Rightarrow> replay_state \<Rightarrow> parsed_block
     \<Rightarrow> replay_error + block_effects \<times> replay_state" where
  "apply_parsed_block H state parsed =
     (let metadata = pb_metadata parsed;
          previous_block = bh_previous_block (mv_header metadata) in
      if rs_next_height state \<noteq> 0 \<and> previous_block \<noteq> rs_tip_hash state then Inl BrokenParentLink
      else if rs_next_height state = 0 \<and> previous_block \<noteq> 0 then Inl BrokenParentLink
      else let height = rs_next_height state in
        and_then (apply_coinbase_messages H state parsed height) (\<lambda>next.
        and_then (observe_slot24_m7 parsed) (\<lambda>observed.
        and_then (apply_transactions next parsed height observed) (\<lambda>sc.
        let next = ts_state sc in
        if rs_required_activation next \<noteq> None
          \<and> rs_active_proposal_hash next \<noteq> Some (rc_required_proposal_hash (rs_config next))
        then Inl RequiredProposalReplaced
        else let required_proposal_active = required_proposal_is_active next;
          bmm_edge = (case observed of None \<Rightarrow> None
            | Some m7 \<Rightarrow>
                if required_proposal_active \<and> om_canonical_for_elements m7
                then Some \<lparr> be_parent_block_hash = previous_block,
                            be_successor_block_hash = mv_block_hash metadata,
                            be_successor_height = height,
                            be_coinbase_txid = mv_coinbase_txid metadata,
                            be_m7_output_index = om_output_index m7,
                            be_committed_child_hash = om_child_hash m7 \<rparr>
                else None)
        in and_then (ok_or (checked_add height 1) HeightOverflow) (\<lambda>next_height.
        let next = next\<lparr> rs_tip_hash := mv_block_hash metadata,
                         rs_next_height := next_height \<rparr>
        in and_then (replay_validate next) (\<lambda>_.
        Inr (\<lparr> ef_deposits = ts_deposits sc, ef_bmm_edge = bmm_edge,
               ef_matching_m8_requests = ts_matching_m8_requests sc,
               ef_saw_slot24_m7 = (observed \<noteq> None),
               ef_required_proposal_active = required_proposal_active \<rparr>, next)))))))"

definition apply_merkle_bound_elements_slot24_parent_block ::
  "(bytes \<Rightarrow> hash32) \<Rightarrow> replay_state \<Rightarrow> bytes
     \<Rightarrow> replay_error + block_effects \<times> replay_state" where
  "apply_merkle_bound_elements_slot24_parent_block H state serialized_block =
     and_then (replay_validate state) (\<lambda>_.
     and_then (map_err ReplayBlock (parse_and_verify_block H serialized_block)) (\<lambda>parsed.
     apply_parsed_block H state parsed))"

subsection \<open>Values and inputs\<close>

definition ctip_value :: "replay_state \<Rightarrow> nat" where
  "ctip_value s = (case rs_ctip s of None \<Rightarrow> 0 | Some ctip \<Rightarrow> unat (ct_value_sat ctip))"

definition deposit_total :: "mintable_deposit list \<Rightarrow> nat" where
  "deposit_total ds = (\<Sum>d \<leftarrow> ds. unat (md_value_sat d))"

definition deposit_ok :: "mintable_deposit \<Rightarrow> bool" where
  "deposit_ok d = (0 < unat (md_value_sat d) \<and> md_elements_address d \<noteq> []
     \<and> length (md_elements_address d) \<le> 128)"

lemma deposit_total_simps [simp]:
  "deposit_total [] = 0"
  "deposit_total (ds @ es) = deposit_total ds + deposit_total es"
  "deposit_total [d] = unat (md_value_sat d)"
  by (simp_all add: deposit_total_def)

lemma ctip_value_update [simp]:
  "ctip_value (s\<lparr> rs_ctip := Some ctip \<rparr>) = unat (ct_value_sat ctip)"
  by (simp add: ctip_value_def)

lemma input_spends_unique:
  assumes "distinct inputs"
  shows "length (filter (\<lambda>input. input_spends input ctip) inputs) \<le> 1"
proof -
  define bs where "bs = enc_hash32 (ct_txid ctip) @ le_nat 4 (unat (ct_vout ctip))"
  have "input = from_be_bytes bs" if "input_spends input ctip" for input
  proof -
    have "to_be_bytes 36 input = bs"
      using that append_take_drop_id [of 32 "to_be_bytes 36 input"]
      by (simp add: input_spends_def Let_def bs_def)
    then show ?thesis using from_to_be_bytes [of 36 input] by simp
  qed
  then have "set (filter (\<lambda>input. input_spends input ctip) inputs) \<subseteq> {from_be_bytes bs}" by auto
  from card_mono [OF _ this]
  have "card (set (filter (\<lambda>input. input_spends input ctip) inputs)) \<le> 1" by simp
  then show ?thesis by (simp only: distinct_card [OF distinct_filter [OF assms]])
qed

subsection \<open>The treasury outputs of a transaction\<close>

definition treasury_outputs :: "nat \<Rightarrow> parsed_output list \<Rightarrow> (nat \<times> u64) list" where
  "treasury_outputs k outs =
     map (\<lambda>(i, out). (i, treasury_value out))
       (filter (\<lambda>(i, out). is_slot24_treasury (po_script out)) (enumerate k outs))"

lemma treasury_loop:
  "try_fold treasury_step seen (enumerate k outs) =
     (case treasury_outputs k outs of [] \<Rightarrow> Inr seen
      | [x] \<Rightarrow> if seen = None then Inr (Some x) else Inl MultipleTreasuryOutputs
      | _ \<Rightarrow> Inl MultipleTreasuryOutputs)"
proof (induction outs arbitrary: k seen)
  case (Cons out outs)
  then show ?case
    by (cases seen) (auto simp: treasury_step_def treasury_outputs_def split: list.splits)
qed (simp add: treasury_outputs_def)

lemma treasury_found:
  assumes "try_fold treasury_step None (enumerate 0 outs) = Inr (Some (i, v))"
  shows "i < length outs \<and> is_slot24_treasury (po_script (outs ! i)) \<and> v = treasury_value (outs ! i)"
proof -
  have "treasury_outputs 0 outs = [(i, v)]"
    using assms by (auto simp: treasury_loop split: list.splits)
  then have "(i, v) \<in> set (treasury_outputs 0 outs)" by simp
  then show ?thesis
    unfolding treasury_outputs_def by (auto simp: in_set_enumerate_eq)
qed

lemma treasury_loop_error:
  "try_fold treasury_step None (enumerate 0 outs) = Inl e \<Longrightarrow> e = MultipleTreasuryOutputs"
  by (auto simp: treasury_loop split: list.splits)

subsection \<open>One treasury transition\<close>

lemma apply_treasury_Inr:
  assumes "apply_treasury bh height req sc t = Inr sc'"
  obtains (same) "sc' = sc"
    | (moved) ctip address v i where
      "sc' = sc\<lparr> ts_state := (ts_state sc)\<lparr> rs_ctip := Some ctip \<rparr>,
        ts_deposits := ts_deposits sc @ (if req \<and> address \<noteq> [] \<and> length address \<le> 128
          then [\<lparr> md_outpoint = ctip, md_block_hash = bh, md_block_height = height,
                  md_value_sat = v, md_elements_address = address \<rparr>] else []) \<rparr>"
      "ctip = \<lparr> ct_txid = pt_txid t, ct_vout = of_nat i,
        ct_value_sat = treasury_value (pt_outputs t ! i) \<rparr>"
      "i < length (pt_outputs t)" "is_slot24_treasury (po_script (pt_outputs t ! i))"
      "0 < unat v" "ctip_value (ts_state sc) + unat v = unat (ct_value_sat ctip)"
proof -
  let ?inputs = "case rs_ctip (ts_state sc) of None \<Rightarrow> 0 | Some ctip \<Rightarrow>
    length (filter (\<lambda>input. input_spends input ctip) (pt_inputs t))"
  let ?old = "case rs_ctip (ts_state sc) of None \<Rightarrow> 0 | Some ctip \<Rightarrow> ct_value_sat ctip"
  from assms obtain found where found:
      "try_fold treasury_step None (enumerate 0 (pt_outputs t)) = Inr found"
    unfolding apply_treasury_def Let_def and_then_Inr by blast
  define n where "n = ?inputs"
  note eq = assms [unfolded apply_treasury_def Let_def found and_then_simps n_def [symmetric]]
  have "n = 0" if "rs_ctip (ts_state sc) = None" using that by (simp add: n_def)
  note none = this
  show ?thesis
  proof (cases "(rs_ctip (ts_state sc) \<noteq> None \<and> n = 0)
      \<or> (rs_ctip (ts_state sc) = None \<and> found = None)")
    case True
    with eq have "sc' = sc" by (auto split: if_splits)
    then show ?thesis by (rule same)
  next
    case False
    note body = eq [unfolded if_Inl_Inr if_not_P [OF False]]
    have "rs_ctip (ts_state sc) \<noteq> None \<and> 0 < n \<or> found \<noteq> None" using False by auto
    moreover have "\<not> 1 < n" using body by blast
    moreover have "\<not> (rs_ctip (ts_state sc) \<noteq> None \<and> n = 1 \<and> found = None)" using body by blast
    ultimately have "found \<noteq> None" by linarith
    then obtain i v where iv: "found = Some (i, v)" by auto
    from body obtain address value_sat vout where
        steps: "v \<noteq> ?old" "\<not> v < ?old" "checked_sub v ?old = Some value_sat"
          "u32_try_from i OutputIndexOverflow = Inr vout"
        and sc': "sc' = (let ctip = \<lparr> ct_txid = pt_txid t, ct_vout = vout, ct_value_sat = v \<rparr>;
                 sc = sc\<lparr> ts_state := (ts_state sc)\<lparr> rs_ctip := Some ctip \<rparr> \<rparr>
             in (if req \<and> address \<noteq> [] \<and> length address \<le> 128
                     then sc\<lparr> ts_deposits := ts_deposits sc @
                       [\<lparr> md_outpoint = ctip, md_block_hash = bh,
                          md_block_height = height, md_value_sat = value_sat,
                          md_elements_address = address \<rparr>] \<rparr>
                     else sc))"
      unfolding if_Inl_Inr iv expect_Some prod.case and_then_Inr ok_or_Inr Let_def sum.inject
      by blast
    have old: "unat ?old = ctip_value (ts_state sc)"
      by (simp add: ctip_value_def split: option.splits)
    have "unat v = ctip_value (ts_state sc) + unat value_sat"
      using steps(3) by (simp add: checked_sub_Some old)
    moreover have "unat v \<noteq> ctip_value (ts_state sc)"
      using steps(1) old by (metis word_unat_eq_iff)
    moreover have "vout = of_nat i" using steps(4) by (simp add: u32_try_from_def split: if_splits)
    ultimately show ?thesis
      using treasury_found [OF found [unfolded iv]]
      by (intro moved [where ctip = "\<lparr> ct_txid = pt_txid t, ct_vout = vout, ct_value_sat = v \<rparr>"
            and address = address and v = value_sat and i = i])
        (simp_all add: sc' Let_def)
  qed
qed

definition treasury_errors :: "replay_error set" where
  "treasury_errors = {MultipleTreasuryOutputs, ParallelTreasuryOutput, CtipSpentWithoutReplacement,
     ZeroCtipDelta, CtipDecreaseUnsupported, MissingDepositAddress}"

text \<open>What the parser guarantees of the transactions after the coinbase.\<close>

definition spend_ok :: "parsed_transaction \<Rightarrow> bool" where
  "spend_ok t = (distinct (pt_inputs t) \<and> length (pt_outputs t) \<le> 111111
     \<and> list_all output_ok (pt_outputs t))"

lemma apply_treasury_Inl:
  assumes "apply_treasury bh height req sc t = Inl e" "spend_ok t"
  shows "e \<in> treasury_errors"
proof (cases "try_fold treasury_step None (enumerate 0 (pt_outputs t))")
  case (Inl e')
  with assms(1) have "e = e'" by (simp add: apply_treasury_def Let_def)
  then show ?thesis using treasury_loop_error [OF Inl] by (simp add: treasury_errors_def)
next
  case (Inr found)
  define n where "n = (case rs_ctip (ts_state sc) of None \<Rightarrow> 0 | Some ctip \<Rightarrow>
    length (filter (\<lambda>input. input_spends input ctip) (pt_inputs t)))"
  have "n \<le> 1"
    using input_spends_unique assms(2) by (auto simp: n_def spend_ok_def split: option.splits)
  note eq = assms(1) [unfolded apply_treasury_def Let_def Inr and_then_simps n_def [symmetric]]
  show ?thesis
  proof (cases "(rs_ctip (ts_state sc) \<noteq> None \<and> n = 0)
      \<or> (rs_ctip (ts_state sc) = None \<and> found = None)")
    case True
    show ?thesis using eq [unfolded if_Inl_Inl if_P [OF True]] by (auto simp: treasury_errors_def)
  next
    case False
    let ?old = "case rs_ctip (ts_state sc) of None \<Rightarrow> 0 | Some ctip \<Rightarrow> ct_value_sat ctip"
    note body = eq [unfolded if_Inl_Inl if_not_P [OF False]]
    show ?thesis
    proof (cases found)
      case None
      then have "rs_ctip (ts_state sc) \<noteq> None \<and> n = 1" using False \<open>n \<le> 1\<close> by auto
      with body None have "CtipSpentWithoutReplacement = e" by blast
      then show ?thesis by (auto simp: treasury_errors_def)
    next
      case (Some iv)
      then obtain i v where iv: "found = Some (i, v)" by (cases iv) auto
      have "i < 2 ^ 32"
        using treasury_found [OF Inr [unfolded iv]] assms(2) by (simp add: spend_ok_def)
      then have vout: "u32_try_from i e' \<noteq> Inl e" for e' :: replay_error
        by (simp add: u32_try_from_def)
      have sub: "checked_sub v ?old \<noteq> None" if "\<not> v < ?old"
        using that by (simp add: checked_sub_def word_less_nat_alt)
      have "\<not> 1 < n" using \<open>n \<le> 1\<close> by simp
      with body sub vout have "ParallelTreasuryOutput = e \<or> CtipSpentWithoutReplacement = e
          \<or> ZeroCtipDelta = e \<or> CtipDecreaseUnsupported = e \<or> MissingDepositAddress = e"
        unfolding iv expect_Some prod.case and_then_Inl ok_or_Inl if_Inl_Inl by blast
      then show ?thesis by (auto simp: treasury_errors_def)
    qed
  qed
qed

subsection \<open>The transactions of a block\<close>

definition m8_errors :: "replay_error set" where
  "m8_errors = {M8WithoutM7, M8WrongChildHash, M8Expired}"

text \<open>
  The invariant of the transaction loop: only the CTIP of the state changes, and only while a
  proposal is active; the deposits recorded are covered by what the CTIP has gained.
\<close>

definition scan_inv :: "replay_state \<Rightarrow> transaction_scan \<Rightarrow> bool" where
  "scan_inv s sc =
     ((\<exists>ctip. ts_state sc = s\<lparr> rs_ctip := ctip \<rparr>)
       \<and> (rs_active_proposal_hash s = None \<longrightarrow> rs_ctip (ts_state sc) = rs_ctip s)
       \<and> ctip_value s + deposit_total (ts_deposits sc) \<le> ctip_value (ts_state sc)
       \<and> list_all deposit_ok (ts_deposits sc)
       \<and> (\<not> required_proposal_is_active s \<longrightarrow> ts_deposits sc = []))"

lemma apply_transaction_eq:
  "apply_transaction metadata height observed req sc t =
     and_then (count_m8 (bh_previous_block (mv_header metadata)) observed
       (ts_matching_m8_requests sc) t) (\<lambda>n.
     if rs_active_proposal_hash (ts_state sc) = None
     then Inr (sc\<lparr> ts_matching_m8_requests := n \<rparr>)
     else apply_treasury (mv_block_hash metadata) height req
       (sc\<lparr> ts_matching_m8_requests := n \<rparr>) t)"
  by (simp add: apply_transaction_def Let_def)

lemma apply_transaction_scan:
  assumes inv: "scan_inv s sc"
    and ok: "apply_transaction metadata height observed (required_proposal_is_active s) sc t = Inr sc'"
  shows "scan_inv s sc'"
proof -
  from ok obtain n where n:
      "(if rs_active_proposal_hash (ts_state sc) = None
        then Inr (sc\<lparr> ts_matching_m8_requests := n \<rparr>)
        else apply_treasury (mv_block_hash metadata) height (required_proposal_is_active s)
         (sc\<lparr> ts_matching_m8_requests := n \<rparr>) t) = Inr sc'"
    unfolding apply_transaction_eq and_then_Inr by blast
  let ?sc = "sc\<lparr> ts_matching_m8_requests := n \<rparr>"
  have inv': "scan_inv s ?sc" using inv by (simp add: scan_inv_def)
  have active: "rs_active_proposal_hash (ts_state sc) = rs_active_proposal_hash s"
    using inv by (auto simp: scan_inv_def)
  show ?thesis
  proof (cases "rs_active_proposal_hash s = None")
    case True
    with n inv' show ?thesis by (simp add: active)
  next
    case False
    with n have "apply_treasury (mv_block_hash metadata) height (required_proposal_is_active s)
         ?sc t = Inr sc'"
      by (simp add: active)
    then show ?thesis
    proof (cases rule: apply_treasury_Inr)
      case same
      with inv' show ?thesis by simp
    next
      case (moved ctip address v i)
      have "ctip_value s + deposit_total (ts_deposits sc) + unat v \<le> unat (ct_value_sat ctip)"
        using moved(6) inv by (simp add: scan_inv_def)
      with False inv moved(5) show ?thesis
        by (auto simp: moved(1) scan_inv_def deposit_ok_def)
    qed
  qed
qed

lemma apply_transactions_scan:
  assumes "apply_transactions s parsed height observed = Inr sc"
  shows "scan_inv s sc"
proof -
  have "scan_inv s \<lparr> ts_state = s, ts_deposits = [], ts_matching_m8_requests = 0 \<rparr>"
    by (simp add: scan_inv_def exI [of _ "rs_ctip s"])
  then have "case apply_transactions s parsed height observed of Inr t \<Rightarrow> scan_inv s t
    | Inl e \<Rightarrow> \<exists>ys x zs t. drop 1 (pb_transactions parsed) = ys @ x # zs \<and> scan_inv s t
        \<and> apply_transaction (pb_metadata parsed) height observed (required_proposal_is_active s) t x = Inl e"
    unfolding apply_transactions_def
    by (rule try_fold_invariant [where I = "\<lambda>_. scan_inv s"]) (rule apply_transaction_scan)
  then show ?thesis by (simp add: assms)
qed

definition ctip_ok :: "bool \<Rightarrow> replay_state \<Rightarrow> bool" where
  "ctip_ok nz s = (\<forall>ctip. rs_ctip s = Some ctip \<longrightarrow> (nz \<longrightarrow> ct_txid ctip \<noteq> 0)
     \<and> 0 < unat (ct_value_sat ctip) \<and> unat (ct_value_sat ctip) \<le> 2100000000000000)"

definition block_inv :: "bool \<Rightarrow> parsed_transaction list \<Rightarrow> transaction_scan \<Rightarrow> bool" where
  "block_inv nz ts sc = (ctip_ok nz (ts_state sc) \<and> unat (ts_matching_m8_requests sc) \<le> length ts)"

lemma count_m8_cases:
  assumes "unat n < 2 ^ 32 - 1"
  shows "case count_m8 prev observed n t of Inl e \<Rightarrow> e \<in> m8_errors
    | Inr n' \<Rightarrow> unat n' \<le> Suc (unat n)"
proof -
  have add: "checked_add n 1 = Some (n + 1)" "unat (n + 1) = Suc (unat n)"
    using assms by (simp_all add: checked_add_def unat_word_ariths)
  then show ?thesis
    by (cases "parse_slot24_m8 t"; cases observed)
      (auto simp: count_m8_def m8_errors_def split: prod.splits)
qed

lemma treasury_value_ok:
  assumes "spend_ok t" "i < length (pt_outputs t)"
  shows "unat (treasury_value (pt_outputs t ! i)) \<le> 2100000000000000"
proof -
  have "output_ok (pt_outputs t ! i)"
    using assms by (simp add: spend_ok_def list_all_length)
  then show ?thesis by (simp add: output_ok_def output_value_def treasury_value_def value_checks(1))
qed

lemma apply_transaction_block:
  assumes inv: "block_inv nz ys sc" and t: "spend_ok t" "nz \<longrightarrow> pt_txid t \<noteq> 0" and len: "length ys < 2 ^ 32 - 1"
  shows "case apply_transaction metadata height observed req sc t of
      Inl e \<Rightarrow> e \<in> m8_errors \<union> treasury_errors
    | Inr sc' \<Rightarrow> block_inv nz (ys @ [t]) sc'"
proof -
  have "unat (ts_matching_m8_requests sc) < 2 ^ 32 - 1" using inv len by (simp add: block_inv_def)
  note count = count_m8_cases [OF this, of "bh_previous_block (mv_header metadata)" observed t]
  show ?thesis
  proof (cases "count_m8 (bh_previous_block (mv_header metadata)) observed
      (ts_matching_m8_requests sc) t")
    case (Inl e)
    with count show ?thesis by (simp add: apply_transaction_eq)
  next
    case (Inr n)
    let ?sc = "sc\<lparr> ts_matching_m8_requests := n \<rparr>"
    have inv': "block_inv nz (ys @ [t]) ?sc" using inv count Inr by (auto simp: block_inv_def)
    show ?thesis
    proof (cases "rs_active_proposal_hash (ts_state sc) = None")
      case True
      with Inr inv' show ?thesis by (simp add: apply_transaction_eq)
    next
      case False
      then have eq: "apply_transaction metadata height observed req sc t =
          apply_treasury (mv_block_hash metadata) height req ?sc t"
        by (simp only: Inr apply_transaction_eq and_then_simps if_False)
      show ?thesis
      proof (cases "apply_treasury (mv_block_hash metadata) height req ?sc t")
        case (Inl e)
        with apply_treasury_Inl [OF Inl t(1)] show ?thesis by (simp add: eq)
      next
        case (Inr sc')
        from Inr have "block_inv nz (ys @ [t]) sc'"
        proof (cases rule: apply_treasury_Inr)
          case same
          with inv' show ?thesis by simp
        next
          case (moved ctip address v i)
          with inv' t treasury_value_ok [OF t(1) moved(3)] show ?thesis
            by (auto simp: block_inv_def ctip_ok_def spend_ok_def)
        qed
        with Inr show ?thesis by (simp add: eq)
      qed
    qed
  qed
qed

lemma apply_transactions_block:
  assumes "ctip_ok nz s" "list_all spend_ok (drop 1 (pb_transactions parsed))"
    and "nz \<longrightarrow> list_all (\<lambda>t. pt_txid t \<noteq> 0) (drop 1 (pb_transactions parsed))"
    and "length (pb_transactions parsed) < 2 ^ 32"
  shows "case apply_transactions s parsed height observed of
      Inl e \<Rightarrow> e \<in> m8_errors \<union> treasury_errors
    | Inr sc \<Rightarrow> ctip_ok nz (ts_state sc)"
proof -
  let ?step = "apply_transaction (pb_metadata parsed) height observed (required_proposal_is_active s)"
  let ?ts = "drop 1 (pb_transactions parsed)"
  have step: "case ?step t x of Inl e \<Rightarrow> e \<in> m8_errors \<union> treasury_errors
      | Inr sc' \<Rightarrow> block_inv nz (ys @ [x]) sc'" if "?ts = ys @ x # zs" "block_inv nz ys t" for ys x zs t
  proof -
    have "length ?ts = length ys + Suc (length zs)" by (simp only: that(1)) simp
    then have "length ys < 2 ^ 32 - 1" using assms(4) by simp
    moreover have "spend_ok x" "nz \<longrightarrow> pt_txid x \<noteq> 0" using assms(2,3) unfolding that(1) by simp_all
    ultimately show ?thesis using that(2) by (intro apply_transaction_block)
  qed
  have "block_inv nz [] \<lparr> ts_state = s, ts_deposits = [], ts_matching_m8_requests = 0 \<rparr>"
    using assms(1) by (simp add: block_inv_def)
  then have "case apply_transactions s parsed height observed of Inr t \<Rightarrow> block_inv nz ?ts t
    | Inl e \<Rightarrow> \<exists>ys x zs t. ?ts = ys @ x # zs \<and> block_inv nz ys t \<and> ?step t x = Inl e"
    unfolding apply_transactions_def
    by (rule try_fold_invariant) (use step in \<open>fastforce split: sum.splits\<close>)
  then show ?thesis
    using step by (cases "apply_transactions s parsed height observed")
      (fastforce simp: block_inv_def split: sum.splits)+
qed

subsection \<open>The M7 the block carries\<close>

definition m7_at :: "nat \<times> parsed_output \<Rightarrow> observed_m7" where
  "m7_at = (\<lambda>(i, out). \<lparr> om_output_index = of_nat i, om_child_hash = m7_hash (po_script out),
     om_canonical_for_elements = is_canonical (po_script out) \<rparr>)"

definition m7_outputs :: "nat \<Rightarrow> parsed_output list \<Rightarrow> (nat \<times> parsed_output) list" where
  "m7_outputs k outs = filter (\<lambda>(i, out). carries_m7 (po_script out)) (enumerate k outs)"

lemma observe_step_eq:
  assumes "i < 2 ^ 32"
  shows "observe_step seen (i, out) =
    (if \<not> carries_m7 (po_script out) then Inr seen
     else if seen \<noteq> None then Inl DuplicateM7 else Inr (Some (m7_at (i, out))))"
proof (cases "extract_single_op_return_push (po_script out)")
  case None
  then show ?thesis by (simp add: observe_step_def carries_m7_def m7_payload_def)
next
  case (Some payload)
  have "u32_try_from i e = Inr (of_nat i)" for e :: replay_error
    using assms by (simp add: u32_try_from_def)
  moreover have "take 32 (drop 5 payload) = drop 5 payload" if "length payload = 37"
    using that by simp
  ultimately show ?thesis
    using Some
    by (auto simp: observe_step_def carries_m7_def m7_payload_def m7_at_def m7_hash_def
        is_canonical_def Let_def M7_PAYLOAD_LEN_def M7_CANONICAL_SCRIPT_LEN_def ELEMENTS_DRIVECHAIN_SLOT_def
        OP_RETURN_def)
qed

lemma observe_loop:
  "k + length outs \<le> 2 ^ 32 \<Longrightarrow> try_fold observe_step seen (enumerate k outs) =
     (case m7_outputs k outs of [] \<Rightarrow> Inr seen
      | [x] \<Rightarrow> if seen = None then Inr (Some (m7_at x)) else Inl DuplicateM7
      | _ \<Rightarrow> Inl DuplicateM7)"
proof (induction outs arbitrary: k seen)
  case (Cons out outs)
  then have "observe_step seen (k, out) =
      (if \<not> carries_m7 (po_script out) then Inr seen
       else if seen \<noteq> None then Inl DuplicateM7 else Inr (Some (m7_at (k, out))))"
    by (intro observe_step_eq) simp
  with Cons show ?case
    by (cases seen) (auto simp: m7_outputs_def split: list.splits)
qed (simp add: m7_outputs_def)

lemma observe_slot24_m7_eq:
  "length (pc_outputs (pb_coinbase parsed)) \<le> 111111 \<Longrightarrow> observe_slot24_m7 parsed =
     (case m7_outputs 0 (pc_outputs (pb_coinbase parsed)) of [] \<Rightarrow> Inr None
      | [x] \<Rightarrow> Inr (Some (m7_at x)) | _ \<Rightarrow> Inl DuplicateM7)"
  by (simp add: observe_slot24_m7_def observe_loop split: list.split)

subsection \<open>The state after a block\<close>

definition hashes_nonzero :: "(bytes \<Rightarrow> hash32) \<Rightarrow> parsed_block \<Rightarrow> bool" where
  "hashes_nonzero H parsed =
     (mv_block_hash (pb_metadata parsed) \<noteq> 0
       \<and> list_all (\<lambda>t. pt_txid t \<noteq> 0) (pb_transactions parsed)
       \<and> list_all (\<lambda>out. parse_slot24_parent_message H (po_script out) \<noteq> Some (Proposal 0))
           (pc_outputs (pb_coinbase parsed)))"

lemma view_block_facts:
  assumes "block_ok H header txs"
  defines "parsed \<equiv> view_block H header txs"
  shows "length (pc_outputs (pb_coinbase parsed)) \<le> 111111"
    "length (pb_transactions parsed) < 2 ^ 32"
    "list_all spend_ok (drop 1 (pb_transactions parsed))"
    "hashes_nonzero H parsed \<longrightarrow> list_all (\<lambda>t. pt_txid t \<noteq> 0) (drop 1 (pb_transactions parsed))"
proof -
  show "length (pc_outputs (pb_coinbase parsed)) \<le> 111111"
    using block_script_bounds(1) [OF assms(1)] by (simp add: parsed_def view_block_simps [OF assms(1)])
  show "length (pb_transactions parsed) < 2 ^ 32"
    using assms(1) by (simp add: parsed_def block_ok_def view_block_def)
  show "hashes_nonzero H parsed \<longrightarrow> list_all (\<lambda>t. pt_txid t \<noteq> 0) (drop 1 (pb_transactions parsed))"
    by (auto simp: hashes_nonzero_def list_all_iff dest: in_set_dropD)
  have "spend_ok (view_tx H t)" if t: "t \<in> set (tl txs)" for t
  proof -
    have in_txs: "t \<in> set txs" using t by (cases txs) auto
    then have "tx_ok t" "\<not> tx_is_coinbase t"
      using assms(1) t by (auto simp: block_ok_def list_all_iff)
    moreover have "distinct (map (\<lambda>i. from_be_bytes (wi_outpoint i) :: outpoint) (wt_inputs t))"
      if "distinct (map wi_outpoint (wt_inputs t))" "list_all input_ok (wt_inputs t)"
      using that by (auto simp: distinct_map inj_on_def list_all_iff input_ok_def outpoint_inject)
    ultimately show ?thesis
      by (auto simp: spend_ok_def view_tx_def Let_def tx_ok_def inputs_check_def view_outpoints_def)
  qed
  then show "list_all spend_ok (drop 1 (pb_transactions parsed))"
    by (auto simp: parsed_def view_block_def list_all_iff drop_Suc map_tl [symmetric])
qed

definition block_edge :: "parsed_block \<Rightarrow> u32 \<Rightarrow> bool \<Rightarrow> observed_m7 option \<Rightarrow> bmm_edge option" where
  "block_edge parsed height active observed =
     (case observed of None \<Rightarrow> None
      | Some m7 \<Rightarrow>
          if active \<and> om_canonical_for_elements m7
          then Some \<lparr> be_parent_block_hash = bh_previous_block (mv_header (pb_metadata parsed)),
                      be_successor_block_hash = mv_block_hash (pb_metadata parsed),
                      be_successor_height = height,
                      be_coinbase_txid = mv_coinbase_txid (pb_metadata parsed),
                      be_m7_output_index = om_output_index m7,
                      be_committed_child_hash = om_child_hash m7 \<rparr>
          else None)"

lemma apply_parsed_block_Inr:
  assumes "apply_parsed_block H s parsed = Inr (ef, s')"
  obtains s1 observed sc height where
    "bh_previous_block (mv_header (pb_metadata parsed)) =
       (if rs_next_height s = 0 then 0 else rs_tip_hash s)"
    "apply_coinbase_messages H s parsed (rs_next_height s) = Inr s1"
    "observe_slot24_m7 parsed = Inr observed"
    "apply_transactions s1 parsed (rs_next_height s) observed = Inr sc"
    "unat height = Suc (unat (rs_next_height s))"
    "s' = (ts_state sc)\<lparr> rs_tip_hash := mv_block_hash (pb_metadata parsed), rs_next_height := height \<rparr>"
    "replay_validate s' = Inr ()"
    "ef = \<lparr> ef_deposits = ts_deposits sc,
       ef_bmm_edge = block_edge parsed (rs_next_height s) (required_proposal_is_active s') observed,
       ef_matching_m8_requests = ts_matching_m8_requests sc,
       ef_saw_slot24_m7 = (observed \<noteq> None),
       ef_required_proposal_active = required_proposal_is_active s' \<rparr>"
proof -
  have active: "required_proposal_is_active (t\<lparr> rs_tip_hash := h, rs_next_height := n \<rparr>) =
      required_proposal_is_active t" for t h n
    by (simp add: required_proposal_is_active_def)
  from assms obtain s1 observed sc height where
      link: "\<not> (rs_next_height s \<noteq> 0 \<and> bh_previous_block (mv_header (pb_metadata parsed)) \<noteq> rs_tip_hash s)"
        "\<not> (rs_next_height s = 0 \<and> bh_previous_block (mv_header (pb_metadata parsed)) \<noteq> 0)"
      and steps: "apply_coinbase_messages H s parsed (rs_next_height s) = Inr s1"
        "observe_slot24_m7 parsed = Inr observed"
        "apply_transactions s1 parsed (rs_next_height s) observed = Inr sc"
        "checked_add (rs_next_height s) 1 = Some height"
      and valid: "replay_validate ((ts_state sc)\<lparr> rs_tip_hash := mv_block_hash (pb_metadata parsed),
          rs_next_height := height \<rparr>) = Inr ()"
      and out: "(\<lparr> ef_deposits = ts_deposits sc,
          ef_bmm_edge = block_edge parsed (rs_next_height s) (required_proposal_is_active (ts_state sc)) observed,
          ef_matching_m8_requests = ts_matching_m8_requests sc,
          ef_saw_slot24_m7 = (observed \<noteq> None),
          ef_required_proposal_active = required_proposal_is_active (ts_state sc) \<rparr>,
        (ts_state sc)\<lparr> rs_tip_hash := mv_block_hash (pb_metadata parsed),
          rs_next_height := height \<rparr>) = (ef, s')"
    unfolding apply_parsed_block_def Let_def if_Inl_Inr and_then_Inr ok_or_Inr sum.inject block_edge_def
      ex_unit by blast
  have "unat height = Suc (unat (rs_next_height s))" using steps(4) by (simp add: checked_add_Some)
  then show ?thesis
    using link valid out by (intro that [OF _ steps(1-3)]) (auto simp: active)
qed

definition replay_errors :: "replay_config \<Rightarrow> replay_error set" where
  "replay_errors cfg = {BrokenParentLink, HeightOverflow, DuplicateM7}
     \<union> message_errors cfg \<union> m8_errors \<union> treasury_errors"

lemma final_state_ok:
  assumes s: "replay_ok s" and kept: "kept (rs_next_height s) bh s s1" "activation_ok s1"
    and pend: "pending_len (rs_pending_proposals s1) \<le> pending_cap (rs_config s)"
      "keyed (live (max_age s1) (max_fails s1) (unat (rs_next_height s))) (rs_pending_proposals s1)"
    and scan: "ts_state sc = s1\<lparr> rs_ctip := ctip \<rparr>"
      "rs_active_proposal_hash s1 = None \<longrightarrow> ctip = rs_ctip s1" "ctip_ok True (ts_state sc)"
    and bh: "bh \<noteq> 0" and height: "unat height = Suc (unat (rs_next_height s))"
  shows "replay_ok ((ts_state sc)\<lparr> rs_tip_hash := bh, rs_next_height := height \<rparr>)"
proof -
  have "height \<noteq> 0" using height by auto
  have "rs_ctip s1 = None" if "rs_active_proposal_hash s1 = None"
    using that kept(1) s by (auto simp: kept_def replay_ok_def split: if_splits)
  moreover have "unat h < unat height \<and> b \<noteq> 0" if h: "rs_required_activation s1 = Some (h, b)" for h b
  proof (cases "rs_required_activation s1 = rs_required_activation s")
    case True
    with h s have "unat h < unat (rs_next_height s) \<and> b \<noteq> 0"
      by (cases "rs_next_height s = 0") (simp_all add: replay_ok_def)
    then show ?thesis by (simp add: height)
  next
    case False
    then show ?thesis using h kept(1) bh height by (simp add: kept_def)
  qed
  ultimately show ?thesis
    using assms \<open>height \<noteq> 0\<close>
    by (auto simp: replay_ok_def kept_def activation_ok_def ctip_ok_def max_age_def max_fails_def)
qed

lemma ctip_ok_valid: "replay_ok s \<Longrightarrow> ctip_ok nz s"
  by (cases "rs_next_height s = 0") (simp_all add: replay_ok_def ctip_ok_def)

text \<open>
  The internal checks of one block. \<open>hashes_nonzero\<close> decides the final validation only: without
  it the messages and the transactions still fail with the same errors.
\<close>

lemma block_messages:
  assumes "replay_ok s" "block_ok H header txs"
  defines "parsed \<equiv> view_block H header txs"
  shows "case apply_coinbase_messages H s parsed (rs_next_height s) of
      Inl e \<Rightarrow> e \<in> message_errors (rs_config s)
    | Inr s' \<Rightarrow> kept (rs_next_height s) (mv_block_hash (pb_metadata parsed)) s s'
        \<and> activation_ok s' \<and> ctip_ok (hashes_nonzero H parsed) s'
        \<and> pending_len (rs_pending_proposals s') \<le> pending_cap (rs_config s)
        \<and> (hashes_nonzero H parsed \<longrightarrow>
            keyed (live (max_age s') (max_fails s') (unat (rs_next_height s))) (rs_pending_proposals s'))"
proof -
  have "hashes_nonzero H parsed \<longrightarrow>
      list_all (\<lambda>out. parse_slot24_parent_message H (po_script out) \<noteq> Some (Proposal 0))
        (pc_outputs (pb_coinbase parsed))"
    by (simp add: hashes_nonzero_def)
  from coinbase_messages_valid [OF assms(1) this] ctip_ok_valid [OF assms(1), of "hashes_nonzero H parsed"]
  show ?thesis by (simp add: kept_def ctip_ok_def split: sum.splits)
qed

lemma block_transactions:
  assumes s: "replay_ok s" and block: "block_ok H header txs"
    and s1: "apply_coinbase_messages H s (view_block H header txs) (rs_next_height s) = Inr s1"
  shows "case apply_transactions s1 (view_block H header txs) (rs_next_height s) observed of
      Inl e \<Rightarrow> e \<in> m8_errors \<union> treasury_errors
    | Inr sc \<Rightarrow> activation_ok (ts_state sc) \<and> rs_config (ts_state sc) = rs_config s
        \<and> (hashes_nonzero H (view_block H header txs) \<and> unat height = Suc (unat (rs_next_height s)) \<longrightarrow>
           replay_ok ((ts_state sc)\<lparr> rs_tip_hash := mv_block_hash (pb_metadata (view_block H header txs)),
             rs_next_height := height \<rparr>))"
proof -
  let ?parsed = "view_block H header txs"
  let ?nz = "hashes_nonzero H ?parsed"
  have s1_facts: "kept (rs_next_height s) (mv_block_hash (pb_metadata ?parsed)) s s1"
      "activation_ok s1" "pending_len (rs_pending_proposals s1) \<le> pending_cap (rs_config s)"
      "?nz \<longrightarrow> keyed (live (max_age s1) (max_fails s1) (unat (rs_next_height s))) (rs_pending_proposals s1)"
      "ctip_ok ?nz s1"
    using block_messages [OF s block] by (simp_all add: s1)
  note facts = view_block_facts [OF block]
  note result = apply_transactions_block [OF s1_facts(5) facts(3) facts(4) facts(2),
      of "rs_next_height s" observed]
  show ?thesis
  proof (cases "apply_transactions s1 ?parsed (rs_next_height s) observed")
    case (Inl e)
    with result show ?thesis by simp
  next
    case (Inr sc)
    then obtain ctip where ctip: "ts_state sc = s1\<lparr> rs_ctip := ctip \<rparr>"
      using apply_transactions_scan unfolding scan_inv_def by blast
    have "replay_ok ((ts_state sc)\<lparr> rs_tip_hash := mv_block_hash (pb_metadata ?parsed),
        rs_next_height := height \<rparr>)" if "?nz" "unat height = Suc (unat (rs_next_height s))"
    proof (rule final_state_ok [OF s s1_facts(1-3) _ ctip _ _ _ that(2)])
      show "keyed (live (max_age s1) (max_fails s1) (unat (rs_next_height s))) (rs_pending_proposals s1)"
        using s1_facts(4) that(1) by blast
      show "rs_active_proposal_hash s1 = None \<longrightarrow> ctip = rs_ctip s1"
        using apply_transactions_scan [OF Inr] by (simp add: scan_inv_def ctip)
      show "ctip_ok True (ts_state sc)" using result Inr that(1) by simp
      show "mv_block_hash (pb_metadata ?parsed) \<noteq> 0" using that(1) by (simp add: hashes_nonzero_def)
    qed
    then show ?thesis
      using s1_facts(1,2) by (simp add: Inr ctip activation_ok_def kept_def)
  qed
qed

lemma apply_parsed_block_fails:
  assumes s: "replay_ok s" and block: "block_ok H header txs"
    and fails: "apply_parsed_block H s (view_block H header txs) = Inl e"
  shows "e \<in> replay_errors (rs_config s)
    \<or> e = MalformedState \<and> \<not> hashes_nonzero H (view_block H header txs)"
proof -
  let ?parsed = "view_block H header txs"
  note cases = fails [unfolded apply_parsed_block_def Let_def if_Inl_Inl and_then_Inl ok_or_Inl
      ok_or_Inr sum.distinct]
  have messages: "e \<in> message_errors (rs_config s)"
    if "apply_coinbase_messages H s ?parsed (rs_next_height s) = Inl e"
    using block_messages [OF s block] that by simp
  have scan: "e \<in> m8_errors \<union> treasury_errors"
    if "apply_coinbase_messages H s ?parsed (rs_next_height s) = Inr s1"
      "apply_transactions s1 ?parsed (rs_next_height s) observed = Inl e" for s1 observed
    using block_transactions [OF s block that(1), where observed = observed] that(2) by simp
  have observe: "e = DuplicateM7" if "observe_slot24_m7 ?parsed = Inl e"
    using that by (auto simp: observe_slot24_m7_eq [OF view_block_facts(1) [OF block]] split: list.splits)
  have active: "rs_active_proposal_hash (ts_state sc) = Some (rc_required_proposal_hash (rs_config (ts_state sc)))"
    if "apply_coinbase_messages H s ?parsed (rs_next_height s) = Inr s1"
      "apply_transactions s1 ?parsed (rs_next_height s) observed = Inr sc"
      "rs_required_activation (ts_state sc) \<noteq> None" for s1 observed sc
    using block_transactions [OF s block that(1), where observed = observed] that(2,3)
    by (simp add: activation_ok_def)
  have final: "\<not> hashes_nonzero H ?parsed \<and> (e = MalformedState \<or> e = PendingProposalLimitExceeded)"
    if "apply_coinbase_messages H s ?parsed (rs_next_height s) = Inr s1"
      "apply_transactions s1 ?parsed (rs_next_height s) observed = Inr sc"
      "checked_add (rs_next_height s) 1 = Some height"
      "replay_validate ((ts_state sc)\<lparr> rs_tip_hash := mv_block_hash (pb_metadata ?parsed),
        rs_next_height := height \<rparr>) = Inl e" for s1 observed sc height
  proof -
    note result = block_transactions [OF s block that(1), where observed = observed and height = height]
    have "config_ok (rs_config s)" using s by (simp add: replay_ok_def)
    moreover have "\<not> replay_ok ((ts_state sc)\<lparr> rs_tip_hash := mv_block_hash (pb_metadata ?parsed),
        rs_next_height := height \<rparr>)"
      using that(4) by (simp flip: replay_validate_iff)
    ultimately show ?thesis
      using result that(2,3) replay_validate_error [OF _ that(4)] by (auto simp: checked_add_Some)
  qed
  have "e = BrokenParentLink \<or> e \<in> message_errors (rs_config s) \<or> e = DuplicateM7
      \<or> e \<in> m8_errors \<union> treasury_errors \<or> e = HeightOverflow
      \<or> (\<not> hashes_nonzero H ?parsed \<and> (e = MalformedState \<or> e = PendingProposalLimitExceeded))"
    using cases
    by (elim disjE conjE exE) (use messages scan observe active final in \<open>blast+\<close>)
  then show ?thesis by (auto simp: replay_errors_def message_errors_def)
qed

end
