(* ===== verification/Replay_Runs.thy ===== *)
theory Replay_Runs
  imports Replay Transitions
begin

section \<open>Runs of the slot-24 replay\<close>

text \<open>
  What a chain of applied blocks guarantees. \<open>replay_step\<close> applies one serialized block and
  collects its mintable deposits; it is a step of \<open>checked_transitions\<close>, because the code
  validates the state before and after every block.
\<close>

definition replay_step ::
  "(bytes \<Rightarrow> hash32) \<Rightarrow> replay_state \<times> mintable_deposit list \<Rightarrow> bytes
     \<Rightarrow> replay_error + replay_state \<times> mintable_deposit list" where
  "replay_step H = (\<lambda>(state, deposits) serialized_block.
     and_then (apply_merkle_bound_elements_slot24_parent_block H state serialized_block)
       (\<lambda>(effects, state'). Inr (state', deposits @ ef_deposits effects)))"

definition replay_advances ::
  "replay_state \<times> mintable_deposit list \<Rightarrow> replay_state \<times> mintable_deposit list \<Rightarrow> bool" where
  "replay_advances = (\<lambda>(s, ds) (t, es).
     rs_config t = rs_config s
     \<and> (rs_active_proposal_hash s \<noteq> None \<longrightarrow> rs_active_proposal_hash t \<noteq> None)
     \<and> (rs_required_activation s \<noteq> None \<longrightarrow> rs_required_activation t = rs_required_activation s)
     \<and> (\<exists>fs. es = ds @ fs \<and> list_all deposit_ok fs
          \<and> (rs_required_activation t = None \<longrightarrow> fs = [])
          \<and> ctip_value s + deposit_total fs \<le> ctip_value t))"

subsection \<open>What the coinbase messages keep\<close>

lemma apply_ack_kept:
  assumes "kept height bh s0 (sc_state sc)" "apply_ack bh height sc h = Inr sc'"
  shows "kept height bh s0 (sc_state sc')"
proof (cases "sc_saw_ack sc \<or> h \<in> sc_created_in_block sc
    \<or> RBT.lookup (rs_pending_proposals (sc_state sc)) h = None")
  case True
  with assms show ?thesis by (auto simp: apply_ack_def Let_def split: if_splits)
next
  case False
  then obtain p where p: "\<not> sc_saw_ack sc" "h \<notin> sc_created_in_block sc"
      "RBT.lookup (rs_pending_proposals (sc_state sc)) h = Some p" by auto
  with assms(2) obtain votes where "checked_add (pp_votes p) 1 = Some votes"
    by (auto simp: apply_ack_def Let_def and_then_Inr ok_or_Inr)
  with assms p show ?thesis
    by (auto simp: apply_ack_def Let_def split_beta kept_def split: if_splits)
qed

lemma apply_message_kept:
  assumes "kept height bh s0 (sc_state sc)" "apply_message H bh height sc out = Inr sc'"
  shows "kept height bh s0 (sc_state sc')"
  using assms apply_ack_kept [OF assms(1)]
  by (auto simp: apply_message_def apply_proposal_cases kept_def split: if_splits option.splits
      parent_message.splits)

lemma try_fold_keeps:
  assumes "try_fold f s xs = Inr t" "P s" "\<And>x u v. P u \<Longrightarrow> f u x = Inr v \<Longrightarrow> P v"
  shows "P t"
  using try_fold_invariant [where I = "\<lambda>_. P", OF assms(2), of xs f] assms(1,3) by simp

lemma coinbase_messages_kept:
  assumes "apply_coinbase_messages H s parsed height = Inr s'"
  shows "kept height (mv_block_hash (pb_metadata parsed)) s s'"
proof -
  let ?bh = "mv_block_hash (pb_metadata parsed)"
  obtain sc where sc: "try_fold (apply_message H ?bh height)
      \<lparr> sc_state = s, sc_created_in_block = {}, sc_proposal_messages_in_block = {},
        sc_saw_ack = False \<rparr> (pc_outputs (pb_coinbase parsed)) = Inr sc"
    and age: "age_proposals height (sc_state sc) = Inr s'"
    using assms unfolding apply_coinbase_messages_def and_then_Inr by blast
  have "kept height ?bh s (sc_state \<lparr> sc_state = s, sc_created_in_block = {},
      sc_proposal_messages_in_block = {}, sc_saw_ack = False \<rparr>)"
    by (simp add: kept_def)
  then have "kept height ?bh s (sc_state sc)"
    by (rule try_fold_keeps [OF sc]) (rule apply_message_kept)
  then show ?thesis
    using age by (auto simp: age_proposals_def split_beta and_then_Inr kept_def)
qed

subsection \<open>The replay as checked transitions\<close>

lemma block_kept:
  assumes "apply_parsed_block H s parsed = Inr (ef, t)"
  shows "replay_advances (s, ds) (t, ds @ ef_deposits ef)"
    "unat (rs_next_height t) = Suc (unat (rs_next_height s))" "replay_validate t = Inr ()"
proof -
  from assms obtain s1 observed sc height where
      run: "apply_coinbase_messages H s parsed (rs_next_height s) = Inr s1"
        "apply_transactions s1 parsed (rs_next_height s) observed = Inr sc"
        "unat height = Suc (unat (rs_next_height s))"
      and t: "t = (ts_state sc)\<lparr> rs_tip_hash := mv_block_hash (pb_metadata parsed),
          rs_next_height := height \<rparr>"
      and valid: "replay_validate t = Inr ()" and ef: "ef_deposits ef = ts_deposits sc"
    by (elim apply_parsed_block_Inr) auto
  have kept: "kept (rs_next_height s) (mv_block_hash (pb_metadata parsed)) s s1"
    using coinbase_messages_kept [OF run(1)] .
  have scan: "scan_inv s1 sc" using apply_transactions_scan [OF run(2)] .
  then obtain ctip where ctip: "ts_state sc = s1\<lparr> rs_ctip := ctip \<rparr>"
    unfolding scan_inv_def by blast
  have same: "ctip_value s1 = ctip_value s" "ctip_value t = ctip_value (ts_state sc)"
    using kept by (simp_all add: kept_def ctip_value_def t)
  show "unat (rs_next_height t) = Suc (unat (rs_next_height s))" by (simp add: t run(3))
  show "replay_validate t = Inr ()" by (rule valid)
  have "ts_deposits sc = []" if "rs_required_activation s1 = None"
    using scan that by (simp add: scan_inv_def required_proposal_is_active_def)
  moreover have "rs_config t = rs_config s1" "rs_active_proposal_hash t = rs_active_proposal_hash s1"
      "rs_required_activation t = rs_required_activation s1"
    by (simp_all add: t ctip)
  moreover have "rs_config s1 = rs_config s"
      "rs_active_proposal_hash s \<noteq> None \<longrightarrow> rs_active_proposal_hash s1 \<noteq> None"
      "rs_required_activation s \<noteq> None \<longrightarrow> rs_required_activation s1 = rs_required_activation s"
    using kept by (auto simp: kept_def)
  moreover have "ctip_value s + deposit_total (ts_deposits sc) \<le> ctip_value t"
      "list_all deposit_ok (ts_deposits sc)"
    using scan by (simp_all add: same scan_inv_def)
  ultimately show "replay_advances (s, ds) (t, ds @ ef_deposits ef)"
    unfolding replay_advances_def prod.case ef by (intro conjI exI [of _ "ts_deposits sc"]) simp_all
qed

lemma replay_step_cases:
  assumes "replay_step H (s, ds) bs = Inr u"
  obtains ef t header txs where "u = (t, ds @ ef_deposits ef)" "replay_validate s = Inr ()"
    "bs = put_block header txs" "block_ok H header txs"
    "apply_parsed_block H s (view_block H header txs) = Inr (ef, t)"
proof -
  from assms obtain ef t parsed where "u = (t, ds @ ef_deposits ef)" "replay_validate s = Inr ()"
      "parse_and_verify_block H bs = Inr parsed" "apply_parsed_block H s parsed = Inr (ef, t)"
    by (auto simp: replay_step_def apply_merkle_bound_elements_slot24_parent_block_def and_then_Inr
        map_err_Inr)
  with that show ?thesis unfolding parse_and_verify_block_iff by blast
qed

interpretation replay: checked_transitions "replay_step H" "\<lambda>(s, ds). replay_validate s = Inr ()"
  "\<lambda>(s, ds). unat (rs_next_height s)" replay_advances for H
proof unfold_locales
  fix sd :: "replay_state \<times> mintable_deposit list" and bs u
  assume step: "replay_step H sd bs = Inr u"
  obtain s ds where sd: "sd = (s, ds)" by (cases sd)
  from step [unfolded sd] obtain ef t parsed where u: "u = (t, ds @ ef_deposits ef)"
      and valid: "replay_validate s = Inr ()" and block: "apply_parsed_block H s parsed = Inr (ef, t)"
    by (elim replay_step_cases) blast
  show "(case sd of (s, ds) \<Rightarrow> replay_validate s = Inr ()) \<and> (case u of (s, ds) \<Rightarrow> replay_validate s = Inr ())"
    using valid block_kept(3) [OF block] by (simp add: sd u)
  show "(case u of (s, ds) \<Rightarrow> unat (rs_next_height s)) = Suc (case sd of (s, ds) \<Rightarrow> unat (rs_next_height s))"
    using block_kept(2) [OF block] by (simp add: sd u)
  show "replay_advances sd u" using block_kept(1) [OF block] by (simp add: sd u)
next
  show "replay_advances s s" for s by (cases s) (simp add: replay_advances_def)
next
  show "replay_advances s u" if "replay_advances s t" "replay_advances t u" for s t u
    using that by (cases s; cases t; cases u) (fastforce simp: replay_advances_def)
qed

subsection \<open>The merged-mining edge\<close>

lemma filter_enumerate_single:
  "filter (\<lambda>(i, x). P x) (enumerate 0 xs) = [(i, x)] \<longleftrightarrow>
     filter P xs = [x] \<and> i < length xs \<and> xs ! i = x"
proof -
  let ?found = "filter (P \<circ> snd) (enumerate 0 xs)"
  have eq: "filter (\<lambda>(i, x). P x) (enumerate 0 xs) = ?found" by (simp add: comp_def split_beta')
  have snds: "map snd ?found = filter P xs" by (simp flip: filter_map)
  show ?thesis
  proof
    assume "filter (\<lambda>(i, x). P x) (enumerate 0 xs) = [(i, x)]"
    then have single: "?found = [(i, x)]" by (simp add: eq)
    then have "(i, x) \<in> set ?found" by simp
    then have "i < length xs \<and> xs ! i = x" by (auto simp: in_set_enumerate_eq)
    then show "filter P xs = [x] \<and> i < length xs \<and> xs ! i = x" using single snds by simp
  next
    assume x: "filter P xs = [x] \<and> i < length xs \<and> xs ! i = x"
    then have "x \<in> set (filter P xs)" by simp
    then have "P x" by simp
    with x have "(i, x) \<in> set ?found" by (auto simp: in_set_enumerate_eq)
    moreover obtain ix where "?found = [ix]"
      using arg_cong [OF snds, of length] x by (auto simp: length_Suc_conv)
    ultimately have "?found = [(i, x)]" by (metis list.set_intros(1) set_ConsD empty_iff list.set(1))
    then show "filter (\<lambda>(i, x). P x) (enumerate 0 xs) = [(i, x)]" by (simp add: eq)
  qed
qed

text \<open>Exactly one output carries an M7, and it is the canonical one of \<open>child\<close> at position \<open>i\<close>.\<close>

definition commits_child :: "bytes list \<Rightarrow> nat \<Rightarrow> block_hash \<Rightarrow> bool" where
  "commits_child scripts i child =
     (filter carries_m7 scripts = [canonical_m7_script child] \<and> i < length scripts
       \<and> scripts ! i = canonical_m7_script child)"

lemma m7_outputs_single:
  "m7_outputs 0 outs = [(i, out)] \<longleftrightarrow>
     filter (\<lambda>out. carries_m7 (po_script out)) outs = [out] \<and> i < length outs \<and> outs ! i = out"
  unfolding m7_outputs_def by (rule filter_enumerate_single)

lemma single_script:
  assumes "i < length outs" "carries_m7 (po_script (outs ! i))"
  shows "filter (\<lambda>out. carries_m7 (po_script out)) outs = [outs ! i] \<longleftrightarrow>
    filter carries_m7 (map po_script outs) = [po_script (outs ! i)]"
  using filter_only_iff [of i outs "\<lambda>out. carries_m7 (po_script out)"]
    filter_only_iff [of i "map po_script outs" carries_m7] assms by simp

lemma canonical_single:
  "(\<exists>out. m7_outputs 0 outs = [(i, out)] \<and> is_canonical (po_script out)
      \<and> m7_hash (po_script out) = child) \<longleftrightarrow> commits_child (map po_script outs) i child"
proof -
  have carries: "carries_m7 (po_script out)" if "m7_outputs 0 outs = [(i, out)]" for out
  proof -
    have "out \<in> set (filter (\<lambda>out. carries_m7 (po_script out)) outs)"
      using that by (simp add: m7_outputs_single)
    then show ?thesis by simp
  qed
  have "(\<exists>out. m7_outputs 0 outs = [(i, out)] \<and> is_canonical (po_script out)
      \<and> m7_hash (po_script out) = child) \<longleftrightarrow>
    (\<exists>out. m7_outputs 0 outs = [(i, out)] \<and> po_script out = canonical_m7_script child)"
    using carries by (auto simp flip: canonical_script_iff)
  also have "\<dots> \<longleftrightarrow> commits_child (map po_script outs) i child"
  proof -
    have "carries_m7 (canonical_m7_script child)"
      using canonical_script_iff [of "canonical_m7_script child" child] by simp
    then show ?thesis
      using single_script [of i outs] by (auto simp: m7_outputs_single commits_child_def)
  qed
  finally show ?thesis .
qed

lemma block_edge_iff:
  assumes "length (pc_outputs (pb_coinbase parsed)) \<le> 111111"
    and "observe_slot24_m7 parsed = Inr observed"
  shows "block_edge parsed height active observed = Some e \<longleftrightarrow> active
    \<and> (\<exists>i child. commits_child (map po_script (pc_outputs (pb_coinbase parsed))) i child
        \<and> e = \<lparr> be_parent_block_hash = bh_previous_block (mv_header (pb_metadata parsed)),
                be_successor_block_hash = mv_block_hash (pb_metadata parsed),
                be_successor_height = height,
                be_coinbase_txid = mv_coinbase_txid (pb_metadata parsed),
                be_m7_output_index = of_nat i, be_committed_child_hash = child \<rparr>)"
proof -
  let ?outs = "pc_outputs (pb_coinbase parsed)"
  have "observed = (case m7_outputs 0 ?outs of [x] \<Rightarrow> Some (m7_at x) | _ \<Rightarrow> None)"
    using assms by (auto simp: observe_slot24_m7_eq split: list.splits)
  then show ?thesis
    unfolding canonical_single [symmetric]
    by (auto simp: block_edge_def m7_at_def split: list.splits prod.splits)
qed

subsection \<open>An example\<close>

definition example_replay_state :: replay_state where
  "example_replay_state =
     \<lparr> rs_config = elements_v1, rs_next_height = 8, rs_tip_hash = 1,
       rs_active_proposal_hash = Some ELEMENTS_V1_REQUIRED_PROPOSAL_HASH_INTERNAL,
       rs_required_activation = Some (3, 1), rs_pending_proposals = RBT.empty, rs_ctip = None \<rparr>"

lemma example_config: "config_ok elements_v1"
  by (simp add: config_ok_def elements_v1_def
      ELEMENTS_V1_REQUIRED_PROPOSAL_HASH_INTERNAL_def)

lemma example_replay_ok: "replay_ok example_replay_state"
  by (simp add: replay_ok_def example_replay_state_def example_config keyed_def pending_cap_def)
    (simp add: elements_v1_def)

lemma example_no_message:
  "parse_slot24_parent_message H (canonical_m7_script child) = None"
proof -
  have "extract_single_op_return_push (canonical_m7_script child) = Some (M7_TAG @ [24] @ enc_hash32 child)"
    using canonical_script_fields(3) [of child] by (auto simp: m7_payload_def split: option.splits if_splits)
  then show ?thesis
    by (simp add: parse_slot24_parent_message_def M7_TAG_def M1_TAG_def M2_TAG_def)
qed

definition example_edge :: bmm_edge where
  "example_edge =
     \<lparr> be_parent_block_hash = 1, be_successor_block_hash = 1, be_successor_height = 8,
       be_coinbase_txid = 1, be_m7_output_index = 0, be_committed_child_hash = 5 \<rparr>"

definition example_effects :: block_effects where
  "example_effects =
     \<lparr> ef_deposits = [], ef_bmm_edge = Some example_edge, ef_matching_m8_requests = 0,
       ef_saw_slot24_m7 = True, ef_required_proposal_active = True \<rparr>"

definition example_after :: replay_state where
  "example_after = example_replay_state\<lparr> rs_tip_hash := 1, rs_next_height := 9 \<rparr>"

lemma example_view:
  "mv_block_hash (pb_metadata (view_block toy_hash example_block_header [example_coinbase])) = 1"
  "mv_coinbase_txid (pb_metadata (view_block toy_hash example_block_header [example_coinbase])) = 1"
  "bh_previous_block (mv_header (pb_metadata (view_block toy_hash example_block_header [example_coinbase]))) = 1"
  "pc_outputs (pb_coinbase (view_block toy_hash example_block_header [example_coinbase])) =
     [\<lparr> po_value = replicate 8 0, po_script = canonical_m7_script 5 \<rparr>]"
  "list_all (\<lambda>t. pt_txid t \<noteq> 0) (pb_transactions (view_block toy_hash example_block_header [example_coinbase]))"
  "drop (Suc 0) (pb_transactions (view_block toy_hash example_block_header [example_coinbase])) = []"
  using view_block_simps [OF example_block_ok]
  by (simp_all add: view_block_def block_txids_def double_sha256_def toy_hash_def view_tx_simps
      example_block_header_fields example_coinbase_def)

lemma entries_empty: "RBT.entries (RBT.empty :: pending_map) = []"
  using pending_len_empty by (simp add: pending_len_def)

lemma example_messages:
  "apply_coinbase_messages toy_hash example_replay_state
     (view_block toy_hash example_block_header [example_coinbase]) 8 = Inr example_replay_state"
  by (simp add: apply_coinbase_messages_def example_view apply_message_def example_no_message
      age_proposals_def example_replay_state_def split_beta entries_empty)

lemma example_observed:
  "observe_slot24_m7 (view_block toy_hash example_block_header [example_coinbase]) =
     Inr (Some \<lparr> om_output_index = 0, om_child_hash = 5, om_canonical_for_elements = True \<rparr>)"
proof -
  have "carries_m7 (canonical_m7_script 5)" "is_canonical (canonical_m7_script 5)"
      "m7_hash (canonical_m7_script 5) = 5"
    using canonical_script_iff [of "canonical_m7_script 5" 5] by simp_all
  then show ?thesis
    by (subst observe_slot24_m7_eq) (simp_all add: example_view m7_outputs_def m7_at_def)
qed

lemma example_active: "required_proposal_is_active example_replay_state"
  by (simp add: required_proposal_is_active_def example_replay_state_def elements_v1_def)

lemma example_replay_step:
  "apply_merkle_bound_elements_slot24_parent_block toy_hash example_replay_state
     (put_block example_block_header [example_coinbase]) = Inr (example_effects, example_after)"
proof -
  have "replay_ok example_after"
    using example_replay_ok
    by (simp add: replay_ok_def example_after_def example_replay_state_def keyed_def)
  then have valid: "replay_validate example_after = Inr ()" by (simp add: replay_validate_iff)
  have valid0: "replay_validate example_replay_state = Inr ()"
    using example_replay_ok by (simp add: replay_validate_iff)
  have fields: "rs_next_height example_replay_state = 8" "rs_tip_hash example_replay_state = 1"
      "rs_active_proposal_hash example_replay_state =
        Some (rc_required_proposal_hash (rs_config example_replay_state))"
    by (simp_all add: example_replay_state_def elements_v1_def)
  have height: "checked_add (8 :: u32) 1 = Some 9" by (simp add: checked_add_def)
  show ?thesis
    using valid
    by (simp add: apply_merkle_bound_elements_slot24_parent_block_def valid0
        parse_block_complete [OF example_block_ok] apply_parsed_block_def Let_def fields example_view
        example_messages example_observed apply_transactions_def example_active height
        example_effects_def example_edge_def flip: example_after_def)
qed

lemma example_broken:
  "replay_validate (example_replay_state\<lparr> rs_tip_hash := 2 \<rparr>) = Inr ()"
  "apply_merkle_bound_elements_slot24_parent_block toy_hash
     (example_replay_state\<lparr> rs_tip_hash := 2 \<rparr>) (put_block example_block_header [example_coinbase]) =
     Inl BrokenParentLink"
proof -
  have "replay_ok (example_replay_state\<lparr> rs_tip_hash := 2 \<rparr>)"
    using example_replay_ok by (simp add: replay_ok_def example_replay_state_def keyed_def)
  then show valid: "replay_validate (example_replay_state\<lparr> rs_tip_hash := 2 \<rparr>) = Inr ()"
    by (simp add: replay_validate_iff)
  show "apply_merkle_bound_elements_slot24_parent_block toy_hash
     (example_replay_state\<lparr> rs_tip_hash := 2 \<rparr>) (put_block example_block_header [example_coinbase]) =
     Inl BrokenParentLink"
    by (simp add: apply_merkle_bound_elements_slot24_parent_block_def valid
        parse_block_complete [OF example_block_ok] apply_parsed_block_def example_view)
      (simp add: example_replay_state_def)
qed

subsection \<open>Properties\<close>

text \<open>
  C26: backing of the replayed deposits. Along any chain of accepted blocks from a valid state,
  the mintable deposits recorded sum to at most what the treasury output (the CTIP) gained,
  and that output never exceeds the 21 million coins; each deposit has a positive value and a
  nonempty address of at most 128 bytes; none is recorded before the required proposal is
  active; the height counts the blocks.
\<close>

theorem deposits_backed:
  assumes "replay_validate s = Inr ()" "try_fold (replay_step H) (s, []) blocks = Inr (t, ds)"
  shows "ctip_value s + deposit_total ds \<le> ctip_value t \<and> ctip_value t \<le> 2100000000000000
    \<and> list_all deposit_ok ds \<and> (ds = [] \<or> required_proposal_is_active t)
    \<and> unat (rs_next_height t) = unat (rs_next_height s) + length blocks"
proof -
  have ok: "replay_ok t"
    using replay.run_valid [OF assms(2)] assms(1) by (simp add: replay_validate_iff)
  have "replay_advances (s, []) (t, ds)" by (rule replay.run_progress [OF assms(2)])
  moreover have "ctip_value t \<le> 2100000000000000"
    using ctip_ok_valid [OF ok] by (simp add: ctip_ok_def ctip_value_def split: option.splits)
  moreover have "required_proposal_is_active t" if "rs_required_activation t \<noteq> None"
    using that ok by (simp add: replay_ok_def required_proposal_is_active_def split: if_splits)
  ultimately show ?thesis
    using replay.run_seq [OF assms(2)] by (auto simp: replay_advances_def)
qed

theorem deposits_backed_witness:
  "ctip_value example_replay_state + deposit_total [] \<le> ctip_value example_after
    \<and> ctip_value example_after \<le> 2100000000000000
    \<and> list_all deposit_ok [] \<and> ([] = ([] :: mintable_deposit list) \<or> required_proposal_is_active example_after)
    \<and> unat (rs_next_height example_after) = unat (rs_next_height example_replay_state)
        + length [put_block example_block_header [example_coinbase]]"
  by (rule deposits_backed [where H = toy_hash])
    (simp_all add: example_replay_ok replay_validate_iff replay_step_def example_replay_step example_effects_def)

text \<open>
  C27: irrevocable activation. Once the required proposal is active, no chain of accepted blocks
  deactivates or replaces it, moves its activation height and block, or changes the
  configuration, and the state stays valid.
\<close>

theorem activation_irrevocable:
  assumes "replay_validate s = Inr ()" "required_proposal_is_active s"
    and "try_fold (replay_step H) (s, ds) blocks = Inr (t, es)"
  shows "required_proposal_is_active t \<and> rs_required_activation t = rs_required_activation s
    \<and> rs_config t = rs_config s \<and> replay_validate t = Inr ()"
proof -
  have valid: "replay_validate t = Inr ()" using replay.run_valid [OF assms(3)] assms(1) by simp
  have "replay_advances (s, ds) (t, es)" by (rule replay.run_progress [OF assms(3)])
  then have "rs_required_activation t = rs_required_activation s" "rs_config t = rs_config s"
    using assms(2) by (auto simp: replay_advances_def required_proposal_is_active_def)
  moreover have "replay_ok t" using valid by (simp add: replay_validate_iff)
  ultimately show ?thesis
    using assms(2) valid
    by (auto simp: required_proposal_is_active_def replay_ok_def split: if_splits)
qed

theorem activation_irrevocable_witness:
  "required_proposal_is_active example_after
    \<and> rs_required_activation example_after = rs_required_activation example_replay_state
    \<and> rs_config example_after = rs_config example_replay_state
    \<and> replay_validate example_after = Inr ()"
  by (rule activation_irrevocable [where H = toy_hash and ds = "[]" and es = "[]"
        and blocks = "[put_block example_block_header [example_coinbase]]"])
    (simp_all add: example_replay_ok replay_validate_iff example_active replay_step_def
      example_replay_step example_effects_def)

text \<open>
  C28: the errors of the replay. From a valid state, a block that parses fails only with one of
  the sixteen errors listed (a broken parent link, a rejected message, a rejected M8, a rejected
  treasury transition, or the height limit), with two exceptions: the vote overflow, which needs
  a configuration with the maximal age 65535, and a malformed state, which needs a block hash, a
  transaction id or the hash of a proposal message that is zero. The other internal errors
  (invalid configuration, height or votes ahead, amount, index and M8-count overflow) never arise.
\<close>

theorem replay_failures:
  assumes "replay_validate s = Inr ()" "parse_and_verify_block H bs = Inr parsed"
    and "apply_merkle_bound_elements_slot24_parent_block H s bs = Inl e"
  shows "e \<in> {BrokenParentLink, HeightOverflow, DuplicateM7, DuplicateProposalMessage,
      PendingProposalLimitExceeded, MultipleAckMessages, RequiredProposalReplaced, M8WithoutM7,
      M8WrongChildHash, M8Expired, MultipleTreasuryOutputs, ParallelTreasuryOutput,
      CtipSpentWithoutReplacement, ZeroCtipDelta, CtipDecreaseUnsupported, MissingDepositAddress}
    \<or> (e = VoteOverflow \<and> (rc_unused_proposal_max_age (rs_config s) = 65535
         \<or> rc_used_proposal_max_age (rs_config s) = 65535))
    \<or> (e = MalformedState \<and> (mv_block_hash (pb_metadata parsed) = 0
         \<or> (\<exists>t \<in> set (pb_transactions parsed). pt_txid t = 0)
         \<or> (\<exists>out \<in> set (pc_outputs (pb_coinbase parsed)).
              parse_slot24_parent_message H (po_script out) = Some (Proposal 0))))"
proof -
  from assms(2) obtain header txs where block: "block_ok H header txs"
      "parsed = view_block H header txs"
    unfolding parse_and_verify_block_iff by blast
  have "replay_ok s" using assms(1) by (simp add: replay_validate_iff)
  moreover have "apply_parsed_block H s (view_block H header txs) = Inl e"
    using assms by (simp add: apply_merkle_bound_elements_slot24_parent_block_def block(2))
  ultimately have "e \<in> replay_errors (rs_config s) \<or> e = MalformedState \<and> \<not> hashes_nonzero H parsed"
    unfolding block(2) by (intro apply_parsed_block_fails [OF _ block(1)])
  then show ?thesis
    by (auto simp: replay_errors_def message_errors_def m8_errors_def treasury_errors_def
        ages_bounded_iff hashes_nonzero_def list_all_iff split: if_splits)
qed

theorem replay_failures_witness:
  "BrokenParentLink \<in> {BrokenParentLink, HeightOverflow, DuplicateM7, DuplicateProposalMessage,
      PendingProposalLimitExceeded, MultipleAckMessages, RequiredProposalReplaced, M8WithoutM7,
      M8WrongChildHash, M8Expired, MultipleTreasuryOutputs, ParallelTreasuryOutput,
      CtipSpentWithoutReplacement, ZeroCtipDelta, CtipDecreaseUnsupported, MissingDepositAddress}
    \<or> (BrokenParentLink = VoteOverflow
       \<and> (rc_unused_proposal_max_age (rs_config (example_replay_state\<lparr> rs_tip_hash := 2 \<rparr>)) = 65535
         \<or> rc_used_proposal_max_age (rs_config (example_replay_state\<lparr> rs_tip_hash := 2 \<rparr>)) = 65535))
    \<or> (BrokenParentLink = MalformedState
       \<and> (mv_block_hash (pb_metadata (view_block toy_hash example_block_header [example_coinbase])) = 0
         \<or> (\<exists>t \<in> set (pb_transactions (view_block toy_hash example_block_header [example_coinbase])).
              pt_txid t = 0)
         \<or> (\<exists>out \<in> set (pc_outputs (pb_coinbase
                (view_block toy_hash example_block_header [example_coinbase]))).
              parse_slot24_parent_message toy_hash (po_script out) = Some (Proposal 0))))"
  by (rule replay_failures [where bs = "put_block example_block_header [example_coinbase]"])
    (use example_broken parse_block_complete [OF example_block_ok] in simp_all)

text \<open>
  C29: the merged-mining edge. An accepted block yields an edge exactly when the required proposal
  is active after it and exactly one of its coinbase scripts carries a slot-24 M7, that script
  being the canonical one of a child hash. The edge then links the old tip to the new one at
  the block's height, with the coinbase id, the position of the script and the child hash.
\<close>

theorem bmm_edge_exact:
  assumes "apply_merkle_bound_elements_slot24_parent_block H s bs = Inr (ef, t)"
  shows "ef_bmm_edge ef = Some e \<longleftrightarrow> required_proposal_is_active t
    \<and> (\<exists>header txs i child. bs = put_block header txs \<and> block_ok H header txs
        \<and> commits_child (map po_script (wt_outputs (hd txs))) i child
        \<and> e = \<lparr> be_parent_block_hash = (if rs_next_height s = 0 then 0 else rs_tip_hash s),
                be_successor_block_hash = rs_tip_hash t,
                be_successor_height = rs_next_height s,
                be_coinbase_txid = double_sha256 H (put_stripped (hd txs)),
                be_m7_output_index = of_nat i, be_committed_child_hash = child \<rparr>)"
proof -
  from assms obtain parsed where parsed: "parse_and_verify_block H bs = Inr parsed"
      and apply': "apply_parsed_block H s parsed = Inr (ef, t)"
    by (auto simp: apply_merkle_bound_elements_slot24_parent_block_def and_then_Inr map_err_Inr)
  from apply' obtain observed where
      link: "bh_previous_block (mv_header (pb_metadata parsed)) =
          (if rs_next_height s = 0 then 0 else rs_tip_hash s)"
      and observed: "observe_slot24_m7 parsed = Inr observed"
      and tip: "rs_tip_hash t = mv_block_hash (pb_metadata parsed)"
      and edge: "ef_bmm_edge ef =
          block_edge parsed (rs_next_height s) (required_proposal_is_active t) observed"
    by (elim apply_parsed_block_Inr) simp
  have block: "length (pc_outputs (pb_coinbase parsed)) \<le> 111111
      \<and> pc_outputs (pb_coinbase parsed) = wt_outputs (hd txs)
      \<and> mv_coinbase_txid (pb_metadata parsed) = double_sha256 H (put_stripped (hd txs))"
    if "bs = put_block header txs" "block_ok H header txs" for header txs
  proof -
    have "parsed = view_block H header txs"
      using parsed parse_block_complete [OF that(2)] by (simp add: that(1))
    moreover have "hd (block_txids H txs) = double_sha256 H (put_stripped (hd txs))"
      using that(2) by (simp add: block_ok_def block_txids_def hd_map)
    ultimately show ?thesis
      using view_block_facts(1) [OF that(2)] view_block_simps(2) [OF that(2)] by (simp add: view_block_def)
  qed
  obtain header txs where "bs = put_block header txs" "block_ok H header txs"
    using parsed unfolding parse_and_verify_block_iff by blast
  with block_edge_iff [OF _ observed] block show ?thesis
    unfolding edge link [symmetric] tip by (metis (no_types, lifting))
qed

theorem bmm_edge_exact_witness:
  "required_proposal_is_active example_after
    \<and> (\<exists>header txs i child.
        put_block example_block_header [example_coinbase] = put_block header txs
        \<and> block_ok toy_hash header txs
        \<and> commits_child (map po_script (wt_outputs (hd txs))) i child
        \<and> example_edge = \<lparr> be_parent_block_hash =
                  (if rs_next_height example_replay_state = 0 then 0 else rs_tip_hash example_replay_state),
                be_successor_block_hash = rs_tip_hash example_after,
                be_successor_height = rs_next_height example_replay_state,
                be_coinbase_txid = double_sha256 toy_hash (put_stripped (hd txs)),
                be_m7_output_index = of_nat i, be_committed_child_hash = child \<rparr>)"
  using bmm_edge_exact [OF example_replay_step, of example_edge] by (simp add: example_effects_def)

end
