(* ===== verification/Signet_Script.thy ===== *)
theory Signet_Script
  imports Block
begin

section \<open>Signet scripts, solutions and signatures (usdd-bitcoin-bmm/src/block/signet.rs)\<close>

text \<open>
  The byte formats of the Signet challenge: script operations, the commitment section of the
  witness commitment and its replacement, the solution, and the strict DER form of a signature.
\<close>

definition SIGNET_HEADER :: bytes where "SIGNET_HEADER = [0xec, 0xc7, 0xda, 0xa2]"

datatype layer_two_signet_error =
    SignetBlock block_structure_error
  | SignetHeader header_error
  | SignetCommitment m7_error
  | MissingWitnessCommitment
  | MalformedCommitmentScript
  | MissingSolution
  | NonCanonicalSolution
  | NonEmptyScriptSig
  | WrongWitnessStack
  | WrongPublicKeyHash
  | InvalidPublicKey
  | InvalidDerSignature
  | InvalidSignature
  | SignetLengthOverflow

subsection \<open>Script operations\<close>

text \<open>The length of the data an opcode pushes, and the position after the length bytes.\<close>

definition push_length ::
  "bytes \<Rightarrow> u8 \<Rightarrow> nat \<Rightarrow> layer_two_signet_error + nat option \<times> nat" where
  "push_length script opcode position =
     (if 0x01 \<le> opcode \<and> opcode \<le> 0x4b then Inr (Some (unat opcode), position)
      else if opcode = 0x4c then
        and_then (ok_or (script_get script position) MalformedCommitmentScript) (\<lambda>len.
        Inr (Some (unat len), position + 1))
      else if opcode = 0x4d then
        and_then (ok_or (usize_checked_add position 2) SignetLengthOverflow) (\<lambda>end'.
        and_then (ok_or (slice_get script position end') MalformedCommitmentScript) (\<lambda>bs.
        Inr (Some (nat_le bs), end')))
      else if opcode = 0x4e then
        and_then (ok_or (usize_checked_add position 4) SignetLengthOverflow) (\<lambda>end'.
        and_then (ok_or (slice_get script position end') MalformedCommitmentScript) (\<lambda>bs.
        Inr (Some (nat_le bs), end')))
      else Inr (None, position))"

definition read_script_op ::
  "bytes \<Rightarrow> nat \<Rightarrow> layer_two_signet_error + (u8 \<times> bytes option) \<times> nat" where
  "read_script_op script position =
     and_then (ok_or (script_get script position) MalformedCommitmentScript) (\<lambda>opcode.
     and_then (push_length script opcode (position + 1)) (\<lambda>(len, position).
     case len of
       None \<Rightarrow> Inr ((opcode, None), position)
     | Some len \<Rightarrow>
         and_then (ok_or (usize_checked_add position len) SignetLengthOverflow) (\<lambda>end'.
         and_then (ok_or (slice_get script position end') MalformedCommitmentScript) (\<lambda>data.
         Inr ((opcode, Some data), end')))))"

definition append_script_push ::
  "bytes \<Rightarrow> bytes \<Rightarrow> layer_two_signet_error + bytes" where
  "append_script_push data out =
     (if length data < 0x4c then Inr (out @ [of_nat (length data)] @ data)
      else if length data \<le> 2 ^ 8 - 1 then Inr (out @ [0x4c, of_nat (length data)] @ data)
      else if length data \<le> 2 ^ 16 - 1 then Inr (out @ [0x4d] @ le_nat 2 (length data) @ data)
      else if length data < 2 ^ 32 then Inr (out @ [0x4e] @ le_nat 4 (length data) @ data)
      else Inl SignetLengthOverflow)"

lemma push_length_position:
  "push_length script opcode position = Inr (len, position') \<Longrightarrow> position \<le> position'"
  by (auto simp: push_length_def and_then_Inr ok_or_Inr usize_checked_add_def split: if_splits)

lemma read_script_op_advances:
  "read_script_op script position = Inr (op, position') \<Longrightarrow> position < position'"
  by (auto simp: read_script_op_def and_then_Inr ok_or_Inr usize_checked_add_def
      dest!: push_length_position split: option.splits if_splits)

subsection \<open>The commitment section\<close>

text \<open>One operation: the solution found so far, and the script rebuilt without it.\<close>

definition section_op ::
  "u8 \<times> bytes option \<Rightarrow> bytes \<Rightarrow> bytes option
     \<Rightarrow> layer_two_signet_error + bytes \<times> bytes option" where
  "section_op = (\<lambda>(opcode, pushdata) replacement solution.
     case pushdata of
       None \<Rightarrow> Inr (replacement @ [opcode], solution)
     | Some data \<Rightarrow>
         if data = [] then Inr (replacement @ [opcode], solution)
         else if solution = None \<and> length data > length SIGNET_HEADER
           \<and> take (length SIGNET_HEADER) data = SIGNET_HEADER
         then and_then (append_script_push SIGNET_HEADER replacement) (\<lambda>replacement.
           Inr (replacement, Some (drop (length SIGNET_HEADER) data)))
         else and_then (append_script_push data replacement) (\<lambda>replacement.
           Inr (replacement, solution)))"

text \<open>The loop stops at the first malformed operation and keeps what it has found.\<close>

function section_loop ::
  "bytes \<Rightarrow> nat \<Rightarrow> bytes \<Rightarrow> bytes option
     \<Rightarrow> layer_two_signet_error + bytes \<times> bytes option" where
  "section_loop script position replacement solution =
     (if length script \<le> position then Inr (replacement, solution)
      else case read_script_op script position of
        Inl _ \<Rightarrow> Inr (replacement, solution)
      | Inr (op, position') \<Rightarrow>
          and_then (section_op op replacement solution) (\<lambda>(replacement, solution).
          section_loop script position' replacement solution))"
  by pat_completeness auto

termination
  by (relation "measure (\<lambda>(script, position, _, _). length script - position)")
    (auto dest!: read_script_op_advances)

definition extract_solution_and_modified_script ::
  "bytes \<Rightarrow> layer_two_signet_error + bytes \<times> bytes" where
  "extract_solution_and_modified_script witness_commitment =
     and_then (section_loop witness_commitment 0 [] None) (\<lambda>(replacement, solution).
     and_then (ok_or solution MissingSolution) (\<lambda>solution.
     Inr (solution, replacement)))"

subsection \<open>The solution\<close>

definition solution_item :: "bytes cursor_fn" where
  "solution_item c = and_then (cur_compact_size c) (\<lambda>(n, c). cur_take n c)"

definition parse_solution ::
  "bytes \<Rightarrow> layer_two_signet_error + bytes \<times> bytes list" where
  "parse_solution solution =
     and_then (map_err (\<lambda>_. NonCanonicalSolution) (cur_compact_size (cursor_new solution 0)))
       (\<lambda>(script_sig_size, c).
     and_then (map_err (\<lambda>_. NonCanonicalSolution) (cur_take script_sig_size c)) (\<lambda>(script_sig, c).
     and_then (map_err (\<lambda>_. NonCanonicalSolution) (cur_compact_size c)) (\<lambda>(item_count, c).
     if cur_remaining c < item_count then Inl NonCanonicalSolution
     else and_then (map_err (\<lambda>_. NonCanonicalSolution) (parse_n solution_item item_count c))
       (\<lambda>(witness, c).
     if cur_remaining c \<noteq> 0 then Inl NonCanonicalSolution else Inr (script_sig, witness)))))"

subsection \<open>Strict DER\<close>

definition strict_der_encoding :: "bytes \<Rightarrow> bool" where
  "strict_der_encoding sig =
     (if \<not> (9 \<le> length sig \<and> length sig \<le> 73) \<or> sig ! 0 \<noteq> 0x30
        \<or> unat (sig ! 1) \<noteq> length sig - 3 \<or> sig ! 2 \<noteq> 0x02 then False
      else let len_r = unat (sig ! 3) in
        if len_r = 0 \<or> length sig \<le> 5 + len_r then False
        else let s_type_index = 4 + len_r in
          if sig ! s_type_index \<noteq> 0x02 then False
          else let len_s = unat (sig ! (s_type_index + 1)) in
            if len_r + len_s + 7 \<noteq> length sig \<or> len_s = 0 \<or> sig ! 4 AND 0x80 \<noteq> 0
              \<or> (1 < len_r \<and> sig ! 4 = 0 \<and> sig ! 5 AND 0x80 = 0) then False
            else let s_index = s_type_index + 2 in
              if sig ! s_index AND 0x80 \<noteq> 0
                \<or> (1 < len_s \<and> sig ! s_index = 0 \<and> sig ! (s_index + 1) AND 0x80 = 0) then False
              else True)"

text \<open>A positive integer in the fewest bytes, and the signature made of two of them.\<close>

definition der_integer :: "bytes \<Rightarrow> bool" where
  "der_integer x = (x \<noteq> [] \<and> x ! 0 AND 0x80 = 0
     \<and> \<not> (1 < length x \<and> x ! 0 = 0 \<and> x ! 1 AND 0x80 = 0))"

definition der_signature :: "bytes \<Rightarrow> bytes \<Rightarrow> bytes" where
  "der_signature r s =
     [0x30, of_nat (length r + length s + 4)]
       @ [0x02, of_nat (length r)] @ r @ [0x02, of_nat (length s)] @ s"

lemma der_signature_strict:
  assumes "der_integer r" "der_integer s" "length r + length s \<le> 66"
  shows "strict_der_encoding (der_signature r s @ [t])"
proof -
  have len: "unat (of_nat n :: u8) = n" if "n \<le> 70" for n
    using that by (simp add: unat_of_nat)
  have "0 < length r" "0 < length s" using assms(1,2) by (auto simp: der_integer_def)
  then have "length r \<le> 65" "length s \<le> 65" "2 \<le> length r + length s"
    using assms(3) by linarith+
  then show ?thesis
    using assms \<open>0 < length r\<close> \<open>0 < length s\<close> \<open>2 \<le> length r + length s\<close> len [of "length r"] len [of "length s"]
      len [of "length r + length s + 4"]
    by (auto simp: strict_der_encoding_def der_signature_def der_integer_def Let_def nth_append
        nth_Cons')
qed

lemma strict_der_signature:
  assumes "strict_der_encoding sig"
  obtains r s t where "der_integer r" "der_integer s" "length r + length s \<le> 66"
    "sig = der_signature r s @ [t]"
proof -
  define m n where "m = unat (sig ! 3)" and "n = unat (sig ! (5 + m))"
  have facts: "9 \<le> length sig" "length sig \<le> 73" "sig ! 0 = 0x30" "unat (sig ! 1) = length sig - 3"
      "sig ! 2 = 0x02" "0 < m" "5 + m < length sig" "sig ! (4 + m) = 0x02"
      "m + n + 7 = length sig" "0 < n" "sig ! 4 AND 0x80 = 0"
      "\<not> (1 < m \<and> sig ! 4 = 0 \<and> sig ! 5 AND 0x80 = 0)" "sig ! (6 + m) AND 0x80 = 0"
      "\<not> (1 < n \<and> sig ! (6 + m) = 0 \<and> sig ! (7 + m) AND 0x80 = 0)"
    using assms
    by (auto simp: strict_der_encoding_def m_def n_def Let_def add.commute add.left_commute
        split: if_splits)
  define r s where "r = take m (drop 4 sig)" and "s = take n (drop (6 + m) sig)"
  have lens: "length r = m" "length s = n" using facts(9) by (simp_all add: r_def s_def)
  have "der_integer r" "der_integer s"
    using facts lens by (auto simp: der_integer_def r_def s_def)
  moreover have "sig = der_signature r s @ [last sig]"
  proof -
    have four: "sig = take 4 sig @ r @ take 2 (drop (4 + m) sig) @ s @ drop (6 + m + n) sig"
    proof -
      have cut: "drop k sig = take j (drop k sig) @ drop (k + j) sig" for j k
        by (simp add: add.commute flip: drop_drop)
      have "sig = take 4 sig @ drop 4 sig" by simp
      also have "drop 4 sig = r @ drop (4 + m) sig" unfolding r_def by (rule cut)
      also have "drop (4 + m) sig = take 2 (drop (4 + m) sig) @ drop (4 + m + 2) sig" by (rule cut)
      also have "4 + m + 2 = 6 + m" by simp
      also have "drop (6 + m) sig = s @ drop (6 + m + n) sig" unfolding s_def by (rule cut)
      finally show ?thesis .
    qed
    have bytes: "sig ! 1 = of_nat (m + n + 4)" "sig ! 3 = of_nat m" "sig ! (5 + m) = of_nat n"
    proof -
      have "unat (sig ! 1) = m + n + 4" using facts(4,9) by simp
      then have "of_nat (unat (sig ! 1)) = (of_nat (m + n + 4) :: u8)" by (rule arg_cong)
      then show "sig ! 1 = of_nat (m + n + 4)" by simp
    qed (simp_all add: m_def n_def)
    have "0 < length sig" "1 < length sig" "2 < length sig" "3 < length sig"
      using facts(1) by linarith+
    then have "take 4 sig = [sig ! 0, sig ! 1, sig ! 2, sig ! 3]"
      by (simp add: take_Suc_conv_app_nth numeral_eq_Suc)
    moreover have "take 2 (drop (4 + m) sig) = [sig ! (4 + m), sig ! (5 + m)]"
      using facts(7) by (simp add: take_Suc_conv_app_nth numeral_eq_Suc)
    moreover have "drop (6 + m + n) sig = [last sig]"
    proof -
      have "length (drop (6 + m + n) sig) = 1" using facts(9) by simp
      then obtain t where t: "drop (6 + m + n) sig = [t]" unfolding One_nat_def length_Suc_conv by auto
      then have "last sig = t" by (metis append_take_drop_id last_snoc)
      with t show ?thesis by simp
    qed
    ultimately show ?thesis
      using four bytes facts(3,5,8) by (simp add: der_signature_def lens)
  qed
  moreover have "length r + length s \<le> 66" using facts(2,9) lens by simp
  ultimately show ?thesis using that by blast
qed

subsection \<open>What the commitment section is\<close>

text \<open>
  An operation of a script: an opcode that pushes nothing, or a push whose length is the opcode
  itself (0) or the 1, 2 or 4 bytes that follow it.
\<close>

datatype script_op = Plain u8 | Push nat bytes

fun op_ok :: "script_op \<Rightarrow> bool" where
  "op_ok (Plain opcode) = (opcode = 0 \<or> 0x4e < opcode)"
| "op_ok (Push width data) =
     (width = 0 \<and> 1 \<le> length data \<and> length data \<le> 75
       \<or> width \<in> {1, 2, 4} \<and> length data < 2 ^ (8 * width))"

fun put_op :: "script_op \<Rightarrow> bytes" where
  "put_op (Plain opcode) = [opcode]"
| "put_op (Push width data) =
     (if width = 0 then [of_nat (length data)] @ data
      else (if width = 1 then 0x4c else if width = 2 then 0x4d else 0x4e)
        # le_nat width (length data) @ data)"

fun op_view :: "script_op \<Rightarrow> u8 \<times> bytes option" where
  "op_view (Plain opcode) = (opcode, None)"
| "op_view (Push width data) = (hd (put_op (Push width data)), Some data)"

lemma put_op_nonempty [simp]: "put_op op' \<noteq> []"
  by (cases op') (auto split: if_splits)

lemma drop_part: "drop k xs = ys @ zs \<Longrightarrow> drop (k + length ys) xs = zs"
  by (metis append_eq_conv_conj add.commute drop_drop)

lemma script_get_drop: "script_get script k = (case drop k script of [] \<Rightarrow> None | b # _ \<Rightarrow> Some b)"
  by (auto simp: script_get_def hd_drop_conv_nth [symmetric] split: list.splits)

lemma slice_get_drop:
  "slice_get script k (k + n) =
     (if n \<le> length (drop k script) \<and> k \<le> length script then Some (take n (drop k script)) else None)"
  by (auto simp: slice_get_def slice_def)

lemma read_put_op:
  assumes op: "op_ok op'" and at: "drop position script = put_op op' @ tail"
    and len: "length script < 2 ^ 64"
  shows "read_script_op script position = Inr (op_view op', position + length (put_op op'))"
proof -
  have pos: "position + length (put_op op') + length tail = length script"
  proof -
    have "length script - position = length (put_op op') + length tail"
      using arg_cong [OF at, of length] by simp
    moreover have "0 < length (put_op op')" by simp
    ultimately show ?thesis by arith
  qed
  have next': "drop (position + k) script = drop k (put_op op' @ tail)" for k
    by (simp add: at [symmetric] add.commute)
  show ?thesis
  proof (cases op')
    case (Plain opcode)
    have "\<not> (1 \<le> opcode \<and> opcode \<le> 0x4b)" "opcode \<noteq> 0x4c" "opcode \<noteq> 0x4d" "opcode \<noteq> 0x4e"
      using op Plain by (auto simp: word_le_nat_alt word_less_nat_alt)
    then show ?thesis
      using at Plain by (auto simp: read_script_op_def script_get_drop push_length_def)
  next
    case (Push width data)
    consider "width = 0" "1 \<le> length data" "length data \<le> 75" | "width = 1" "length data < 256"
      | "width = 2" "length data < 65536" | "width = 4" "length data < 4294967296"
      using op Push by auto
    then show ?thesis
    proof cases
      case 1
      have u: "unat (of_nat (length data) :: u8) = length data"
        using 1 by (simp add: unat_of_nat)
      have "(1 :: u8) \<le> of_nat (length data)" "(of_nat (length data) :: u8) \<le> 0x4b"
        using 1 by (simp_all add: word_le_nat_alt u)
      then show ?thesis
        using at next' [of 1] 1 u pos len slice_get_drop [of script "position + 1" "length data"]
        by (simp add: Push read_script_op_def script_get_drop push_length_def usize_checked_add_def
            slice_get_drop)
    next
      case 2
      then show ?thesis
        using at next' [of 1] next' [of 2] pos len slice_get_drop [of script "position + 2" "length data"]
        by (simp add: Push read_script_op_def script_get_drop push_length_def usize_checked_add_def
            slice_get_drop unat_of_nat)
    next
      case 3
      then show ?thesis
        using at next' [of 1] next' [of "Suc (Suc (Suc 0))"] pos len
          slice_get_drop [of script "position + 1" 2]
          slice_get_drop [of script "position + Suc (Suc (Suc 0))" "length data"]
        by (simp add: Push read_script_op_def script_get_drop push_length_def usize_checked_add_def
            slice_get_drop nat_le_le_nat)
    next
      case 4
      then show ?thesis
        using at next' [of 1] next' [of 5, unfolded add.commute [of position 5]] pos len
          slice_get_drop [of script "position + 1" 4] slice_get_drop [of script "5 + position" "length data"]
        by (simp add: Push read_script_op_def script_get_drop push_length_def usize_checked_add_def
            slice_get_drop nat_le_le_nat)
    qed
  qed
qed

text \<open>The rebuilt script: every nonempty push in the encoding of \<open>append_script_push\<close>.\<close>

definition minimal_push :: "bytes \<Rightarrow> bytes" where
  "minimal_push data =
     (if length data < 0x4c then [of_nat (length data)]
      else if length data < 2 ^ 8 then [0x4c, of_nat (length data)]
      else if length data < 2 ^ 16 then [0x4d] @ le_nat 2 (length data)
      else [0x4e] @ le_nat 4 (length data)) @ data"

fun rebuilt_op :: "u8 \<times> bytes option \<Rightarrow> bytes" where
  "rebuilt_op (opcode, None) = [opcode]"
| "rebuilt_op (opcode, Some data) = (if data = [] then [opcode] else minimal_push data)"

definition has_section :: "u8 \<times> bytes option \<Rightarrow> bool" where
  "has_section op' = (case snd op' of None \<Rightarrow> False
     | Some data \<Rightarrow> length SIGNET_HEADER < length data \<and> take (length SIGNET_HEADER) data = SIGNET_HEADER)"

lemma append_minimal_push:
  "length data < 2 ^ 32 \<Longrightarrow> append_script_push data out = Inr (out @ minimal_push data)"
  by (simp add: append_script_push_def minimal_push_def)

lemma section_op_plain:
  assumes "solution \<noteq> None \<or> \<not> has_section op'"
    and "\<And>data. snd op' = Some data \<Longrightarrow> length data < 2 ^ 32"
  shows "section_op op' replacement solution = Inr (replacement @ rebuilt_op op', solution)"
  using assms
  by (cases op') (auto simp: section_op_def has_section_def append_minimal_push split: option.splits)

lemma section_op_found:
  assumes "has_section (opcode, Some data)"
  shows "section_op (opcode, Some data) replacement None =
    Inr (replacement @ minimal_push SIGNET_HEADER, Some (drop (length SIGNET_HEADER) data))"
  using assms by (auto simp: section_op_def has_section_def append_minimal_push SIGNET_HEADER_def)

lemma op_view_bound:
  assumes "op_ok op'" "snd (op_view op') = Some data" shows "length data < 2 ^ 32"
proof (cases op')
  case (Push width d)
  with assms have "width = 0 \<and> length d \<le> 75 \<or> width \<in> {1, 2, 4} \<and> length d < 2 ^ (8 * width)"
    and "d = data" by auto
  then show ?thesis by auto
qed (use assms in simp)

text \<open>The part of a script after the operations: empty, or malformed where it starts.\<close>

definition malformed_tail :: "bytes \<Rightarrow> nat \<Rightarrow> bool" where
  "malformed_tail script position =
     (length script \<le> position \<or> (\<exists>e. read_script_op script position = Inl e))"

declare section_loop.simps [simp del]

lemma section_loop_done:
  "malformed_tail script position \<Longrightarrow>
     section_loop script position replacement solution = Inr (replacement, solution)"
  by (subst section_loop.simps) (auto simp: malformed_tail_def)

lemma section_loop_op:
  assumes "op_ok op'" "drop position script = put_op op' @ tail" "length script < 2 ^ 64"
  shows "section_loop script position replacement solution =
    and_then (section_op (op_view op') replacement solution) (\<lambda>(replacement, solution).
    section_loop script (position + length (put_op op')) replacement solution)"
proof -
  have "position < length script"
  proof (rule ccontr)
    assume "\<not> position < length script"
    then have "put_op op' = []" using assms(2) by simp
    then show False by simp
  qed
  then show ?thesis
    by (subst section_loop.simps) (simp add: read_put_op [OF assms])
qed

lemma section_loop_plain:
  assumes "list_all op_ok ops" "drop position script = concat (map put_op ops) @ tail"
    and "length script < 2 ^ 64" "solution \<noteq> None \<or> list_all (\<lambda>op'. \<not> has_section (op_view op')) ops"
  shows "section_loop script position replacement solution =
    section_loop script (position + length (concat (map put_op ops)))
      (replacement @ concat (map (\<lambda>op'. rebuilt_op (op_view op')) ops)) solution"
  using assms(1,2,4)
proof (induction ops arbitrary: position replacement)
  case (Cons op' ops)
  have at: "drop position script = put_op op' @ concat (map put_op ops) @ tail"
    using Cons.prems(2) by simp
  have "drop (position + length (put_op op')) script = concat (map put_op ops) @ tail"
    by (rule drop_part [OF at])
  moreover have "section_op (op_view op') replacement solution =
      Inr (replacement @ rebuilt_op (op_view op'), solution)"
  proof (rule section_op_plain)
    show "solution \<noteq> None \<or> \<not> has_section (op_view op')" using Cons.prems(3) by auto
    show "length data < 2 ^ 32" if "snd (op_view op') = Some data" for data
      using op_view_bound [OF _ that] Cons.prems(1) by simp
  qed
  moreover have "section_loop script (position + length (put_op op')) (replacement @ rebuilt_op (op_view op'))
      solution = section_loop script (position + length (put_op op') + length (concat (map put_op ops)))
        ((replacement @ rebuilt_op (op_view op')) @ concat (map (\<lambda>op'. rebuilt_op (op_view op')) ops)) solution"
    using Cons.prems calculation(1) by (intro Cons.IH) auto
  ultimately show ?case
    using Cons.prems(1) section_loop_op [OF _ at assms(3)] by (simp add: add.assoc)
qed simp

lemma read_script_op_bounds:
  assumes "read_script_op script position = Inr ((opcode, data), position')"
  shows "position' \<le> length script" "length (case data of None \<Rightarrow> [] | Some d \<Rightarrow> d) + 1 + position \<le> position'"
proof -
  obtain len p where opc: "script_get script position = Some opcode"
      and len: "push_length script opcode (position + 1) = Inr (len, p)"
      and end': "case len of None \<Rightarrow> data = None \<and> position' = p
        | Some n \<Rightarrow> usize_checked_add p n = Some position'
            \<and> (\<exists>d. slice_get script p position' = Some d \<and> data = Some d)"
    using assms by (auto simp: read_script_op_def and_then_Inr ok_or_Inr split: option.splits)
  have p: "position + 1 \<le> p" using push_length_position [OF len] .
  have none: "p = position + 1" if "len = None"
    using len that by (auto simp: push_length_def and_then_Inr ok_or_Inr split: if_splits)
  have first: "position < length script" using opc by (simp add: script_get_def split: if_splits)
  show "position' \<le> length script"
    using end' none first by (auto simp: slice_get_def split: option.splits if_splits)
  show "length (case data of None \<Rightarrow> [] | Some d \<Rightarrow> d) + 1 + position \<le> position'"
    using end' none p by (auto simp: slice_get_def slice_def split: option.splits if_splits)
qed

lemma section_op_length:
  assumes "section_op (opcode, data) replacement solution = Inr (replacement', solution')"
  shows "length replacement' \<le> length replacement + 5 * (length (case data of None \<Rightarrow> [] | Some d \<Rightarrow> d) + 1)"
    "solution' = solution \<or> (\<exists>d. data = Some d \<and> solution' = Some (drop (length SIGNET_HEADER) d))"
proof -
  have push: "length out' \<le> length out + 5 + length d" if "append_script_push d out = Inr out'" for d out out'
    using that by (auto simp: append_script_push_def split: if_splits)
  show "length replacement' \<le> length replacement + 5 * (length (case data of None \<Rightarrow> [] | Some d \<Rightarrow> d) + 1)"
    using assms
    by (auto simp: section_op_def and_then_Inr SIGNET_HEADER_def dest!: push split: option.splits if_splits)
  show "solution' = solution \<or> (\<exists>d. data = Some d \<and> solution' = Some (drop (length SIGNET_HEADER) d))"
    using assms by (auto simp: section_op_def and_then_Inr split: option.splits if_splits)
qed

lemma section_loop_bounds:
  "section_loop script position replacement solution = Inr (replacement', solution') \<Longrightarrow>
     length replacement' \<le> length replacement + 5 * (length script - position)
       \<and> (solution' = solution \<or> (\<exists>x. solution' = Some x \<and> length x \<le> length script))"
proof (induction script position replacement solution arbitrary: replacement' solution'
    rule: section_loop.induct)
  case (1 script position replacement solution)
  show ?case
  proof (cases "malformed_tail script position")
    case True
    with 1 show ?thesis by (simp add: section_loop_done)
  next
    case False
    then obtain opcode data p where inside: "\<not> length script \<le> position"
        and op: "read_script_op script position = Inr ((opcode, data), p)"
      by (cases "read_script_op script position") (auto simp: malformed_tail_def)
    from 1(2) obtain rep sol where sect: "section_op (opcode, data) replacement solution = Inr (rep, sol)"
        and loop: "section_loop script p rep sol = Inr (replacement', solution')"
      using inside op by (subst (asm) section_loop.simps) (auto simp: and_then_Inr)
    have IH: "length replacement' \<le> length rep + 5 * (length script - p)
        \<and> (solution' = sol \<or> (\<exists>x. solution' = Some x \<and> length x \<le> length script))"
      using 1(1) [OF inside op refl sect refl loop] .
    note bounds = read_script_op_bounds [OF op] section_op_length [OF sect]
    let ?d = "length (case data of None \<Rightarrow> [] | Some d \<Rightarrow> d)"
    have "5 * (?d + 1) + 5 * (length script - p) \<le> 5 * (length script - position)"
    proof -
      have "a + 1 + q \<le> p \<Longrightarrow> p \<le> n \<Longrightarrow> 5 * (a + 1) + 5 * (n - p) \<le> 5 * (n - q)" for a q n :: nat
        by arith
      then show ?thesis using bounds(1,2) by blast
    qed
    then have "length replacement' \<le> length replacement + 5 * (length script - position)"
      using IH bounds(3) by linarith
    moreover have "sol = solution \<or> (\<exists>x. sol = Some x \<and> length x \<le> length script)"
      using bounds(1,2,4) by auto
    ultimately show ?thesis using IH by auto
  qed
qed

lemma extract_bounds:
  assumes "extract_solution_and_modified_script script = Inr (solution, modified)"
  shows "length solution \<le> length script" "length modified \<le> 5 * length script"
  using assms section_loop_bounds [of script 0 "[]" None]
  by (auto simp: extract_solution_and_modified_script_def and_then_Inr ok_or_Inr)

subsection \<open>What the solution is\<close>

interpretation solution_item:
  wire_codec put_script "\<lambda>item. length item < 2 ^ 64" id solution_item
  by unfold_locales
    (auto simp: solution_item_def parse_iff cur_compact_size_iff put_script_def eats_append
      intro!: exI [of _ "length _"])

lemma eats_everything:
  assumes "length bs < 2 ^ 64"
  shows "(\<exists>c'. eats (cursor_new bs 0) cs c' \<and> cur_remaining c' = 0) \<longleftrightarrow> cs = bs"
proof
  assume "\<exists>c'. eats (cursor_new bs 0) cs c' \<and> cur_remaining c' = 0"
  then show "cs = bs"
    by (auto simp: eats_def cur_remaining_ahead ahead_def cursor_new_def forward_def prefix_def)
next
  assume "cs = bs"
  then show "\<exists>c'. eats (cursor_new bs 0) cs c' \<and> cur_remaining c' = 0"
    using assms by (auto simp: eats_def cur_remaining_ahead ahead_def cursor_new_def forward_def
        fits_def)
qed

lemma put_script_bound: "length s \<le> length (put_script s)"
  using put_script_length [of s] by simp

theorem parse_solution_iff:
  assumes len: "length solution < 2 ^ 64"
  shows "parse_solution solution = Inr (script_sig, witness) \<longleftrightarrow>
    solution = put_script script_sig @ put_vector put_script witness"
proof -
  let ?c0 = "cursor_new solution 0"
  have items: "(\<exists>n d. (n < 2 ^ 64 \<and> eats c (compact_bytes n) d) \<and> True \<and> n \<le> cur_remaining d div 1
      \<and> parse_n solution_item n d = Inr (witness, c')) \<longleftrightarrow>
    (\<exists>ws. True \<and> length ws < 2 ^ 64 \<and> list_all (\<lambda>item. length item < 2 ^ 64) ws \<and> map id ws = witness
      \<and> eats c (put_vector put_script ws) c')" for c c'
    by (rule solution_item.counted_iff) (auto intro: order_trans [OF _ put_script_length])
  have "parse_solution solution = Inr (script_sig, witness) \<longleftrightarrow>
      (\<exists>n c1. (n < 2 ^ 64 \<and> eats ?c0 (compact_bytes n) c1) \<and>
      (\<exists>c2. (length script_sig = n \<and> eats c1 script_sig c2) \<and>
      (\<exists>c4. (\<exists>k c3. (k < 2 ^ 64 \<and> eats c2 (compact_bytes k) c3) \<and> True \<and> k \<le> cur_remaining c3 div 1
          \<and> parse_n solution_item k c3 = Inr (witness, c4)) \<and> cur_remaining c4 = 0)))"
    unfolding parse_solution_def parse_iff map_err_Inr cur_compact_size_iff
    by (auto simp: and_then_Inr map_err_Inr cur_compact_size_iff cur_take_iff not_less) blast+
  also have "\<dots> \<longleftrightarrow> length script_sig < 2 ^ 64 \<and> length witness < 2 ^ 64
      \<and> list_all (\<lambda>item. length item < 2 ^ 64) witness
      \<and> (\<exists>c4. eats ?c0 (put_script script_sig @ put_vector put_script witness) c4
          \<and> cur_remaining c4 = 0)"
    unfolding items by (auto simp: put_script_def eats_append)
  also have "\<dots> \<longleftrightarrow> solution = put_script script_sig @ put_vector put_script witness"
  proof -
    have "length script_sig < 2 ^ 64 \<and> length witness < 2 ^ 64
        \<and> list_all (\<lambda>item. length item < 2 ^ 64) witness"
      if "solution = put_script script_sig @ put_vector put_script witness"
    proof -
      have one: "1 \<le> length (put_script item)" for item
        by (rule order_trans [OF _ put_script_length]) simp
      have "1 * length witness \<le> length (concat (map put_script witness))"
        by (rule concat_length_bound) (simp only: one list_all_iff, simp)
      moreover have "length item \<le> length (concat (map put_script witness))"
        if "item \<in> set witness" for item
        using that put_script_bound [of item]
        by (induction witness) (auto intro: order_trans trans_le_add1 trans_le_add2)
      moreover have "length (put_script script_sig) + length (concat (map put_script witness)) \<le> length solution"
        using that by (simp add: put_vector_def)
      ultimately show ?thesis
        using len put_script_bound [of script_sig] by (fastforce simp: list_all_iff)
    qed
    then show ?thesis unfolding eats_everything [OF len] by auto
  qed
  finally show ?thesis .
qed

subsection \<open>Properties\<close>

text \<open>
  Removal of the solution. In a commitment script whose operations carry the Signet header
  for the first time in a push of the header and a nonempty solution, the extraction returns
  that solution, and the script rebuilt has the bare header in its place and every other
  operation re-encoded, whatever malformed bytes follow. The rebuilt script, and so the message
  to sign, does not depend on the solution or on the way its push is encoded.
\<close>

theorem section_replaced:
  assumes ops: "list_all op_ok (before @ [Push width (SIGNET_HEADER @ solution)] @ after)"
    and script: "script = concat (map put_op (before @ [Push width (SIGNET_HEADER @ solution)] @ after)) @ tail"
    and "length script < 2 ^ 64" "solution \<noteq> []"
    and "list_all (\<lambda>op'. \<not> has_section (op_view op')) before"
    and "malformed_tail script (length script - length tail)"
  shows "extract_solution_and_modified_script script =
    Inr (solution, concat (map (\<lambda>op'. rebuilt_op (op_view op')) before)
      @ minimal_push SIGNET_HEADER @ concat (map (\<lambda>op'. rebuilt_op (op_view op')) after))"
proof -
  define push where "push = Push width (SIGNET_HEADER @ solution)"
  let ?b = "length (concat (map put_op before))"
  note ops = ops [folded push_def] and script = script [folded push_def]
  have first: "section_loop script 0 [] None =
      section_loop script ?b (concat (map (\<lambda>op'. rebuilt_op (op_view op')) before)) None"
    using section_loop_plain [of before 0 script "concat (map put_op (push # after)) @ tail" None "[]"]
      ops assms(3,5) by (simp add: script)
  have at: "drop ?b script = put_op push @ concat (map put_op after) @ tail"
    by (simp add: script)
  have "op_view push = (fst (op_view push), Some (SIGNET_HEADER @ solution))"
    by (simp add: push_def)
  moreover have "has_section (op_view push)" using assms(4) by (simp add: has_section_def push_def)
  ultimately have found: "section_op (op_view push) replacement None =
      Inr (replacement @ minimal_push SIGNET_HEADER, Some solution)" for replacement
    using section_op_found [of "fst (op_view push)" "SIGNET_HEADER @ solution" replacement] by simp
  have last: "section_loop script (?b + length (put_op push)) replacement (Some solution) =
      section_loop script (?b + length (put_op push) + length (concat (map put_op after)))
        (replacement @ concat (map (\<lambda>op'. rebuilt_op (op_view op')) after)) (Some solution)" for replacement
    using section_loop_plain [of after _ script tail "Some solution" replacement, OF _ drop_part [OF at]]
      ops assms(3) by simp
  have "length script - length tail = ?b + length (put_op push) + length (concat (map put_op after))"
    by (simp add: script)
  then have "section_loop script 0 [] None = Inr (concat (map (\<lambda>op'. rebuilt_op (op_view op')) before)
      @ minimal_push SIGNET_HEADER @ concat (map (\<lambda>op'. rebuilt_op (op_view op')) after), Some solution)"
    using section_loop_op [OF _ at assms(3)] ops assms(6)
    by (simp add: first found last section_loop_done)
  then show ?thesis by (simp add: extract_solution_and_modified_script_def)
qed

theorem section_replaced_witness:
  "extract_solution_and_modified_script
     (concat (map put_op ([Plain 0x6a] @ [Push 1 (SIGNET_HEADER @ [7])] @ [Push 0 [9]])) @ [2, 1]) =
   Inr ([7], concat (map (\<lambda>op'. rebuilt_op (op_view op')) [Plain 0x6a])
     @ minimal_push SIGNET_HEADER @ concat (map (\<lambda>op'. rebuilt_op (op_view op')) [Push 0 [9]]))"
  by (rule section_replaced [OF _ refl, where width = 1])
    (simp_all add: SIGNET_HEADER_def has_section_def malformed_tail_def read_script_op_def
      script_get_def push_length_def usize_checked_add_def slice_get_def)

text \<open>
  Strict DER. The check accepts exactly the encodings of two integers, each positive and in
  the fewest bytes, in at most 72 bytes and followed by one byte for the hash type.
\<close>

theorem strict_der_exact:
  "strict_der_encoding sig \<longleftrightarrow>
     (\<exists>r s hash_type. der_integer r \<and> der_integer s \<and> length r + length s \<le> 66
        \<and> sig = der_signature r s @ [hash_type])"
  using der_signature_strict strict_der_signature by metis

end
