(* ===== verification/Signet.thy ===== *)
theory Signet
  imports Signet_Script
begin

section \<open>The Signet challenge (usdd-bitcoin-bmm/src/block/signet.rs)\<close>

text \<open>
  The verification of the block signature, and its composition with the successor rules. The
  crates \<open>bitcoin_hashes\<close> (hash160) and \<open>k256\<close> (ECDSA) are third-party code: the record
  \<open>signature_scheme\<close> holds the functions the code calls, and nothing is assumed of them.
\<close>

record ('signature, 'key) signature_scheme =
  ss_hash160 :: "bytes \<Rightarrow> bytes"
  ss_from_der :: "bytes \<Rightarrow> 'signature option"
  ss_normalize_s :: "'signature \<Rightarrow> 'signature option"
  ss_from_sec1_bytes :: "bytes \<Rightarrow> 'key option"
  ss_verify_prehash :: "'key \<Rightarrow> hash32 \<Rightarrow> 'signature \<Rightarrow> bool"

definition LAYER_TWO_SIGNET_P2WPKH :: bytes where
  "LAYER_TWO_SIGNET_P2WPKH =
     [0x88, 0x35, 0x83, 0x2e, 0x28, 0xc8, 0x16, 0xb7, 0xac, 0xd8, 0xfd, 0xb1, 0x97, 0x72, 0xab,
      0x21, 0x99, 0x60, 0x3a, 0x56]"

definition LAYER_TWO_SIGNET_GENESIS_INTERNAL :: block_hash where
  "LAYER_TWO_SIGNET_GENESIS_INTERNAL =
     0xf61eee3b63a380a477a063af32b2bbc97c9ff9f01f2c4225e973988108000000"

text \<open>The coinbase without witness and with one script replaced (block.rs).\<close>

definition replaced_output ::
  "nat \<Rightarrow> bytes \<Rightarrow> bytes \<Rightarrow> nat \<times> parsed_output \<Rightarrow> block_structure_error + bytes" where
  "replaced_output replacement_index replacement_script serialized = (\<lambda>(index, output).
     let serialized = serialized @ po_value output;
         script = (if index = replacement_index then replacement_script else po_script output)
     in and_then (encode_compact_size (length script) serialized) (\<lambda>serialized.
        Inr (serialized @ script)))"

definition serialized_without_witness_with_replaced_script ::
  "parsed_coinbase \<Rightarrow> nat \<Rightarrow> bytes \<Rightarrow> block_structure_error + bytes" where
  "serialized_without_witness_with_replaced_script coinbase replacement_index replacement_script =
     (if length (pc_outputs coinbase) \<le> replacement_index then Inl LengthOverflow
      else and_then (try_fold (replaced_output replacement_index replacement_script)
          (pc_version coinbase @ pc_inputs_and_output_count coinbase)
          (enumerate 0 (pc_outputs coinbase))) (\<lambda>serialized.
        Inr (serialized @ pc_lock_time coinbase)))"

subsection \<open>The virtual transactions\<close>

definition virtual_spent_txid ::
  "(bytes \<Rightarrow> hash32) \<Rightarrow> parsed_block \<Rightarrow> block_hash \<Rightarrow> layer_two_signet_error + block_hash" where
  "virtual_spent_txid H parsed modified_merkle_root =
     (let header = mv_header (pb_metadata parsed);
          block_data = le_nat 4 (unat (bh_version header))
            @ enc_hash32 (bh_previous_block header)
            @ enc_hash32 modified_merkle_root
            @ le_nat 4 (unat (bh_time header));
          transaction = le_nat 4 0 @ [1] @ replicate 32 0 @ le_nat 4 (2 ^ 32 - 1)
            @ [74] @ [0x00, 0x48] @ block_data @ le_nat 4 0
            @ [1] @ le_nat 8 0 @ [22] @ [0x00, 0x14] @ LAYER_TWO_SIGNET_P2WPKH @ le_nat 4 0
      in Inr (double_sha256 H transaction))"

definition sighash_preimage :: "(bytes \<Rightarrow> hash32) \<Rightarrow> block_hash \<Rightarrow> u32 \<Rightarrow> bytes" where
  "sighash_preimage H spent_txid hash_type =
     (let base_type = hash_type AND 0x1f;
          anyone_can_pay = (hash_type AND 0x80 \<noteq> 0);
          outpoint = enc_hash32 spent_txid @ replicate 4 0;
          hash_prevouts = (if anyone_can_pay then 0 else double_sha256 H outpoint);
          sequence = le_nat 4 0;
          hash_sequence = (if anyone_can_pay \<or> base_type = 2 \<or> base_type = 3 then 0
            else double_sha256 H sequence);
          output = replicate 8 0 @ [1, 0x6a];
          hash_outputs = (if base_type = 2 then 0 else double_sha256 H output)
      in le_nat 4 0 @ enc_hash32 hash_prevouts @ enc_hash32 hash_sequence @ outpoint
         @ [25] @ [0x76, 0xa9, 0x14] @ LAYER_TWO_SIGNET_P2WPKH @ [0x88, 0xac]
         @ le_nat 8 0 @ sequence @ enc_hash32 hash_outputs @ le_nat 4 0
         @ le_nat 4 (unat hash_type))"

definition signet_bip143_sighash :: "(bytes \<Rightarrow> hash32) \<Rightarrow> block_hash \<Rightarrow> u32 \<Rightarrow> hash32" where
  "signet_bip143_sighash H spent_txid hash_type =
     double_sha256 H (sighash_preimage H spent_txid hash_type)"

subsection \<open>Verification\<close>

text \<open>The checks on the parsed solution, and the signature over the block without it.\<close>

definition verify_signet_witness ::
  "(bytes \<Rightarrow> hash32) \<Rightarrow> ('signature, 'key) signature_scheme \<Rightarrow> parsed_block \<Rightarrow> nat \<Rightarrow> bytes
     \<Rightarrow> bytes \<Rightarrow> bytes list \<Rightarrow> layer_two_signet_error + unit" where
  "verify_signet_witness H S parsed commitment_index modified_commitment script_sig witness =
     (if script_sig \<noteq> [] then Inl NonEmptyScriptSig
      else if length witness \<noteq> 2 \<or> witness ! 0 = [] then Inl WrongWitnessStack
      else let signature_with_hash_type = witness ! 0; public_key = witness ! 1 in
      if ss_hash160 S public_key \<noteq> LAYER_TWO_SIGNET_P2WPKH then Inl WrongPublicKeyHash
      else if \<not> strict_der_encoding signature_with_hash_type then Inl InvalidDerSignature
      else and_then (map_err SignetBlock (serialized_without_witness_with_replaced_script
        (pb_coinbase parsed) commitment_index modified_commitment)) (\<lambda>modified_coinbase.
      let modified_txids = (pb_txids parsed)[0 := double_sha256 H modified_coinbase];
          (modified_merkle_root, _) = expect (merkle_root_and_mutation H modified_txids) in
      and_then (virtual_spent_txid H parsed modified_merkle_root) (\<lambda>spent_txid.
      and_then (ok_or (if signature_with_hash_type = [] then None
        else Some (last signature_with_hash_type)) InvalidDerSignature) (\<lambda>last_byte.
      let hash_type = (ucast last_byte :: u32);
          sighash = signet_bip143_sighash H spent_txid hash_type in
      and_then (ok_or (ss_from_der S (take (length signature_with_hash_type - 1)
        signature_with_hash_type)) InvalidDerSignature) (\<lambda>signature.
      let signature = (case ss_normalize_s S signature of None \<Rightarrow> signature | Some s \<Rightarrow> s) in
      and_then (ok_or (ss_from_sec1_bytes S public_key) InvalidPublicKey) (\<lambda>key.
      if ss_verify_prehash S key sighash signature then Inr () else Inl InvalidSignature))))))"

definition verify_parsed_layer_two_signet ::
  "(bytes \<Rightarrow> hash32) \<Rightarrow> ('signature, 'key) signature_scheme \<Rightarrow> parsed_block
     \<Rightarrow> layer_two_signet_error + unit" where
  "verify_parsed_layer_two_signet H S parsed =
     (if mv_block_hash (pb_metadata parsed) = LAYER_TWO_SIGNET_GENESIS_INTERNAL then Inr ()
      else and_then (ok_or (witness_commitment_index (pc_outputs (pb_coinbase parsed)))
        MissingWitnessCommitment) (\<lambda>commitment_index.
      and_then (extract_solution_and_modified_script
        (po_script (pc_outputs (pb_coinbase parsed) ! commitment_index)))
        (\<lambda>(solution, modified_commitment).
      and_then (parse_solution solution) (\<lambda>(script_sig, witness).
      verify_signet_witness H S parsed commitment_index modified_commitment script_sig witness))))"

definition verify_layer_two_signet_block_solution ::
  "(bytes \<Rightarrow> hash32) \<Rightarrow> ('signature, 'key) signature_scheme \<Rightarrow> bytes
     \<Rightarrow> layer_two_signet_error + merkle_verified_bitcoin_block" where
  "verify_layer_two_signet_block_solution H S serialized_block =
     and_then (map_err SignetBlock (parse_and_verify_block H serialized_block)) (\<lambda>parsed.
     and_then (verify_parsed_layer_two_signet H S parsed) (\<lambda>_.
     Inr (pb_metadata parsed)))"

record signet_transition =
  st_next_parent_state :: header_chain_state
  st_commitment :: pow_merkle_bound_m7

definition verify_layer_two_signet_pow_merkle_bound_elements_m7_successor ::
  "(bytes \<Rightarrow> hash32) \<Rightarrow> ('signature, 'key) signature_scheme \<Rightarrow> header_chain_state \<Rightarrow> bytes
     \<Rightarrow> layer_two_signet_error + signet_transition" where
  "verify_layer_two_signet_pow_merkle_bound_elements_m7_successor H S prior serialized_block =
     and_then (map_err SignetBlock (parse_and_verify_block H serialized_block)) (\<lambda>parsed.
     and_then (verify_parsed_layer_two_signet H S parsed) (\<lambda>_.
     and_then (map_err SignetHeader (verify_successor_header H LAYER_TWO_SIGNET prior
       (bh_raw (mv_header (pb_metadata parsed))))) (\<lambda>next_parent_state.
     let output_scripts = map po_script (pc_outputs (pb_coinbase parsed)) in
     and_then (map_err SignetCommitment (extract_elements_slot24_m7 output_scripts)) (\<lambda>m7.
     Inr \<lparr> st_next_parent_state = next_parent_state,
           st_commitment = bound_m7 (pb_metadata parsed) next_parent_state m7 \<rparr>))))"

subsection \<open>The signed message\<close>

text \<open>The transaction whose output the solution spends, and the block with the solution removed.\<close>

definition to_spend :: "u32 \<Rightarrow> block_hash \<Rightarrow> block_hash \<Rightarrow> u32 \<Rightarrow> wire_tx" where
  "to_spend version previous root time =
     \<lparr> wt_version = replicate 4 0,
       wt_inputs = [\<lparr> wi_outpoint = replicate 32 0 @ replicate 4 255,
         wi_script = [0x00, 0x48] @ le_nat 4 (unat version) @ enc_hash32 previous
           @ enc_hash32 root @ le_nat 4 (unat time),
         wi_sequence = replicate 4 0 \<rparr>],
       wt_outputs = [\<lparr> po_value = replicate 8 0, po_script = [0x00, 0x14] @ LAYER_TWO_SIGNET_P2WPKH \<rparr>],
       wt_witness = None, wt_lock_time = replicate 4 0 \<rparr>"

definition replace_script :: "wire_tx \<Rightarrow> nat \<Rightarrow> bytes \<Rightarrow> wire_tx" where
  "replace_script t i script =
     t\<lparr> wt_outputs := (wt_outputs t)[i := (wt_outputs t ! i)\<lparr> po_script := script \<rparr>] \<rparr>"

lemma le_nat_zero: "le_nat n 0 = replicate n 0"
  by (induction n) simp_all

lemma virtual_spent_txid_tx:
  "virtual_spent_txid H parsed root = Inr (double_sha256 H (put_stripped
     (to_spend (bh_version (mv_header (pb_metadata parsed)))
       (bh_previous_block (mv_header (pb_metadata parsed))) root
       (bh_time (mv_header (pb_metadata parsed))))))"
  by (simp add: virtual_spent_txid_def Let_def to_spend_def put_stripped_def put_body_def
      put_vector_def put_input_def put_output_def put_script_def compact_bytes_def le_nat_zero
      le_nat_max LAYER_TWO_SIGNET_P2WPKH_def)

lemma replaced_outputs:
  assumes "length script < 2 ^ 64" "list_all output_ok outs"
  shows "try_fold (replaced_output i script) out (enumerate k outs) =
    Inr (out @ concat (map (\<lambda>(j, o'). put_output (if j = i then o'\<lparr> po_script := script \<rparr> else o'))
      (enumerate k outs)))"
  using assms(2)
proof (induction outs arbitrary: k out)
  case (Cons o' outs)
  then have "length (po_script o') < 2 ^ 64" by (simp add: output_ok_def)
  with Cons assms(1) show ?case
    by (simp add: replaced_output_def Let_def encode_compact_size_bytes put_output_def put_script_def)
qed simp

lemma replaced_list:
  assumes "i < length outs"
  shows "map (\<lambda>(j, o'). if j = i then g o' else o') (enumerate 0 outs) = outs[i := g (outs ! i)]"
  using assms by (auto simp: list_eq_iff_nth_eq nth_enumerate_eq nth_list_update)

lemma replaced_coinbase:
  assumes "tx_ok t" "tx_is_coinbase t" "i < length (wt_outputs t)" "length script < 2 ^ 64"
  shows "serialized_without_witness_with_replaced_script (the (pt_coinbase (view_tx H t))) i script =
    Inr (put_stripped (replace_script t i script))"
proof -
  let ?outs = "wt_outputs t"
  have "concat (map (\<lambda>(j, o'). put_output (if j = i then o'\<lparr> po_script := script \<rparr> else o')) (enumerate 0 ?outs))
      = concat (map put_output (map (\<lambda>(j, o'). if j = i then o'\<lparr> po_script := script \<rparr> else o') (enumerate 0 ?outs)))"
    by (simp add: comp_def split_beta')
  also have "\<dots> = concat (map put_output (?outs[i := (?outs ! i)\<lparr> po_script := script \<rparr>]))"
    by (subst replaced_list [OF assms(3)]) (rule refl)
  finally show ?thesis
    using assms
    by (simp add: serialized_without_witness_with_replaced_script_def view_tx_def Let_def
        replaced_outputs tx_ok_def put_stripped_def put_body_def put_vector_def replace_script_def)
qed

subsection \<open>Which blocks are signed\<close>

text \<open>
  The message of a block: its transactions with the commitment script replaced give a Merkle
  root, that root and the header fields give the virtual transaction, and its id the digest.
\<close>

definition unsigned_txs :: "wire_tx list \<Rightarrow> nat \<Rightarrow> bytes \<Rightarrow> wire_tx list" where
  "unsigned_txs txs i script = replace_script (hd txs) i script # tl txs"

definition unsigned_root :: "(bytes \<Rightarrow> hash32) \<Rightarrow> wire_tx list \<Rightarrow> nat \<Rightarrow> bytes \<Rightarrow> block_hash" where
  "unsigned_root H txs i script =
     fst (expect (merkle_root_and_mutation H (block_txids H (unsigned_txs txs i script))))"

definition header_to_spend :: "bytes \<Rightarrow> block_hash \<Rightarrow> wire_tx" where
  "header_to_spend header root =
     (let h = projr (header_decode_exact header) in
      to_spend (bh_version h) (bh_previous_block h) root (bh_time h))"

definition signed_block ::
  "(bytes \<Rightarrow> hash32) \<Rightarrow> ('signature, 'key) signature_scheme \<Rightarrow> bytes \<Rightarrow> wire_tx list \<Rightarrow> bool" where
  "signed_block H S header txs =
     (\<exists>i modified sig public_key signature key.
        witness_commitment_index (wt_outputs (hd txs)) = Some i
        \<and> extract_solution_and_modified_script (po_script (wt_outputs (hd txs) ! i)) =
            Inr (put_script [] @ put_vector put_script [sig, public_key], modified)
        \<and> ss_hash160 S public_key = LAYER_TWO_SIGNET_P2WPKH
        \<and> strict_der_encoding sig
        \<and> ss_from_der S (butlast sig) = Some signature
        \<and> ss_from_sec1_bytes S public_key = Some key
        \<and> ss_verify_prehash S key
            (signet_bip143_sighash H
              (double_sha256 H (put_stripped (header_to_spend header (unsigned_root H txs i modified))))
              (ucast (last sig)))
            (case ss_normalize_s S signature of None \<Rightarrow> signature | Some s \<Rightarrow> s))"

lemma witness_commitment_index_bound:
  assumes "witness_commitment_index outputs = Some i" shows "i < length outputs"
proof -
  let ?es = "filter (\<lambda>(_, output). commits_witness output) (enumerate 0 outputs)"
  have "?es \<noteq> []" "i = fst (last ?es)"
    using assms by (auto simp: witness_commitment_index_def Let_def last_map split: if_splits)
  then have "last ?es \<in> set (enumerate 0 outputs)" using last_in_set [of ?es] by simp
  with \<open>i = fst (last ?es)\<close> show ?thesis by (auto simp: in_set_enumerate_eq)
qed

lemma list_of_two: "length xs = 2 \<longleftrightarrow> (\<exists>a b. xs = [a, b])"
  by (auto simp: numeral_2_eq_2 length_Suc_conv)

lemma strict_der_nonempty: "strict_der_encoding sig \<Longrightarrow> sig \<noteq> []"
  by (auto simp: strict_der_encoding_def)

lemma verify_signet_iff:
  assumes block: "block_ok H header txs"
  shows "verify_parsed_layer_two_signet H S (view_block H header txs) = Inr () \<longleftrightarrow>
    double_sha256 H header = LAYER_TWO_SIGNET_GENESIS_INTERNAL \<or> signed_block H S header txs"
proof (cases "double_sha256 H header = LAYER_TWO_SIGNET_GENESIS_INTERNAL")
  case True
  then show ?thesis by (simp add: verify_parsed_layer_two_signet_def view_block_def)
next
  case False
  let ?parsed = "view_block H header txs" and ?outs = "wt_outputs (hd txs)"
  have outs: "pc_outputs (pb_coinbase ?parsed) = ?outs" by (rule view_block_simps(2) [OF block])
  obtain t ts where txs: "txs = t # ts" using block by (cases txs) (auto simp: block_ok_def)
  have hash: "mv_block_hash (pb_metadata ?parsed) = double_sha256 H header" by (simp add: view_block_def)
  have root: "(pb_txids ?parsed)[0 := double_sha256 H (put_stripped (replace_script (hd txs) i script))]
      = block_txids H (unsigned_txs txs i script)" for i script
    by (simp add: view_block_def block_txids_def unsigned_txs_def txs)
  have spent: "virtual_spent_txid H ?parsed r =
      Inr (double_sha256 H (put_stripped (header_to_spend header r)))" for r
    by (simp add: virtual_spent_txid_tx header_to_spend_def view_block_def Let_def)
  have coinbase: "serialized_without_witness_with_replaced_script (pb_coinbase ?parsed) i modified =
      Inr (put_stripped (replace_script (hd txs) i modified))"
    and len: "length solution < 2 ^ 64"
    if "witness_commitment_index ?outs = Some i"
      "extract_solution_and_modified_script (po_script (?outs ! i)) = Inr (solution, modified)"
    for i solution modified
  proof -
    have i: "i < length ?outs" by (rule witness_commitment_index_bound [OF that(1)])
    have "tx_ok (hd txs)" "tx_is_coinbase (hd txs)"
      using block by (simp_all add: block_ok_def txs)
    moreover from this(1) i have "output_ok (?outs ! i)" by (simp add: tx_ok_def list_all_length)
    then have "length (po_script (?outs ! i)) \<le> 1000000" by (simp add: output_ok_def)
    ultimately show "serialized_without_witness_with_replaced_script (pb_coinbase ?parsed) i modified =
        Inr (put_stripped (replace_script (hd txs) i modified))" "length solution < 2 ^ 64"
      using extract_bounds [OF that(2)] i
      by (simp_all add: view_block_def replaced_coinbase)
  qed
  have tail: "(\<exists>script_sig witness. parse_solution solution = Inr (script_sig, witness)
      \<and> \<not> script_sig \<noteq> [] \<and> \<not> (length witness \<noteq> 2 \<or> witness ! 0 = [])
      \<and> P (witness ! 0) (witness ! 1)) \<longleftrightarrow>
    (\<exists>sig public_key. solution = put_script [] @ put_vector put_script [sig, public_key]
      \<and> sig \<noteq> [] \<and> P sig public_key)"
    if "length solution < 2 ^ 64" for solution and P :: "bytes \<Rightarrow> bytes \<Rightarrow> bool"
    unfolding parse_solution_iff [OF that] by (auto simp: list_of_two) blast
  define checked where "checked i modified sig public_key \<longleftrightarrow>
      ss_hash160 S public_key = LAYER_TWO_SIGNET_P2WPKH \<and> strict_der_encoding sig
      \<and> (\<exists>signature key. ss_from_der S (butlast sig) = Some signature
        \<and> ss_from_sec1_bytes S public_key = Some key
        \<and> ss_verify_prehash S key
            (signet_bip143_sighash H
              (double_sha256 H (put_stripped (header_to_spend header (unsigned_root H txs i modified))))
              (ucast (last sig)))
            (case ss_normalize_s S signature of None \<Rightarrow> signature | Some s \<Rightarrow> s))"
    for i modified sig public_key
  have witness: "verify_signet_witness H S ?parsed i modified script_sig witness = Inr () \<longleftrightarrow>
      \<not> script_sig \<noteq> [] \<and> \<not> (length witness \<noteq> 2 \<or> witness ! 0 = [])
        \<and> checked i modified (witness ! 0) (witness ! 1)"
    if "witness_commitment_index ?outs = Some i"
      "extract_solution_and_modified_script (po_script (?outs ! i)) = Inr (solution, modified)"
    for i solution modified script_sig witness
    unfolding verify_signet_witness_def coinbase [OF that] map_err_simps and_then_simps Let_def root
      split_beta spent unsigned_root_def [symmetric] checked_def
    by (cases "ss_from_der S (butlast (witness ! 0))"; cases "ss_from_sec1_bytes S (witness ! 1)")
      (simp_all add: butlast_conv_take)
  have some: "(\<exists>solution modified. extract_solution_and_modified_script (po_script (?outs ! i)) =
        Inr (solution, modified) \<and> (\<exists>script_sig witness. parse_solution solution = Inr (script_sig, witness)
          \<and> verify_signet_witness H S ?parsed i modified script_sig witness = Inr ())) \<longleftrightarrow>
      (\<exists>modified sig public_key. extract_solution_and_modified_script (po_script (?outs ! i)) =
          Inr (put_script [] @ put_vector put_script [sig, public_key], modified)
        \<and> sig \<noteq> [] \<and> checked i modified sig public_key)" (is "?code = ?spec")
    if i: "witness_commitment_index ?outs = Some i" for i
  proof
    assume ?code
    then obtain solution modified where
        e: "extract_solution_and_modified_script (po_script (?outs ! i)) = Inr (solution, modified)"
        and w: "\<exists>script_sig witness. parse_solution solution = Inr (script_sig, witness)
          \<and> \<not> script_sig \<noteq> [] \<and> \<not> (length witness \<noteq> 2 \<or> witness ! 0 = [])
          \<and> checked i modified (witness ! 0) (witness ! 1)"
      using witness [OF i] by blast
    from w [unfolded tail [OF len [OF i e]]] e show ?spec by blast
  next
    assume ?spec
    then obtain modified sig public_key where
        e: "extract_solution_and_modified_script (po_script (?outs ! i)) =
          Inr (put_script [] @ put_vector put_script [sig, public_key], modified)"
        and w: "sig \<noteq> []" "checked i modified sig public_key" by blast
    then have "\<exists>script_sig witness.
        parse_solution (put_script [] @ put_vector put_script [sig, public_key]) = Inr (script_sig, witness)
          \<and> \<not> script_sig \<noteq> [] \<and> \<not> (length witness \<noteq> 2 \<or> witness ! 0 = [])
          \<and> checked i modified (witness ! 0) (witness ! 1)"
      unfolding tail [OF len [OF i e]] by blast
    with e witness [OF i e] show ?code by blast
  qed
  have "verify_parsed_layer_two_signet H S ?parsed = Inr () \<longleftrightarrow>
      (\<exists>i. witness_commitment_index ?outs = Some i \<and>
      (\<exists>solution modified. extract_solution_and_modified_script (po_script (?outs ! i)) =
        Inr (solution, modified) \<and> (\<exists>script_sig witness. parse_solution solution = Inr (script_sig, witness)
          \<and> verify_signet_witness H S ?parsed i modified script_sig witness = Inr ())))"
    unfolding verify_parsed_layer_two_signet_def hash outs if_not_P [OF False] and_then_Inr ok_or_Inr
      split_paired_Ex prod.case by (rule refl)
  also have "\<dots> \<longleftrightarrow> signed_block H S header txs"
    using some strict_der_nonempty unfolding signed_block_def checked_def
    by (intro ex_cong1) blast
  finally show ?thesis using False by simp
qed

subsection \<open>What the message binds\<close>

definition spend_of :: "parsed_block \<Rightarrow> block_hash \<Rightarrow> wire_tx" where
  "spend_of parsed root =
     to_spend (bh_version (mv_header (pb_metadata parsed)))
       (bh_previous_block (mv_header (pb_metadata parsed))) root
       (bh_time (mv_header (pb_metadata parsed)))"

lemma le_nat_4_inject: "le_nat 4 (unat (a :: u32)) = le_nat 4 (unat b) \<longleftrightarrow> a = b"
proof -
  have "nat_le (le_nat 4 (unat w)) = unat w" for w :: u32
    using unat_bound [of w] by (simp add: nat_le_le_nat)
  then show ?thesis by (metis word_unat_eq_iff)
qed

lemma sighash_preimage_binds:
  assumes "sighash_preimage H a s = sighash_preimage H b t"
  shows "a = b \<and> s = t"
  using assms by (simp add: sighash_preimage_def Let_def le_nat_4_inject enc_hash32_inject)

lemma to_spend_binds:
  assumes "put_stripped (to_spend v p r t) = put_stripped (to_spend v' p' r' t')"
  shows "v = v' \<and> p = p' \<and> r = r' \<and> t = t'"
  using assms
  by (simp add: to_spend_def put_stripped_def put_body_def put_vector_def put_input_def
      put_script_def enc_hash32_inject le_nat_4_inject)

definition length_hash :: "bytes \<Rightarrow> hash32" where
  "length_hash bs = (if length bs = 32 then from_be_bytes bs else of_nat (length bs))"

lemma length_double: "length bs \<noteq> 32 \<Longrightarrow> double_sha256 length_hash bs = of_nat (length bs)"
  by (simp add: double_sha256_def length_hash_def dec_enc_hash32)

lemma example_message_sizes:
  "inj_on (double_sha256 length_hash) {sighash_preimage length_hash a s, put_stripped (to_spend v p r t)}"
proof -
  have "length (sighash_preimage length_hash a s) = 182"
    by (simp add: sighash_preimage_def Let_def LAYER_TWO_SIGNET_P2WPKH_def)
  moreover have "length (put_stripped (to_spend v p r t)) = 156"
    by (simp add: to_spend_def put_stripped_def put_body_def put_vector_def put_input_def
        put_output_def put_script_def compact_bytes_def LAYER_TWO_SIGNET_P2WPKH_def)
  ultimately show ?thesis by (auto simp: length_double)
qed

subsection \<open>Properties\<close>

text \<open>
  C22: acceptance of a signed block. The solution check accepts exactly the serializations of
  acceptable blocks that are the Signet genesis or carry, in their witness commitment, a
  solution made of an empty script and two stack items: a strict DER signature with its hash
  type and a key with the frozen hash, valid over the BIP143 digest of the spend of the virtual
  transaction that holds the header fields and the Merkle root of the block without the
  solution. No size or index check in between can fail.
\<close>

theorem signet_solution_exact:
  "verify_layer_two_signet_block_solution H S bs = Inr metadata \<longleftrightarrow>
     (\<exists>header txs. bs = put_block header txs \<and> block_ok H header txs
        \<and> metadata = pb_metadata (view_block H header txs)
        \<and> (double_sha256 H header = LAYER_TWO_SIGNET_GENESIS_INTERNAL \<or> signed_block H S header txs))"
  unfolding verify_layer_two_signet_block_solution_def and_then_Inr map_err_Inr
    parse_and_verify_block_iff ex_unit sum.inject
  using verify_signet_iff by blast

text \<open>
  C23: composition. The Signet transition accepts a block exactly when its solution is accepted
  and the unsigned successor transition with the LayerTwo parameters accepts it, and it returns
  the same header state and the same commitment.
\<close>

theorem signet_transition_exact:
  "verify_layer_two_signet_pow_merkle_bound_elements_m7_successor H S prior bs = Inr tr \<longleftrightarrow>
     is_ok (verify_layer_two_signet_block_solution H S bs)
     \<and> verify_pow_merkle_bound_elements_m7_successor H prior bs LAYER_TWO_SIGNET =
         Inr \<lparr> pt_next_parent_state = st_next_parent_state tr, pt_commitment = st_commitment tr \<rparr>"
proof (cases "parse_and_verify_block H bs")
  case (Inl e)
  then show ?thesis
    by (simp add: verify_layer_two_signet_pow_merkle_bound_elements_m7_successor_def
        verify_layer_two_signet_block_solution_def)
next
  case (Inr parsed)
  have tr: "\<lparr> st_next_parent_state = n, st_commitment = m \<rparr> = tr \<longleftrightarrow>
      \<lparr> pt_next_parent_state = n, pt_commitment = m \<rparr> =
      \<lparr> pt_next_parent_state = st_next_parent_state tr, pt_commitment = st_commitment tr \<rparr>" for n m
    by (cases tr) auto
  show ?thesis
    unfolding verify_layer_two_signet_pow_merkle_bound_elements_m7_successor_def
      verify_layer_two_signet_block_solution_def verify_pow_merkle_bound_elements_m7_successor_def
      Inr map_err_simps and_then_simps
    by (cases "verify_parsed_layer_two_signet H S parsed")
      (simp_all add: and_then_Inr map_err_Inr tr Let_def)
qed

text \<open>
  C24: what a signature commits to. Two messages with equal digests, without a collision among
  the two digest preimages and the two virtual transactions, have the same hash type, version,
  parent, time and Merkle root of the block without its solution.
\<close>

theorem signature_binds_block:
  assumes "virtual_spent_txid H parsed root = Inr spent" "virtual_spent_txid H parsed' root' = Inr spent'"
    and "signet_bip143_sighash H spent hash_type = signet_bip143_sighash H spent' hash_type'"
    and "inj_on (double_sha256 H) {sighash_preimage H spent hash_type, sighash_preimage H spent' hash_type',
      put_stripped (spend_of parsed root), put_stripped (spend_of parsed' root')}"
  shows "hash_type = hash_type' \<and> root = root' \<and> (let h = mv_header (pb_metadata parsed);
      h' = mv_header (pb_metadata parsed') in bh_version h = bh_version h'
        \<and> bh_previous_block h = bh_previous_block h' \<and> bh_time h = bh_time h')"
proof -
  have "sighash_preimage H spent hash_type = sighash_preimage H spent' hash_type'"
    using assms(3,4) by (auto simp: signet_bip143_sighash_def dest: inj_onD)
  then have same: "hash_type = hash_type'" "spent = spent'"
    using sighash_preimage_binds by blast+
  then have "double_sha256 H (put_stripped (spend_of parsed root)) =
      double_sha256 H (put_stripped (spend_of parsed' root'))"
    using assms(1,2) by (simp add: virtual_spent_txid_tx spend_of_def)
  with assms(4) have "put_stripped (spend_of parsed root) = put_stripped (spend_of parsed' root')"
    by (auto dest: inj_onD)
  then show ?thesis using same(1) to_spend_binds unfolding spend_of_def Let_def by blast
qed

theorem signature_binds_block_witness:
  "(1 :: u32) = 1 \<and> (4 :: block_hash) = 4
    \<and> (let h = mv_header (pb_metadata (view_block length_hash example_block_header [example_coinbase]));
        h' = mv_header (pb_metadata (view_block length_hash example_block_header [example_coinbase]))
       in bh_version h = bh_version h' \<and> bh_previous_block h = bh_previous_block h' \<and> bh_time h = bh_time h')"
  by (rule signature_binds_block [where H = length_hash, OF virtual_spent_txid_tx virtual_spent_txid_tx refl])
    (simp add: spend_of_def example_message_sizes del: inj_on_insert)
end
