(* ===== verification/Spec2Isabelle.thy ===== *)
theory Spec2Isabelle
  imports Helios_Finality SP1_Verifier Messages Replay_Runs Signet
begin

text \<open>
  A verification development for USDD, a bridge that mints USDD on an Elements sidechain
  against USDT locked in an Ethereum vault, and releases USDT against USDD burns. The Rust
  crates under \<open>src/crates\<close> define the records both sides exchange, their canonical bytes,
  the state machines of mint controller and bridge state, and the guest programs whose proofs
  connect them.

  \<^bold>\<open>Conventions.\<close> Rust integers are words of their width, \<open>usize\<close> is \<open>nat\<close> with the 64-bit
  bound where the code checks it, \<open>Hash32\<close> and \<open>EthAddress\<close> are 256- and 160-bit words whose
  big-endian bytes are the code's arrays. \<open>Result\<close> is a sum with the error on the left;
  a panic is \<open>None\<close>. Record fields carry a short prefix (\<open>mc_\<close>, \<open>mb_\<close>, \dots) because
  selectors are global. SHA-256 is a third-party crate: it is the argument \<open>H\<close> of every
  definition that hashes, and no property of it is assumed except, where a statement needs it,
  injectivity on an explicit finite set of preimages. Other third-party code is the argument
  of the definitions that call it, as a record of its functions (\<open>trie_library\<close>,
  \<open>helios_library\<close>, \<open>sp1_library\<close>, \<open>signature_scheme\<close>); nothing is assumed of it, except in
  one property that an inclusion proof under a root and a path determines the value. The
  verifiers of the two proof traits are arguments of the journal builders; the adapter of
  Ethereum_Inbound instantiates the Ethereum one.

  \<^bold>\<open>Theories, in the order of the code.\<close>
  \<^item> Prelude: words, results, checked arithmetic, big-endian bytes.
  \<^item> Encoding (\<open>usdd-core/src/encoding.rs\<close>): decoder, primitive codecs, and the locale
    \<open>codec\<close>, the contract of \<open>CanonicalEncode\<close> and \<open>CanonicalDecode\<close>, interpreted for every
    record of the development; round trip, canonicity and prefix-freeness are proved in it.
  \<^item> Hashing (\<open>hash.rs\<close>): hexadecimal, domain separation.
  \<^item> Hash_Paths: the complete binary hash tree, with the locale \<open>node_hash\<close>; Merkle
    (\<open>merkle.rs\<close>) and Burn_Accumulator (\<open>burn_accumulator.rs\<close>) interpret it and refine it.
  \<^item> Amounts (\<open>lib.rs\<close>): constants and conversions.
  \<^item> Deposit, Burn, Bridge_State, Controller (\<open>types.rs\<close>): the protocol records, their
    validators and codecs, the batch construction and the two state machines; Transitions
    holds the locales \<open>guarded_runs\<close> and \<open>checked_transitions\<close> that the two state machines
    and the header chain interpret.
  \<^item> Supply_Audit (\<open>audit.rs\<close>), Manifest (\<open>manifest.rs\<close>).
  \<^item> Claims, Journal, Annex, Guest (\<open>usdd-proof-core/src\<close>): the claims, the strict journal,
    its SP1 container, and the builders of the three journals.
  \<^item> Vault_Witness, Ethereum_Inbound (\<open>usdd-ethereum-inbound/src/lib.rs\<close>): the vault witness
    with its resource bounds and codec; the checks of a transition and a batch, the account and
    storage proofs, the adapter that implements the Ethereum verifier trait, and what the guest
    program accepts with it. Helios_Finality (\<open>usdd-ethereum-inbound/src/helios.rs\<close>): the
    Sepolia light-client transition, its digest, the execution payload branch and the canonical
    witness codec.
  \<^item> SP1_Verifier (\<open>usdd-sp1-verifier/src/lib.rs\<close>): the adapter around the SP1 verifier: sizes,
    raw verification keys, the journal, the canonical compressed proof and its committed digest,
    and the conversion of panics into errors.
  \<^item> Plain_Text, Gates (\<open>usdd-core/src/gates.rs\<close>): lines, columns and numbers of the standard
    library; the launch gates with the parser of their file, the evidence check and the report.
  \<^item> Command_Line, Messages (\<open>usdd-cli/src/lib.rs\<close>, \<open>main.rs\<close>): \<open>run_str\<close> with its commands over the
    functions above, and the parser of audit event files; the \<open>Display\<close> of the errors that reach
    the user, and \<open>main\<close> with its exit codes and panics.
  \<^item> Limbs, Uint256, Bitcoin_Header, M7 (\<open>usdd-bitcoin-bmm/src/lib.rs\<close>): the loops over 64-bit
    limbs, the 256-bit integers on top of them with their values as numbers, the header chain
    with targets, work and the difficulty rule, and the merged-mining commitment.
  \<^item> Wire, Transaction, Block_Merkle, Block (\<open>usdd-bitcoin-bmm/src/block.rs\<close>): the cursor and
    the locale \<open>wire_codec\<close>, the contract of a parser against a serialization, interpreted for
    compact sizes, inputs, witness stacks and whole transactions; the transaction parser with
    its context-free checks; the transaction Merkle tree; the block parser, the witness
    commitment and the commitment bound to a proof-of-work successor.
  \<^item> Replay_State, Replay, Replay_Runs (\<open>usdd-bitcoin-bmm/src/block/bip300.rs\<close>): the BIP300
    replay for slot 24: configuration, state and its validation, the coinbase messages M1 and
    M2 with activation and ageing, the treasury transitions and M8 requests of the
    transactions, the application of one block, and chains of blocks, which interpret
    \<open>checked_transitions\<close>.
  \<^item> Signet_Script, Signet (\<open>usdd-bitcoin-bmm/src/block/signet.rs\<close>): scripts and their commitment
    section, the solution, strict DER, the message a block signature covers, the signature
    check, and the signed successor transition. ECDSA and hash160 are the fields of the record
    \<open>signature_scheme\<close>, of which nothing is assumed.

  \<^bold>\<open>What is shown.\<close> The lemmas ending in \<open>_ok\<close> say exactly when an operation succeeds and with
  which result, and so cover its error branches. On them rest the properties: the burn root of
  an accepted Elements transition is the root of the extended list of burns; the journals
  commit to exactly the checked transitions; the controller invariant and the refusal of
  replayed batches; exactness and solvency of the audit; completeness and binding of both
  trees; and the exactness of every codec, of the journal and of the annex. For the Bitcoin
  side: the limb arithmetic is exact on numbers, block work is \<open>2 ^ 256 div (target + 1)\<close>,
  the compact target decoder refuses exactly what is out of range, a retarget rounds down by
  less than one part in 32768, accepted headers form a hash chain whose work is the sum of the
  block proofs and whose tip hash binds it, and M7 extraction finds exactly the one canonical
  commitment. A transaction and a block are accepted exactly when they serialize an abstract
  one that satisfies the rules; the Merkle loop computes the tree given by height and index;
  and the header of an accepted successor determines its transactions and its commitment.
  The replay keeps its deposits within the gain of the treasury output, never undoes the
  activation of the required proposal, fails only with the errors a block can cause (a vote
  overflow needs the largest maximal age, a malformed state a zero hash in the block), and
  produces a merged-mining edge exactly for the canonical commitment. The Signet check accepts
  exactly the blocks with a valid signature over the block without its solution, and a digest
  binds the header fields and the transactions' root. For Ethereum: with the adapter a deposit
  journal exists exactly for deposits whose ids are proven at the storage keys of their nonces
  in the vault account under the finalized state root, one deposit per nonce; a light-client
  transition is accepted exactly when it is derived from the prior controller state, and the
  next one starts from the committees it ended with. The SP1 adapter accepts exactly canonical
  compressed proofs that commit to the SHA-256 digest of an expected journal. The gate report
  says PASS exactly when every required gate has verified evidence, the audit command exactly
  when the records of the file balance, the proofs that the commands print verify,
  and the process ends with exit code 0 or 2 and the line of its result or error unless an
  argument is not UTF-8 or the line cannot be written.

  \<^bold>\<open>Bounds and loops.\<close> Loops are structural recursions over the list they traverse or over the
  number of iterations left (64 levels of the accumulator, 256 bits of the division); the two
  loops of the Merkle tree recurse on the shrinking level, the loop over a Signet script, the test
  for blank lines and the check of UTF-8 arguments on the bytes left; all are proved to terminate.
  The loop over the levels of the transaction tree is a \<open>while_option\<close>, shown to return. No fuel
  is used.

  \<^bold>\<open>Not modelled.\<close> \<open>Display\<close> of errors that never reach the command line, the \<open>Debug\<close> output that
  the compiler derives (a parameter of the command line); the derived serde implementations;
  file reads and writes to the standard streams (parameters; paths are Unix paths); the bodies of
  third-party crates; the Solidity, Simplicity and TypeScript parts of the repository.
\<close>

end
